(* ===== verification/PyBase.thy ===== *)
theory PyBase
  imports Complex_Main "HOL-Library.AList" "HOL-Library.List_Lexorder" "HOL-Library.Char_ord"
    "HOL-Library.Multiset"
begin

text \<open>
  The prelude: the part of Python that the modelled modules use, and the lemmas the
  components share.

  \<^item> \<open>pyfloat\<close>: a Python float, with the special values \<open>PInf\<close>, \<open>NInf\<close> and \<open>NaN\<close>. The
    finite values carry an exact rational: the comparisons, the special values and the division
    by zero are Python's, the rounding of an IEEE operation to 53 bits is not modelled.
  \<^item> \<open>json\<close>: what \<open>json.loads\<close> returns; a dictionary is an association list in insertion order
    (\<open>map_of\<close> is \<open>get\<close>, \<open>AList.update\<close> is item assignment).
  \<^item> \<open>py_error\<close>: the exceptions the modelled code raises itself or lets through.
  \<^item> times are integers, microseconds since an epoch, which is the resolution of
    \<open>datetime\<close>; strings are ASCII.
\<close>

named_theorems float_cmp \<open>the comparisons of Python floats as case distinctions\<close>

section \<open>Floats\<close>

datatype pyfloat = Num rat | PInf | NInf | NaN

fun flt :: "pyfloat \<Rightarrow> pyfloat \<Rightarrow> bool" where
  "flt (Num a) (Num b) = (a < b)"
| "flt (Num a) PInf = True"
| "flt NInf (Num b) = True"
| "flt NInf PInf = True"
| "flt _ _ = False"

fun feq :: "pyfloat \<Rightarrow> pyfloat \<Rightarrow> bool" where
  "feq (Num a) (Num b) = (a = b)"
| "feq PInf PInf = True"
| "feq NInf NInf = True"
| "feq _ _ = False"

definition fle :: "pyfloat \<Rightarrow> pyfloat \<Rightarrow> bool" where
  "fle x y \<longleftrightarrow> flt x y \<or> feq x y"

fun fneg :: "pyfloat \<Rightarrow> pyfloat" where
  "fneg (Num a) = Num (- a)"
| "fneg PInf = NInf"
| "fneg NInf = PInf"
| "fneg NaN = NaN"

fun fabs :: "pyfloat \<Rightarrow> pyfloat" where
  "fabs (Num a) = Num \<bar>a\<bar>"
| "fabs NaN = NaN"
| "fabs _ = PInf"

fun fadd :: "pyfloat \<Rightarrow> pyfloat \<Rightarrow> pyfloat" where
  "fadd (Num a) (Num b) = Num (a + b)"
| "fadd NaN _ = NaN"
| "fadd _ NaN = NaN"
| "fadd PInf NInf = NaN"
| "fadd NInf PInf = NaN"
| "fadd PInf _ = PInf"
| "fadd _ PInf = PInf"
| "fadd NInf _ = NInf"
| "fadd _ NInf = NInf"

definition fsub :: "pyfloat \<Rightarrow> pyfloat \<Rightarrow> pyfloat" where
  "fsub x y = fadd x (fneg y)"

text \<open>An infinity with the sign of the argument; \<open>0 * inf\<close> is NaN.\<close>

definition inf_of :: "rat \<Rightarrow> pyfloat" where
  "inf_of a = (if 0 < a then PInf else if a < 0 then NInf else NaN)"

fun fmul :: "pyfloat \<Rightarrow> pyfloat \<Rightarrow> pyfloat" where
  "fmul (Num a) (Num b) = Num (a * b)"
| "fmul NaN _ = NaN"
| "fmul _ NaN = NaN"
| "fmul (Num a) PInf = inf_of a"
| "fmul (Num a) NInf = inf_of (- a)"
| "fmul PInf (Num b) = inf_of b"
| "fmul NInf (Num b) = inf_of (- b)"
| "fmul PInf PInf = PInf"
| "fmul NInf NInf = PInf"
| "fmul _ _ = NInf"

text \<open>The built-in \<open>max(a, b)\<close> keeps its first argument unless the second is greater.\<close>

definition fmax :: "pyfloat \<Rightarrow> pyfloat \<Rightarrow> pyfloat" where
  "fmax x y = (if flt x y then y else x)"

fun is_num :: "pyfloat \<Rightarrow> bool" where
  "is_num (Num a) = True"
| "is_num _ = False"

fun num_of :: "pyfloat \<Rightarrow> rat" where
  "num_of (Num a) = a"
| "num_of _ = 0"

lemma fle_Num [simp]: "fle (Num a) (Num b) \<longleftrightarrow> a \<le> b"
  by (auto simp: fle_def)

lemma fsub_Num [simp]: "fsub (Num a) (Num b) = Num (a - b)"
  by (simp add: fsub_def)

lemma fmax_Num [simp]: "fmax (Num a) (Num b) = Num (max a b)"
  by (simp add: fmax_def max_def)

lemma NaN_cmp [simp]: "\<not> flt NaN y" "\<not> flt x NaN" "\<not> fle NaN y" "\<not> fle x NaN"
  by (cases y; simp add: fle_def) (cases x; simp add: fle_def)+

lemma fadd_NaN [simp]: "fadd NaN y = NaN" "fadd x NaN = NaN"
  by simp (cases x; simp)

lemma is_numE: "is_num x \<Longrightarrow> (\<And>a. x = Num a \<Longrightarrow> P) \<Longrightarrow> P"
  by (cases x) auto

lemma is_num_iff: "is_num x \<longleftrightarrow> (\<exists>a. x = Num a)"
  by (cases x) auto

section \<open>Exceptions and JSON values\<close>

datatype py_error = TypeError | ValueError | KeyError | AttributeError | ZeroDivisionError
  | OverflowError | IndexError

datatype json = JNull | JBool bool | JInt int | JFloat pyfloat | JStr string
  | JList "json list" | JObj "(string \<times> json) list"

text \<open>Division raises for a zero divisor, whatever the dividend.\<close>

fun fdiv :: "pyfloat \<Rightarrow> pyfloat \<Rightarrow> py_error + pyfloat" where
  "fdiv (Num a) (Num b) = (if b = 0 then Inl ZeroDivisionError else Inr (Num (a / b)))"
| "fdiv PInf (Num b) = (if b = 0 then Inl ZeroDivisionError else Inr (inf_of b))"
| "fdiv NInf (Num b) = (if b = 0 then Inl ZeroDivisionError else Inr (inf_of (- b)))"
| "fdiv NaN (Num b) = (if b = 0 then Inl ZeroDivisionError else Inr NaN)"
| "fdiv (Num a) NaN = Inr NaN"
| "fdiv (Num a) _ = Inr (Num 0)"
| "fdiv _ _ = Inr NaN"

lemma fdiv_nonzero: "y \<noteq> Num 0 \<Longrightarrow> \<exists>z. fdiv x y = Inr z"
  by (cases x; cases y) auto

text \<open>The truth value of an object, as \<open>if x\<close>, \<open>x or y\<close> and \<open>bool(x)\<close> read it.\<close>

fun truthy :: "json \<Rightarrow> bool" where
  "truthy JNull = False"
| "truthy (JBool b) = b"
| "truthy (JInt i) = (i \<noteq> 0)"
| "truthy (JFloat f) = (f \<noteq> Num 0)"
| "truthy (JStr s) = (s \<noteq> [])"
| "truthy (JList xs) = (xs \<noteq> [])"
| "truthy (JObj kvs) = (kvs \<noteq> [])"

definition py_or :: "json \<Rightarrow> json \<Rightarrow> json" where
  "py_or a b = (if truthy a then a else b)"

type_synonym 'v dict = "(string \<times> 'v) list"

definition dget :: "'v dict \<Rightarrow> string \<Rightarrow> 'v \<Rightarrow> 'v" where
  "dget d k v = (case map_of d k of None \<Rightarrow> v | Some w \<Rightarrow> w)"

abbreviation dset :: "'v dict \<Rightarrow> string \<Rightarrow> 'v \<Rightarrow> 'v dict" where
  "dset d k v \<equiv> AList.update k v d"

definition dhas :: "'v dict \<Rightarrow> string \<Rightarrow> bool" where
  "dhas d k \<longleftrightarrow> map_of d k \<noteq> None"

lemma map_of_dset [simp]: "map_of (dset d k v) j = (if j = k then Some v else map_of d j)"
  by (simp add: update_conv)

lemma dget_dset [simp]: "dget (dset d k v) j w = (if j = k then v else dget d j w)"
  by (simp add: dget_def)

lemma dhas_iff: "dhas d k \<longleftrightarrow> k \<in> fst ` set d"
  by (simp add: dhas_def map_of_eq_None_iff)

lemma fst_set_dset: "fst ` set (dset d k v) = insert k (fst ` set d)"
  by (induction d) auto

lemma distinct_keys_dset: "distinct (map fst d) \<Longrightarrow> distinct (map fst (dset d k v))"
  by (rule distinct_update)

lemma dset_fresh: "\<not> dhas d k \<Longrightarrow> dset d k v = d @ [(k, v)]"
  by (induction d) (auto simp: dhas_iff)

lemma set_dset_subset: "set (dset d k v) \<subseteq> insert (k, v) (set d)"
  by (induction d) auto

text \<open>The elements \<open>for x in v\<close> runs over.\<close>

fun iter_json :: "json \<Rightarrow> py_error + json list" where
  "iter_json (JList xs) = Inr xs"
| "iter_json (JObj kvs) = Inr (map (JStr \<circ> fst) kvs)"
| "iter_json (JStr s) = Inr (map (\<lambda>c. JStr [c]) s)"
| "iter_json _ = Inl TypeError"

text \<open>The receiver of \<open>.get\<close>.\<close>

fun as_mapping :: "json \<Rightarrow> py_error + json dict" where
  "as_mapping (JObj kvs) = Inr kvs"
| "as_mapping _ = Inl AttributeError"

text \<open>A loop that extends its result by what each element contributes, or raises.\<close>

fun collect_all :: "('a \<Rightarrow> 'e + 'b list) \<Rightarrow> 'a list \<Rightarrow> 'e + 'b list" where
  "collect_all f [] = Inr []"
| "collect_all f (x # xs) =
     (case f x of
        Inl e \<Rightarrow> Inl e
      | Inr ys \<Rightarrow> (case collect_all f xs of Inl e \<Rightarrow> Inl e | Inr zs \<Rightarrow> Inr (ys @ zs)))"

lemma collect_all_Inr: "\<forall>x \<in> set xs. f x = Inr (g x) \<Longrightarrow> collect_all f xs = Inr (concat (map g xs))"
  by (induction xs) auto

lemma find_SomeD: "find P xs = Some x \<Longrightarrow> x \<in> set xs \<and> P x"
  by (induction xs) (auto split: if_splits)

lemma find_exists: "x \<in> set xs \<Longrightarrow> P x \<Longrightarrow> \<exists>y. find P xs = Some y"
  by (induction xs) auto

text \<open>A file that should hold JSON, as a reader finds it.\<close>

datatype sidecar = Missing | Unreadable | NotUtf8 | NotJson | Holds json

section \<open>Strings\<close>

fun join_with :: "string \<Rightarrow> string list \<Rightarrow> string" where
  "join_with sep [] = []"
| "join_with sep [x] = x"
| "join_with sep (x # xs) = x @ sep @ join_with sep xs"

definition upper_char :: "char \<Rightarrow> char" where
  "upper_char c = (let n = (of_char c :: nat) in if 97 \<le> n \<and> n \<le> 122 then char_of (n - 32) else c)"

definition lower_char :: "char \<Rightarrow> char" where
  "lower_char c = (let n = (of_char c :: nat) in if 65 \<le> n \<and> n \<le> 90 then char_of (n + 32) else c)"

definition py_upper :: "string \<Rightarrow> string" where "py_upper = map upper_char"
definition py_lower :: "string \<Rightarrow> string" where "py_lower = map lower_char"

definition is_space :: "char \<Rightarrow> bool" where
  "is_space c \<longleftrightarrow> (let n = (of_char c :: nat) in n = 32 \<or> (9 \<le> n \<and> n \<le> 13) \<or> (28 \<le> n \<and> n \<le> 31))"

definition py_strip :: "string \<Rightarrow> string" where
  "py_strip s = rev (dropWhile is_space (rev (dropWhile is_space s)))"

lemma upper_char_idem [simp]: "upper_char (upper_char c) = upper_char c"
  by (auto simp: upper_char_def Let_def)

lemma py_upper_idem [simp]: "py_upper (py_upper s) = py_upper s"
  by (simp add: py_upper_def)

end
