(* ===== verification/AgentBreaker.thy ===== *)
theory AgentBreaker
  imports PyBase
begin

text \<open>
  \<open>agent_breaker.py\<close>: the adapter-level circuit breaker, the last check before an order is
  submitted. \<open>breaker\<close> is \<open>class AgentBreaker\<close>, \<open>new_breaker\<close> its constructor, \<open>roll\<close> and
  \<open>admit\<close> its methods; the presence of the TRADING_OFF file is an argument, since every call
  reads it afresh. A raised \<open>BreakerTripped\<close> is a value of \<open>trip\<close> beside the state the method
  leaves behind.
\<close>

record breaker =
  max_orders :: int
  max_notional :: pyfloat
  brk_day :: "int option"
  brk_orders :: int
  brk_notional :: pyfloat

datatype breaker_config_error = BadMaxOrders int | BadMaxNotional pyfloat

datatype trip = TradingOff | OrderCap int | NotionalCap pyfloat pyfloat pyfloat

definition new_breaker :: "int \<Rightarrow> pyfloat \<Rightarrow> breaker_config_error + breaker" where
  "new_breaker mo mn =
     (if mo \<le> 0 then Inl (BadMaxOrders mo)
      else if fle mn (Num 0) then Inl (BadMaxNotional mn)
      else Inr \<lparr>max_orders = mo, max_notional = mn, brk_day = None,
                brk_orders = 0, brk_notional = Num 0\<rparr>)"

definition roll :: "int \<Rightarrow> breaker \<Rightarrow> breaker" where
  "roll today b =
     (if brk_day b \<noteq> Some today
      then b\<lparr>brk_day := Some today, brk_orders := 0, brk_notional := Num 0\<rparr>
      else b)"

definition admit :: "bool \<Rightarrow> int \<Rightarrow> pyfloat \<Rightarrow> breaker \<Rightarrow> breaker \<times> trip option" where
  "admit off today notional b =
     (if off then (b, Some TradingOff)
      else let b = roll today b; amount = fabs notional in
        if brk_orders b + 1 > max_orders b then (b, Some (OrderCap (max_orders b)))
        else if flt (max_notional b) (fadd (brk_notional b) amount)
          then (b, Some (NotionalCap (max_notional b) (brk_notional b) amount))
        else (b\<lparr>brk_orders := brk_orders b + 1,
                brk_notional := fadd (brk_notional b) amount\<rparr>, None))"

text \<open>The properties \<open>orders_today\<close>, \<open>notional_today\<close> and \<open>trading_off\<close>.\<close>

definition orders_today :: "breaker \<Rightarrow> int" where "orders_today b = brk_orders b"
definition notional_today :: "breaker \<Rightarrow> pyfloat" where "notional_today b = brk_notional b"

section \<open>A day's calls\<close>

text \<open>
  A call is the state of the kill switch, the date passed as \<open>today\<close> and the order's notional.
  \<open>admit_all\<close> runs calls in sequence and keeps, for each, whether it was admitted.
\<close>

type_synonym call = "bool \<times> int \<times> pyfloat"

fun admit_all :: "breaker \<Rightarrow> call list \<Rightarrow> breaker \<times> bool list" where
  "admit_all b [] = (b, [])"
| "admit_all b ((off, d, x) # cs) =
     (let (b', t) = admit off d x b; (b'', rs) = admit_all b' cs in (b'', (t = None) # rs))"

text \<open>The orders a run admitted, with their dates.\<close>

fun admitted :: "call list \<Rightarrow> bool list \<Rightarrow> (int \<times> pyfloat) list" where
  "admitted ((off, d, x) # cs) (r # rs) = (if r then (d, x) # admitted cs rs else admitted cs rs)"
| "admitted _ _ = []"

section \<open>The abstract daily budget\<close>

text \<open>
  The specification: a ledger of the admitted orders. On a date, the breaker's contract allows
  an order if fewer than the cap were admitted that date and their absolute notionals, with
  the new one, stay within the cap.
\<close>

definition day_amounts :: "int \<Rightarrow> (int \<times> pyfloat) list \<Rightarrow> rat list" where
  "day_amounts d os = map (\<lambda>(_, x). num_of (fabs x)) (filter (\<lambda>(e, _). e = d) os)"

definition budget_allows :: "int \<Rightarrow> rat \<Rightarrow> (int \<times> pyfloat) list \<Rightarrow> int \<Rightarrow> rat \<Rightarrow> bool" where
  "budget_allows mo mn os d a \<longleftrightarrow>
     int (length (day_amounts d os)) + 1 \<le> mo \<and> sum_list (day_amounts d os) + a \<le> mn"

fun budget_run :: "int \<Rightarrow> rat \<Rightarrow> (int \<times> pyfloat) list \<Rightarrow> call list \<Rightarrow> bool list" where
  "budget_run mo mn os [] = []"
| "budget_run mo mn os ((off, d, x) # cs) =
     (let ok = \<not> off \<and> budget_allows mo mn os d (num_of (fabs x))
      in ok # budget_run mo mn (if ok then os @ [(d, x)] else os) cs)"

lemma day_amounts_simps [simp]:
  "day_amounts d [] = []"
  "day_amounts d (os @ [(e, x)]) = day_amounts d os @ (if e = d then [num_of (fabs x)] else [])"
  by (simp_all add: day_amounts_def)

lemma day_amounts_Cons [simp]:
  "day_amounts d ((e, x) # os) = (if e = d then [num_of (fabs x)] else []) @ day_amounts d os"
  by (simp add: day_amounts_def)

lemma day_amounts_append [simp]:
  "day_amounts d (os @ ps) = day_amounts d os @ day_amounts d ps"
  by (simp add: day_amounts_def)

lemma day_amounts_empty: "(\<And>e x. (e, x) \<in> set os \<Longrightarrow> e < d) \<Longrightarrow> day_amounts d os = []"
  by (auto simp: day_amounts_def filter_empty_conv)

text \<open>
  The simulation: the breaker's counters are the ledger's totals of its current date, and no
  admitted order is dated after it.
\<close>

definition sim :: "int \<Rightarrow> rat \<Rightarrow> (int \<times> pyfloat) list \<Rightarrow> breaker \<Rightarrow> bool" where
  "sim mo mn os b \<longleftrightarrow> max_orders b = mo \<and> max_notional b = Num mn \<and>
     (case brk_day b of
        None \<Rightarrow> os = []
      | Some d \<Rightarrow> brk_orders b = int (length (day_amounts d os)) \<and>
                  brk_notional b = Num (sum_list (day_amounts d os)) \<and>
                  (\<forall>(e, x) \<in> set os. e \<le> d))"

lemma sim_new: "new_breaker mo (Num mn) = Inr b \<Longrightarrow> sim mo mn [] b"
  by (auto simp: new_breaker_def sim_def split: if_splits)

lemma sim_roll:
  assumes "sim mo mn os b" and "\<And>d. brk_day b = Some d \<Longrightarrow> d \<le> t"
  shows "sim mo mn os (roll t b) \<and> brk_day (roll t b) = Some t"
proof (cases "brk_day b")
  case None
  with assms show ?thesis by (auto simp: sim_def roll_def)
next
  case (Some d)
  show ?thesis
  proof (cases "d = t")
    case True
    with assms Some show ?thesis by (simp add: roll_def)
  next
    case False
    with assms(2) Some have "d < t" by fastforce
    with assms(1) Some have "\<And>e x. (e, x) \<in> set os \<Longrightarrow> e < t" by (fastforce simp: sim_def)
    then have "day_amounts t os = []" by (rule day_amounts_empty)
    with assms(1) Some \<open>d < t\<close> show ?thesis by (fastforce simp: sim_def roll_def)
  qed
qed

lemma admit_sim:
  assumes s: "sim mo mn os b" and le: "\<And>d. brk_day b = Some d \<Longrightarrow> d \<le> t" and x: "is_num x"
    and a: "admit off t x b = (b', r)"
  shows "(r = None) = (\<not> off \<and> budget_allows mo mn os t (num_of (fabs x))) \<and>
    sim mo mn (if r = None then os @ [(t, x)] else os) b' \<and>
    (brk_day b' = brk_day b \<or> brk_day b' = Some t)"
proof (cases off)
  case True
  with a s show ?thesis by (auto simp: admit_def)
next
  case False
  let ?b = "roll t b"
  have r: "sim mo mn os ?b" "brk_day ?b = Some t" using sim_roll [OF s le] by auto
  then have c: "max_orders ?b = mo" "max_notional ?b = Num mn"
    "brk_orders ?b = int (length (day_amounts t os))"
    "brk_notional ?b = Num (sum_list (day_amounts t os))" "\<forall>(e, y) \<in> set os. e \<le> t"
    by (auto simp: sim_def)
  from x obtain a where "x = Num a" by (auto simp: is_num_iff)
  with a False r c show ?thesis
    by (auto simp: admit_def Let_def budget_allows_def sim_def split: if_splits)
qed

lemma admit_all_sim:
  assumes "sim mo mn os b" and "\<And>d. brk_day b = Some d \<Longrightarrow> \<forall>(off, t, x) \<in> set cs. d \<le> t"
    and "sorted (map (\<lambda>(off, t, x). t) cs)" and "\<forall>(off, t, x) \<in> set cs. is_num x"
  shows "snd (admit_all b cs) = budget_run mo mn os cs"
  using assms
proof (induction cs arbitrary: b os)
  case Nil
  then show ?case by simp
next
  case (Cons c cs)
  obtain off t x where c: "c = (off, t, x)" by (cases c) auto
  obtain b' r where a: "admit off t x b = (b', r)" by fastforce
  have le: "\<And>d. brk_day b = Some d \<Longrightarrow> d \<le> t" using Cons.prems(2) c by fastforce
  have x: "is_num x" using Cons.prems(4) c by auto
  note s = admit_sim [OF Cons.prems(1) le x a]
  have t: "\<forall>(off, u, y) \<in> set cs. t \<le> u" using Cons.prems(3) c by fastforce
  have "\<And>d. brk_day b' = Some d \<Longrightarrow> \<forall>(off, t, x) \<in> set cs. d \<le> t"
    using s t Cons.prems(2) by fastforce
  with s Cons.prems(3,4) c
  have "snd (admit_all b' cs) = budget_run mo mn (if r = None then os @ [(t, x)] else os) cs"
    by (intro Cons.IH) auto
  with s a c show ?case by (auto simp: Let_def split: prod.splits)
qed

text \<open>A ledger that the budget accepted stays within the caps on every date.\<close>

lemma budget_run_caps:
  assumes "\<forall>d. int (length (day_amounts d os)) \<le> mo \<and> sum_list (day_amounts d os) \<le> mn"
  shows "\<forall>d. int (length (day_amounts d (os @ admitted cs (budget_run mo mn os cs)))) \<le> mo \<and>
    sum_list (day_amounts d (os @ admitted cs (budget_run mo mn os cs))) \<le> mn"
  using assms
proof (induction mo mn os cs rule: budget_run.induct)
  case (1 mo mn os)
  then show ?case by simp
next
  case (2 mo mn os off t x cs)
  let ?ok = "\<not> off \<and> budget_allows mo mn os t (num_of (fabs x))"
  let ?os = "if ?ok then os @ [(t, x)] else os"
  have "\<forall>d. int (length (day_amounts d ?os)) \<le> mo \<and> sum_list (day_amounts d ?os) \<le> mn"
    using "2.prems" by (auto simp: budget_allows_def)
  from "2.IH" [OF refl this] show ?case
    by (cases ?ok) (auto simp: Let_def)
qed

text \<open>The notional check, once NaN is involved.\<close>

lemma admit_NaN:
  assumes "brk_notional (roll t b) = NaN \<or> x = NaN"
    and "admit off t x b = (b', r)"
  shows "r = Some TradingOff \<or> r = Some (OrderCap (max_orders b)) \<or> r = None \<and> brk_notional b' = NaN"
proof -
  have "max_orders (roll t b) = max_orders b" by (simp add: roll_def)
  moreover have "fadd (brk_notional (roll t b)) (fabs x) = NaN" using assms(1) by auto
  ultimately show ?thesis using assms(2) by (auto simp: admit_def Let_def split: if_splits)
qed


section \<open>Properties\<close>

text \<open>C38: on any sequence of calls whose dates do not go backwards and whose notionals are
  finite, a fresh breaker answers exactly as the abstract daily budget does: a call is admitted
  if and only if TRADING_OFF is absent, the orders admitted so far on its date are below the
  cap, and their absolute notionals plus the new one stay within the notional cap.\<close>

theorem breaker_refines_budget:
  assumes "new_breaker mo (Num mn) = Inr b"
    and "sorted (map (\<lambda>(off, t, x). t) cs)" and "\<forall>(off, t, x) \<in> set cs. is_num x"
  shows "snd (admit_all b cs) = budget_run mo mn [] cs"
  using assms(1)
  by (intro admit_all_sim sim_new assms)
    (auto simp: new_breaker_def split: if_splits)

theorem breaker_refines_budget_witness:
  "snd (admit_all \<lparr>max_orders = 2, max_notional = Num 100, brk_day = None, brk_orders = 0,
      brk_notional = Num 0\<rparr>
      [(False, 1, Num 60), (False, 1, Num (- 50)), (True, 1, Num 1), (False, 1, Num 40),
       (False, 1, Num 0), (False, 2, Num 100)])
    = [True, False, False, True, False, True]"
  by (subst breaker_refines_budget [where mo = 2 and mn = 100])
    (simp_all add: new_breaker_def budget_allows_def)

text \<open>under the same hypotheses, on every date the orders admitted stay within
  \<open>max_orders_per_day\<close> and the sum of their absolute notionals within
  \<open>max_notional_per_day\<close>, however many calls are made.\<close>

theorem breaker_daily_caps:
  assumes b: "new_breaker mo (Num mn) = Inr b"
    and cs: "sorted (map (\<lambda>(off, t, x). t) cs)" "\<forall>(off, t, x) \<in> set cs. is_num x"
  shows "int (length (day_amounts d (admitted cs (snd (admit_all b cs))))) \<le> mo \<and>
    sum_list (day_amounts d (admitted cs (snd (admit_all b cs)))) \<le> mn"
proof -
  have "0 \<le> mo" "0 \<le> mn" using b by (auto simp: new_breaker_def split: if_splits)
  moreover have "snd (admit_all b cs) = budget_run mo mn [] cs"
    using b by (intro admit_all_sim sim_new cs) (auto simp: new_breaker_def split: if_splits)
  ultimately show ?thesis using budget_run_caps [of "[]" mo mn cs] by simp
qed

theorem breaker_daily_caps_witness:
  "let b = \<lparr>max_orders = 1, max_notional = Num 100, brk_day = None, brk_orders = 0,
            brk_notional = Num 0\<rparr>;
       cs = [(False, 1, Num 60), (False, 1, Num 10), (False, 2, Num 90)]
   in int (length (day_amounts 1 (admitted cs (snd (admit_all b cs))))) \<le> 1 \<and>
      sum_list (day_amounts 1 (admitted cs (snd (admit_all b cs)))) \<le> 100"
  unfolding Let_def by (rule breaker_daily_caps) (simp_all add: new_breaker_def)

text \<open>a refusal consumes nothing. While the kill switch is engaged every call is refused
  before the breaker's state is touched; any other refusal leaves exactly the counters of the
  day roll, so the headroom of the day is that of before the call.\<close>

theorem breaker_refusal_consumes_nothing:
  "admit True t x b = (b, Some TradingOff) \<and>
   (snd (admit False t x b) \<noteq> None \<longrightarrow> fst (admit False t x b) = roll t b)"
  by (simp add: admit_def Let_def)

theorem breaker_refusal_consumes_nothing_witness:
  "fst (admit False 1 (Num 7) \<lparr>max_orders = 1, max_notional = Num 5, brk_day = Some 0,
       brk_orders = 1, brk_notional = Num 3\<rparr>)
   = \<lparr>max_orders = 1, max_notional = Num 5, brk_day = Some 1, brk_orders = 0,
      brk_notional = Num 0\<rparr>"
  using breaker_refusal_consumes_nothing [of 1 "Num 7"
      "\<lparr>max_orders = 1, max_notional = Num 5, brk_day = Some 0, brk_orders = 1, brk_notional = Num 3\<rparr>"]
  by (simp add: admit_def roll_def)

text \<open>the order cap of a date is not kept when dates go backwards. The counters are reset
  whenever the date differs from the last one, not only when it advances, so three calls dated
  \<open>d\<close>, \<open>e\<close>, \<open>d\<close> are all admitted by a breaker whose cap is one order a day, and date \<open>d\<close> has
  two orders.\<close>

theorem breaker_backward_dates_exceed_cap:
  assumes "new_breaker 1 (Num mn) = Inr b" and "d \<noteq> e" and "\<bar>x\<bar> \<le> mn"
  shows "let cs = [(False, d, Num x), (False, e, Num x), (False, d, Num x)]
    in length (day_amounts d (admitted cs (snd (admit_all b cs)))) = 2"
  using assms
  by (auto simp: new_breaker_def admit_def roll_def Let_def not_less split: if_splits)

theorem breaker_backward_dates_exceed_cap_witness:
  "let cs = [(False, 5, Num 10), (False, 4, Num 10), (False, 5, Num 10)];
       b = \<lparr>max_orders = 1, max_notional = Num 10, brk_day = None, brk_orders = 0,
            brk_notional = Num 0\<rparr>
   in length (day_amounts 5 (admitted cs (snd (admit_all b cs)))) = 2"
  using breaker_backward_dates_exceed_cap [of 10
    "\<lparr>max_orders = 1, max_notional = Num 10, brk_day = None, brk_orders = 0, brk_notional = Num 0\<rparr>"
    5 4 10]
  by (simp add: new_breaker_def Let_def)

text \<open>a NaN notional defeats the notional cap for the rest of the date. The first such
  order is refused only by the kill switch or the order cap; once it is admitted the running
  notional is NaN, and no later order of that date is refused for its notional.\<close>

theorem breaker_NaN_disables_notional_cap:
  assumes "admit False t NaN b = (b', None)"
  shows "brk_notional b' = NaN \<and>
    snd (admit False t x b') \<in> {None, Some (OrderCap (max_orders b'))}"
proof -
  have n: "brk_notional b' = NaN" using admit_NaN [OF _ assms] by auto
  have "brk_day b' = Some t"
    using assms by (auto simp: admit_def roll_def Let_def split: if_splits)
  with n have "brk_notional (roll t b') = NaN" by (simp add: roll_def)
  with n show ?thesis
    using admit_NaN [of t b' x False "fst (admit False t x b')" "snd (admit False t x b')"]
    by (auto simp: admit_def Let_def split: if_splits)
qed

theorem breaker_NaN_disables_notional_cap_witness:
  "let b' = fst (admit False 1 NaN \<lparr>max_orders = 9, max_notional = Num 5, brk_day = None,
                  brk_orders = 0, brk_notional = Num 0\<rparr>)
   in snd (admit False 1 (Num 1000000) b') = None"
  using breaker_NaN_disables_notional_cap [of 1
    "\<lparr>max_orders = 9, max_notional = Num 5, brk_day = None, brk_orders = 0, brk_notional = Num 0\<rparr>"
    "\<lparr>max_orders = 9, max_notional = Num 5, brk_day = Some 1, brk_orders = 1, brk_notional = NaN\<rparr>"
    "Num 1000000"]
  by (simp add: admit_def roll_def Let_def)

end
