(* ===== verification/GateRegistry.thy ===== *)
theory GateRegistry
  imports PyBase
begin

text \<open>
  \<open>gate_registry.py\<close>: the registry every risk gate submits its verdict to, and the algebra
  that aggregates them. The registry's state is the list \<open>_verdicts\<close>; \<open>submit\<close> appends,
  \<open>in_scope\<close>, \<open>aggregate\<close>, \<open>ledger_rows\<close> and \<open>persist\<close> are the methods of \<open>GateRegistry\<close>.
  The verdicts are ordered by the table \<open>ORDER\<close>, which makes them an instance of \<open>linorder\<close>.
  \<open>verdicts_for\<close> is the query of \<open>decision_ledger.py\<close>; \<open>write_verdicts\<close> belongs to
  \<open>renquant_common\<close> and is a parameter.
\<close>

datatype verdict = Allow | Halve | Block

fun ORDER :: "verdict \<Rightarrow> nat" where
  "ORDER Allow = 0"
| "ORDER Halve = 1"
| "ORDER Block = 2"

instantiation verdict :: linorder
begin

definition less_eq_verdict :: "verdict \<Rightarrow> verdict \<Rightarrow> bool" where
  "less_eq_verdict a b \<longleftrightarrow> ORDER a \<le> ORDER b"

definition less_verdict :: "verdict \<Rightarrow> verdict \<Rightarrow> bool" where
  "less_verdict a b \<longleftrightarrow> ORDER a < ORDER b"

instance
proof
  fix a b c :: verdict
  show "(a < b) = (a \<le> b \<and> \<not> b \<le> a)" by (auto simp: less_eq_verdict_def less_verdict_def)
  show "a \<le> a" by (simp add: less_eq_verdict_def)
  show "a \<le> b \<Longrightarrow> b \<le> c \<Longrightarrow> a \<le> c" by (simp add: less_eq_verdict_def)
  show "a \<le> b \<Longrightarrow> b \<le> a \<Longrightarrow> a = b" by (cases a; cases b) (auto simp: less_eq_verdict_def)
  show "a \<le> b \<or> b \<le> a" by (auto simp: less_eq_verdict_def)
qed

end

lemma verdict_bounds [simp]: "Allow \<le> v" "v \<le> Block"
  by (cases v; simp add: less_eq_verdict_def)+

record gate_verdict =
  gv_gate :: string
  gv_scope :: string
  gv_verdict :: verdict
  gv_reason :: string
  gv_inputs :: json

type_synonym registry = "gate_verdict list"

definition submit :: "gate_verdict \<Rightarrow> registry \<Rightarrow> registry" where
  "submit v vs = vs @ [v]"

definition in_scope :: "string \<Rightarrow> registry \<Rightarrow> gate_verdict list" where
  "in_scope scope vs = filter (\<lambda>v. gv_scope v \<in> {''book'', scope}) vs"

text \<open>\<open>max(vs, key=f)\<close>: the first element with the greatest key.\<close>

definition py_max_by :: "('a \<Rightarrow> 'k::linorder) \<Rightarrow> 'a \<Rightarrow> 'a list \<Rightarrow> 'a" where
  "py_max_by f x xs = foldl (\<lambda>m y. if f m < f y then y else m) x xs"

definition aggregate :: "string \<Rightarrow> registry \<Rightarrow> verdict \<times> rat \<times> gate_verdict list" where
  "aggregate scope reg =
     (case in_scope scope reg of
        [] \<Rightarrow> (Allow, 1, [])
      | v # vs \<Rightarrow>
          let top = py_max_by (\<lambda>v. ORDER (gv_verdict v)) v vs;
              n_halve = length (filter (\<lambda>v. gv_verdict v = Halve) (v # vs));
              mult = (if ORDER (gv_verdict top) = ORDER Block then 0 else (1/2) ^ n_halve);
              contributing = sort_key (\<lambda>v. - int (ORDER (gv_verdict v))) (v # vs)
          in (gv_verdict top, mult, contributing))"

record ledger_row =
  lr_scope :: string
  lr_gate :: string
  lr_verdict :: verdict
  lr_reason :: string
  lr_inputs :: json

definition ledger_rows :: "registry \<Rightarrow> ledger_row list" where
  "ledger_rows reg = map (\<lambda>v. \<lparr>lr_scope = gv_scope v, lr_gate = gv_gate v,
     lr_verdict = gv_verdict v, lr_reason = gv_reason v, lr_inputs = gv_inputs v\<rparr>) reg"

definition persist ::
  "('conn \<Rightarrow> string \<Rightarrow> string \<Rightarrow> ledger_row list \<Rightarrow> 'conn \<times> int) \<Rightarrow> 'conn \<Rightarrow> string \<Rightarrow> string \<Rightarrow>
   registry \<Rightarrow> 'conn \<times> int" where
  "persist write_verdicts conn run_id as_of reg = write_verdicts conn run_id as_of (ledger_rows reg)"

text \<open>The ledger's table, as the query reads it: rows with their run and their day.\<close>

type_synonym ledger_table = "(string \<times> string \<times> ledger_row) list"

definition verdicts_for :: "ledger_table \<Rightarrow> string \<Rightarrow> string \<Rightarrow> (string \<times> verdict \<times> string \<times> json) list" where
  "verdicts_for tab as_of scope =
     map (\<lambda>(_, _, r). (lr_gate r, lr_verdict r, lr_reason r, lr_inputs r))
       (sort_key (\<lambda>(_, _, r). lr_gate r)
         (filter (\<lambda>(_, d, r). d = as_of \<and> lr_scope r = scope) tab))"

section \<open>The aggregate as a join\<close>

lemma py_max_by_is_max:
  "py_max_by f x xs \<in> set (x # xs) \<and> (\<forall>y \<in> set (x # xs). f y \<le> f (py_max_by f x xs))"
proof (induction xs arbitrary: x)
  case Nil
  then show ?case by (simp add: py_max_by_def)
next
  case (Cons y ys)
  have "py_max_by f x (y # ys) = py_max_by f (if f x < f y then y else x) ys"
    by (simp add: py_max_by_def)
  with Cons [of "if f x < f y then y else x"] show ?case
    by (auto split: if_splits)
qed

definition join_verdict :: "gate_verdict list \<Rightarrow> verdict" where
  "join_verdict vs = fold (\<lambda>v a. max a (gv_verdict v)) vs Allow"

definition size_mult :: "gate_verdict list \<Rightarrow> rat" where
  "size_mult vs = (if \<exists>v \<in> set vs. gv_verdict v = Block then 0
     else (1/2) ^ length (filter (\<lambda>v. gv_verdict v = Halve) vs))"

lemma fold_max_ge: "fold (\<lambda>v a. max a (gv_verdict v)) vs a = Max (insert a (gv_verdict ` set vs))"
proof (induction vs arbitrary: a)
  case Nil
  then show ?case by simp
next
  case (Cons v vs)
  have "Max (insert (max a (gv_verdict v)) (gv_verdict ` set vs))
      = Max (insert a (insert (gv_verdict v) (gv_verdict ` set vs)))"
    by (cases "set vs = {}") (simp_all add: Max_insert max.assoc)
  with Cons show ?case by simp
qed

lemma join_verdict_Max: "join_verdict vs = Max (insert Allow (gv_verdict ` set vs))"
  by (simp add: join_verdict_def fold_max_ge)

lemma join_verdict_eqI:
  assumes "v \<in> set vs" and "\<And>w. w \<in> set vs \<Longrightarrow> gv_verdict w \<le> gv_verdict v"
  shows "join_verdict vs = gv_verdict v"
  unfolding join_verdict_Max by (rule Max_eqI) (use assms in auto)

lemma join_verdict_Block: "join_verdict vs = Block \<longleftrightarrow> (\<exists>v \<in> set vs. gv_verdict v = Block)"
proof
  have "Max (insert Allow (gv_verdict ` set vs)) \<in> insert Allow (gv_verdict ` set vs)"
    by (rule Max_in) auto
  moreover assume "join_verdict vs = Block"
  ultimately show "\<exists>v \<in> set vs. gv_verdict v = Block" by (auto simp: join_verdict_Max intro: sym)
next
  assume "\<exists>v \<in> set vs. gv_verdict v = Block"
  then obtain v where "v \<in> set vs" "gv_verdict v = Block" by blast
  with join_verdict_eqI [of v vs] show "join_verdict vs = Block" by simp
qed

lemma aggregate_eq:
  "aggregate scope reg = (join_verdict (in_scope scope reg), size_mult (in_scope scope reg),
     sort_key (\<lambda>v. - int (ORDER (gv_verdict v))) (in_scope scope reg))"
proof (cases "in_scope scope reg")
  case Nil
  then show ?thesis by (simp add: aggregate_def join_verdict_def size_mult_def)
next
  case (Cons v vs)
  let ?top = "py_max_by (\<lambda>v. ORDER (gv_verdict v)) v vs"
  have "join_verdict (v # vs) = gv_verdict ?top"
    using py_max_by_is_max [of "\<lambda>v. ORDER (gv_verdict v)" v vs]
    by (intro join_verdict_eqI) (auto simp: less_eq_verdict_def)
  moreover have "ORDER x = ORDER Block \<longleftrightarrow> x = Block" for x by (cases x) auto
  ultimately show ?thesis
    using Cons join_verdict_Block [of "v # vs"] by (simp add: aggregate_def size_mult_def Let_def)
qed

lemma in_scope_append: "in_scope s (vs @ ws) = in_scope s vs @ in_scope s ws"
  by (simp add: in_scope_def)

lemma mset_in_scope: "mset (in_scope s vs) = filter_mset (\<lambda>v. gv_scope v \<in> {''book'', s}) (mset vs)"
  by (simp add: in_scope_def mset_filter)

lemma size_mult_mset: "mset vs = mset ws \<Longrightarrow> size_mult vs = size_mult ws"
proof -
  assume m: "mset vs = mset ws"
  have "length (filter P vs) = length (filter P ws)" for P
    by (metis m mset_filter size_mset)
  moreover have "set vs = set ws" using m by (rule mset_eq_setD)
  ultimately show ?thesis by (simp only: size_mult_def)
qed

lemma join_verdict_mset: "mset vs = mset ws \<Longrightarrow> join_verdict vs = join_verdict ws"
  by (simp only: join_verdict_Max mset_eq_setD [of vs ws])

lemma size_mult_le_1: "0 \<le> size_mult vs \<and> size_mult vs \<le> 1"
  by (simp add: size_mult_def power_le_one)

lemma size_mult_snoc: "size_mult (vs @ [v]) \<le> size_mult vs"
  by (auto simp: size_mult_def)

section \<open>Properties\<close>

text \<open>the aggregate of a scope is the most restrictive verdict in scope (allow when there is
  none); the size multiplier is 0 when a verdict in scope blocks and otherwise a half to the
  number of halving verdicts; the contributing list is a permutation of the verdicts in scope
  with the most restrictive first.\<close>

theorem aggregate_functional:
  assumes "aggregate scope reg = (v, m, cs)"
  shows "v = Max (insert Allow (gv_verdict ` set (in_scope scope reg))) \<and>
    m = size_mult (in_scope scope reg) \<and>
    mset cs = mset (in_scope scope reg) \<and>
    sorted_wrt (\<lambda>a b. gv_verdict b \<le> gv_verdict a) cs"
proof -
  let ?f = "\<lambda>v. - int (ORDER (gv_verdict v))"
  have "sorted (map ?f (sort_key ?f (in_scope scope reg)))" by simp
  then have "sorted_wrt (\<lambda>a b. gv_verdict b \<le> gv_verdict a) (sort_key ?f (in_scope scope reg))"
    by (auto simp: sorted_wrt_map less_eq_verdict_def elim!: sorted_wrt_mono_rel [rotated])
  with assms show ?thesis by (auto simp: aggregate_eq join_verdict_Max)
qed

theorem aggregate_functional_witness:
  "let g = (\<lambda>n s v. \<lparr>gv_gate = n, gv_scope = s, gv_verdict = v, gv_reason = [], gv_inputs = JNull\<rparr>);
       a = g ''a'' ''book'' Halve; b = g ''b'' ''SPY'' Halve; c = g ''c'' ''QQQ'' Block
   in aggregate ''SPY'' [a, b, c] = (Halve, 1/4, [a, b]) \<and>
      Halve = Max (insert Allow (gv_verdict ` set (in_scope ''SPY'' [a, b, c])))"
proof -
  let ?g = "\<lambda>n s v. \<lparr>gv_gate = n, gv_scope = s, gv_verdict = v, gv_reason = [], gv_inputs = JNull\<rparr>"
  let ?r = "[?g ''a'' ''book'' Halve, ?g ''b'' ''SPY'' Halve, ?g ''c'' ''QQQ'' Block]"
  have a: "aggregate ''SPY'' ?r = (Halve, 1/4, [?g ''a'' ''book'' Halve, ?g ''b'' ''SPY'' Halve])"
    by (simp add: aggregate_def in_scope_def py_max_by_def Let_def power2_eq_square)
  from aggregate_functional [OF a] a show ?thesis by (simp add: Let_def)
qed

text \<open>the aggregate does not depend on the order of submission: for two registries with the
  same verdicts, the verdict and the multiplier are equal and the contributing verdicts are the
  same up to order.\<close>

theorem aggregate_order_independent:
  assumes "mset reg = mset reg'"
  shows "fst (aggregate s reg) = fst (aggregate s reg') \<and>
    fst (snd (aggregate s reg)) = fst (snd (aggregate s reg')) \<and>
    mset (snd (snd (aggregate s reg))) = mset (snd (snd (aggregate s reg')))"
proof -
  have "mset (in_scope s reg) = mset (in_scope s reg')" using assms by (simp add: mset_in_scope)
  from this join_verdict_mset [OF this] size_mult_mset [OF this]
  show ?thesis by (simp add: aggregate_eq)
qed

theorem aggregate_order_independent_witness:
  "let g = (\<lambda>n v. \<lparr>gv_gate = n, gv_scope = ''book'', gv_verdict = v, gv_reason = [], gv_inputs = JNull\<rparr>)
   in fst (aggregate ''SPY'' [g ''a'' Block, g ''b'' Allow])
      = fst (aggregate ''SPY'' [g ''b'' Allow, g ''a'' Block])"
proof -
  have "mset [x, y] = mset [y, x]" for x y :: gate_verdict
    by (simp only: mset.simps add_mset_commute)
  from aggregate_order_independent [OF this] show ?thesis by (simp only: Let_def)
qed

text \<open>adding a gate is risk-monotone: after one more submission the verdict of every scope
  is at least as restrictive and its size multiplier at most as large; a blocking verdict
  submitted for the book blocks every scope with multiplier 0.\<close>

theorem submit_risk_monotone:
  "fst (aggregate s reg) \<le> fst (aggregate s (submit v reg)) \<and>
   fst (snd (aggregate s (submit v reg))) \<le> fst (snd (aggregate s reg)) \<and>
   (gv_verdict v = Block \<and> gv_scope v = ''book'' \<longrightarrow>
     fst (aggregate s (submit v reg)) = Block \<and> fst (snd (aggregate s (submit v reg))) = 0)"
proof -
  let ?i = "in_scope s reg"
  have i: "in_scope s (submit v reg) = ?i \<or> in_scope s (submit v reg) = ?i @ [v]"
    by (simp add: submit_def in_scope_def)
  have "join_verdict ?i \<le> join_verdict (?i @ [v])"
    unfolding join_verdict_Max by (rule Max_mono) auto
  moreover have "gv_verdict v = Block \<Longrightarrow> join_verdict (?i @ [v]) = Block"
    by (simp add: join_verdict_Block)
  moreover have "gv_scope v = ''book'' \<Longrightarrow> in_scope s (submit v reg) = ?i @ [v]"
    by (simp add: submit_def in_scope_def)
  moreover have "gv_verdict v = Block \<Longrightarrow> size_mult (?i @ [v]) = 0" by (simp add: size_mult_def)
  ultimately show ?thesis using i size_mult_snoc [of ?i v] by (auto simp: aggregate_eq)
qed

theorem submit_risk_monotone_witness:
  "let v = \<lparr>gv_gate = ''kill'', gv_scope = ''book'', gv_verdict = Block, gv_reason = [], gv_inputs = JNull\<rparr>
   in fst (snd (aggregate ''SPY'' (submit v []))) = 0"
  using submit_risk_monotone [where s = "''SPY''" and reg = "[]" and
      v = "\<lparr>gv_gate = ''kill'', gv_scope = ''book'', gv_verdict = Block, gv_reason = [], gv_inputs = JNull\<rparr>"]
  by simp

end
