(* ===== verification/PyNum.thy ===== *)
theory PyNum
  imports PyBase
begin

text \<open>
  Python's numeric conversions on JSON values: \<open>float(x)\<close>, \<open>int(x)\<close>, \<open>round(x)\<close> and the
  decimal grammar \<open>float\<close> and \<open>int\<close> read strings with; and \<open>str(x)\<close>. The text of a float that is
  not an integer is written as a fraction: the modelled code only compares such texts
  with keywords.
\<close>

section \<open>Rounding\<close>

text \<open>\<open>round(x)\<close> to the nearest integer, halves to even.\<close>

definition round_half_even :: "rat \<Rightarrow> int" where
  "round_half_even x =
     (let f = \<lfloor>x\<rfloor>; d = x - of_int f in
      if d < 1/2 then f else if d > 1/2 then f + 1 else if even f then f else f + 1)"

lemma round_half_even_err: "\<bar>x - of_int (round_half_even x)\<bar> \<le> 1/2"
proof -
  have "of_int \<lfloor>x\<rfloor> \<le> x" "x < of_int \<lfloor>x\<rfloor> + 1" by linarith+
  then show ?thesis by (auto simp: round_half_even_def Let_def)
qed

lemma round_half_even_of_int [simp]: "round_half_even (of_int i) = i"
  by (simp add: round_half_even_def)

lemma round_half_even_mono: "x \<le> y \<Longrightarrow> round_half_even x \<le> round_half_even y"
proof -
  assume "x \<le> y"
  then have f: "\<lfloor>x\<rfloor> \<le> \<lfloor>y\<rfloor>" by (rule floor_mono)
  show ?thesis
  proof (cases "\<lfloor>x\<rfloor> = \<lfloor>y\<rfloor>")
    case True
    with \<open>x \<le> y\<close> show ?thesis by (auto simp: round_half_even_def Let_def)
  next
    case False
    with f have "\<lfloor>x\<rfloor> + 1 \<le> \<lfloor>y\<rfloor>" by simp
    then show ?thesis by (auto simp: round_half_even_def Let_def)
  qed
qed

text \<open>\<open>timedelta(seconds=x)\<close> in microseconds.\<close>

fun timedelta_seconds :: "pyfloat \<Rightarrow> py_error + int" where
  "timedelta_seconds (Num s) = Inr (round_half_even (s * 1000000))"
| "timedelta_seconds NaN = Inl ValueError"
| "timedelta_seconds _ = Inl OverflowError"

section \<open>Reading numbers from strings\<close>

definition is_digit :: "char \<Rightarrow> bool" where
  "is_digit c \<longleftrightarrow> (let n = (of_char c :: nat) in 48 \<le> n \<and> n \<le> 57)"

definition digit :: "char \<Rightarrow> nat" where
  "digit c = of_char c - 48"

text \<open>A run of digits, with single underscores allowed between two digits.\<close>

fun read_digits :: "string \<Rightarrow> nat list \<times> string" where
  "read_digits [] = ([], [])"
| "read_digits (c # cs) =
     (if \<not> is_digit c then ([], c # cs)
      else case cs of
        u # d # ds \<Rightarrow>
          (if u = CHR ''_'' \<and> is_digit d
           then (let (ns, r) = read_digits (d # ds) in (digit c # ns, r))
           else (let (ns, r) = read_digits (u # d # ds) in (digit c # ns, r)))
      | _ \<Rightarrow> (let (ns, r) = read_digits cs in (digit c # ns, r)))"

definition digits_value :: "nat list \<Rightarrow> nat" where
  "digits_value ns = foldl (\<lambda>a n. 10 * a + n) 0 ns"

fun read_sign :: "string \<Rightarrow> bool \<times> string" where
  "read_sign [] = (False, [])"
| "read_sign (c # cs) = (if c = CHR ''-'' then (True, cs) else if c = CHR ''+'' then (False, cs)
     else (False, c # cs))"

definition int_of_str :: "string \<Rightarrow> int option" where
  "int_of_str s =
     (let (neg, t) = read_sign (py_strip s); (ns, r) = read_digits t in
      if ns = [] \<or> r \<noteq> [] then None
      else Some ((if neg then -1 else 1) * int (digits_value ns)))"

text \<open>The optional exponent of a float, \<open>None\<close> when the rest of the text is not one.\<close>

definition read_exponent :: "string \<Rightarrow> int option" where
  "read_exponent s =
     (case s of
        [] \<Rightarrow> Some 0
      | c # cs \<Rightarrow>
          if c \<in> {CHR ''e'', CHR ''E''} then
            (let (neg, t) = read_sign cs; (ns, r) = read_digits t in
             if ns = [] \<or> r \<noteq> [] then None
             else Some ((if neg then -1 else 1) * int (digits_value ns)))
          else None)"

definition float_of_str :: "string \<Rightarrow> pyfloat option" where
  "float_of_str s =
     (let (neg, t) = read_sign (py_strip s);
          signed = (\<lambda>x. if neg then fneg x else x) in
      if py_lower t \<in> {''inf'', ''infinity''} then Some (signed PInf)
      else if py_lower t = ''nan'' then Some NaN
      else
        (let (ns, r) = read_digits t;
             (fs, r') = (case r of [] \<Rightarrow> ([], [])
                         | c # cs \<Rightarrow> if c = CHR ''.'' then read_digits cs else ([], r)) in
         if ns = [] \<and> fs = [] then None
         else map_option (\<lambda>e. signed (Num (of_nat (digits_value (ns @ fs))
                * power_int 10 (e - int (length fs))))) (read_exponent r')))"

section \<open>Conversions\<close>

fun py_float :: "json \<Rightarrow> py_error + pyfloat" where
  "py_float (JBool b) = Inr (Num (if b then 1 else 0))"
| "py_float (JInt i) = Inr (Num (of_int i))"
| "py_float (JFloat f) = Inr f"
| "py_float (JStr s) = (case float_of_str s of None \<Rightarrow> Inl ValueError | Some f \<Rightarrow> Inr f)"
| "py_float _ = Inl TypeError"

text \<open>The number an arithmetic operator sees; other operands raise \<open>TypeError\<close>.\<close>

fun json_num :: "json \<Rightarrow> py_error + pyfloat" where
  "json_num (JBool b) = Inr (Num (if b then 1 else 0))"
| "json_num (JInt i) = Inr (Num (of_int i))"
| "json_num (JFloat f) = Inr f"
| "json_num _ = Inl TypeError"

definition trunc :: "rat \<Rightarrow> int" where
  "trunc x = (if 0 \<le> x then \<lfloor>x\<rfloor> else \<lceil>x\<rceil>)"

fun py_int :: "json \<Rightarrow> py_error + int" where
  "py_int (JBool b) = Inr (if b then 1 else 0)"
| "py_int (JInt i) = Inr i"
| "py_int (JFloat (Num r)) = Inr (trunc r)"
| "py_int (JFloat NaN) = Inl ValueError"
| "py_int (JFloat _) = Inl OverflowError"
| "py_int (JStr s) = (case int_of_str s of None \<Rightarrow> Inl ValueError | Some i \<Rightarrow> Inr i)"
| "py_int _ = Inl TypeError"

section \<open>Writing values\<close>

fun str_of_nat :: "nat \<Rightarrow> string" where
  "str_of_nat n = (if n < 10 then [char_of (48 + n)] else str_of_nat (n div 10) @ [char_of (48 + n mod 10)])"

declare str_of_nat.simps [simp del]

definition str_of_int :: "int \<Rightarrow> string" where
  "str_of_int i = (if i < 0 then CHR ''-'' # str_of_nat (nat (- i)) else str_of_nat (nat i))"

definition str_of_rat :: "rat \<Rightarrow> string" where
  "str_of_rat r = (let (p, q) = quotient_of r in
     if q = 1 then str_of_int p @ ''.0'' else str_of_int p @ ''/'' @ str_of_int q)"

fun str_of_float :: "pyfloat \<Rightarrow> string" where
  "str_of_float (Num r) = str_of_rat r"
| "str_of_float PInf = ''inf''"
| "str_of_float NInf = ''-inf''"
| "str_of_float NaN = ''nan''"

text \<open>\<open>repr\<close> of a value; strings are quoted without escapes.\<close>

fun py_repr :: "json \<Rightarrow> string" where
  "py_repr JNull = ''None''"
| "py_repr (JBool b) = (if b then ''True'' else ''False'')"
| "py_repr (JInt i) = str_of_int i"
| "py_repr (JFloat f) = str_of_float f"
| "py_repr (JStr s) = CHR 0x27 # s @ [CHR 0x27]"
| "py_repr (JList xs) = ''['' @ join_with '', '' (map py_repr xs) @ '']''"
| "py_repr (JObj kvs) = ''{'' @ join_with '', ''
     (map (\<lambda>(k, v). (CHR 0x27 # k @ [CHR 0x27]) @ '': '' @ py_repr v) kvs) @ ''}''"

fun py_str :: "json \<Rightarrow> string" where
  "py_str (JStr s) = s"
| "py_str j = py_repr j"

end
