(* ===== verification/GtcPlanner.thy ===== *)
theory GtcPlanner
  imports PyNum
begin

text \<open>
  \<open>gtc_catastrophe_planner.py\<close>: the broker-resident catastrophe stops. \<open>plan\<close> maps the
  holdings and the broker's stops to PLACE, REPLACE and CANCEL actions; \<open>holdings_from_live_state\<close>
  and \<open>stops_from_live_state\<close> read both out of a live-state dictionary. The price of a stop is
  whatever the live state holds (a JSON value), so its subtraction may raise. \<open>apply_actions\<close>
  is what a broker that accepts the plan does to its stops.
\<close>

record holding =
  entry_price :: pyfloat
  shares :: int

datatype action = PLACE string pyfloat int | REPLACE string json pyfloat | CANCEL string

definition CATASTROPHE_DD :: pyfloat where "CATASTROPHE_DD = Num (20/100)"
definition DEFAULT_TOLERANCE :: pyfloat where "DEFAULT_TOLERANCE = Num (1/100)"

text \<open>\<open>round(x, 2)\<close>, which keeps the special values.\<close>

fun round2 :: "pyfloat \<Rightarrow> pyfloat" where
  "round2 (Num a) = Num (of_int (round_half_even (a * 100)) / 100)"
| "round2 x = x"

definition catastrophe_stop_price :: "pyfloat \<Rightarrow> pyfloat \<Rightarrow> pyfloat" where
  "catastrophe_stop_price entry dd = round2 (fmul entry (fsub (Num 1) dd))"

text \<open>The test \<open>abs(have - want) / want > tolerance\<close>.\<close>

definition drifted :: "json \<Rightarrow> pyfloat \<Rightarrow> pyfloat \<Rightarrow> py_error + bool" where
  "drifted have want tol =
     (case json_num have of
        Inl e \<Rightarrow> Inl e
      | Inr h \<Rightarrow> (case fdiv (fabs (fsub h want)) want of
          Inl e \<Rightarrow> Inl e
        | Inr q \<Rightarrow> Inr (flt tol q)))"

text \<open>What the plan does for one holding.\<close>

definition plan_one :: "pyfloat \<Rightarrow> pyfloat \<Rightarrow> json dict \<Rightarrow> string \<Rightarrow> holding \<Rightarrow> py_error + action list" where
  "plan_one dd tol stops t h =
     (let want = catastrophe_stop_price (entry_price h) dd; have = dget stops t JNull in
      if have = JNull then Inr [PLACE t want (shares h)]
      else (case drifted have want tol of
          Inl e \<Rightarrow> Inl e
        | Inr d \<Rightarrow> Inr (if d then [REPLACE t have want] else [])))"

fun plan_holdings :: "pyfloat \<Rightarrow> pyfloat \<Rightarrow> json dict \<Rightarrow> holding dict \<Rightarrow> py_error + action list" where
  "plan_holdings dd tol stops [] = Inr []"
| "plan_holdings dd tol stops ((t, h) # hs) =
     (case plan_one dd tol stops t h of
        Inl e \<Rightarrow> Inl e
      | Inr as \<Rightarrow> (case plan_holdings dd tol stops hs of
          Inl e \<Rightarrow> Inl e
        | Inr bs \<Rightarrow> Inr (as @ bs)))"

definition closed_tickers :: "holding dict \<Rightarrow> json dict \<Rightarrow> string list" where
  "closed_tickers holdings stops = sort (filter (\<lambda>t. \<not> dhas holdings t) (remdups (map fst stops)))"

definition plan :: "holding dict \<Rightarrow> json dict \<Rightarrow> pyfloat \<Rightarrow> pyfloat \<Rightarrow> py_error + action list" where
  "plan holdings stops dd tol =
     (case plan_holdings dd tol stops (sort_key fst holdings) of
        Inl e \<Rightarrow> Inl e
      | Inr as \<Rightarrow> Inr (as @ map CANCEL (closed_tickers holdings stops)))"

section \<open>Reading the live state\<close>

text \<open>Iterating a JSON value: the keys of an object, the items of a list, the characters of a string.\<close>

fun py_iter :: "json \<Rightarrow> py_error + json list" where
  "py_iter (JObj kvs) = Inr (map (JStr \<circ> fst) kvs)"
| "py_iter (JList xs) = Inr xs"
| "py_iter (JStr s) = Inr (map (\<lambda>c. JStr [c]) s)"
| "py_iter _ = Inl TypeError"

text \<open>\<open>d.get(k)\<close> for a value that may not be a dictionary and a key that may not be hashable.\<close>

fun json_get :: "json \<Rightarrow> json \<Rightarrow> py_error + json" where
  "json_get (JObj kvs) (JStr k) = Inr (dget kvs k JNull)"
| "json_get (JObj kvs) (JList _) = Inl TypeError"
| "json_get (JObj kvs) (JObj _) = Inl TypeError"
| "json_get (JObj kvs) _ = Inr JNull"
| "json_get _ _ = Inl AttributeError"

fun collect_holdings :: "json \<Rightarrow> json list \<Rightarrow> holding dict \<Rightarrow> py_error + holding dict" where
  "collect_holdings hwms [] acc = Inr acc"
| "collect_holdings hwms (t # ts) acc =
     (case json_get hwms t of
        Inl e \<Rightarrow> Inl e
      | Inr hwm \<Rightarrow>
          if truthy hwm then
            (case py_float hwm of
               Inl e \<Rightarrow> Inl e
             | Inr f \<Rightarrow> collect_holdings hwms ts (dset acc (py_str t) \<lparr>entry_price = f, shares = 1\<rparr>))
          else collect_holdings hwms ts acc)"

definition holdings_from_live_state :: "json dict \<Rightarrow> py_error + holding dict" where
  "holdings_from_live_state raw =
     (let entry_dates = py_or (dget raw ''entry_dates'' JNull) (JObj []);
          position_hwm = py_or (dget raw ''position_hwm'' JNull) (JObj []) in
      case py_iter entry_dates of
        Inl e \<Rightarrow> Inl e
      | Inr ts \<Rightarrow> collect_holdings position_hwm ts [])"

fun stop_price_of :: "json \<Rightarrow> json option" where
  "stop_price_of (JObj order) =
     (let p = dget order ''stop_price'' JNull in if truthy p then Some p else None)"
| "stop_price_of _ = None"

definition stops_from_live_state :: "json dict \<Rightarrow> py_error + json dict" where
  "stops_from_live_state raw =
     (case py_or (dget raw ''stop_orders'' JNull) (JObj []) of
        JObj orders \<Rightarrow> Inr (List.map_filter (\<lambda>(t, o'). map_option (Pair t) (stop_price_of o')) orders)
      | _ \<Rightarrow> Inl AttributeError)"

definition plan_from_live_state :: "json dict \<Rightarrow> pyfloat \<Rightarrow> pyfloat \<Rightarrow> py_error + action list" where
  "plan_from_live_state raw dd tol =
     (case holdings_from_live_state raw of
        Inl e \<Rightarrow> Inl e
      | Inr hs \<Rightarrow> (case stops_from_live_state raw of
          Inl e \<Rightarrow> Inl e
        | Inr stops \<Rightarrow> plan hs stops dd tol))"

section \<open>The broker that accepts a plan\<close>

fun apply_action :: "action \<Rightarrow> json dict \<Rightarrow> json dict" where
  "apply_action (PLACE t p q) stops = dset stops t (JFloat p)"
| "apply_action (REPLACE t h p) stops = dset stops t (JFloat p)"
| "apply_action (CANCEL t) stops = AList.delete t stops"

definition apply_actions :: "action list \<Rightarrow> json dict \<Rightarrow> json dict" where
  "apply_actions as stops = fold apply_action as stops"

fun action_ticker :: "action \<Rightarrow> string" where
  "action_ticker (PLACE t p q) = t"
| "action_ticker (REPLACE t h p) = t"
| "action_ticker (CANCEL t) = t"


section \<open>What a plan achieves\<close>

lemma apply_actions_simps [simp]:
  "apply_actions [] s = s"
  "apply_actions (a # as) s = apply_actions as (apply_action a s)"
  "apply_actions (as @ bs) s = apply_actions bs (apply_actions as s)"
  by (simp_all add: apply_actions_def)

lemma apply_actions_other:
  "t \<notin> action_ticker ` set as \<Longrightarrow> map_of (apply_actions as s) t = map_of s t"
proof (induction as arbitrary: s)
  case (Cons a as)
  then show ?case by (cases a) (auto simp: delete_conv)
qed simp

lemma apply_CANCELs:
  "map_of (apply_actions (map CANCEL ts) s) t = (if t \<in> set ts then None else map_of s t)"
  by (induction ts arbitrary: s) (auto simp: delete_conv)

lemma plan_one_tickers: "plan_one dd tol stops t h = Inr as \<Longrightarrow> action_ticker ` set as \<subseteq> {t}"
  by (auto simp: plan_one_def Let_def split: if_splits sum.splits)

lemma plan_one_apply:
  "plan_one dd tol stops t h = Inr as \<Longrightarrow>
   as = [] \<or> map_of (apply_actions as s) t = Some (JFloat (catastrophe_stop_price (entry_price h) dd))"
  by (auto simp: plan_one_def Let_def split: if_splits sum.splits)

lemma plan_one_cong: "dget s t JNull = dget s' t JNull \<Longrightarrow> plan_one dd tol s t h = plan_one dd tol s' t h"
  by (simp add: plan_one_def)

lemma plan_one_at_target:
  assumes "map_of s t = Some (JFloat (catastrophe_stop_price (entry_price h) dd))"
    and "catastrophe_stop_price (entry_price h) dd \<noteq> Num 0" and "\<not> flt tol (Num 0)"
  shows "plan_one dd tol s t h = Inr []"
proof -
  let ?w = "catastrophe_stop_price (entry_price h) dd"
  have "fdiv (fabs (fsub ?w ?w)) ?w \<in> {Inr (Num 0), Inr NaN}"
    using assms(2) by (cases ?w) (auto simp: fsub_def)
  then have "drifted (JFloat ?w) ?w tol = Inr False"
    using assms(3) by (auto simp: drifted_def)
  with assms(1) show ?thesis by (simp add: plan_one_def dget_def Let_def)
qed

lemma plan_holdings_tickers:
  "plan_holdings dd tol stops hs = Inr as \<Longrightarrow> action_ticker ` set as \<subseteq> fst ` set hs"
proof (induction hs arbitrary: as)
  case (Cons th hs)
  obtain t h where th: "th = (t, h)" by (cases th)
  with Cons.prems obtain bs cs where "plan_one dd tol stops t h = Inr bs"
    and "plan_holdings dd tol stops hs = Inr cs" and "as = bs @ cs"
    by (auto split: sum.splits)
  with Cons.IH th plan_one_tickers [of dd tol stops t h bs] show ?case by auto
qed simp

lemma plan_holdings_apply:
  assumes "plan_holdings dd tol stops hs = Inr as" and "distinct (map fst hs)" and "(t, h) \<in> set hs"
  shows "plan_one dd tol stops t h = Inr [] \<and> map_of (apply_actions as s) t = map_of s t \<or>
    map_of (apply_actions as s) t = Some (JFloat (catastrophe_stop_price (entry_price h) dd))"
  using assms
proof (induction hs arbitrary: as s)
  case (Cons uk hs)
  obtain u k where uk: "uk = (u, k)" by (cases uk)
  with Cons.prems(1) obtain bs cs where b: "plan_one dd tol stops u k = Inr bs"
    and c: "plan_holdings dd tol stops hs = Inr cs" and as: "as = bs @ cs"
    by (auto split: sum.splits)
  show ?case
  proof (cases "t = u")
    case True
    with Cons.prems(2,3) uk have "h = k" "t \<notin> fst ` set hs" by force+
    then have "map_of (apply_actions cs s') t = map_of s' t" for s'
      using plan_holdings_tickers [OF c] by (intro apply_actions_other) auto
    with b as True \<open>h = k\<close> plan_one_apply [OF b, of s] show ?thesis by auto
  next
    case False
    then have "map_of (apply_actions bs s) t = map_of s t"
      using plan_one_tickers [OF b] by (intro apply_actions_other) auto
    with Cons.IH [OF c, of "apply_actions bs s"] Cons.prems(2,3) False uk as show ?thesis
      by auto
  qed
qed simp

text \<open>The stops of a broker that applied the plan: those of the held tickers only, each within the
  tolerance, so that planning again has nothing to do for it.\<close>

lemma plan_apply:
  assumes p: "plan hs s dd tol = Inr as" and d: "distinct (map fst hs)"
    and w: "\<forall>(t, h) \<in> set hs. catastrophe_stop_price (entry_price h) dd \<noteq> Num 0"
    and tol: "\<not> flt tol (Num 0)"
  shows "(t, h) \<in> set hs \<Longrightarrow> plan_one dd tol (apply_actions as s) t h = Inr []"
    and "t \<notin> fst ` set hs \<Longrightarrow> map_of (apply_actions as s) t = None"
proof -
  let ?hs = "sort_key fst hs"
  from p obtain bs where b: "plan_holdings dd tol s ?hs = Inr bs"
    and as: "as = bs @ map CANCEL (closed_tickers hs s)"
    by (auto simp: plan_def split: sum.splits)
  have d': "distinct (map fst ?hs)"
    using d by (simp add: distinct_map)
  have ct: "set (closed_tickers hs s) = fst ` set s - fst ` set hs"
    by (auto simp: closed_tickers_def dhas_iff)
  show "plan_one dd tol (apply_actions as s) t h = Inr []" if th: "(t, h) \<in> set hs"
  proof -
    from th have "t \<notin> set (closed_tickers hs s)" by (force simp: ct)
    then have m: "map_of (apply_actions as s) t = map_of (apply_actions bs s) t"
      by (simp add: as apply_CANCELs)
    from th have "(t, h) \<in> set ?hs" by simp
    from plan_holdings_apply [OF b d' this, of s] show ?thesis
    proof
      assume "plan_one dd tol s t h = Inr [] \<and> map_of (apply_actions bs s) t = map_of s t"
      then show ?thesis using m plan_one_cong [of "apply_actions as s" t s] by (simp add: dget_def)
    next
      assume "map_of (apply_actions bs s) t = Some (JFloat (catastrophe_stop_price (entry_price h) dd))"
      with m w th tol show ?thesis by (intro plan_one_at_target) auto
    qed
  qed
  show "map_of (apply_actions as s) t = None" if "t \<notin> fst ` set hs"
  proof (cases "t \<in> fst ` set s")
    case True
    with that show ?thesis by (simp add: as apply_CANCELs ct)
  next
    case False
    moreover have "map_of (apply_actions bs s) t = map_of s t"
      using plan_holdings_tickers [OF b] that by (intro apply_actions_other) auto
    ultimately show ?thesis by (simp add: as apply_CANCELs ct map_of_eq_None_iff)
  qed
qed

lemma plan_holdings_Nil:
  "(\<And>t h. (t, h) \<in> set hs \<Longrightarrow> plan_one dd tol s t h = Inr []) \<Longrightarrow> plan_holdings dd tol s hs = Inr []"
  by (induction hs) auto

section \<open>Properties\<close>

text \<open>the plan is idempotent. Once a broker has applied a plan, planning again for the same
  holdings yields no action at all: neither a PLACE nor a REPLACE nor a CANCEL. The tickers are
  distinct (they are the keys of a dictionary), the tolerance is not negative and no catastrophe
  price rounds to zero.\<close>

theorem plan_idempotent:
  assumes "plan hs s dd tol = Inr as" and "distinct (map fst hs)"
    and "\<forall>(t, h) \<in> set hs. catastrophe_stop_price (entry_price h) dd \<noteq> Num 0"
    and "\<not> flt tol (Num 0)"
  shows "plan hs (apply_actions as s) dd tol = Inr []"
proof -
  note a = plan_apply [OF assms]
  have "filter (\<lambda>t. \<not> dhas hs t) (remdups (map fst (apply_actions as s))) = []"
    using a(2) by (auto simp: filter_empty_conv dhas_iff map_of_eq_None_iff)
  then have "closed_tickers hs (apply_actions as s) = []" by (simp only: closed_tickers_def) simp
  moreover have "plan_holdings dd tol (apply_actions as s) (sort_key fst hs) = Inr []"
    using a(1) by (intro plan_holdings_Nil) simp
  ultimately show ?thesis by (simp add: plan_def)
qed

theorem plan_idempotent_witness:
  "let hs = [(''SPY'', \<lparr>entry_price = Num 100, shares = 3\<rparr>), (''AA'', \<lparr>entry_price = Num 50, shares = 1\<rparr>)];
       s = [(''OLD'', JInt 7), (''SPY'', JInt 70)];
       as = [PLACE ''AA'' (Num 40) 1, REPLACE ''SPY'' (JInt 70) (Num 80), CANCEL ''OLD'']
   in plan hs s (Num (1/5)) (Num (1/100)) = Inr as \<and>
      plan hs (apply_actions as s) (Num (1/5)) (Num (1/100)) = Inr []"
proof -
  let ?hs = "[(''SPY'', \<lparr>entry_price = Num 100, shares = 3\<rparr>), (''AA'', \<lparr>entry_price = Num 50, shares = 1\<rparr>)]"
  let ?s = "[(''OLD'', JInt 7), (''SPY'', JInt 70)]"
  let ?as = "[PLACE ''AA'' (Num 40) 1, REPLACE ''SPY'' (JInt 70) (Num 80), CANCEL ''OLD'']"
  have p: "plan ?hs ?s (Num (1/5)) (Num (1/100)) = Inr ?as" by code_simp
  have w: "catastrophe_stop_price (Num 100) (Num (1/5)) \<noteq> Num 0"
    "catastrophe_stop_price (Num 50) (Num (1/5)) \<noteq> Num 0" by code_simp+
  have "plan ?hs (apply_actions ?as ?s) (Num (1/5)) (Num (1/100)) = Inr []"
    by (rule plan_idempotent [OF p]) (use w in auto)
  with p show ?thesis by (simp only: Let_def)
qed



text \<open>a holding whose catastrophe price is below half a cent gets a PLACE at price zero, and
  planning again once that stop rests at the broker raises \<open>ZeroDivisionError\<close>: the claim that
  every PLACE carries a strictly positive price does not hold for such entries.\<close>

theorem plan_zero_stop:
  assumes "0 \<le> e * (1 - dd) * 100" and "e * (1 - dd) * 100 < 1/2"
  shows "plan [(t, \<lparr>entry_price = Num e, shares = q\<rparr>)] [] (Num dd) tol = Inr [PLACE t (Num 0) q] \<and>
    plan [(t, \<lparr>entry_price = Num e, shares = q\<rparr>)] (apply_actions [PLACE t (Num 0) q] []) (Num dd) tol
      = Inl ZeroDivisionError"
proof -
  have "\<lfloor>e * (1 - dd) * 100\<rfloor> = 0" using assms by linarith
  with assms have "round_half_even (e * (1 - dd) * 100) = 0"
    by (simp add: round_half_even_def Let_def)
  then have "catastrophe_stop_price (Num e) (Num dd) = Num 0"
    by (simp add: catastrophe_stop_price_def)
  then show ?thesis
    by (simp add: plan_def plan_one_def closed_tickers_def drifted_def dget_def Let_def)
qed

theorem plan_zero_stop_witness:
  "plan [(''PENNY'', \<lparr>entry_price = Num (6/1000), shares = 1\<rparr>)] [] (Num (1/5)) (Num (1/100))
   = Inr [PLACE ''PENNY'' (Num 0) 1]"
  by (rule plan_zero_stop [THEN conjunct1]) simp_all

end
