(* ===== verification/Interfaces.thy ===== *)
theory Interfaces
  imports PyBase
begin

text \<open>
  The contracts several components share, as locales. Each is interpreted on the model's own
  definitions in the theory of the component that provides it.

  \<^item> \<open>latch\<close>: a monitor whose firings are sticky (the software stops).
  \<^item> \<open>keyed_log\<close>: an append-only store that keeps the first record of a key (the shadow tick
    log, the intent ledger and the in-memory registry).
  \<^item> \<open>lifecycle\<close>: a legality relation with stages and terminal states (the order states).
\<close>

section \<open>Runs of a fallible step\<close>

fun run_until :: "('s \<Rightarrow> 'e \<Rightarrow> 'x + 's) \<Rightarrow> 's \<Rightarrow> 'e list \<Rightarrow> 'x + 's" where
  "run_until step s [] = Inr s"
| "run_until step s (e # es) =
     (case step s e of Inl x \<Rightarrow> Inl x | Inr t \<Rightarrow> run_until step t es)"

lemma run_until_append:
  "run_until step s (es @ fs) =
     (case run_until step s es of Inl x \<Rightarrow> Inl x | Inr t \<Rightarrow> run_until step t fs)"
  by (induction es arbitrary: s) (auto split: sum.splits)

section \<open>Sticky monitors\<close>

text \<open>
  \<open>fired\<close> is the set of keys that have fired and \<open>emitted\<close> the log of firings. A step never
  fails from a state satisfying the invariant, and appends the newly fired keys to the log,
  each once.
\<close>

locale latch =
  fixes step :: "'s \<Rightarrow> 'e \<Rightarrow> 'x + 's"
    and invar :: "'s \<Rightarrow> bool"
    and fired :: "'s \<Rightarrow> 'k set"
    and emitted :: "'s \<Rightarrow> 'k list"
  assumes step_total: "invar s \<Longrightarrow> \<exists>t. step s e = Inr t"
    and step_invar: "invar s \<Longrightarrow> step s e = Inr t \<Longrightarrow> invar t"
    and step_emitted: "invar s \<Longrightarrow> step s e = Inr t \<Longrightarrow>
      \<exists>ks. emitted t = emitted s @ ks \<and> distinct ks \<and> set ks \<inter> fired s = {} \<and>
           fired t = fired s \<union> set ks"
begin

lemma run_total: "invar s \<Longrightarrow> \<exists>t. run_until step s es = Inr t"
proof (induction es arbitrary: s)
  case (Cons e es)
  then obtain t where "step s e = Inr t" using step_total by blast
  with Cons step_invar show ?case by auto
qed simp

lemma run_invar: "invar s \<Longrightarrow> run_until step s es = Inr t \<Longrightarrow> invar t"
  by (induction es arbitrary: s) (auto split: sum.splits dest: step_invar)

lemma run_emitted:
  "invar s \<Longrightarrow> run_until step s es = Inr t \<Longrightarrow>
   \<exists>ks. emitted t = emitted s @ ks \<and> distinct ks \<and> set ks \<inter> fired s = {} \<and> fired t = fired s \<union> set ks"
proof (induction es arbitrary: s)
  case (Cons e es)
  from Cons.prems obtain u where u: "step s e = Inr u" and r: "run_until step u es = Inr t"
    by (auto split: sum.splits)
  from step_emitted [OF Cons.prems(1) u] obtain ks where ks:
    "emitted u = emitted s @ ks" "distinct ks" "set ks \<inter> fired s = {}" "fired u = fired s \<union> set ks"
    by blast
  from Cons.IH [OF step_invar [OF Cons.prems(1) u] r] obtain ls where ls:
    "emitted t = emitted u @ ls" "distinct ls" "set ls \<inter> fired u = {}" "fired t = fired u \<union> set ls"
    by blast
  show ?case using ks ls by (intro exI [of _ "ks @ ls"]) auto
qed simp

lemma run_emits_once:
  assumes "invar s" and "run_until step s es = Inr t"
    and "distinct (emitted s)" and "set (emitted s) = fired s"
  shows "distinct (emitted t) \<and> set (emitted t) = fired t \<and> fired s \<subseteq> fired t"
proof -
  from run_emitted [OF assms(1,2)] obtain ks where
    "emitted t = emitted s @ ks" "distinct ks" "set ks \<inter> fired s = {}" "fired t = fired s \<union> set ks"
    by blast
  with assms(3,4) show ?thesis by auto
qed

end

section \<open>Append-only stores that keep the first record of a key\<close>

text \<open>The records of a list whose key is neither in a set nor the key of an earlier record.\<close>

fun fresh :: "('r \<Rightarrow> 'k) \<Rightarrow> 'k set \<Rightarrow> 'r list \<Rightarrow> 'r list" where
  "fresh key K [] = []"
| "fresh key K (r # rs) =
     (if key r \<in> K then fresh key K rs else r # fresh key (insert (key r) K) rs)"

fun put_all :: "('s \<Rightarrow> 'r \<Rightarrow> 's \<times> bool) \<Rightarrow> 's \<Rightarrow> 'r list \<Rightarrow> 's \<times> bool list" where
  "put_all put s [] = (s, [])"
| "put_all put s (r # rs) =
     (let (s', b) = put s r; (s'', bs) = put_all put s' rs in (s'', b # bs))"

lemma fresh_keys: "key ` set (fresh key K rs) = key ` set rs - K"
  by (induction rs arbitrary: K) auto

lemma fresh_distinct: "distinct (map key (fresh key K rs)) \<and> set (map key (fresh key K rs)) \<inter> K = {}"
  by (induction rs arbitrary: K) (auto simp: fresh_keys)

lemma fresh_known: "key ` set rs \<subseteq> K \<Longrightarrow> fresh key K rs = []"
  by (induction rs) auto

lemma fresh_first:
  "r \<in> set (fresh key K rs) \<longleftrightarrow>
   (\<exists>i < length rs. rs ! i = r \<and> key r \<notin> K \<and> (\<forall>j < i. key (rs ! j) \<noteq> key r))"
proof (induction rs arbitrary: K)
  case (Cons a rs)
  show ?case unfolding length_Cons Ex_less_Suc2 All_less_Suc2 nth_Cons_0 nth_Cons_Suc
    by (auto simp: Cons.IH)
qed simp

lemma put_all_append:
  "put_all put s (rs @ qs) =
     (let (s', bs) = put_all put s rs; (s'', cs) = put_all put s' qs in (s'', bs @ cs))"
  by (induction rs arbitrary: s) (auto simp: Let_def split: prod.splits)

text \<open>
  \<open>put\<close> returns whether it created a record. A record that is not \<open>ok\<close> is refused without
  an effect.
\<close>

locale keyed_log =
  fixes put :: "'s \<Rightarrow> 'r \<Rightarrow> 's \<times> bool"
    and key :: "'r \<Rightarrow> 'k"
    and ok :: "'r \<Rightarrow> bool"
    and rows :: "'s \<Rightarrow> 'r list"
    and invar :: "'s \<Rightarrow> bool"
  assumes put_new: "invar s \<Longrightarrow> ok r \<Longrightarrow> key r \<notin> key ` set (rows s) \<Longrightarrow>
      snd (put s r) \<and> rows (fst (put s r)) = rows s @ [r]"
    and put_known: "invar s \<Longrightarrow> key r \<in> key ` set (rows s) \<Longrightarrow> put s r = (s, False)"
    and put_refused: "invar s \<Longrightarrow> \<not> ok r \<Longrightarrow> put s r = (s, False)"
    and put_invar: "invar s \<Longrightarrow> invar (fst (put s r))"
begin

lemma put_all_invar: "invar s \<Longrightarrow> invar (fst (put_all put s rs))"
  by (induction rs arbitrary: s) (auto simp: Let_def split_beta dest: put_invar)

lemma put_all_rows:
  "invar s \<Longrightarrow>
   rows (fst (put_all put s rs)) = rows s @ fresh key (key ` set (rows s)) (filter ok rs)"
proof (induction rs arbitrary: s)
  case (Cons r rs)
  then have IH: "rows (fst (put_all put (fst (put s r)) rs)) =
      rows (fst (put s r)) @ fresh key (key ` set (rows (fst (put s r)))) (filter ok rs)"
    using put_invar by blast
  consider "key r \<in> key ` set (rows s)" | "key r \<notin> key ` set (rows s)" "ok r" | "\<not> ok r" by blast
  then show ?case
  proof cases
    case 1
    with IH put_known [OF Cons.prems 1] show ?thesis by (simp add: split_beta Let_def)
  next
    case 2
    with IH put_new [OF Cons.prems 2(2,1)] show ?thesis by (simp add: split_beta Let_def)
  next
    case 3
    with IH put_refused [OF Cons.prems 3] show ?thesis by (simp add: split_beta Let_def)
  qed
qed simp

lemma put_all_created:
  "invar s \<Longrightarrow> map fst (filter snd (zip rs (snd (put_all put s rs)))) =
     fresh key (key ` set (rows s)) (filter ok rs)"
proof (induction rs arbitrary: s)
  case (Cons r rs)
  have IH: "map fst (filter snd (zip rs (snd (put_all put (fst (put s r)) rs)))) =
      fresh key (key ` set (rows (fst (put s r)))) (filter ok rs)"
    using Cons put_invar by blast
  consider "key r \<in> key ` set (rows s)" | "key r \<notin> key ` set (rows s)" "ok r" | "\<not> ok r" by blast
  then show ?case
  proof cases
    case 1
    with IH put_known [OF Cons.prems 1] show ?thesis by (simp add: split_beta Let_def)
  next
    case 2
    with IH put_new [OF Cons.prems 2(2,1)] show ?thesis by (simp add: split_beta Let_def)
  next
    case 3
    with IH put_refused [OF Cons.prems 3] show ?thesis by (simp add: split_beta Let_def)
  qed
qed simp

lemma put_all_known:
  "invar s \<Longrightarrow> (\<forall>r \<in> set rs. ok r \<longrightarrow> key r \<in> key ` set (rows s)) \<Longrightarrow>
   put_all put s rs = (s, replicate (length rs) False)"
proof (induction rs)
  case (Cons r rs)
  then have "put s r = (s, False)" using put_known put_refused by (metis list.set_intros(1))
  with Cons show ?case by (simp add: Let_def)
qed simp

lemma put_all_replay:
  assumes "invar s"
  shows "put_all put (fst (put_all put s rs)) rs =
         (fst (put_all put s rs), replicate (length rs) False)"
  using assms by (intro put_all_known put_all_invar) (auto simp: put_all_rows image_Un fresh_keys)

lemma put_all_distinct:
  assumes "invar s" and "distinct (map key (rows s))"
  shows "distinct (map key (rows (fst (put_all put s rs))))"
  using assms fresh_distinct [of key "key ` set (rows s)" "filter ok rs"]
  by (auto simp: put_all_rows)

end

section \<open>Lifecycles\<close>

text \<open>
  A legality relation on states with a stage that no legal transition lowers, terminal states
  no transition leaves, and isolated states no transition enters.
\<close>

locale lifecycle =
  fixes legal :: "'s \<Rightarrow> 's \<Rightarrow> bool"
    and stage :: "'s \<Rightarrow> nat"
    and terminal :: "'s \<Rightarrow> bool"
  assumes stage_mono: "legal s t \<Longrightarrow> stage s \<le> stage t"
    and terminal_stuck: "terminal s \<Longrightarrow> \<not> legal s t"
begin

lemma path_sorted: "successively legal p \<Longrightarrow> sorted (map stage p)"
proof (induction p rule: induct_list012)
  case (3 x y zs)
  then have "stage x \<le> stage y" "sorted (map stage (y # zs))" by (auto dest: stage_mono)
  then show ?case by (auto simp: order.trans)
qed auto

lemma path_terminal_last:
  "successively legal (p @ s # q) \<Longrightarrow> terminal s \<Longrightarrow> q = []"
  by (cases q) (auto simp: successively_append_iff dest: terminal_stuck)

end

end
