(* ===== verification/Governors.thy ===== *)
theory Governors
  imports PyNum Interfaces
begin

text \<open>
  \<open>intraday_governors.py\<close>: the cadence checkpoints and the session's rate limiters.
  \<open>gov_config\<close>, \<open>gov_state\<close> and \<open>gov_verdict\<close> are the dataclasses, \<open>load_governor_config\<close> the
  loader, \<open>evaluate_governor\<close> the four checks, \<open>evaluate_tick_intents\<close> the sequential evaluation
  of a tick's intents, \<open>on_tick\<close> the shadow observer. Intents are JSON objects. The texts of error
  messages and of a verdict's \<open>details\<close> are left out; the moment a tick record is stamped with
  is read by a parameter \<open>parse_ts\<close>.
\<close>

section \<open>Cadence checkpoints\<close>

record checkpoint =
  cp_name :: string
  cp_offset_minutes :: int

definition DEFAULT_CHECKPOINTS :: "checkpoint list" where
  "DEFAULT_CHECKPOINTS = [\<lparr>cp_name = ''open_plus_30'', cp_offset_minutes = 30\<rparr>,
     \<lparr>cp_name = ''midday'', cp_offset_minutes = 180\<rparr>,
     \<lparr>cp_name = ''power_hour'', cp_offset_minutes = -60\<rparr>]"

definition minutes :: "int \<Rightarrow> int" where "minutes m = m * 60000000"

definition resolve :: "checkpoint \<Rightarrow> int \<Rightarrow> int \<Rightarrow> int" where
  "resolve cp session_open session_close =
     (if cp_offset_minutes cp < 0 then session_close + minutes (cp_offset_minutes cp)
      else session_open + minutes (cp_offset_minutes cp))"

definition resolve_checkpoints :: "checkpoint list \<Rightarrow> int \<Rightarrow> int \<Rightarrow> (string \<times> int) list" where
  "resolve_checkpoints cps session_open session_close =
     sort_key snd (filter (\<lambda>(n, t). session_open \<le> t \<and> t < session_close)
       (map (\<lambda>cp. (cp_name cp, resolve cp session_open session_close)) cps))"

fun active_checkpoint :: "(string \<times> int) list \<Rightarrow> int \<Rightarrow> pyfloat \<Rightarrow> py_error + string option" where
  "active_checkpoint [] now window = Inr None"
| "active_checkpoint ((name, t) # cps) now window =
     (if t \<le> now then
        (case timedelta_seconds window of
           Inl e \<Rightarrow> Inl e
         | Inr w \<Rightarrow> if now < t + w then Inr (Some name) else active_checkpoint cps now window)
      else active_checkpoint cps now window)"

section \<open>Configuration\<close>

datatype gov_error = NotAMapping | EnabledNotBool json | NotAnInteger string json
  | NotANumber string json | MustBeNonneg string json | CheckpointsNotList json

record gov_config =
  gc_enabled :: bool
  gc_max_actions_per_session :: int
  gc_max_turnover_fraction :: pyfloat
  gc_min_seconds_between_same_ticker :: pyfloat
  gc_loss_cooldown_seconds :: pyfloat
  gc_loss_threshold_usd :: pyfloat
  gc_checkpoint_names :: "string list"
  gc_config_errors :: "gov_error list"

definition default_gov_config :: gov_config where
  "default_gov_config = \<lparr>gc_enabled = False, gc_max_actions_per_session = 0,
     gc_max_turnover_fraction = Num 0, gc_min_seconds_between_same_ticker = Num 0,
     gc_loss_cooldown_seconds = Num 0, gc_loss_threshold_usd = Num 0,
     gc_checkpoint_names = [], gc_config_errors = []\<rparr>"

text \<open>The nested helpers \<open>_nonneg_int\<close> and \<open>_nonneg_float\<close>: the value, and the errors noted.
  They catch \<open>TypeError\<close> and \<open>ValueError\<close> only.\<close>

definition nonneg_int :: "json dict \<Rightarrow> string \<Rightarrow> int \<Rightarrow> py_error + (int \<times> gov_error list)" where
  "nonneg_int section key dflt =
     (let raw = dget section key (JInt dflt) in
      case py_int raw of
        Inl e \<Rightarrow> if e \<in> {TypeError, ValueError} then Inr (dflt, [NotAnInteger key raw]) else Inl e
      | Inr v \<Rightarrow> if v < 0 then Inr (dflt, [MustBeNonneg key raw]) else Inr (v, []))"

definition nonneg_float :: "json dict \<Rightarrow> string \<Rightarrow> pyfloat \<Rightarrow> py_error + (pyfloat \<times> gov_error list)" where
  "nonneg_float section key dflt =
     (let raw = dget section key (JFloat dflt) in
      case py_float raw of
        Inl e \<Rightarrow> if e \<in> {TypeError, ValueError} then Inr (dflt, [NotANumber key raw]) else Inl e
      | Inr v \<Rightarrow> if flt v (Num 0) then Inr (dflt, [MustBeNonneg key raw]) else Inr (v, []))"

definition load_section :: "json dict \<Rightarrow> py_error + gov_config" where
  "load_section section =
     (let enabled_raw = dget section ''enabled'' (JBool False);
          (enabled, errs0) = (case enabled_raw of JBool b \<Rightarrow> (b, []) | _ \<Rightarrow> (False, [EnabledNotBool enabled_raw])) in
      case nonneg_int section ''max_actions_per_session'' 0 of Inl e \<Rightarrow> Inl e | Inr (max_actions, errs1) \<Rightarrow>
      case nonneg_float section ''max_turnover_fraction'' (Num 0) of Inl e \<Rightarrow> Inl e | Inr (max_turnover, errs2) \<Rightarrow>
      case nonneg_float section ''min_seconds_between_same_ticker'' (Num 0) of Inl e \<Rightarrow> Inl e | Inr (min_cd, errs3) \<Rightarrow>
      case nonneg_float section ''loss_cooldown_seconds'' (Num 0) of Inl e \<Rightarrow> Inl e | Inr (loss_cd, errs4) \<Rightarrow>
      case nonneg_float section ''loss_threshold_usd'' (Num 0) of Inl e \<Rightarrow> Inl e | Inr (loss_thr, errs5) \<Rightarrow>
      (let cp_raw = dget section ''checkpoint_names'' (JList []);
           (names, errs6) = (case cp_raw of
               JList xs \<Rightarrow> (filter (\<lambda>s. s \<noteq> []) (map (py_strip \<circ> py_str) xs), [])
             | _ \<Rightarrow> ([], [CheckpointsNotList cp_raw]));
           errors = errs0 @ errs1 @ errs2 @ errs3 @ errs4 @ errs5 @ errs6 in
       Inr \<lparr>gc_enabled = enabled \<and> errors = [], gc_max_actions_per_session = max_actions,
            gc_max_turnover_fraction = max_turnover, gc_min_seconds_between_same_ticker = min_cd,
            gc_loss_cooldown_seconds = loss_cd, gc_loss_threshold_usd = loss_thr,
            gc_checkpoint_names = names, gc_config_errors = errors\<rparr>))"

definition load_governor_config :: "json dict \<Rightarrow> py_error + gov_config" where
  "load_governor_config strategy_config =
     (case dget strategy_config ''intraday_governors'' JNull of
        JNull \<Rightarrow> Inr default_gov_config
      | JObj section \<Rightarrow> load_section section
      | _ \<Rightarrow> Inr (default_gov_config\<lparr>gc_config_errors := [NotAMapping]\<rparr>))"

section \<open>State\<close>

record gov_state =
  gs_action_count :: int
  gs_turnover_notional :: pyfloat
  gs_session_equity :: pyfloat
  gs_last_action_by_ticker :: "int dict"
  gs_last_loss_at :: "int option"
  gs_last_loss_usd :: pyfloat

definition new_gov_state :: "pyfloat \<Rightarrow> gov_state" where
  "new_gov_state equity = \<lparr>gs_action_count = 0, gs_turnover_notional = Num 0,
     gs_session_equity = equity, gs_last_action_by_ticker = [], gs_last_loss_at = None,
     gs_last_loss_usd = Num 0\<rparr>"

definition record_action ::
  "string \<Rightarrow> pyfloat \<Rightarrow> int \<Rightarrow> pyfloat option \<Rightarrow> pyfloat \<Rightarrow> gov_state \<Rightarrow> gov_state" where
  "record_action ticker notional moment realized_pnl loss_threshold st =
     (let st = st\<lparr>gs_action_count := gs_action_count st + 1,
                  gs_turnover_notional := fadd (gs_turnover_notional st) (fabs notional),
                  gs_last_action_by_ticker := dset (gs_last_action_by_ticker st) ticker moment\<rparr> in
      case realized_pnl of
        None \<Rightarrow> st
      | Some pnl \<Rightarrow> if flt pnl (fneg (fabs loss_threshold))
                     then st\<lparr>gs_last_loss_at := Some moment, gs_last_loss_usd := pnl\<rparr> else st)"

definition turnover_fraction :: "gov_state \<Rightarrow> py_error + pyfloat" where
  "turnover_fraction st =
     (if fle (gs_session_equity st) (Num 0) then Inr (Num 0)
      else fdiv (gs_turnover_notional st) (gs_session_equity st))"

section \<open>The four checks\<close>

datatype block_reason = BLOCK_MAX_ACTIONS | BLOCK_MAX_TURNOVER | BLOCK_TICKER_COOLDOWN
  | BLOCK_LOSS_COOLDOWN

record gov_verdict =
  gov_allowed :: bool
  gov_blocked_reasons :: "block_reason list"

text \<open>\<open>(now - then).total_seconds()\<close>\<close>

definition seconds_between :: "int \<Rightarrow> int \<Rightarrow> pyfloat" where
  "seconds_between since now = Num (of_int (now - since) / 1000000)"

definition hits_max_actions :: "gov_config \<Rightarrow> gov_state \<Rightarrow> bool" where
  "hits_max_actions cfg st \<longleftrightarrow> gc_max_actions_per_session cfg > 0 \<and>
     gs_action_count st \<ge> gc_max_actions_per_session cfg"

text \<open>The equity is positive where the division is reached, so it does not raise.\<close>

definition hits_max_turnover :: "gov_config \<Rightarrow> gov_state \<Rightarrow> pyfloat \<Rightarrow> bool" where
  "hits_max_turnover cfg st notional \<longleftrightarrow>
     flt (Num 0) (gc_max_turnover_fraction cfg) \<and> flt (Num 0) (gs_session_equity st) \<and>
     (case fdiv (fadd (gs_turnover_notional st) (fabs notional)) (gs_session_equity st) of
        Inl e \<Rightarrow> False
      | Inr projected \<Rightarrow> flt (gc_max_turnover_fraction cfg) projected)"

definition hits_ticker_cooldown :: "gov_config \<Rightarrow> gov_state \<Rightarrow> string \<Rightarrow> int \<Rightarrow> bool" where
  "hits_ticker_cooldown cfg st ticker now \<longleftrightarrow>
     flt (Num 0) (gc_min_seconds_between_same_ticker cfg) \<and>
     (case map_of (gs_last_action_by_ticker st) ticker of
        None \<Rightarrow> False
      | Some prev \<Rightarrow> flt (seconds_between prev now) (gc_min_seconds_between_same_ticker cfg))"

definition is_entry :: "string \<Rightarrow> bool" where
  "is_entry side \<longleftrightarrow> py_upper side \<in> {''BUY'', ''ENTRY''}"

definition hits_loss_cooldown :: "gov_config \<Rightarrow> gov_state \<Rightarrow> string \<Rightarrow> int \<Rightarrow> bool" where
  "hits_loss_cooldown cfg st side now \<longleftrightarrow>
     is_entry side \<and> flt (Num 0) (gc_loss_cooldown_seconds cfg) \<and>
     (case gs_last_loss_at st of
        None \<Rightarrow> False
      | Some lost_at \<Rightarrow> flt (seconds_between lost_at now) (gc_loss_cooldown_seconds cfg))"

definition evaluate_governor ::
  "gov_config \<Rightarrow> gov_state \<Rightarrow> string \<Rightarrow> string \<Rightarrow> pyfloat \<Rightarrow> int \<Rightarrow> gov_verdict" where
  "evaluate_governor cfg st ticker side notional now =
     (if \<not> gc_enabled cfg then \<lparr>gov_allowed = True, gov_blocked_reasons = []\<rparr>
      else (let reasons =
          (if hits_max_actions cfg st then [BLOCK_MAX_ACTIONS] else []) @
          (if hits_max_turnover cfg st notional then [BLOCK_MAX_TURNOVER] else []) @
          (if hits_ticker_cooldown cfg st ticker now then [BLOCK_TICKER_COOLDOWN] else []) @
          (if hits_loss_cooldown cfg st side now then [BLOCK_LOSS_COOLDOWN] else [])
        in \<lparr>gov_allowed = (reasons = []), gov_blocked_reasons = reasons\<rparr>))"

section \<open>A tick's intents\<close>

text \<open>What the evaluation reads from an intent: ticker, side and notional.\<close>

definition intent_ticker :: "json dict \<Rightarrow> string" where
  "intent_ticker d = py_str (dget d ''symbol'' (dget d ''ticker'' (JStr [])))"

definition intent_side :: "json dict \<Rightarrow> string" where
  "intent_side d = py_str (dget d ''side'' (JStr []))"

definition intent_notional :: "json dict \<Rightarrow> py_error + pyfloat" where
  "intent_notional d = py_float (dget d ''notional'' (JFloat (Num 0)))"

fun reason_code :: "block_reason \<Rightarrow> string" where
  "reason_code BLOCK_MAX_ACTIONS = ''governor_max_actions_per_session''"
| "reason_code BLOCK_MAX_TURNOVER = ''governor_max_turnover_fraction''"
| "reason_code BLOCK_TICKER_COOLDOWN = ''governor_ticker_cooldown''"
| "reason_code BLOCK_LOSS_COOLDOWN = ''governor_loss_cooldown''"

definition verdict_record :: "gov_verdict \<Rightarrow> json" where
  "verdict_record v = JObj [(''allowed'', JBool (gov_allowed v)),
     (''blocked_reasons'', JList (map (JStr \<circ> reason_code) (gov_blocked_reasons v)))]"

definition annotate :: "json dict \<Rightarrow> gov_verdict \<Rightarrow> json dict" where
  "annotate d v = dset (dset d ''governor_verdict'' (verdict_record v))
     ''governor_blocked'' (JBool (\<not> gov_allowed v))"

text \<open>The loop, with the scratch state it leaves.\<close>

fun evaluate_intents ::
  "gov_config \<Rightarrow> gov_state \<Rightarrow> int \<Rightarrow> json dict list \<Rightarrow> py_error + (json dict list \<times> gov_state)" where
  "evaluate_intents cfg scratch now [] = Inr ([], scratch)"
| "evaluate_intents cfg scratch now (d # ds) =
     (case intent_notional d of
        Inl e \<Rightarrow> Inl e
      | Inr notional \<Rightarrow>
          (let v = evaluate_governor cfg scratch (intent_ticker d) (intent_side d) notional now;
               scratch' = (if gov_allowed v
                 then record_action (intent_ticker d) notional now None (Num 0) scratch else scratch)
           in case evaluate_intents cfg scratch' now ds of
                Inl e \<Rightarrow> Inl e
              | Inr (as, final) \<Rightarrow> Inr (annotate d v # as, final)))"

definition evaluate_tick_intents ::
  "gov_config \<Rightarrow> gov_state \<Rightarrow> json dict list \<Rightarrow> int \<Rightarrow> py_error + json dict list" where
  "evaluate_tick_intents cfg st intents now =
     (case evaluate_intents cfg st now intents of Inl e \<Rightarrow> Inl e | Inr (as, _) \<Rightarrow> Inr as)"

section \<open>The evaluator and the shadow observer\<close>

record gov_evaluator =
  ge_config :: gov_config
  ge_state :: gov_state
  ge_tick_count :: nat

definition new_gov_evaluator :: "gov_config \<Rightarrow> pyfloat \<Rightarrow> gov_evaluator" where
  "new_gov_evaluator cfg equity =
     \<lparr>ge_config = cfg, ge_state = new_gov_state equity, ge_tick_count = 0\<rparr>"

definition ge_evaluate ::
  "gov_evaluator \<Rightarrow> json dict list \<Rightarrow> int \<Rightarrow> gov_evaluator \<times> (py_error + json dict list)" where
  "ge_evaluate ge intents now =
     (ge\<lparr>ge_tick_count := ge_tick_count ge + 1\<rparr>,
      evaluate_tick_intents (ge_config ge) (ge_state ge) intents now)"

definition ge_record_action ::
  "string \<Rightarrow> pyfloat \<Rightarrow> int \<Rightarrow> pyfloat option \<Rightarrow> gov_evaluator \<Rightarrow> gov_evaluator" where
  "ge_record_action ticker notional moment realized_pnl ge =
     ge\<lparr>ge_state := record_action ticker notional moment realized_pnl
          (gc_loss_threshold_usd (ge_config ge)) (ge_state ge)\<rparr>"

record gov_evaluation =
  gev_n_intents :: nat
  gev_n_blocked :: nat
  gev_state_after :: gov_state

record gov_observer =
  go_evaluator :: gov_evaluator
  go_evaluations :: "gov_evaluation list"

definition is_blocked :: "json dict \<Rightarrow> bool" where
  "is_blocked a = truthy (dget a ''governor_blocked'' JNull)"

text \<open>The second loop of \<open>on_tick\<close>: the actions of the intents that were not blocked.\<close>

fun accumulate :: "json dict list \<Rightarrow> int \<Rightarrow> gov_evaluator \<Rightarrow> gov_evaluator \<times> py_error option" where
  "accumulate [] now ge = (ge, None)"
| "accumulate (a # as) now ge =
     (if is_blocked a then accumulate as now ge
      else (case intent_notional a of
          Inl e \<Rightarrow> (ge, Some e)
        | Inr notional \<Rightarrow> accumulate as now (ge_record_action (intent_ticker a) notional now None ge)))"

text \<open>A tick record: its moment as stamped, and the intents of its decisions.\<close>

record tick_record =
  tr_tick_at :: string
  tr_intents :: "json dict list"

definition on_tick ::
  "(string \<Rightarrow> int option) \<Rightarrow> tick_record \<Rightarrow> gov_observer \<Rightarrow> gov_observer \<times> py_error option" where
  "on_tick parse_ts rec obs =
     (if tr_tick_at rec = [] then (obs, None)
      else (case parse_ts (tr_tick_at rec) of
          None \<Rightarrow> (obs, None)
        | Some now \<Rightarrow>
            (case ge_evaluate (go_evaluator obs) (tr_intents rec) now of
               (ge, Inl e) \<Rightarrow> (obs\<lparr>go_evaluator := ge\<rparr>, Some e)
             | (ge, Inr annotated) \<Rightarrow>
                 (let evaluation = \<lparr>gev_n_intents = length (tr_intents rec),
                        gev_n_blocked = length (filter is_blocked annotated),
                        gev_state_after = ge_state ge\<rparr>;
                      (ge', err) = accumulate annotated now ge
                  in (\<lparr>go_evaluator = ge', go_evaluations = go_evaluations obs @ [evaluation]\<rparr>, err)))))"

section \<open>Lemmas on a tick\<close>

lemma annotate_view [simp]:
  "intent_ticker (annotate d v) = intent_ticker d"
  "intent_side (annotate d v) = intent_side d"
  "intent_notional (annotate d v) = intent_notional d"
  "is_blocked (annotate d v) = (\<not> gov_allowed v)"
  by (simp_all add: annotate_def intent_ticker_def intent_side_def intent_notional_def is_blocked_def)

lemma record_action_None:
  "gs_action_count (record_action t n m None thr st) = gs_action_count st + 1"
  "gs_turnover_notional (record_action t n m None thr st) = fadd (gs_turnover_notional st) (fabs n)"
  "gs_session_equity (record_action t n m None thr st) = gs_session_equity st"
  "map_of (gs_last_action_by_ticker (record_action t n m None thr st)) u
     = (if u = t then Some m else map_of (gs_last_action_by_ticker st) u)"
  by (simp_all add: record_action_def Let_def)

lemma record_action_threshold: "record_action t n m None thr st = record_action t n m None thr' st"
  by (simp add: record_action_def)

lemma evaluate_intents_length:
  "evaluate_intents cfg st now ds = Inr (as, final) \<Longrightarrow> length as = length ds"
proof (induction ds arbitrary: st as)
  case (Cons d ds)
  then show ?case by (auto simp: Let_def split: sum.splits prod.splits)
qed simp

text \<open>What the observer accumulates is the scratch state the evaluation ended with.\<close>

lemma accumulate_final:
  assumes "evaluate_intents cfg st now ds = Inr (as, final)" and "ge_state ge = st"
  shows "accumulate as now ge = (ge\<lparr>ge_state := final\<rparr>, None)"
  using assms
proof (induction ds arbitrary: st as ge)
  case Nil
  then show ?case by simp
next
  case (Cons d ds)
  from Cons.prems(1) obtain n where n: "intent_notional d = Inr n"
    by (cases "intent_notional d") auto
  let ?v = "evaluate_governor cfg st (intent_ticker d) (intent_side d) n now"
  let ?st = "if gov_allowed ?v then record_action (intent_ticker d) n now None (Num 0) st else st"
  from Cons.prems(1) n obtain bs where b: "evaluate_intents cfg ?st now ds = Inr (bs, final)"
    and as: "as = annotate d ?v # bs"
    by (auto simp: Let_def split: sum.splits prod.splits)
  show ?case
  proof (cases "gov_allowed ?v")
    case False
    with Cons.IH [OF b] Cons.prems(2) as show ?thesis by simp
  next
    case True
    let ?ge = "ge_record_action (intent_ticker d) n now None ge"
    have "ge_state ?ge = ?st"
      using True Cons.prems(2)
      by (simp add: ge_record_action_def record_action_threshold [of _ _ _ "gc_loss_threshold_usd (ge_config ge)" _ "Num 0"])
    from Cons.IH [OF b this] True as n show ?thesis by (simp add: ge_record_action_def)
  qed
qed

lemma evaluate_intents_count:
  assumes "evaluate_intents cfg st now ds = Inr (as, final)"
    and "gc_enabled cfg" "0 < gc_max_actions_per_session cfg"
    and "gs_action_count st \<le> gc_max_actions_per_session cfg"
  shows "gs_action_count final \<le> gc_max_actions_per_session cfg"
  using assms
proof (induction ds arbitrary: st as)
  case (Cons d ds)
  from Cons.prems(1) obtain n bs where
    b: "evaluate_intents cfg
      (if gov_allowed (evaluate_governor cfg st (intent_ticker d) (intent_side d) n now)
       then record_action (intent_ticker d) n now None (Num 0) st else st) now ds = Inr (bs, final)"
    by (auto simp: Let_def split: sum.splits prod.splits)
  show ?case
    by (rule Cons.IH [OF b Cons.prems(2,3)])
      (use Cons.prems(2-4) in \<open>auto simp: evaluate_governor_def hits_max_actions_def record_action_None
         split: if_splits\<close>)
qed simp

lemma evaluate_intents_equity:
  "evaluate_intents cfg st now ds = Inr (as, final) \<Longrightarrow> gs_session_equity final = gs_session_equity st"
proof (induction ds arbitrary: st as)
  case (Cons d ds)
  then show ?case by (auto simp: Let_def record_action_None split: sum.splits prod.splits if_splits)
qed simp

definition turnover_within :: "rat \<Rightarrow> gov_state \<Rightarrow> bool" where
  "turnover_within m st \<longleftrightarrow> (\<exists>t. gs_turnover_notional st = Num t \<and> t \<le> m)"

lemma not_hits_turnover:
  assumes "\<not> hits_max_turnover cfg st n" and "is_num n"
    and "gc_max_turnover_fraction cfg = Num M" "0 < M" "gs_session_equity st = Num E" "0 < E"
    and "turnover_within (M * E) st"
  shows "turnover_within (M * E) (record_action t n now None thr st)"
proof -
  obtain a where a: "n = Num a" using assms(2) by (auto simp: is_num_iff)
  obtain u where u: "gs_turnover_notional st = Num u" using assms(7) by (auto simp: turnover_within_def)
  from assms(1,3-6) a u have "(u + \<bar>a\<bar>) / E \<le> M" by (simp add: hits_max_turnover_def)
  with \<open>0 < E\<close> have "u + \<bar>a\<bar> \<le> M * E" by (simp add: pos_divide_le_eq)
  with a u show ?thesis by (simp add: turnover_within_def record_action_None)
qed

lemma evaluate_intents_turnover:
  assumes "evaluate_intents cfg st now ds = Inr (as, final)"
    and "gc_enabled cfg" "gc_max_turnover_fraction cfg = Num M" "0 < M"
    and "gs_session_equity st = Num E" "0 < E" "turnover_within (M * E) st"
    and "\<forall>d \<in> set ds. \<forall>n. intent_notional d = Inr n \<longrightarrow> is_num n"
  shows "turnover_within (M * E) final"
  using assms
proof (induction ds arbitrary: st as)
  case (Cons d ds)
  from Cons.prems(1) obtain n where n: "intent_notional d = Inr n"
    by (cases "intent_notional d") auto
  let ?v = "evaluate_governor cfg st (intent_ticker d) (intent_side d) n now"
  let ?st = "if gov_allowed ?v then record_action (intent_ticker d) n now None (Num 0) st else st"
  from Cons.prems(1) n obtain bs where b: "evaluate_intents cfg ?st now ds = Inr (bs, final)"
    by (auto simp: Let_def split: sum.splits prod.splits)
  have "gov_allowed ?v \<Longrightarrow> \<not> hits_max_turnover cfg st n"
    using Cons.prems(2) by (auto simp: evaluate_governor_def split: if_splits)
  then have "turnover_within (M * E) ?st"
    using not_hits_turnover [of cfg st n M E "intent_ticker d" now "Num 0"] Cons.prems n by auto
  moreover have "gs_session_equity ?st = Num E" using Cons.prems(5) by (simp add: record_action_None)
  ultimately show ?case using Cons.IH [OF b] Cons.prems by simp
qed simp

lemma cooldown_blocks:
  assumes "gc_enabled cfg" and "gc_min_seconds_between_same_ticker cfg = Num c" "0 < c"
    and "map_of (gs_last_action_by_ticker st) t = Some now"
  shows "\<not> gov_allowed (evaluate_governor cfg st t side n now)"
proof -
  have "hits_ticker_cooldown cfg st t now"
    using assms by (simp add: hits_ticker_cooldown_def seconds_between_def)
  with assms(1) show ?thesis by (simp add: evaluate_governor_def)
qed

lemma evaluate_intents_cooldown:
  assumes "evaluate_intents cfg st now ds = Inr (as, final)"
    and "gc_enabled cfg" and "gc_min_seconds_between_same_ticker cfg = Num c" "0 < c"
  shows "distinct (map intent_ticker (filter (\<lambda>a. \<not> is_blocked a) as)) \<and>
    (\<forall>a \<in> set as. \<not> is_blocked a \<longrightarrow> map_of (gs_last_action_by_ticker st) (intent_ticker a) \<noteq> Some now)"
  using assms
proof (induction ds arbitrary: st as)
  case (Cons d ds)
  from Cons.prems(1) obtain n where n: "intent_notional d = Inr n"
    by (cases "intent_notional d") auto
  let ?v = "evaluate_governor cfg st (intent_ticker d) (intent_side d) n now"
  let ?st = "if gov_allowed ?v then record_action (intent_ticker d) n now None (Num 0) st else st"
  from Cons.prems(1) n obtain bs where b: "evaluate_intents cfg ?st now ds = Inr (bs, final)"
    and as: "as = annotate d ?v # bs"
    by (auto simp: Let_def split: sum.splits prod.splits)
  note IH = Cons.IH [OF b Cons.prems(2-4)]
  show ?case
  proof (cases "gov_allowed ?v")
    case False
    with IH as show ?thesis by simp
  next
    case True
    have "map_of (gs_last_action_by_ticker st) (intent_ticker d) \<noteq> Some now"
      using cooldown_blocks [OF Cons.prems(2-4)] True by blast
    moreover have "intent_ticker d \<notin> intent_ticker ` set (filter (\<lambda>a. \<not> is_blocked a) bs)"
      using IH True by (auto simp: record_action_None)
    ultimately show ?thesis using IH True as by (auto simp: record_action_None split: if_splits)
  qed
qed simp

section \<open>A session of the observer\<close>

text \<open>The scheduler swallows an observer's exception and goes on with the next tick.\<close>

definition observe :: "(string \<Rightarrow> int option) \<Rightarrow> tick_record list \<Rightarrow> gov_observer \<Rightarrow> gov_observer" where
  "observe parse_ts recs obs = fold (\<lambda>r o'. fst (on_tick parse_ts r o')) recs obs"

text \<open>One tick leaves the evaluator's state as it was or at the end of the tick's evaluation.\<close>

lemma on_tick_cases:
  obtains (same) "ge_state (go_evaluator (fst (on_tick p r obs))) = ge_state (go_evaluator obs)"
    | (ran) now as where
      "evaluate_intents (ge_config (go_evaluator obs)) (ge_state (go_evaluator obs)) now (tr_intents r)
         = Inr (as, ge_state (go_evaluator (fst (on_tick p r obs))))"
proof (cases "tr_tick_at r = [] \<or> p (tr_tick_at r) = None")
  case True
  then show ?thesis by (intro same) (auto simp: on_tick_def split: option.splits)
next
  case False
  then obtain now where now: "tr_tick_at r \<noteq> []" "p (tr_tick_at r) = Some now" by auto
  let ?ge = "go_evaluator obs"
  show ?thesis
  proof (cases "evaluate_intents (ge_config ?ge) (ge_state ?ge) now (tr_intents r)")
    case (Inl e)
    with now show ?thesis
      by (intro same) (simp add: on_tick_def ge_evaluate_def evaluate_tick_intents_def)
  next
    case (Inr q)
    obtain as final where q: "q = (as, final)" by (cases q)
    from accumulate_final [OF Inr [unfolded q], of "?ge\<lparr>ge_tick_count := ge_tick_count ?ge + 1\<rparr>"]
    have "ge_state (go_evaluator (fst (on_tick p r obs))) = final"
      using now Inr q by (simp add: on_tick_def ge_evaluate_def evaluate_tick_intents_def Let_def)
    with Inr q show ?thesis by (intro ran) simp
  qed
qed

lemma accumulate_config: "accumulate as now ge = (ge', err) \<Longrightarrow> ge_config ge' = ge_config ge"
  by (induction as now ge rule: accumulate.induct)
    (auto simp: ge_record_action_def split: sum.splits if_splits)

lemma on_tick_config: "ge_config (go_evaluator (fst (on_tick p r obs))) = ge_config (go_evaluator obs)"
  by (auto simp: on_tick_def ge_evaluate_def Let_def split: option.splits sum.splits prod.splits
      dest!: accumulate_config)

lemma observe_config: "ge_config (go_evaluator (observe p rs obs)) = ge_config (go_evaluator obs)"
  by (induction rs arbitrary: obs) (simp_all add: observe_def on_tick_config)

lemma observe_count:
  assumes "gc_enabled (ge_config (go_evaluator obs))"
    and "0 < gc_max_actions_per_session (ge_config (go_evaluator obs))"
    and "gs_action_count (ge_state (go_evaluator obs)) \<le> gc_max_actions_per_session (ge_config (go_evaluator obs))"
  shows "gs_action_count (ge_state (go_evaluator (observe p rs obs)))
    \<le> gc_max_actions_per_session (ge_config (go_evaluator obs))"
  using assms
proof (induction rs arbitrary: obs)
  case (Cons r rs)
  let ?o = "fst (on_tick p r obs)"
  have "gs_action_count (ge_state (go_evaluator ?o)) \<le> gc_max_actions_per_session (ge_config (go_evaluator obs))"
    by (rule on_tick_cases [of p r obs]) (use Cons.prems evaluate_intents_count in fastforce)+
  with Cons.IH [of ?o] Cons.prems show ?case by (simp add: observe_def on_tick_config)
qed (simp add: observe_def)

lemma observe_turnover:
  assumes "gc_enabled (ge_config (go_evaluator obs))"
    and "gc_max_turnover_fraction (ge_config (go_evaluator obs)) = Num M" "0 < M"
    and "gs_session_equity (ge_state (go_evaluator obs)) = Num E" "0 < E"
    and "turnover_within (M * E) (ge_state (go_evaluator obs))"
    and "\<forall>r \<in> set rs. \<forall>d \<in> set (tr_intents r). \<forall>n. intent_notional d = Inr n \<longrightarrow> is_num n"
  shows "turnover_within (M * E) (ge_state (go_evaluator (observe p rs obs)))"
  using assms
proof (induction rs arbitrary: obs)
  case (Cons r rs)
  let ?o = "fst (on_tick p r obs)"
  have "turnover_within (M * E) (ge_state (go_evaluator ?o)) \<and>
      gs_session_equity (ge_state (go_evaluator ?o)) = Num E"
  proof (rule on_tick_cases [of p r obs])
    fix now as
    assume e: "evaluate_intents (ge_config (go_evaluator obs)) (ge_state (go_evaluator obs)) now (tr_intents r)
         = Inr (as, ge_state (go_evaluator ?o))"
    from evaluate_intents_turnover [OF e Cons.prems(1-6)] evaluate_intents_equity [OF e] Cons.prems
    show ?thesis by simp
  qed (use Cons.prems in simp)
  with Cons.IH [of ?o] Cons.prems show ?case by (simp add: observe_def on_tick_config)
qed (simp add: observe_def)

section \<open>Lemmas on the loader and the checkpoints\<close>

lemma nonneg_int_ok: "nonneg_int sec key d = Inr (v, es) \<Longrightarrow> 0 \<le> d \<Longrightarrow> 0 \<le> v"
  by (auto simp: nonneg_int_def Let_def split: sum.splits if_splits)

lemma nonneg_float_ok: "nonneg_float sec key d = Inr (v, es) \<Longrightarrow> \<not> flt d (Num 0) \<Longrightarrow> \<not> flt v (Num 0)"
  by (auto simp: nonneg_float_def Let_def split: sum.splits if_splits)

definition gov_config_ok :: "gov_config \<Rightarrow> bool" where
  "gov_config_ok c \<longleftrightarrow> 0 \<le> gc_max_actions_per_session c \<and>
     \<not> flt (gc_max_turnover_fraction c) (Num 0) \<and>
     \<not> flt (gc_min_seconds_between_same_ticker c) (Num 0) \<and>
     \<not> flt (gc_loss_cooldown_seconds c) (Num 0) \<and> \<not> flt (gc_loss_threshold_usd c) (Num 0)"

lemma load_section_ok:
  assumes "load_section sec = Inr c"
  shows "gov_config_ok c \<and>
    (gc_enabled c \<longrightarrow> gc_config_errors c = [] \<and> dget sec ''enabled'' (JBool False) = JBool True)"
proof -
  let ?raw = "dget sec ''enabled'' (JBool False)"
  from assms obtain m e1 t e2 s' e3 l e4 h e5 where
    n: "nonneg_int sec ''max_actions_per_session'' 0 = Inr (m, e1)"
      "nonneg_float sec ''max_turnover_fraction'' (Num 0) = Inr (t, e2)"
      "nonneg_float sec ''min_seconds_between_same_ticker'' (Num 0) = Inr (s', e3)"
      "nonneg_float sec ''loss_cooldown_seconds'' (Num 0) = Inr (l, e4)"
      "nonneg_float sec ''loss_threshold_usd'' (Num 0) = Inr (h, e5)"
    by (fastforce simp: load_section_def Let_def split: sum.splits prod.splits)
  have "gov_config_ok c"
    using assms nonneg_int_ok [OF n(1)] n(2-5) [THEN nonneg_float_ok]
    by (auto simp: load_section_def Let_def n gov_config_ok_def split: prod.splits)
  moreover have "gc_enabled c \<longrightarrow> gc_config_errors c = [] \<and> ?raw = JBool True"
    using assms by (cases ?raw) (auto simp: load_section_def Let_def n split: prod.splits)
  ultimately show ?thesis by blast
qed

lemma active_checkpoint_sound:
  assumes "active_checkpoint cps now (Num w) = Inr (Some name)"
  shows "\<exists>t. (name, t) \<in> set cps \<and> t \<le> now \<and> now < t + round_half_even (w * 1000000)"
  using assms
proof (induction cps)
  case (Cons c cps)
  obtain n t where "c = (n, t)" by (cases c)
  with Cons show ?case by (auto split: if_splits)
qed simp

section \<open>Properties\<close>

text \<open>C39: over any session of the shadow observer, whatever the tick records hold and whether or
  not single ticks fail, the accumulated action count stays within
  \<open>max_actions_per_session\<close>, and, when every notional is a finite number, the accumulated
  turnover stays within \<open>max_turnover_fraction\<close> of the session equity.\<close>

theorem governor_session_caps:
  assumes "gc_enabled cfg" and "0 < gc_max_actions_per_session cfg"
    and "gc_max_turnover_fraction cfg = Num M" "0 < M" and "0 < E"
    and "\<forall>r \<in> set recs. \<forall>d \<in> set (tr_intents r). \<forall>n. intent_notional d = Inr n \<longrightarrow> is_num n"
  shows "let obs = observe parse_ts recs
        \<lparr>go_evaluator = new_gov_evaluator cfg (Num E), go_evaluations = []\<rparr>;
      st = ge_state (go_evaluator obs) in
    gs_action_count st \<le> gc_max_actions_per_session cfg \<and>
    (\<exists>t. gs_turnover_notional st = Num t \<and> t \<le> M * E)"
proof -
  let ?obs = "\<lparr>go_evaluator = new_gov_evaluator cfg (Num E), go_evaluations = []\<rparr>"
  have "gs_action_count (ge_state (go_evaluator (observe parse_ts recs ?obs))) \<le> gc_max_actions_per_session cfg"
    using observe_count [of ?obs parse_ts recs] assms by (simp add: new_gov_evaluator_def new_gov_state_def)
  moreover have "turnover_within (M * E) (ge_state (go_evaluator (observe parse_ts recs ?obs)))"
    using observe_turnover [of ?obs M E recs parse_ts] assms
    by (simp add: new_gov_evaluator_def new_gov_state_def turnover_within_def)
  ultimately show ?thesis by (simp add: turnover_within_def Let_def)
qed

theorem governor_session_caps_witness:
  "let cfg = default_gov_config\<lparr>gc_enabled := True, gc_max_actions_per_session := 1,
               gc_max_turnover_fraction := Num (1/2)\<rparr>;
       obs = observe (\<lambda>s. Some 0)
         [\<lparr>tr_tick_at = ''t'', tr_intents = [[(''symbol'', JStr ''A''), (''notional'', JInt 10)],
            [(''symbol'', JStr ''B''), (''notional'', JInt 10)]]\<rparr>]
         \<lparr>go_evaluator = new_gov_evaluator cfg (Num 100), go_evaluations = []\<rparr>
   in gs_action_count (ge_state (go_evaluator obs)) \<le> 1 \<and>
      (\<exists>t. gs_turnover_notional (ge_state (go_evaluator obs)) = Num t \<and> t \<le> 50)"
proof -
  let ?cfg = "default_gov_config\<lparr>gc_enabled := True, gc_max_actions_per_session := 1,
               gc_max_turnover_fraction := Num (1/2)\<rparr>"
  let ?recs = "[\<lparr>tr_tick_at = ''t'', tr_intents = [[(''symbol'', JStr ''A''), (''notional'', JInt 10)],
            [(''symbol'', JStr ''B''), (''notional'', JInt 10)]]\<rparr>]"
  have n: "\<forall>r \<in> set ?recs. \<forall>d \<in> set (tr_intents r). \<forall>n. intent_notional d = Inr n \<longrightarrow> is_num n"
    by (auto simp: intent_notional_def dget_def)
  from governor_session_caps [of ?cfg "1/2" 100 ?recs "\<lambda>s. Some 0", OF _ _ _ _ _ n]
  show ?thesis by (simp add: Let_def)
qed

text \<open>the observer advances its state by exactly the intents its own evaluation allowed. When a
  tick's evaluation ends in a scratch state, the state after \<open>on_tick\<close> is that scratch state, so
  a shadow-blocked intent never counts; and the \<open>state_after\<close> it records for the tick is the
  state from before these actions, not after them.\<close>

theorem observer_matches_evaluation:
  assumes "tr_tick_at r \<noteq> []" and "parse_ts (tr_tick_at r) = Some now"
    and "evaluate_intents (ge_config (go_evaluator obs)) (ge_state (go_evaluator obs)) now (tr_intents r)
      = Inr (as, final)"
  shows "\<exists>obs'. on_tick parse_ts r obs = (obs', None) \<and> ge_state (go_evaluator obs') = final \<and>
    gev_n_blocked (last (go_evaluations obs')) = length (filter is_blocked as) \<and>
    gev_state_after (last (go_evaluations obs')) = ge_state (go_evaluator obs)"
proof -
  let ?ge = "go_evaluator obs"
  from accumulate_final [OF assms(3), of "?ge\<lparr>ge_tick_count := ge_tick_count ?ge + 1\<rparr>"] assms
  show ?thesis by (simp add: on_tick_def ge_evaluate_def evaluate_tick_intents_def Let_def)
qed

theorem observer_matches_evaluation_witness:
  "let cfg = default_gov_config\<lparr>gc_enabled := True, gc_max_actions_per_session := 1\<rparr>;
       obs = \<lparr>go_evaluator = new_gov_evaluator cfg (Num 100), go_evaluations = []\<rparr>;
       r = \<lparr>tr_tick_at = ''t'', tr_intents = [[(''symbol'', JStr ''A''), (''notional'', JInt 10)]]\<rparr>
   in \<exists>obs'. on_tick (\<lambda>s. Some 0) r obs = (obs', None) \<and>
        gs_action_count (ge_state (go_evaluator obs')) = 1 \<and>
        gs_action_count (gev_state_after (last (go_evaluations obs'))) = 0"
proof -
  let ?cfg = "default_gov_config\<lparr>gc_enabled := True, gc_max_actions_per_session := 1\<rparr>"
  let ?obs = "\<lparr>go_evaluator = new_gov_evaluator ?cfg (Num 100), go_evaluations = []\<rparr>"
  let ?d = "[(''symbol'', JStr ''A''), (''notional'', JInt 10)]"
  let ?r = "\<lparr>tr_tick_at = ''t'', tr_intents = [?d]\<rparr>"
  have e: "evaluate_intents (ge_config (go_evaluator ?obs)) (ge_state (go_evaluator ?obs)) 0 (tr_intents ?r)
    = Inr ([annotate ?d \<lparr>gov_allowed = True, gov_blocked_reasons = []\<rparr>],
        record_action ''A'' (Num 10) 0 None (Num 0) (new_gov_state (Num 100)))"
    by (simp add: new_gov_evaluator_def default_gov_config_def intent_notional_def intent_ticker_def
        dget_def evaluate_governor_def hits_max_actions_def hits_max_turnover_def
        hits_ticker_cooldown_def hits_loss_cooldown_def new_gov_state_def Let_def)
  have "\<exists>obs'. on_tick (\<lambda>s. Some 0) ?r ?obs = (obs', None) \<and>
      ge_state (go_evaluator obs') = record_action ''A'' (Num 10) 0 None (Num 0) (new_gov_state (Num 100)) \<and>
      gev_n_blocked (last (go_evaluations obs'))
        = length (filter is_blocked [annotate ?d \<lparr>gov_allowed = True, gov_blocked_reasons = []\<rparr>]) \<and>
      gev_state_after (last (go_evaluations obs')) = ge_state (go_evaluator ?obs)"
    by (rule observer_matches_evaluation [OF _ _ e]) simp_all
  then show ?thesis
    by (auto simp: Let_def record_action_None new_gov_evaluator_def new_gov_state_def)
qed

text \<open>with a positive same-ticker cooldown, one tick never allows two intents of the same
  ticker: the intents are evaluated one after the other, each against the state the allowed ones
  before it left.\<close>

theorem tick_allows_one_intent_per_ticker:
  assumes "evaluate_tick_intents cfg st ds now = Inr as"
    and "gc_enabled cfg" and "gc_min_seconds_between_same_ticker cfg = Num c" and "0 < c"
  shows "distinct (map intent_ticker (filter (\<lambda>a. \<not> is_blocked a) as)) \<and> length as = length ds"
  using assms evaluate_intents_cooldown [of cfg st now ds as] evaluate_intents_length [of cfg st now ds as]
  by (auto simp: evaluate_tick_intents_def split: sum.splits)

theorem tick_allows_one_intent_per_ticker_witness:
  "let cfg = default_gov_config\<lparr>gc_enabled := True, gc_min_seconds_between_same_ticker := Num 60\<rparr>;
       a = [(''symbol'', JStr ''A'')]
   in \<exists>as. evaluate_tick_intents cfg (new_gov_state (Num 100)) [a, a] 0 = Inr as \<and>
        distinct (map intent_ticker (filter (\<lambda>a. \<not> is_blocked a) as)) \<and> length as = 2"
proof -
  let ?cfg = "default_gov_config\<lparr>gc_enabled := True, gc_min_seconds_between_same_ticker := Num 60\<rparr>"
  let ?a = "[(''symbol'', JStr ''A'')]"
  obtain as where e: "evaluate_tick_intents ?cfg (new_gov_state (Num 100)) [?a, ?a] 0 = Inr as"
    by (auto simp: evaluate_tick_intents_def intent_notional_def dget_def Let_def)
  from tick_allows_one_intent_per_ticker [OF e, of 60] e show ?thesis by (simp add: Let_def)
qed

text \<open>the post-loss cooldown never blocks an exit, and an exit's verdict does not depend on
  the recorded loss at all. The other three checks do apply to exits: a sell is blocked once the
  session's action cap is reached.\<close>

theorem exits_and_loss_cooldown:
  "(\<not> is_entry side \<longrightarrow>
     BLOCK_LOSS_COOLDOWN \<notin> set (gov_blocked_reasons (evaluate_governor cfg st t side n now)) \<and>
     evaluate_governor cfg (st\<lparr>gs_last_loss_at := l, gs_last_loss_usd := u\<rparr>) t side n now
       = evaluate_governor cfg st t side n now) \<and>
   (gc_enabled cfg \<and> 0 < gc_max_actions_per_session cfg \<and>
      gc_max_actions_per_session cfg \<le> gs_action_count st \<longrightarrow>
     \<not> gov_allowed (evaluate_governor cfg st t side n now))"
  by (auto simp: evaluate_governor_def hits_max_actions_def hits_max_turnover_def
      hits_ticker_cooldown_def hits_loss_cooldown_def Let_def)

theorem exits_and_loss_cooldown_witness:
  "let cfg = default_gov_config\<lparr>gc_enabled := True, gc_max_actions_per_session := 1\<rparr>
   in \<not> is_entry ''SELL'' \<and>
      \<not> gov_allowed (evaluate_governor cfg ((new_gov_state (Num 1))\<lparr>gs_action_count := 1\<rparr>) ''A'' ''SELL'' (Num 1) 0)"
proof -
  let ?cfg = "default_gov_config\<lparr>gc_enabled := True, gc_max_actions_per_session := 1\<rparr>"
  have "\<not> is_entry ''SELL''" by code_simp
  with exits_and_loss_cooldown [of "''SELL''" ?cfg "(new_gov_state (Num 1))\<lparr>gs_action_count := 1\<rparr>" "''A''" "Num 1" 0]
  show ?thesis by (simp add: Let_def)
qed

text \<open>the governor configuration is enabled only if its section is present, says
  \<open>enabled: true\<close> and has no malformed value; no loaded limit is negative. But a disabled
  configuration, so also every malformed one, allows every intent: the loader disables the
  governors, it does not block.\<close>

theorem governor_config_loader:
  assumes "load_governor_config sc = Inr c"
  shows "gov_config_ok c \<and>
    (gc_enabled c \<longrightarrow> gc_config_errors c = [] \<and>
      (\<exists>sec. map_of sc ''intraday_governors'' = Some (JObj sec) \<and>
         dget sec ''enabled'' (JBool False) = JBool True)) \<and>
    (gc_config_errors c \<noteq> [] \<longrightarrow> gov_allowed (evaluate_governor c st t side n now))"
proof -
  have d: "gov_config_ok default_gov_config" "gov_config_ok (default_gov_config\<lparr>gc_config_errors := es\<rparr>)"
    for es by (simp_all add: gov_config_ok_def default_gov_config_def)
  have l: "gov_config_ok c \<and> (gc_enabled c \<longrightarrow> gc_config_errors c = [] \<and>
      (\<exists>sec. map_of sc ''intraday_governors'' = Some (JObj sec) \<and>
         dget sec ''enabled'' (JBool False) = JBool True))"
  proof (cases "\<exists>sec. dget sc ''intraday_governors'' JNull = JObj sec")
    case True
    then obtain sec where sec: "dget sc ''intraday_governors'' JNull = JObj sec" by blast
    then have m: "map_of sc ''intraday_governors'' = Some (JObj sec)"
      by (simp add: dget_def split: option.splits)
    from assms sec have "load_section sec = Inr c" by (simp add: load_governor_config_def)
    from load_section_ok [OF this] m show ?thesis by blast
  next
    case False
    with assms have "c \<in> {default_gov_config, default_gov_config\<lparr>gc_config_errors := [NotAMapping]\<rparr>}"
      by (auto simp: load_governor_config_def split: json.splits)
    with d show ?thesis by (auto simp: default_gov_config_def)
  qed
  then show ?thesis by (auto simp: evaluate_governor_def)
qed

theorem governor_config_loader_witness:
  "\<exists>c. load_governor_config [(''intraday_governors'', JObj [(''enabled'', JBool True),
         (''max_actions_per_session'', JStr ''x'')])] = Inr c \<and>
     gc_config_errors c \<noteq> [] \<and> \<not> gc_enabled c \<and>
     gov_allowed (evaluate_governor c (new_gov_state (Num 1)) ''A'' ''BUY'' (Num 1000000) 0)"
proof -
  let ?j = "[(''intraday_governors'', JObj [(''enabled'', JBool True),
         (''max_actions_per_session'', JStr ''x'')])]"
  let ?c = "default_gov_config\<lparr>gc_config_errors := [NotAnInteger ''max_actions_per_session'' (JStr ''x'')]\<rparr>"
  have l: "load_governor_config ?j = Inr ?c" by code_simp
  show ?thesis
    using governor_config_loader [OF l, of "new_gov_state (Num 1)" "''A''" "''BUY''" "Num 1000000" 0] l
    by (intro exI [of _ ?c]) (simp add: default_gov_config_def)
qed

text \<open>two malformed limits escape the loader. A NaN turnover cap is accepted without an error
  and leaves the enabled governors with no turnover check; an infinite action cap is not
  reported but raises \<open>OverflowError\<close> out of the loader.\<close>

theorem governor_config_gaps:
  "load_governor_config [(''intraday_governors'', JObj [(''enabled'', JBool True),
       (''max_turnover_fraction'', JFloat NaN)])]
     = Inr (default_gov_config\<lparr>gc_enabled := True, gc_max_turnover_fraction := NaN\<rparr>) \<and>
   \<not> hits_max_turnover (default_gov_config\<lparr>gc_enabled := True, gc_max_turnover_fraction := NaN\<rparr>) st n \<and>
   load_governor_config [(''intraday_governors'', JObj [(''enabled'', JBool True),
       (''max_actions_per_session'', JFloat PInf)])] = Inl OverflowError"
proof (intro conjI)
  show "load_governor_config [(''intraday_governors'', JObj [(''enabled'', JBool True),
       (''max_turnover_fraction'', JFloat NaN)])]
     = Inr (default_gov_config\<lparr>gc_enabled := True, gc_max_turnover_fraction := NaN\<rparr>)"
    by code_simp
  show "load_governor_config [(''intraday_governors'', JObj [(''enabled'', JBool True),
       (''max_actions_per_session'', JFloat PInf)])] = Inl OverflowError"
    by code_simp
qed (simp add: hits_max_turnover_def)

text \<open>the resolved checkpoints are in time order and inside \<open>[open, close)\<close>, on early closes
  too; the active checkpoint is a resolved one whose window contains the moment.\<close>

theorem checkpoints_in_session:
  assumes "active_checkpoint (resolve_checkpoints cps o' c) now (Num w) = Inr (Some name)"
  shows "sorted (map snd (resolve_checkpoints cps o' c)) \<and>
    (\<forall>(n, t) \<in> set (resolve_checkpoints cps o' c). o' \<le> t \<and> t < c) \<and>
    (\<exists>t. (name, t) \<in> set (resolve_checkpoints cps o' c) \<and> t \<le> now \<and>
       now < t + round_half_even (w * 1000000))"
  using active_checkpoint_sound [OF assms] by (auto simp: resolve_checkpoints_def)

theorem checkpoints_in_session_witness:
  "active_checkpoint (resolve_checkpoints DEFAULT_CHECKPOINTS 0 (minutes 210)) (minutes 150) (Num 60)
     = Inr (Some ''power_hour'') \<and>
   sorted (map snd (resolve_checkpoints DEFAULT_CHECKPOINTS 0 (minutes 210)))"
proof -
  have a: "active_checkpoint (resolve_checkpoints DEFAULT_CHECKPOINTS 0 (minutes 210)) (minutes 150) (Num 60)
     = Inr (Some ''power_hour'')" by code_simp
  from checkpoints_in_session [OF a] a show ?thesis by blast
qed

end
