(* ===== verification/OrderLifecycle.thy ===== *)
theory OrderLifecycle
  imports PyNum Interfaces
begin

text \<open>
  \<open>execution_reconciler.py\<close>, part 1: the states of a child order, the legal transitions,
  \<open>LifecycleMachine\<close> (\<open>is_legal\<close>, \<open>advance\<close>, \<open>validate_path\<close>, \<open>from_broker_status\<close>) and the
  relation it decides. \<open>classify_terminal_status\<close> belongs to another package: it is the
  argument \<open>classify\<close>, and the members of its \<open>ChildOrderState\<close> the code names are the
  constructors of \<open>child_state\<close>.
\<close>

section \<open>States and transitions\<close>

datatype order_state = NONE | INTENDED | SUBMITTED | ACCEPTED | PARTIALLY_FILLED | FILLED
  | CANCELED | REJECTED | EXPIRED | REPLACED | STALE_PENDING | UNKNOWN

definition OPEN_STATES :: "order_state list" where
  "OPEN_STATES = [SUBMITTED, ACCEPTED, PARTIALLY_FILLED, STALE_PENDING]"

definition TERMINAL_STATES :: "order_state list" where
  "TERMINAL_STATES = [FILLED, CANCELED, REJECTED, EXPIRED, REPLACED]"

fun LEGAL_TRANSITIONS :: "order_state \<Rightarrow> order_state list" where
  "LEGAL_TRANSITIONS NONE = [INTENDED]"
| "LEGAL_TRANSITIONS INTENDED = [SUBMITTED, REJECTED]"
| "LEGAL_TRANSITIONS SUBMITTED =
     [ACCEPTED, PARTIALLY_FILLED, FILLED, REJECTED, CANCELED, EXPIRED, REPLACED, STALE_PENDING]"
| "LEGAL_TRANSITIONS ACCEPTED =
     [PARTIALLY_FILLED, FILLED, CANCELED, EXPIRED, REJECTED, REPLACED, STALE_PENDING]"
| "LEGAL_TRANSITIONS PARTIALLY_FILLED =
     [PARTIALLY_FILLED, FILLED, CANCELED, EXPIRED, REPLACED, STALE_PENDING]"
| "LEGAL_TRANSITIONS STALE_PENDING = [PARTIALLY_FILLED, FILLED, CANCELED, EXPIRED, REPLACED]"
| "LEGAL_TRANSITIONS _ = []"

definition is_legal :: "order_state \<Rightarrow> order_state \<Rightarrow> bool" where
  "is_legal src dst \<longleftrightarrow> dst \<in> set (LEGAL_TRANSITIONS src)"

text \<open>\<open>IllegalTransition\<close> with its pair and the note that the source is terminal.\<close>

datatype illegal_transition = IllegalTransition order_state order_state bool

definition advance :: "order_state \<Rightarrow> order_state \<Rightarrow> illegal_transition + order_state" where
  "advance src dst =
     (if is_legal src dst then Inr dst
      else Inl (IllegalTransition src dst (src \<in> set TERMINAL_STATES)))"

fun validate_path :: "order_state list \<Rightarrow> illegal_transition + unit" where
  "validate_path (src # dst # states) =
     (case advance src dst of Inl e \<Rightarrow> Inl e | Inr _ \<Rightarrow> validate_path (dst # states))"
| "validate_path _ = Inr ()"

section \<open>Broker statuses\<close>

datatype child_state = ChFilled | ChCanceled | ChRejected | ChExpired | ChOther string

definition TERMINAL_CHILD_TO_ORDER_STATE :: "child_state \<Rightarrow> order_state option" where
  "TERMINAL_CHILD_TO_ORDER_STATE c =
     (case c of ChFilled \<Rightarrow> Some FILLED | ChCanceled \<Rightarrow> Some CANCELED | ChRejected \<Rightarrow> Some REJECTED
      | ChExpired \<Rightarrow> Some EXPIRED | ChOther _ \<Rightarrow> None)"

definition OPEN_ALPACA_STATUS_TO_STATE :: "order_state dict" where
  "OPEN_ALPACA_STATUS_TO_STATE =
     [(''new'', ACCEPTED), (''pending_new'', SUBMITTED), (''accepted'', ACCEPTED),
      (''accepted_for_bidding'', ACCEPTED), (''held'', ACCEPTED), (''calculated'', ACCEPTED),
      (''partially_filled'', PARTIALLY_FILLED), (''pending_cancel'', ACCEPTED),
      (''replaced'', REPLACED), (''pending_replace'', ACCEPTED), (''suspended'', ACCEPTED),
      (''stopped'', ACCEPTED)]"

definition from_broker_status :: "(json \<Rightarrow> child_state option) \<Rightarrow> json \<Rightarrow> py_error + order_state" where
  "from_broker_status classify status =
     (case classify status of
        Some c \<Rightarrow> (case TERMINAL_CHILD_TO_ORDER_STATE c of None \<Rightarrow> Inl KeyError | Some s \<Rightarrow> Inr s)
      | None \<Rightarrow> Inr (dget OPEN_ALPACA_STATUS_TO_STATE (py_lower (py_strip (py_str status))) UNKNOWN))"

section \<open>The transition relation\<close>

text \<open>The lifecycle diagram as a relation, written from its edges.\<close>

inductive order_step :: "order_state \<Rightarrow> order_state \<Rightarrow> bool" where
  intend: "order_step NONE INTENDED"
| submit: "order_step INTENDED SUBMITTED"
| refuse: "order_step INTENDED REJECTED"
| ack: "order_step SUBMITTED ACCEPTED"
| reject: "s \<in> {SUBMITTED, ACCEPTED} \<Longrightarrow> order_step s REJECTED"
| partial: "s \<in> {SUBMITTED, ACCEPTED, PARTIALLY_FILLED, STALE_PENDING} \<Longrightarrow> order_step s PARTIALLY_FILLED"
| stale: "s \<in> {SUBMITTED, ACCEPTED, PARTIALLY_FILLED} \<Longrightarrow> order_step s STALE_PENDING"
| close: "s \<in> set OPEN_STATES \<Longrightarrow> t \<in> {FILLED, CANCELED, EXPIRED, REPLACED} \<Longrightarrow> order_step s t"

inductive_cases order_stepE: "order_step s t"
inductive_simps order_step_iff: "order_step s t"

lemma is_legal_order_step: "is_legal s t \<longleftrightarrow> order_step s t"
  unfolding order_step_iff by (cases s; cases t) (simp_all add: is_legal_def OPEN_STATES_def)

fun stage :: "order_state \<Rightarrow> nat" where
  "stage NONE = 0"
| "stage INTENDED = 1"
| "stage SUBMITTED = 2"
| "stage ACCEPTED = 3"
| "stage PARTIALLY_FILLED = 4"
| "stage STALE_PENDING = 4"
| "stage _ = 5"

interpretation orders: lifecycle is_legal stage "\<lambda>s. s \<in> set TERMINAL_STATES"
proof
  show "is_legal s t \<Longrightarrow> stage s \<le> stage t" for s t
    by (cases s; cases t) (simp_all add: is_legal_def)
  show "s \<in> set TERMINAL_STATES \<Longrightarrow> \<not> is_legal s t" for s t
    by (auto simp: TERMINAL_STATES_def is_legal_def)
qed

lemma validate_path_Inr: "validate_path p = Inr () \<longleftrightarrow> successively is_legal p"
  by (induction p rule: validate_path.induct) (auto simp: advance_def)

lemma UNKNOWN_isolated: "\<not> is_legal UNKNOWN t" "\<not> is_legal s UNKNOWN"
  by (simp add: is_legal_def) (cases s; simp add: is_legal_def)

lemma path_UNKNOWN:
  assumes "successively is_legal p" and "UNKNOWN \<in> set p"
  shows "p = [UNKNOWN]"
proof -
  obtain q r where p: "p = q @ UNKNOWN # r" using split_list [OF assms(2)] by blast
  have "r = []" using assms(1) UNKNOWN_isolated(1) by (cases r) (auto simp: p successively_append_iff)
  moreover have "q = []"
    using assms(1) UNKNOWN_isolated(2) by (cases q rule: rev_cases) (auto simp: p successively_append_iff)
  ultimately show ?thesis by (simp add: p)
qed

text \<open>A state that is not one of the two working states of stage 4 is visited once.\<close>

lemma path_once:
  assumes "successively is_legal p" and "s \<notin> {PARTIALLY_FILLED, STALE_PENDING}"
  shows "count_list p s \<le> 1"
proof (rule ccontr)
  assume "\<not> count_list p s \<le> 1"
  then have "s \<in> set p" by (metis count_list_0_iff le0)
  then obtain q r where p: "p = q @ s # r" "s \<notin> set q" using split_list_first by metis
  with \<open>\<not> count_list p s \<le> 1\<close> have "s \<in> set r"
    by (metis (no_types, lifting) add.commute add_cancel_right_left count_list.simps(2) count_list_0_iff
        count_list_append le_numeral_extra(4) plus_1_eq_Suc)
  then obtain a r1 where r: "r = a # r1" by (cases r) auto
  have sa: "is_legal s a" and "successively is_legal (a # r1)"
    using assms(1) by (auto simp: p r successively_append_iff)
  then have "sorted (map stage (a # r1))" by (blast intro: orders.path_sorted)
  with \<open>s \<in> set r\<close> have "stage a \<le> stage s" by (auto simp: r)
  moreover have "stage s < stage a" using sa assms(2) by (cases s; cases a) (simp_all add: is_legal_def)
  ultimately show False by simp
qed

lemma path_from_INTENDED:
  assumes "successively is_legal (NONE # q)" and "FILLED \<in> set q"
  shows "\<exists>r. q = INTENDED # SUBMITTED # r"
proof -
  from assms obtain a q1 where q: "q = a # q1" by (cases q) auto
  with assms(1) have a: "a = INTENDED" by (simp add: is_legal_def)
  with assms q obtain b q2 where q1: "q1 = b # q2" by (cases q1) auto
  with assms(1) q a have b: "b = SUBMITTED \<or> b = REJECTED" by (auto simp: is_legal_def)
  have "b \<noteq> REJECTED"
  proof
    assume "b = REJECTED"
    then have "q2 = []"
      using orders.path_terminal_last [of "[NONE, INTENDED]" REJECTED q2] assms(1)
      by (simp add: q q1 a TERMINAL_STATES_def)
    with \<open>b = REJECTED\<close> assms(2) show False by (simp add: q q1 a)
  qed
  with b show ?thesis by (simp add: q q1 a)
qed

section \<open>Properties\<close>

text \<open>A path of states passes \<open>validate_path\<close> exactly when each pair of neighbours is a
  step of the lifecycle diagram. On such a path a terminal state can only come last, \<open>UNKNOWN\<close>
  only stands alone, every state but \<open>PARTIALLY_FILLED\<close> and \<open>STALE_PENDING\<close> is visited at most
  once, and an order that started as \<open>NONE\<close> and filled was intended and then submitted.\<close>

theorem validated_paths:
  "(validate_path p = Inr () \<longleftrightarrow> successively order_step p) \<and>
   (validate_path p = Inr () \<longrightarrow>
     (\<forall>q s r. p = q @ s # r \<and> s \<in> set TERMINAL_STATES \<longrightarrow> r = []) \<and>
     (UNKNOWN \<in> set p \<longrightarrow> p = [UNKNOWN]) \<and>
     (\<forall>s. s \<noteq> PARTIALLY_FILLED \<and> s \<noteq> STALE_PENDING \<longrightarrow> count_list p s \<le> 1) \<and>
     (\<forall>q. p = NONE # q \<and> FILLED \<in> set q \<longrightarrow> (\<exists>r. q = INTENDED # SUBMITTED # r)))"
proof -
  have rel: "order_step = is_legal" by (intro ext) (simp add: is_legal_order_step)
  have "validate_path p = Inr () \<longleftrightarrow> successively order_step p"
    by (simp add: validate_path_Inr rel)
  moreover have "(\<forall>q s r. p = q @ s # r \<and> s \<in> set TERMINAL_STATES \<longrightarrow> r = []) \<and>
      (UNKNOWN \<in> set p \<longrightarrow> p = [UNKNOWN]) \<and>
      (\<forall>s. s \<noteq> PARTIALLY_FILLED \<and> s \<noteq> STALE_PENDING \<longrightarrow> count_list p s \<le> 1) \<and>
      (\<forall>q. p = NONE # q \<and> FILLED \<in> set q \<longrightarrow> (\<exists>r. q = INTENDED # SUBMITTED # r))"
    if "successively is_legal p"
    using that orders.path_terminal_last path_UNKNOWN path_once path_from_INTENDED by blast
  ultimately show ?thesis unfolding validate_path_Inr by blast
qed

theorem validated_paths_witness:
  "validate_path [NONE, INTENDED, SUBMITTED, PARTIALLY_FILLED, STALE_PENDING, PARTIALLY_FILLED, FILLED]
     = Inr () \<and>
   count_list [NONE, INTENDED, SUBMITTED, PARTIALLY_FILLED, STALE_PENDING, PARTIALLY_FILLED, FILLED]
     FILLED \<le> 1"
proof -
  have v: "validate_path [NONE, INTENDED, SUBMITTED, PARTIALLY_FILLED, STALE_PENDING,
      PARTIALLY_FILLED, FILLED] = Inr ()"
    by (simp add: advance_def is_legal_def)
  have ne: "FILLED \<noteq> PARTIALLY_FILLED \<and> FILLED \<noteq> STALE_PENDING" by simp
  show ?thesis using validated_paths [of "[NONE, INTENDED, SUBMITTED, PARTIALLY_FILLED,
      STALE_PENDING, PARTIALLY_FILLED, FILLED]"] v ne by blast
qed

text \<open>A rejected path names its first illegal pair: everything before it is legal, and the
  terminal note is set exactly when an order left a terminal state.\<close>

theorem validate_path_error:
  "validate_path p = Inl (IllegalTransition s t b) \<longleftrightarrow>
   (\<exists>q r. p = q @ s # t # r \<and> successively order_step (q @ [s]) \<and> \<not> order_step s t \<and>
          (b \<longleftrightarrow> s \<in> set TERMINAL_STATES))"
  (is "?L p \<longleftrightarrow> ?R p")
proof (induction p rule: validate_path.induct)
  case (1 src dst states)
  show ?case
  proof (cases "is_legal src dst")
    case True
    have "?R (src # dst # states) \<longleftrightarrow> ?R (dst # states)"
    proof
      assume "?R (src # dst # states)"
      then obtain q r where q: "src # dst # states = q @ s # t # r" "successively order_step (q @ [s])"
        "\<not> order_step s t" "b \<longleftrightarrow> s \<in> set TERMINAL_STATES" by blast
      then obtain q' where "q = src # q'" using True by (cases q) (auto simp: is_legal_order_step)
      with q show "?R (dst # states)"
        by (intro exI [of _ q'] exI [of _ r]) (cases q'; auto)
    next
      assume "?R (dst # states)"
      then obtain q r where q: "dst # states = q @ s # t # r" "successively order_step (q @ [s])"
        "\<not> order_step s t" "b \<longleftrightarrow> s \<in> set TERMINAL_STATES" by blast
      then show "?R (src # dst # states)"
        using True by (intro exI [of _ "src # q"] exI [of _ r]) (cases q; auto simp: is_legal_order_step)
    qed
    with 1 True show ?thesis by (simp add: advance_def)
  next
    case False
    have "?R (src # dst # states) \<longleftrightarrow> s = src \<and> t = dst \<and> (b \<longleftrightarrow> s \<in> set TERMINAL_STATES)"
    proof
      assume "?R (src # dst # states)"
      then obtain q r where q: "src # dst # states = q @ s # t # r" "successively order_step (q @ [s])"
        "b \<longleftrightarrow> s \<in> set TERMINAL_STATES" by blast
      then have "q = []"
        using False by (cases q; cases "tl q") (auto simp: is_legal_order_step)
      with q show "s = src \<and> t = dst \<and> (b \<longleftrightarrow> s \<in> set TERMINAL_STATES)" by simp
    next
      assume "s = src \<and> t = dst \<and> (b \<longleftrightarrow> s \<in> set TERMINAL_STATES)"
      then show "?R (src # dst # states)"
        using False by (intro exI [of _ "[]"] exI [of _ states]) (simp add: is_legal_order_step)
    qed
    with False show ?thesis by (auto simp: advance_def)
  qed
qed auto

text \<open>A broker status becomes an open state only through the local vocabulary, and a status
  neither vocabulary knows becomes \<open>UNKNOWN\<close>, never an open or a terminal state. Only a terminal
  class outside the four known ones raises.\<close>

theorem broker_status_fail_closed:
  "(from_broker_status classify status = Inr s \<and> s \<in> set OPEN_STATES \<longrightarrow>
      classify status = None \<and> (py_lower (py_strip (py_str status)), s) \<in> set OPEN_ALPACA_STATUS_TO_STATE) \<and>
   (from_broker_status classify status = Inr UNKNOWN \<longleftrightarrow>
      classify status = None \<and> \<not> dhas OPEN_ALPACA_STATUS_TO_STATE (py_lower (py_strip (py_str status)))) \<and>
   (from_broker_status classify status \<noteq> Inr NONE \<and> from_broker_status classify status \<noteq> Inr INTENDED) \<and>
   (from_broker_status classify status = Inl e \<longleftrightarrow>
      e = KeyError \<and> (\<exists>n. classify status = Some (ChOther n)))"
proof (cases "classify status")
  case None
  define k where "k = py_lower (py_strip (py_str status))"
  have f: "from_broker_status classify status = Inr (dget OPEN_ALPACA_STATUS_TO_STATE k UNKNOWN)"
    by (simp add: from_broker_status_def None k_def)
  show ?thesis
  proof (cases "map_of OPEN_ALPACA_STATUS_TO_STATE k")
    case N: None
    then show ?thesis
      by (auto simp: f None dget_def dhas_def OPEN_STATES_def simp flip: k_def)
  next
    case S: (Some v)
    then have m: "(k, v) \<in> set OPEN_ALPACA_STATUS_TO_STATE" by (rule map_of_SomeD)
    then have "v \<notin> {UNKNOWN, NONE, INTENDED}" by (auto simp: OPEN_ALPACA_STATUS_TO_STATE_def)
    with m S show ?thesis by (auto simp: f None dget_def dhas_def simp flip: k_def)
  qed
next
  case (Some c)
  then show ?thesis
    by (cases c) (auto simp: from_broker_status_def TERMINAL_CHILD_TO_ORDER_STATE_def OPEN_STATES_def)
qed

theorem broker_status_fail_closed_witness:
  "from_broker_status (\<lambda>_. None) (JStr '' Held '') = Inr ACCEPTED \<and>
   (''held'', ACCEPTED) \<in> set OPEN_ALPACA_STATUS_TO_STATE \<and>
   from_broker_status (\<lambda>_. None) (JStr ''frozen'') = Inr UNKNOWN"
proof -
  have h: "from_broker_status (\<lambda>_. None) (JStr '' Held '') = Inr ACCEPTED" by code_simp
  have k: "py_lower (py_strip (py_str (JStr '' Held ''))) = ''held''" by code_simp
  have o: "ACCEPTED \<in> set OPEN_STATES" by (simp add: OPEN_STATES_def)
  have u: "from_broker_status (\<lambda>_. None) (JStr ''frozen'') = Inr UNKNOWN" by code_simp
  from broker_status_fail_closed [of "\<lambda>_. None" "JStr '' Held ''" ACCEPTED KeyError] h o
  have "(py_lower (py_strip (py_str (JStr '' Held ''))), ACCEPTED) \<in> set OPEN_ALPACA_STATUS_TO_STATE"
    by blast
  with h u k show ?thesis by simp
qed

end
