(* ===== verification/IntentStore.thy ===== *)
theory IntentStore
  imports PyNum Interfaces
begin

text \<open>
  \<open>execution_reconciler.py\<close>, part 2: the intents, \<open>IntentRegistry\<close> and \<open>SqliteIntentStore\<close>.
  The store is the content of its two tables; a method is one transaction, so the calls of
  concurrent workers are a list of operations in commit order. \<open>compute_parent_intent_id\<close> and
  \<open>child_order_id\<close> belong to another package: they are the arguments \<open>parent_id\<close> and
  \<open>child_id\<close>. The audit column \<open>created_at\<close> is an argument, the current time.
\<close>

section \<open>Intents and the in-memory registry\<close>

record order_intent =
  parent_intent_id :: string
  account :: string
  oi_symbol :: string
  trading_day :: string
  oi_side :: string
  signal_version :: string
  target_qty :: pyfloat

definition build_intent :: "(string \<Rightarrow> string \<Rightarrow> string \<Rightarrow> string \<Rightarrow> string \<Rightarrow> string) \<Rightarrow>
    string \<Rightarrow> string \<Rightarrow> string \<Rightarrow> string \<Rightarrow> string \<Rightarrow> pyfloat \<Rightarrow> order_intent" where
  "build_intent parent_id acct sy d sd v q =
     \<lparr>parent_intent_id = parent_id acct sy d sd v, account = acct, oi_symbol = py_upper (py_strip sy),
      trading_day = d, oi_side = py_lower (py_strip sd), signal_version = v, target_qty = q\<rparr>"

type_synonym registry = "order_intent dict"

definition register :: "registry \<Rightarrow> order_intent \<Rightarrow> registry \<times> bool" where
  "register reg i =
     (if dhas reg (parent_intent_id i) then (reg, False)
      else (dset reg (parent_intent_id i) i, True))"

definition is_duplicate :: "registry \<Rightarrow> order_intent \<Rightarrow> bool" where
  "is_duplicate reg i = dhas reg (parent_intent_id i)"

definition registry_get :: "registry \<Rightarrow> string \<Rightarrow> order_intent option" where
  "registry_get reg k = map_of reg k"

section \<open>The durable store\<close>

record child_attempt =
  client_order_id :: string
  attempt_parent :: string
  attempt_n :: int
  broker_order_id :: "string option"

record intent_store =
  parent_rows :: "(order_intent \<times> string) list"
  child_rows :: "(child_attempt \<times> string) list"

datatype store_error = UnknownParent string | UnknownClientOrder string | IntegrityError
  | AssertionError

definition empty_store :: intent_store where
  "empty_store = \<lparr>parent_rows = [], child_rows = []\<rparr>"

definition row_id :: "order_intent \<times> string \<Rightarrow> string" where
  "row_id r = parent_intent_id (fst r)"

definition get_intent :: "intent_store \<Rightarrow> string \<Rightarrow> order_intent option" where
  "get_intent st k = map_option fst (find (\<lambda>r. row_id r = k) (parent_rows st))"

definition has_intent :: "intent_store \<Rightarrow> string \<Rightarrow> bool" where
  "has_intent st k \<longleftrightarrow> (\<exists>r \<in> set (parent_rows st). row_id r = k)"

text \<open>
  \<open>INSERT OR IGNORE\<close>: the row is skipped when it breaks the primary key or a \<open>NOT NULL\<close>
  column. SQLite stores a NaN as NULL, so a NaN quantity breaks the latter.
\<close>

definition storable :: "order_intent \<times> string \<Rightarrow> bool" where
  "storable r \<longleftrightarrow> target_qty (fst r) \<noteq> NaN"

definition insert_or_ignore :: "intent_store \<Rightarrow> order_intent \<times> string \<Rightarrow> intent_store \<times> bool" where
  "insert_or_ignore st r =
     (if has_intent st (row_id r) \<or> \<not> storable r then (st, False)
      else (st\<lparr>parent_rows := parent_rows st @ [r]\<rparr>, True))"

definition create_or_get_intent ::
    "string \<Rightarrow> order_intent \<Rightarrow> intent_store \<Rightarrow> intent_store \<times> (store_error + order_intent \<times> bool)" where
  "create_or_get_intent now i st =
     (let (st', created) = insert_or_ignore st (i, now) in
      case get_intent st' (parent_intent_id i) of
        None \<Rightarrow> (st', Inl AssertionError)
      | Some stored \<Rightarrow> (st', Inr (stored, created)))"

definition attempts_of :: "intent_store \<Rightarrow> string \<Rightarrow> child_attempt list" where
  "attempts_of st k = filter (\<lambda>c. attempt_parent c = k) (map fst (child_rows st))"

text \<open>\<open>COALESCE(MAX(attempt_n), -1) + 1\<close>.\<close>

definition next_attempt :: "intent_store \<Rightarrow> string \<Rightarrow> int" where
  "next_attempt st k = foldr max (map attempt_n (attempts_of st k)) (- 1) + 1"

definition allocate_child ::
    "(string \<Rightarrow> int \<Rightarrow> string) \<Rightarrow> string \<Rightarrow> string \<Rightarrow> intent_store \<Rightarrow>
     intent_store \<times> (store_error + child_attempt)" where
  "allocate_child child_id now k st =
     (if \<not> has_intent st k then (st, Inl (UnknownParent k))
      else
        (let n = next_attempt st k;
             c = \<lparr>client_order_id = child_id k n, attempt_parent = k, attempt_n = n,
                  broker_order_id = None\<rparr> in
         if (\<exists>r \<in> set (child_rows st). client_order_id (fst r) = client_order_id c \<or>
                 (attempt_parent (fst r) = k \<and> attempt_n (fst r) = n))
         then (st, Inl IntegrityError)
         else (st\<lparr>child_rows := child_rows st @ [(c, now)]\<rparr>, Inr c)))"

definition bind_attempt :: "string \<Rightarrow> string \<Rightarrow> child_attempt \<Rightarrow> child_attempt" where
  "bind_attempt cid oid c = (if client_order_id c = cid then c\<lparr>broker_order_id := Some oid\<rparr> else c)"

definition bind_broker_order_id :: "string \<Rightarrow> string \<Rightarrow> intent_store \<Rightarrow> intent_store \<times> (store_error + unit)" where
  "bind_broker_order_id cid oid st =
     (if \<exists>r \<in> set (child_rows st). client_order_id (fst r) = cid
      then (st\<lparr>child_rows := map (map_prod (bind_attempt cid oid) id) (child_rows st)\<rparr>, Inr ())
      else (st, Inl (UnknownClientOrder cid)))"

definition child_attempts :: "intent_store \<Rightarrow> string \<Rightarrow> child_attempt list" where
  "child_attempts st k = sort_key attempt_n (attempts_of st k)"

section \<open>The two first-wins logs\<close>

definition registry_ok :: "registry \<Rightarrow> bool" where
  "registry_ok reg \<longleftrightarrow> (\<forall>(k, i) \<in> set reg. k = parent_intent_id i)"

lemma registry_ok_keys: "registry_ok reg \<Longrightarrow> fst ` set reg = parent_intent_id ` set (map snd reg)"
  by (force simp: registry_ok_def)

lemma registry_ok_dset: "registry_ok reg \<Longrightarrow> registry_ok (dset reg (parent_intent_id i) i)"
  unfolding registry_ok_def by (rule ballI, drule subsetD [OF set_dset_subset]) auto

interpretation registry_log: keyed_log register parent_intent_id "\<lambda>_. True" "map snd" registry_ok
proof
  fix s :: registry and i :: order_intent
  assume ok: "registry_ok s"
  have known: "dhas s (parent_intent_id i) \<longleftrightarrow> parent_intent_id i \<in> parent_intent_id ` set (map snd s)"
    by (simp only: dhas_iff registry_ok_keys [OF ok])
  show "snd (register s i) \<and> map snd (fst (register s i)) = map snd s @ [i]"
    if "parent_intent_id i \<notin> parent_intent_id ` set (map snd s)"
    using that known by (simp add: register_def dset_fresh)
  show "register s i = (s, False)" if "parent_intent_id i \<in> parent_intent_id ` set (map snd s)"
    using that known by (simp add: register_def)
  show "registry_ok (fst (register s i))"
    by (simp add: register_def ok registry_ok_dset)
qed simp

lemma has_intent_rows: "has_intent st k \<longleftrightarrow> k \<in> row_id ` set (parent_rows st)"
  by (auto simp: has_intent_def)

interpretation store_log: keyed_log insert_or_ignore row_id storable parent_rows "\<lambda>_. True"
  by unfold_locales (simp_all add: insert_or_ignore_def has_intent_rows)

lemma get_intent_Some:
  assumes "distinct (map row_id (parent_rows st))"
  shows "get_intent st k = Some i \<longleftrightarrow> (\<exists>t. (i, t) \<in> set (parent_rows st)) \<and> parent_intent_id i = k"
proof -
  have "get_intent st k = Some i \<Longrightarrow> (\<exists>t. (i, t) \<in> set (parent_rows st)) \<and> parent_intent_id i = k"
    by (auto simp: get_intent_def row_id_def dest: find_SomeD)
  moreover have "get_intent st k = Some i"
    if it: "(i, t) \<in> set (parent_rows st)" "parent_intent_id i = k" for t
  proof -
    obtain r where r: "find (\<lambda>r. row_id r = k) (parent_rows st) = Some r"
      using find_exists [OF it(1), of "\<lambda>r. row_id r = k"] it(2) by (auto simp: row_id_def)
    then have "r \<in> set (parent_rows st)" "row_id r = k" by (auto dest: find_SomeD)
    then have "r = (i, t)"
      using it assms by (auto simp: distinct_map row_id_def intro: inj_onD [of row_id "set (parent_rows st)"])
    with r show ?thesis by (simp add: get_intent_def)
  qed
  ultimately show ?thesis by blast
qed


section \<open>Child attempts\<close>

datatype store_op = Create order_intent string | Allocate string string | Bind string string

definition apply_op :: "(string \<Rightarrow> int \<Rightarrow> string) \<Rightarrow> intent_store \<Rightarrow> store_op \<Rightarrow> intent_store" where
  "apply_op child_id st p =
     (case p of
        Create i now \<Rightarrow> fst (create_or_get_intent now i st)
      | Allocate k now \<Rightarrow> fst (allocate_child child_id now k st)
      | Bind cid oid \<Rightarrow> fst (bind_broker_order_id cid oid st))"

definition apply_ops :: "(string \<Rightarrow> int \<Rightarrow> string) \<Rightarrow> intent_store \<Rightarrow> store_op list \<Rightarrow> intent_store" where
  "apply_ops child_id st ps = foldl (apply_op child_id) st ps"

definition attempt_ids :: "intent_store \<Rightarrow> (string \<times> string \<times> int) list" where
  "attempt_ids st = map (\<lambda>(c, t). (client_order_id c, attempt_parent c, attempt_n c)) (child_rows st)"

definition store_ok :: "(string \<Rightarrow> int \<Rightarrow> string) \<Rightarrow> intent_store \<Rightarrow> bool" where
  "store_ok child_id st \<longleftrightarrow>
     distinct (map row_id (parent_rows st)) \<and>
     distinct (map fst (attempt_ids st)) \<and>
     (\<forall>k. map attempt_n (attempts_of st k) = map int [0..<length (attempts_of st k)]) \<and>
     (\<forall>(cid, k, n) \<in> set (attempt_ids st). has_intent st k \<and> cid = child_id k n)"

lemma store_ok_empty: "store_ok child_id empty_store"
  by (simp add: store_ok_def empty_store_def attempt_ids_def attempts_of_def)

lemma create_store: "fst (create_or_get_intent now i st) = fst (insert_or_ignore st (i, now))"
  by (simp add: create_or_get_intent_def split_beta Let_def split: option.splits)

lemma insert_fields:
  "child_rows (fst (insert_or_ignore st r)) = child_rows st"
  "has_intent st k \<Longrightarrow> has_intent (fst (insert_or_ignore st r)) k"
  by (auto simp: insert_or_ignore_def has_intent_def)

lemma attempts_of_cong: "child_rows st = child_rows st' \<Longrightarrow> attempts_of st = attempts_of st'"
  by (simp add: attempts_of_def fun_eq_iff)

lemma attempts_of_append:
  "attempts_of (st\<lparr>child_rows := child_rows st @ [(c, t)]\<rparr>) k =
     attempts_of st k @ (if attempt_parent c = k then [c] else [])"
  by (simp add: attempts_of_def)

lemma foldr_max_upt: "- 1 \<le> a \<Longrightarrow> foldr max (map int [0..<n]) a = max a (int n - 1)"
  by (induction n arbitrary: a) auto

lemma next_attempt_ok: "store_ok child_id st \<Longrightarrow> next_attempt st k = int (length (attempts_of st k))"
  by (simp add: next_attempt_def store_ok_def foldr_max_upt)

lemma has_intent_child_rows [simp]: "has_intent (st\<lparr>child_rows := cs\<rparr>) k = has_intent st k"
  by (simp add: has_intent_def)

lemma bind_attempt_fields [simp]:
  "client_order_id (bind_attempt cid oid c) = client_order_id c"
  "attempt_parent (bind_attempt cid oid c) = attempt_parent c"
  "attempt_n (bind_attempt cid oid c) = attempt_n c"
  by (simp_all add: bind_attempt_def)

lemma bind_store:
  "fst (bind_broker_order_id cid oid st) =
     st\<lparr>child_rows := map (map_prod (bind_attempt cid oid) id) (child_rows st)\<rparr> \<or>
   fst (bind_broker_order_id cid oid st) = st"
  by (simp add: bind_broker_order_id_def)

lemma bind_keeps:
  "attempt_ids (fst (bind_broker_order_id cid oid st)) = attempt_ids st"
  "parent_rows (fst (bind_broker_order_id cid oid st)) = parent_rows st"
  "map attempt_n (attempts_of (fst (bind_broker_order_id cid oid st)) k) = map attempt_n (attempts_of st k)"
proof -
  let ?u = "st\<lparr>child_rows := map (map_prod (bind_attempt cid oid) id) (child_rows st)\<rparr>"
  have 1: "attempt_ids ?u = attempt_ids st"
    by (simp add: attempt_ids_def split_beta)
  have 2: "map attempt_n (attempts_of ?u k) = map attempt_n (attempts_of st k)"
    by (simp add: attempts_of_def filter_map o_def)
  show "attempt_ids (fst (bind_broker_order_id cid oid st)) = attempt_ids st"
    "parent_rows (fst (bind_broker_order_id cid oid st)) = parent_rows st"
    "map attempt_n (attempts_of (fst (bind_broker_order_id cid oid st)) k) = map attempt_n (attempts_of st k)"
    using bind_store [of cid oid st] 1 2 by (elim disjE; simp)+
qed

lemma store_ok_create: "store_ok child_id st \<Longrightarrow> store_ok child_id (fst (create_or_get_intent now i st))"
proof (cases "has_intent st (row_id (i, now)) \<or> \<not> storable (i, now)")
  case False
  assume ok: "store_ok child_id st"
  let ?u = "st\<lparr>parent_rows := parent_rows st @ [(i, now)]\<rparr>"
  have u: "fst (create_or_get_intent now i st) = ?u" using False by (simp add: create_store insert_or_ignore_def)
  have "attempts_of ?u = attempts_of st" by (rule attempts_of_cong) simp
  moreover have "attempt_ids ?u = attempt_ids st" by (simp add: attempt_ids_def)
  moreover have "distinct (map row_id (parent_rows ?u))"
    using ok False by (auto simp: store_ok_def has_intent_rows)
  moreover have "has_intent st k \<Longrightarrow> has_intent ?u k" for k by (auto simp: has_intent_def)
  ultimately show ?thesis using ok unfolding u store_ok_def by fastforce
qed (simp add: create_store insert_or_ignore_def)

lemma allocate_cases:
  fixes k :: string
  assumes "store_ok child_id st"
  defines "n \<equiv> int (length (attempts_of st k))"
  defines "c \<equiv> \<lparr>client_order_id = child_id k n, attempt_parent = k, attempt_n = n, broker_order_id = None\<rparr>"
  shows "allocate_child child_id now k st =
    (if \<not> has_intent st k then (st, Inl (UnknownParent k))
     else if child_id k n \<in> fst ` set (attempt_ids st) then (st, Inl IntegrityError)
     else (st\<lparr>child_rows := child_rows st @ [(c, now)]\<rparr>, Inr c))"
proof -
  have used: "(\<exists>r \<in> set (child_rows st). client_order_id (fst r) = child_id k n \<or>
                 (attempt_parent (fst r) = k \<and> attempt_n (fst r) = n)) \<longleftrightarrow>
      child_id k n \<in> fst ` set (attempt_ids st)" (is "?U \<longleftrightarrow> ?V")
  proof
    assume ?U
    then obtain a t where at: "(a, t) \<in> set (child_rows st)"
      and d: "client_order_id a = child_id k n \<or> (attempt_parent a = k \<and> attempt_n a = n)" by auto
    have m: "(client_order_id a, attempt_parent a, attempt_n a) \<in> set (attempt_ids st)"
      using at by (force simp: attempt_ids_def)
    with assms(1) have "client_order_id a = child_id (attempt_parent a) (attempt_n a)"
      by (auto simp: store_ok_def)
    with m d show ?V by force
  next
    assume ?V
    then show ?U by (force simp: attempt_ids_def)
  qed
  show ?thesis
    using used by (simp add: allocate_child_def next_attempt_ok [OF assms(1)] Let_def c_def n_def)
qed

lemma store_ok_allocate:
  assumes "store_ok child_id st"
  shows "store_ok child_id (fst (allocate_child child_id now k st))"
proof -
  have new: "map attempt_n (attempts_of st j) @ (if k = j then [int (length (attempts_of st k))] else []) =
      map int [0..<length (attempts_of st j @ (if k = j then [c] else []))]" for j and c :: child_attempt
    using assms by (simp add: store_ok_def)
  show ?thesis
    unfolding allocate_cases [OF assms] using assms new
    by (auto simp: store_ok_def attempt_ids_def attempts_of_append)
qed

lemma store_ok_bind: "store_ok child_id st \<Longrightarrow> store_ok child_id (fst (bind_broker_order_id cid oid st))"
proof -
  assume ok: "store_ok child_id st"
  have "length (attempts_of (fst (bind_broker_order_id cid oid st)) k) = length (attempts_of st k)" for k
    by (metis bind_keeps(3) length_map)
  with ok show ?thesis
    unfolding store_ok_def bind_keeps has_intent_def by simp
qed

lemma store_ok_ops: "store_ok child_id st \<Longrightarrow> store_ok child_id (apply_ops child_id st ps)"
proof (induction ps arbitrary: st)
  case (Cons p ps)
  have "store_ok child_id (apply_op child_id st p)"
    using Cons.prems
    by (cases p) (simp_all add: apply_op_def store_ok_create store_ok_allocate store_ok_bind)
  with Cons.IH show ?case by (simp add: apply_ops_def)
qed (simp add: apply_ops_def)

lemma apply_op_grows:
  assumes "store_ok child_id st"
  shows "(\<exists>xs. attempt_ids (apply_op child_id st p) = attempt_ids st @ xs) \<and>
         (\<exists>ys. parent_rows (apply_op child_id st p) = parent_rows st @ ys)"
proof (cases p)
  case (Create i now)
  then show ?thesis
    by (simp add: apply_op_def create_store insert_or_ignore_def attempt_ids_def)
next
  case (Allocate k now)
  then show ?thesis
    by (simp add: apply_op_def allocate_cases [OF assms] attempt_ids_def)
next
  case (Bind cid oid)
  then show ?thesis by (simp add: apply_op_def bind_keeps)
qed

lemma apply_ops_grows:
  "store_ok child_id st \<Longrightarrow>
   (\<exists>xs. attempt_ids (apply_ops child_id st ps) = attempt_ids st @ xs) \<and>
   (\<exists>ys. parent_rows (apply_ops child_id st ps) = parent_rows st @ ys)"
proof (induction ps arbitrary: st)
  case (Cons p ps)
  let ?u = "apply_op child_id st p"
  have "store_ok child_id ?u" using store_ok_ops [OF Cons.prems, of "[p]"] by (simp add: apply_ops_def)
  from Cons.IH [OF this] apply_op_grows [OF Cons.prems, of p] show ?case
    by (auto simp: apply_ops_def)
qed (simp add: apply_ops_def)

lemma child_attempts_ok: "store_ok child_id st \<Longrightarrow> child_attempts st k = attempts_of st k"
proof -
  assume "store_ok child_id st"
  then have "map attempt_n (attempts_of st k) = map int [0..<length (attempts_of st k)]"
    by (simp add: store_ok_def)
  moreover have "sorted (map int [0..<n])" for n by (simp add: sorted_iff_nth_mono)
  ultimately have "sorted (map attempt_n (attempts_of st k))" by simp
  then show ?thesis unfolding child_attempts_def by (rule sort_key_id_if_sorted)
qed


section \<open>Sequences of creations\<close>

fun create_all :: "intent_store \<Rightarrow> (order_intent \<times> string) list \<Rightarrow>
    intent_store \<times> (store_error + order_intent \<times> bool) list" where
  "create_all st [] = (st, [])"
| "create_all st ((i, now) # reqs) =
     (let (st', r) = create_or_get_intent now i st; (st'', rs) = create_all st' reqs in (st'', r # rs))"

fun is_created :: "store_error + order_intent \<times> bool \<Rightarrow> bool" where
  "is_created (Inr (i, c)) = c"
| "is_created (Inl e) = False"

lemma find_append: "find P (xs @ ys) = (case find P xs of None \<Rightarrow> find P ys | Some x \<Rightarrow> Some x)"
  by (induction xs) auto

lemma get_intent_grows: "get_intent st k = Some i \<Longrightarrow> get_intent (fst (insert_or_ignore st r)) k = Some i"
  by (auto simp: get_intent_def insert_or_ignore_def find_append)

lemma get_intent_None: "get_intent st k = None \<longleftrightarrow> \<not> has_intent st k"
  by (auto simp: get_intent_def has_intent_def find_None_iff)

lemma create_result:
  "snd (create_or_get_intent now i st) =
     (case get_intent (fst (insert_or_ignore st (i, now))) (parent_intent_id i) of
        None \<Rightarrow> Inl AssertionError | Some s \<Rightarrow> Inr (s, snd (insert_or_ignore st (i, now))))"
  by (simp add: create_or_get_intent_def split_beta Let_def split: option.splits)

lemma inserted_is_found: "snd (insert_or_ignore st r) \<Longrightarrow> has_intent (fst (insert_or_ignore st r)) (row_id r)"
  by (auto simp: insert_or_ignore_def has_intent_def)

lemma is_created_iff: "is_created (snd (create_or_get_intent now i st)) = snd (insert_or_ignore st (i, now))"
proof (cases "get_intent (fst (insert_or_ignore st (i, now))) (parent_intent_id i)")
  case None
  then have "\<not> snd (insert_or_ignore st (i, now))"
    using inserted_is_found [of st "(i, now)"] by (auto simp: get_intent_None row_id_def)
  with None show ?thesis by (simp add: create_result)
qed (simp add: create_result)

lemma create_all_Cons:
  "fst (create_all st (r # reqs)) = fst (create_all (fst (insert_or_ignore st r)) reqs)"
  "snd (create_all st (r # reqs)) =
     snd (create_or_get_intent (snd r) (fst r) st) # snd (create_all (fst (insert_or_ignore st r)) reqs)"
  by (cases r; simp add: split_beta Let_def create_store)+

lemmas create_all_simps = create_all.simps(1) create_all_Cons

lemma create_all_put_all:
  "fst (create_all st reqs) = fst (put_all insert_or_ignore st reqs)"
  "map is_created (snd (create_all st reqs)) = snd (put_all insert_or_ignore st reqs)"
  by (induction reqs arbitrary: st)
    (simp_all del: create_all.simps add: create_all_simps split_beta Let_def is_created_iff)

lemma create_all_grows: "get_intent st k = Some i \<Longrightarrow> get_intent (fst (create_all st reqs)) k = Some i"
  by (induction reqs arbitrary: st)
    (simp_all del: create_all.simps add: create_all_simps get_intent_grows)

lemma create_all_results:
  "list_all2 (\<lambda>r res. case res of Inl e \<Rightarrow> e = AssertionError \<and> target_qty (fst r) = NaN
      | Inr (i, c) \<Rightarrow> get_intent (fst (create_all st reqs)) (row_id r) = Some i)
    reqs (snd (create_all st reqs))"
proof (induction reqs arbitrary: st)
  case (Cons r reqs)
  let ?st = "fst (insert_or_ignore st r)"
  have head: "case snd (create_or_get_intent (snd r) (fst r) st) of
        Inl e \<Rightarrow> e = AssertionError \<and> target_qty (fst r) = NaN
      | Inr (j, c) \<Rightarrow> get_intent (fst (create_all ?st reqs)) (row_id r) = Some j"
  proof (cases "get_intent ?st (row_id r)")
    case None
    then have "\<not> storable r"
      by (auto simp: get_intent_None insert_or_ignore_def has_intent_def split: if_splits)
    with None show ?thesis by (simp add: create_result storable_def row_id_def)
  next
    case (Some j)
    then show ?thesis by (simp add: create_result create_all_grows row_id_def)
  qed
  with Cons show ?case unfolding create_all_Cons by simp
qed simp

lemma filter_zip_map: "map fst (filter (\<lambda>(r, x). f x) (zip rs xs)) = map fst (filter snd (zip rs (map f xs)))"
  by (induction rs xs rule: list_induct2') auto

section \<open>Properties\<close>

text \<open>C33: Whatever creations concurrent workers commit, in any order, the table keeps the old rows
  and appends, for each new identity, its first storable request; exactly those requests are told
  they created a row; every other successful caller gets the row that stays stored; the only
  failure is the assertion, for a NaN quantity. Redelivering all requests changes nothing and
  creates nothing.\<close>

theorem intents_created_once:
  assumes "distinct (map row_id (parent_rows st))"
  shows "parent_rows (fst (create_all st reqs)) =
           parent_rows st @ fresh row_id (row_id ` set (parent_rows st)) (filter storable reqs) \<and>
         distinct (map row_id (parent_rows (fst (create_all st reqs)))) \<and>
         map fst (filter (\<lambda>(r, res). is_created res) (zip reqs (snd (create_all st reqs)))) =
           fresh row_id (row_id ` set (parent_rows st)) (filter storable reqs) \<and>
         list_all2 (\<lambda>r res. case res of Inl e \<Rightarrow> e = AssertionError \<and> target_qty (fst r) = NaN
             | Inr (i, c) \<Rightarrow> get_intent (fst (create_all st reqs)) (row_id r) = Some i)
           reqs (snd (create_all st reqs)) \<and>
         fst (create_all (fst (create_all st reqs)) reqs) = fst (create_all st reqs) \<and>
         \<not> list_ex is_created (snd (create_all (fst (create_all st reqs)) reqs))"
proof (intro conjI)
  let ?u = "fst (create_all st reqs)"
  show "parent_rows ?u = parent_rows st @ fresh row_id (row_id ` set (parent_rows st)) (filter storable reqs)"
    by (simp add: create_all_put_all store_log.put_all_rows)
  show "distinct (map row_id (parent_rows ?u))"
    unfolding create_all_put_all using assms by (rule store_log.put_all_distinct [OF TrueI])
  show "map fst (filter (\<lambda>(r, res). is_created res) (zip reqs (snd (create_all st reqs)))) =
      fresh row_id (row_id ` set (parent_rows st)) (filter storable reqs)"
    by (simp add: filter_zip_map create_all_put_all store_log.put_all_created)
  show "list_all2 (\<lambda>r res. case res of Inl e \<Rightarrow> e = AssertionError \<and> target_qty (fst r) = NaN
      | Inr (i, c) \<Rightarrow> get_intent ?u (row_id r) = Some i) reqs (snd (create_all st reqs))"
    by (rule create_all_results)
  show "fst (create_all ?u reqs) = ?u"
    by (simp add: create_all_put_all store_log.put_all_replay)
  have "map is_created (snd (create_all ?u reqs)) = replicate (length reqs) False"
    by (simp add: create_all_put_all store_log.put_all_replay)
  then have "is_created ` set (snd (create_all ?u reqs)) \<subseteq> {False}"
    by (metis list.set_map set_replicate_Suc set_replicate_conv_if subset_singleton_iff)
  then show "\<not> list_ex is_created (snd (create_all ?u reqs))" by (auto simp: list_ex_iff)
qed

definition demo_intent :: "pyfloat \<Rightarrow> order_intent" where
  "demo_intent q = build_intent (\<lambda>a sy d sd v. a @ sy @ d @ sd @ v) ''A'' ''spy'' ''2026-07-01'' ''buy'' ''v1'' q"

theorem intents_created_once_witness:
  "snd (create_all empty_store [(demo_intent NaN, ''t0''), (demo_intent (Num 10), ''t1''), (demo_intent (Num 12), ''t2'')])
     = [Inl AssertionError, Inr (demo_intent (Num 10), True), Inr (demo_intent (Num 10), False)] \<and>
   parent_rows (fst (create_all empty_store [(demo_intent NaN, ''t0''), (demo_intent (Num 10), ''t1''), (demo_intent (Num 12), ''t2'')]))
     = [(demo_intent (Num 10), ''t1'')]"
proof -
  have 1: "snd (create_all empty_store [(demo_intent NaN, ''t0''), (demo_intent (Num 10), ''t1''), (demo_intent (Num 12), ''t2'')])
     = [Inl AssertionError, Inr (demo_intent (Num 10), True), Inr (demo_intent (Num 10), False)]"
    by (simp add: create_or_get_intent_def insert_or_ignore_def has_intent_def get_intent_def storable_def
        row_id_def demo_intent_def build_intent_def empty_store_def Let_def)
  have "distinct (map row_id (parent_rows empty_store))" by (simp add: empty_store_def)
  from intents_created_once [OF this, of "[(demo_intent NaN, ''t0''), (demo_intent (Num 10), ''t1''), (demo_intent (Num 12), ''t2'')]"]
  have "parent_rows (fst (create_all empty_store [(demo_intent NaN, ''t0''), (demo_intent (Num 10), ''t1''), (demo_intent (Num 12), ''t2'')]))
     = [(demo_intent (Num 10), ''t1'')]"
    by (simp add: empty_store_def storable_def row_id_def demo_intent_def build_intent_def)
  with 1 show ?thesis by blast
qed

text \<open>However creations, allocations and bindings interleave from an empty store, the attempts
  of every parent are numbered 0, 1, 2, ... in order, carry the canonical id of their number, trace
  to a stored intent, and no client order id occurs twice; later operations never rewrite an
  attempt or an intent already stored.\<close>

theorem attempts_monotone:
  "map attempt_n (child_attempts (apply_ops child_id empty_store ps) k) =
     map int [0..<length (child_attempts (apply_ops child_id empty_store ps) k)] \<and>
   list_all (\<lambda>c. client_order_id c = child_id k (attempt_n c)) (child_attempts (apply_ops child_id empty_store ps) k) \<and>
   (child_attempts (apply_ops child_id empty_store ps) k = [] \<or> has_intent (apply_ops child_id empty_store ps) k) \<and>
   distinct (map fst (attempt_ids (apply_ops child_id empty_store ps))) \<and>
   (\<exists>xs. attempt_ids (apply_ops child_id empty_store (ps @ qs)) =
         attempt_ids (apply_ops child_id empty_store ps) @ xs) \<and>
   (\<exists>ys. parent_rows (apply_ops child_id empty_store (ps @ qs)) =
         parent_rows (apply_ops child_id empty_store ps) @ ys)"
proof -
  let ?st = "apply_ops child_id empty_store ps"
  have ok: "store_ok child_id ?st" by (rule store_ok_ops [OF store_ok_empty])
  have at: "(client_order_id c, k, attempt_n c) \<in> set (attempt_ids ?st)" if "c \<in> set (attempts_of ?st k)" for c
    using that by (force simp: attempts_of_def attempt_ids_def)
  have canon: "list_all (\<lambda>c. client_order_id c = child_id k (attempt_n c)) (attempts_of ?st k)"
    using ok at by (fastforce simp: list_all_iff store_ok_def)
  have parent: "attempts_of ?st k = [] \<or> has_intent ?st k"
  proof (cases "attempts_of ?st k")
    case (Cons c cs)
    with at [of c] ok show ?thesis by (fastforce simp: store_ok_def)
  qed simp
  have split: "apply_ops child_id empty_store (ps @ qs) = apply_ops child_id ?st qs"
    by (simp add: apply_ops_def)
  from ok have "map attempt_n (attempts_of ?st k) = map int [0..<length (attempts_of ?st k)]"
    and "distinct (map fst (attempt_ids ?st))" by (simp_all add: store_ok_def)
  with canon parent apply_ops_grows [OF ok, of qs] show ?thesis
    unfolding split child_attempts_ok [OF ok] by blast
qed

text \<open>In any state the operations reach, allocating for a registered parent succeeds with the
  next number when the canonical child ids are injective, and changes only the attempts; an
  unregistered parent is refused and nothing changes.\<close>

theorem allocate_succeeds:
  assumes inj: "\<forall>k n k' n'. child_id k n = child_id k' n' \<longrightarrow> k = k' \<and> n = n'"
  shows "allocate_child child_id now k (apply_ops child_id empty_store ps) =
    (let st = apply_ops child_id empty_store ps; n = int (length (child_attempts st k));
         c = \<lparr>client_order_id = child_id k n, attempt_parent = k, attempt_n = n, broker_order_id = None\<rparr> in
     if has_intent st k then (st\<lparr>child_rows := child_rows st @ [(c, now)]\<rparr>, Inr c)
     else (st, Inl (UnknownParent k)))"
proof -
  let ?st = "apply_ops child_id empty_store ps"
  let ?n = "int (length (attempts_of ?st k))"
  have ok: "store_ok child_id ?st" by (rule store_ok_ops [OF store_ok_empty])
  have "child_id k ?n \<notin> fst ` set (attempt_ids ?st)"
  proof
    assume "child_id k ?n \<in> fst ` set (attempt_ids ?st)"
    then obtain j m where "(child_id k ?n, j, m) \<in> set (attempt_ids ?st)" by auto
    moreover from this ok have "child_id k ?n = child_id j m" by (auto simp: store_ok_def)
    with inj have "j = k" "m = ?n" by metis+
    ultimately obtain c where "c \<in> set (attempts_of ?st k)" "attempt_n c = ?n"
      by (force simp: attempt_ids_def attempts_of_def)
    then have "?n \<in> set (map attempt_n (attempts_of ?st k))" by (metis image_eqI list.set_map)
    with ok show False by (auto simp: store_ok_def)
  qed
  then show ?thesis by (simp add: allocate_cases [OF ok] child_attempts_ok [OF ok] Let_def)
qed

definition tally_id :: "string \<Rightarrow> int \<Rightarrow> string" where
  "tally_id k n = (if n < 0 then CHR ''-'' else CHR ''+'') # replicate (nat \<bar>n\<bar>) (CHR ''1'') @ CHR '':'' # k"

lemma replicate_marker: "x \<noteq> y \<Longrightarrow> replicate a x @ y # k = replicate b x @ y # l \<Longrightarrow> a = b \<and> k = l"
proof (induction a arbitrary: b)
  case 0
  then show ?case by (cases b) auto
next
  case (Suc a)
  then show ?case by (cases b) auto
qed

lemma tally_id_inj: "tally_id k n = tally_id k' n' \<Longrightarrow> k = k' \<and> n = n'"
proof -
  assume eq: "tally_id k n = tally_id k' n'"
  then have "nat \<bar>n\<bar> = nat \<bar>n'\<bar> \<and> k = k'"
    by (intro replicate_marker [of "CHR ''1''" "CHR '':''"]) (auto simp: tally_id_def split: if_splits)
  moreover have "n < 0 \<longleftrightarrow> n' < 0" using eq by (auto simp: tally_id_def split: if_splits)
  ultimately show ?thesis by linarith
qed

theorem allocate_succeeds_witness:
  "snd (allocate_child tally_id ''t2'' ''ASPY2026-07-01BUYv1''
     (apply_ops tally_id empty_store [Create (demo_intent (Num 1)) ''t1''])) = Inl (UnknownParent ''ASPY2026-07-01BUYv1'') \<and>
   snd (allocate_child tally_id ''t2'' ''Aspy2026-07-01buyv1''
     (apply_ops tally_id empty_store [Create (demo_intent (Num 1)) ''t1''])) =
   Inr \<lparr>client_order_id = ''+:Aspy2026-07-01buyv1'', attempt_parent = ''Aspy2026-07-01buyv1'', attempt_n = 0,
        broker_order_id = None\<rparr>"
proof -
  have inj: "\<forall>k n k' n'. tally_id k n = tally_id k' n' \<longrightarrow> k = k' \<and> n = n'"
    using tally_id_inj by blast
  show ?thesis
    unfolding allocate_succeeds [OF inj]
    by (simp add: apply_ops_def apply_op_def create_store insert_or_ignore_def has_intent_def storable_def
        row_id_def demo_intent_def build_intent_def empty_store_def Let_def child_attempts_def attempts_of_def
        tally_id_def)
qed

end
