(* ===== verification/PyTime.thy ===== *)
theory PyTime
  imports PyNum
begin

text \<open>
  \<open>datetime.fromisoformat\<close> for the grammar Python 3.10 documents,
  \<open>YYYY-MM-DD[*HH[:MM[:SS[.fff[fff]]]][+HH:MM[:SS[.ffffff]]]]\<close>, and the timestamp readers built
  on it. A datetime is its wall-clock microseconds since 1970 and its UTC offset in
  microseconds, \<open>None\<close> for a naive one.
\<close>

record datetime =
  wall :: int
  utc_offset :: "int option"

section \<open>The civil calendar\<close>

definition leap_year :: "int \<Rightarrow> bool" where
  "leap_year y \<longleftrightarrow> 4 dvd y \<and> (\<not> 100 dvd y \<or> 400 dvd y)"

definition days_in_month :: "int \<Rightarrow> int \<Rightarrow> int" where
  "days_in_month y m =
     (if m = 2 then (if leap_year y then 29 else 28) else if m \<in> {4, 6, 9, 11} then 30 else 31)"

definition days_from_civil :: "int \<Rightarrow> int \<Rightarrow> int \<Rightarrow> int" where
  "days_from_civil y m d =
     (let y' = (if m \<le> 2 then y - 1 else y); era = y' div 400; yoe = y' mod 400;
          doy = (153 * ((m + 9) mod 12) + 2) div 5 + d - 1;
          doe = yoe * 365 + yoe div 4 - yoe div 100 + doy
      in era * 146097 + doe - 719468)"

section \<open>Reading the ISO format\<close>

definition read_exact :: "string \<Rightarrow> int option" where
  "read_exact s = (if list_all is_digit s then Some (int (digits_value (map digit s))) else None)"

definition read_date :: "string \<Rightarrow> int option" where
  "read_date s =
     (if length s = 10 \<and> s ! 4 = CHR ''-'' \<and> s ! 7 = CHR ''-'' then
        (case (read_exact (take 4 s), read_exact (take 2 (drop 5 s)), read_exact (drop 8 s)) of
           (Some y, Some m, Some d) \<Rightarrow>
             (if 1 \<le> y \<and> 1 \<le> m \<and> m \<le> 12 \<and> 1 \<le> d \<and> d \<le> days_in_month y m
              then Some (days_from_civil y m d) else None)
         | _ \<Rightarrow> None)
      else None)"

text \<open>Up to \<open>n\<close> two-digit components between colons, and the text left after the last.\<close>

fun read_parts :: "nat \<Rightarrow> string \<Rightarrow> (int list \<times> string) option" where
  "read_parts (Suc n) (a # b # r) =
     (case read_exact [a, b] of
        None \<Rightarrow> None
      | Some v \<Rightarrow>
          (case r of
             [] \<Rightarrow> Some ([v], [])
           | c # r' \<Rightarrow>
               if n = 0 then Some ([v], r)
               else if c = CHR '':'' then map_option (\<lambda>(vs, t). (v # vs, t)) (read_parts n r')
               else None))"
| "read_parts _ _ = None"

definition read_fraction :: "string \<Rightarrow> int option" where
  "read_fraction s =
     (if length s = 3 then map_option (\<lambda>n. 1000 * n) (read_exact s)
      else if length s = 6 then read_exact s else None)"

definition part :: "int list \<Rightarrow> nat \<Rightarrow> int" where
  "part vs i = (if i < length vs then vs ! i else 0)"

definition read_clock :: "string \<Rightarrow> (int list \<times> int) option" where
  "read_clock s =
     (case read_parts 3 s of
        None \<Rightarrow> None
      | Some (vs, []) \<Rightarrow> Some (vs, 0)
      | Some (vs, c # f) \<Rightarrow>
          if c = CHR ''.'' then map_option (Pair vs) (read_fraction f) else None)"

definition clock_micros :: "int list \<times> int \<Rightarrow> int" where
  "clock_micros p = ((part (fst p) 0 * 60 + part (fst p) 1) * 60 + part (fst p) 2) * 1000000 + snd p"

definition read_time :: "string \<Rightarrow> int option" where
  "read_time s =
     (case read_clock s of
        None \<Rightarrow> None
      | Some p \<Rightarrow> if part (fst p) 0 < 24 \<and> part (fst p) 1 < 60 \<and> part (fst p) 2 < 60
                  then Some (clock_micros p) else None)"

definition read_offset :: "string \<Rightarrow> int option" where
  "read_offset s =
     (if length s \<in> {5, 8, 15} then
        (case read_clock s of
           None \<Rightarrow> None
         | Some p \<Rightarrow> if clock_micros p < 24 * 3600 * 1000000 then Some (clock_micros p) else None)
      else None)"

definition is_offset_sign :: "char \<Rightarrow> bool" where
  "is_offset_sign c \<longleftrightarrow> c = CHR ''+'' \<or> c = CHR ''-''"

definition from_isoformat :: "string \<Rightarrow> datetime option" where
  "from_isoformat s =
     (case read_date (take 10 s) of
        None \<Rightarrow> None
      | Some days \<Rightarrow>
          let day0 = days * 86400 * 1000000; t = drop 11 s in
          if length s = 10 then Some \<lparr>wall = day0, utc_offset = None\<rparr>
          else
            (case read_time (takeWhile (\<lambda>c. \<not> is_offset_sign c) t) of
               None \<Rightarrow> None
             | Some us \<Rightarrow>
                 (case dropWhile (\<lambda>c. \<not> is_offset_sign c) t of
                    [] \<Rightarrow> Some \<lparr>wall = day0 + us, utc_offset = None\<rparr>
                  | sg # z \<Rightarrow>
                      map_option (\<lambda>off. \<lparr>wall = day0 + us,
                          utc_offset = Some (if sg = CHR ''-'' then - off else off)\<rparr>)
                        (read_offset z))))"

text \<open>The instant of a datetime whose missing offset is read as UTC.\<close>

definition utc_instant :: "datetime \<Rightarrow> int" where
  "utc_instant d = wall d - (case utc_offset d of None \<Rightarrow> 0 | Some z \<Rightarrow> z)"

lemma from_isoformat_example:
  "map_option utc_instant (from_isoformat ''2026-06-30T09:30:00-04:00'') = Some 1782826200000000"
  by code_simp

end
