(* ===== verification/QuantityAccounts.thy ===== *)
theory QuantityAccounts
  imports OrderLifecycle IntentStore PyTime "HOL-Library.Option_ord"
begin

text \<open>
  \<open>execution_reconciler.py\<close>, part 3: positions and order records as the broker reports them
  (\<open>Position.from_broker\<close>, \<open>OrderRecord.from_broker\<close>), the deduplication of order snapshots and
  the quantity account of a parent intent. Quantities are floats: \<open>is_whole_share\<close> rounds, so it
  raises for a NaN and for an infinity. The insertion order of the dictionary of latest
  snapshots is the code's \<open>key_order\<close>.
\<close>

section \<open>Field readers\<close>

definition QTY_TOL :: rat where "QTY_TOL = 1 / 1000000"

definition opt_float :: "json \<Rightarrow> pyfloat option" where
  "opt_float v =
     (if v = JNull \<or> v = JStr [] then None
      else case py_float v of Inr f \<Rightarrow> Some f | Inl _ \<Rightarrow> None)"

definition opt_str :: "json \<Rightarrow> string option" where
  "opt_str v =
     (if v = JNull then None
      else let s = py_strip (py_str v) in if s = [] then None else Some s)"

definition parse_ts :: "string option \<Rightarrow> int option" where
  "parse_ts v =
     (case v of
        None \<Rightarrow> None
      | Some t \<Rightarrow>
          let s = py_strip t in
          if s = [] then None
          else map_option utc_instant (from_isoformat
                 (if last s = CHR ''Z'' then butlast s @ ''+00:00'' else s)))"

text \<open>\<open>a or b\<close> on optional strings.\<close>

definition str_or :: "string option \<Rightarrow> string option \<Rightarrow> string option" where
  "str_or a b = (case a of Some s \<Rightarrow> if s = [] then b else a | None \<Rightarrow> b)"

section \<open>Positions and orders\<close>

record position =
  pos_symbol :: string
  pos_qty :: pyfloat
  avg_entry_price :: "pyfloat option"
  market_value :: "pyfloat option"

definition position_from_broker :: "json dict \<Rightarrow> py_error + position" where
  "position_from_broker row =
     (let s = py_or (dget row ''symbol'' JNull) (dget row ''ticker'' JNull);
          q = dget row ''qty'' (dget row ''quantity'' (dget row ''shares'' JNull)) in
      case py_float (if q = JNull then JFloat (Num 0) else q) of
        Inl e \<Rightarrow> Inl e
      | Inr f \<Rightarrow> Inr \<lparr>pos_symbol = py_upper (py_strip (py_str s)), pos_qty = f,
                      avg_entry_price = opt_float (dget row ''avg_entry_price'' JNull),
                      market_value = opt_float (dget row ''market_value'' JNull)\<rparr>)"

record order_record =
  ord_symbol :: string
  ord_side :: string
  ord_qty :: pyfloat
  filled_qty :: pyfloat
  filled_avg_price :: "pyfloat option"
  ord_state :: order_state
  ord_client_id :: "string option"
  ord_broker_id :: "string option"
  ord_parent_id :: "string option"
  submitted_at :: "string option"
  created_at :: "string option"
  updated_at :: "string option"
  replaces :: "string option"
  replaced_by :: "string option"

definition order_from_broker :: "(json \<Rightarrow> child_state option) \<Rightarrow> json dict \<Rightarrow> py_error + order_record" where
  "order_from_broker classify row =
     (let zero = JFloat (Num 0); g = (\<lambda>k. dget row k JNull) in
      case py_float (py_or (dget row ''qty'' (dget row ''quantity'' zero)) zero) of
        Inl e \<Rightarrow> Inl e
      | Inr q \<Rightarrow>
      (case py_float (py_or (dget row ''filled_qty'' zero) zero) of
        Inl e \<Rightarrow> Inl e
      | Inr f \<Rightarrow>
      (case from_broker_status classify (dget row ''status'' (JStr ''accepted'')) of
        Inl e \<Rightarrow> Inl e
      | Inr s \<Rightarrow>
         Inr \<lparr>ord_symbol = py_upper (py_strip (py_str (py_or (py_or (g ''symbol'') (g ''ticker'')) (JStr '''')))),
              ord_side = py_lower (py_strip (py_str (dget row ''side'' (JStr '''')))),
              ord_qty = q, filled_qty = f,
              filled_avg_price = opt_float (g ''filled_avg_price''),
              ord_state = s,
              ord_client_id = opt_str (g ''client_order_id''),
              ord_broker_id = opt_str (py_or (g ''id'') (g ''order_id'')),
              ord_parent_id = opt_str (g ''parent_intent_id''),
              submitted_at = opt_str (g ''submitted_at''),
              created_at = opt_str (g ''created_at''),
              updated_at = opt_str (g ''updated_at''),
              replaces = opt_str (g ''replaces''),
              replaced_by = opt_str (g ''replaced_by'')\<rparr>)))"

definition is_open :: "order_record \<Rightarrow> bool" where
  "is_open o1 \<longleftrightarrow> ord_state o1 \<in> set OPEN_STATES"

definition is_unknown_status :: "order_record \<Rightarrow> bool" where
  "is_unknown_status o1 \<longleftrightarrow> ord_state o1 = UNKNOWN"

section \<open>The account of a parent intent\<close>

definition is_whole_share :: "pyfloat \<Rightarrow> py_error + bool" where
  "is_whole_share q =
     (case q of
        Num x \<Rightarrow> Inr (\<bar>x - of_int (round_half_even x)\<bar> \<le> QTY_TOL)
      | NaN \<Rightarrow> Inl ValueError
      | _ \<Rightarrow> Inl OverflowError)"

record quantity_account =
  acct_parent :: string
  acct_symbol :: string
  acct_side :: string
  acct_target :: pyfloat
  cum_filled :: pyfloat
  open_qty :: pyfloat
  cum_canceled :: pyfloat
  cum_rejected :: pyfloat
  cum_expired :: pyfloat
  cum_replaced :: pyfloat
  unlinked_replacement_ids :: "string list"

definition new_account :: "string \<Rightarrow> string \<Rightarrow> string \<Rightarrow> pyfloat \<Rightarrow> quantity_account" where
  "new_account p sy sd target =
     \<lparr>acct_parent = p, acct_symbol = py_upper (py_strip sy), acct_side = py_lower (py_strip sd),
      acct_target = target, cum_filled = Num 0, open_qty = Num 0, cum_canceled = Num 0,
      cum_rejected = Num 0, cum_expired = Num 0, cum_replaced = Num 0,
      unlinked_replacement_ids = []\<rparr>"

definition has_unlinked_replacement :: "quantity_account \<Rightarrow> bool" where
  "has_unlinked_replacement a \<longleftrightarrow> unlinked_replacement_ids a \<noteq> []"

definition economic_exposure :: "quantity_account \<Rightarrow> pyfloat" where
  "economic_exposure a = fadd (cum_filled a) (open_qty a)"

definition remaining_unsubmitted :: "quantity_account \<Rightarrow> pyfloat" where
  "remaining_unsubmitted a = fmax (fsub (acct_target a) (economic_exposure a)) (Num 0)"

definition gross_submitted_qty :: "quantity_account \<Rightarrow> pyfloat" where
  "gross_submitted_qty a =
     fadd (fadd (fadd (fadd (fadd (cum_filled a) (open_qty a)) (cum_canceled a)) (cum_rejected a))
       (cum_expired a)) (cum_replaced a)"

definition is_over_filled :: "quantity_account \<Rightarrow> bool" where
  "is_over_filled a \<longleftrightarrow> flt (Num QTY_TOL) (fsub (economic_exposure a) (acct_target a))"

definition is_settled :: "quantity_account \<Rightarrow> bool" where
  "is_settled a \<longleftrightarrow> fle (open_qty a) (Num QTY_TOL)"

definition is_under_filled :: "quantity_account \<Rightarrow> bool" where
  "is_under_filled a \<longleftrightarrow>
     is_settled a \<and> flt (Num QTY_TOL) (fsub (acct_target a) (cum_filled a)) \<and>
     \<not> has_unlinked_replacement a"

fun all_whole :: "pyfloat list \<Rightarrow> py_error + bool" where
  "all_whole [] = Inr True"
| "all_whole (q # qs) =
     (case is_whole_share q of Inl e \<Rightarrow> Inl e | Inr b \<Rightarrow> if b then all_whole qs else Inr False)"

definition is_fractional :: "quantity_account \<Rightarrow> py_error + bool" where
  "is_fractional a = map_sum id Not (all_whole [acct_target a, cum_filled a, open_qty a])"

definition invariant_holds :: "quantity_account \<Rightarrow> bool" where
  "invariant_holds a \<longleftrightarrow> \<not> is_over_filled a"

section \<open>Snapshots\<close>

definition order_key :: "order_record \<Rightarrow> string option" where
  "order_key o1 = str_or (ord_client_id o1) (ord_broker_id o1)"

definition is_newer :: "order_record \<Rightarrow> order_record \<Rightarrow> bool" where
  "is_newer new old =
     (case (parse_ts (updated_at new), parse_ts (updated_at old)) of
        (Some nt, Some ot) \<Rightarrow> ot \<le> nt
      | (Some nt, None) \<Rightarrow> True
      | (None, Some ot) \<Rightarrow> False
      | (None, None) \<Rightarrow> True)"

definition dedupe_step ::
    "order_record dict \<times> order_record list \<Rightarrow> order_record \<Rightarrow> order_record dict \<times> order_record list" where
  "dedupe_step acc o1 =
     (case order_key o1 of
        None \<Rightarrow> (fst acc, snd acc @ [o1])
      | Some k \<Rightarrow>
          (case map_of (fst acc) k of
             None \<Rightarrow> (dset (fst acc) k o1, snd acc)
           | Some old \<Rightarrow> if is_newer o1 old then (dset (fst acc) k o1, snd acc) else acc))"

definition dedupe_all :: "order_record list \<Rightarrow> order_record dict \<times> order_record list" where
  "dedupe_all os = foldl dedupe_step ([], []) os"

definition dedupe_latest_orders :: "order_record list \<Rightarrow> order_record list" where
  "dedupe_latest_orders os = map snd (fst (dedupe_all os)) @ snd (dedupe_all os)"

section \<open>Folding the children\<close>

definition present_keys :: "order_record list \<Rightarrow> string list" where
  "present_keys os = [k. c \<leftarrow> os, Some k \<leftarrow> [ord_client_id c, ord_broker_id c], k \<noteq> []]"

definition unfilled :: "order_record \<Rightarrow> pyfloat" where
  "unfilled c = fmax (fsub (ord_qty c) (filled_qty c)) (Num 0)"

definition unlinked :: "string list \<Rightarrow> order_record \<Rightarrow> bool" where
  "unlinked present c \<longleftrightarrow> (case replaced_by c of None \<Rightarrow> True | Some r \<Rightarrow> r \<notin> set present)"

definition lineage_id :: "order_record \<Rightarrow> string" where
  "lineage_id c = (case str_or (ord_client_id c) (str_or (ord_broker_id c) (Some (ord_symbol c))) of
     Some s \<Rightarrow> s | None \<Rightarrow> [])"

definition book_child :: "string list \<Rightarrow> quantity_account \<Rightarrow> order_record \<Rightarrow> quantity_account" where
  "book_child present a c =
     (let a = a\<lparr>cum_filled := fadd (cum_filled a) (filled_qty c)\<rparr>; u = unfilled c; s = ord_state c in
      if s \<in> set OPEN_STATES then a\<lparr>open_qty := fadd (open_qty a) u\<rparr>
      else if s = CANCELED then a\<lparr>cum_canceled := fadd (cum_canceled a) u\<rparr>
      else if s = REJECTED then a\<lparr>cum_rejected := fadd (cum_rejected a) u\<rparr>
      else if s = EXPIRED then a\<lparr>cum_expired := fadd (cum_expired a) u\<rparr>
      else if s = REPLACED then
        a\<lparr>cum_replaced := fadd (cum_replaced a) u,
          unlinked_replacement_ids := unlinked_replacement_ids a @
            (if unlinked present c then [lineage_id c] else [])\<rparr>
      else a)"

definition account_from_children ::
    "string \<Rightarrow> string \<Rightarrow> string \<Rightarrow> pyfloat \<Rightarrow> order_record list \<Rightarrow> quantity_account" where
  "account_from_children p sy sd target children =
     (let deduped = dedupe_latest_orders children in
      foldl (book_child (present_keys deduped)) (new_account p sy sd target) deduped)"

text \<open>\<open>cid.rsplit(":", 1)[0]\<close>.\<close>

definition before_last_colon :: "string \<Rightarrow> string" where
  "before_last_colon s = rev (tl (dropWhile (\<lambda>c. c \<noteq> CHR '':'') (rev s)))"

definition parent_intent_id_of :: "order_record \<Rightarrow> string option" where
  "parent_intent_id_of o1 =
     (if ord_parent_id o1 \<noteq> None \<and> ord_parent_id o1 \<noteq> Some [] then ord_parent_id o1
      else case ord_client_id o1 of
        None \<Rightarrow> None
      | Some cid \<Rightarrow> if CHR '':'' \<in> set cid then Some (before_last_colon cid) else None)"

definition group_step :: "order_record list dict \<Rightarrow> order_record \<Rightarrow> order_record list dict" where
  "group_step d o1 =
     (case parent_intent_id_of o1 of
        None \<Rightarrow> d
      | Some p \<Rightarrow> dset d p (dget d p [] @ [o1]))"

definition accounts_by_parent :: "order_intent list \<Rightarrow> order_record list \<Rightarrow> quantity_account list" where
  "accounts_by_parent intents os =
     (let by_parent = foldl group_step [] os in
      map (\<lambda>i. account_from_children (parent_intent_id i) (oi_symbol i) (oi_side i) (target_qty i)
             (dget by_parent (parent_intent_id i) [])) intents)"


section \<open>Facts about the deduplication\<close>

definition stamp :: "order_record \<Rightarrow> int option" where
  "stamp o1 = parse_ts (updated_at o1)"

lemma is_newer_stamp: "is_newer new old \<longleftrightarrow> stamp old \<le> stamp new"
  by (simp add: is_newer_def stamp_def split: option.split)

text \<open>The abstract choice among the snapshots of one child: the last of the newest.\<close>

definition newest :: "string \<Rightarrow> order_record list \<Rightarrow> order_record \<Rightarrow> bool" where
  "newest k os p \<longleftrightarrow>
     (\<exists>ys zs. os = ys @ p # zs \<and> order_key p = Some k \<and>
        (\<forall>y \<in> set ys. order_key y = Some k \<longrightarrow> stamp y \<le> stamp p) \<and>
        (\<forall>z \<in> set zs. order_key z = Some k \<longrightarrow> stamp z < stamp p))"

lemma newest_snoc_new:
  "order_key p = Some k \<Longrightarrow> \<forall>y \<in> set os. order_key y = Some k \<longrightarrow> stamp y \<le> stamp p \<Longrightarrow>
   newest k (os @ [p]) p"
  unfolding newest_def by (rule exI [of _ os], rule exI [of _ "[]"]) simp

lemma newest_snoc_old:
  assumes "newest k os p" and "order_key q = Some k \<longrightarrow> stamp q < stamp p"
  shows "newest k (os @ [q]) p"
proof -
  from assms(1) obtain ys zs where "os = ys @ p # zs" "order_key p = Some k"
    "\<forall>y \<in> set ys. order_key y = Some k \<longrightarrow> stamp y \<le> stamp p"
    "\<forall>z \<in> set zs. order_key z = Some k \<longrightarrow> stamp z < stamp p" by (auto simp: newest_def)
  with assms(2) show ?thesis unfolding newest_def by (intro exI [of _ ys] exI [of _ "zs @ [q]"]) auto
qed

lemma newest_max: "newest k os p \<Longrightarrow> y \<in> set os \<Longrightarrow> order_key y = Some k \<Longrightarrow> stamp y \<le> stamp p"
  by (force simp: newest_def dest: order.strict_implies_order)

lemma newest_unique: "newest k os p \<Longrightarrow> newest k os q \<Longrightarrow> p = q"
proof -
  assume p: "newest k os p" and q: "newest k os q"
  from p obtain ys zs where os: "os = ys @ p # zs" and kp: "order_key p = Some k"
    and zp: "\<forall>z \<in> set zs. order_key z = Some k \<longrightarrow> stamp z < stamp p"
    unfolding newest_def by blast
  from q obtain ys' zs' where os': "os = ys' @ q # zs'" and kq: "order_key q = Some k"
    and zq: "\<forall>z \<in> set zs'. order_key z = Some k \<longrightarrow> stamp z < stamp q"
    unfolding newest_def by blast
  have "stamp p = stamp q"
    using newest_max [OF p] newest_max [OF q] kp kq os os' by (metis antisym in_set_conv_decomp)
  then have "q \<notin> set zs" "p \<notin> set zs'" using zp zq kp kq by auto
  moreover have "ys @ p # zs = ys' @ q # zs'" using os os' by simp
  ultimately show ?thesis
    by (auto simp: append_eq_append_conv2 Cons_eq_append_conv append_eq_Cons_conv)
qed

definition dedupe_ok :: "order_record list \<Rightarrow> order_record dict \<times> order_record list \<Rightarrow> bool" where
  "dedupe_ok os r \<longleftrightarrow>
     distinct (map fst (fst r)) \<and>
     fst ` set (fst r) = {k. \<exists>p \<in> set os. order_key p = Some k} \<and>
     (\<forall>(k, p) \<in> set (fst r). newest k os p) \<and>
     snd r = filter (\<lambda>p. order_key p = None) os"

lemma dedupe_ok_snoc:
  assumes "dedupe_ok os r"
  shows "dedupe_ok (os @ [q]) (dedupe_step r q)"
proof (cases "order_key q")
  case None
  have "newest k (os @ [q]) p" if "(k, p) \<in> set (fst r)" for k p
    using assms that None by (auto simp: dedupe_ok_def intro: newest_snoc_old)
  with assms None show ?thesis by (auto simp: dedupe_ok_def dedupe_step_def)
next
  case (Some k)
  have others: "newest j (os @ [q]) p" if "(j, p) \<in> set (fst r)" "j \<noteq> k" for j p
    using assms that Some by (auto simp: dedupe_ok_def intro: newest_snoc_old)
  have upd: "dedupe_ok (os @ [q]) (dset (fst r) k q, snd r)"
    if "newest k (os @ [q]) q"
  proof -
    have "newest j (os @ [q]) p" if "(j, p) \<in> set (dset (fst r) k q)" for j p
    proof (cases "j = k")
      case True
      then have "map_of (dset (fst r) k q) k = Some p"
        using that assms by (intro map_of_is_SomeI) (auto simp: dedupe_ok_def distinct_keys_dset)
      with \<open>newest k (os @ [q]) q\<close> True show ?thesis by simp
    next
      case False
      with that have "(j, p) \<in> set (fst r)" using set_dset_subset [of k q "fst r"] by auto
      with others False show ?thesis by blast
    qed
    with assms Some show ?thesis
      by (auto simp: dedupe_ok_def distinct_keys_dset fst_set_dset)
  qed
  show ?thesis
  proof (cases "map_of (fst r) k")
    case None
    then have "\<forall>y \<in> set os. order_key y \<noteq> Some k"
      using assms by (auto simp: dedupe_ok_def map_of_eq_None_iff)
    then have "newest k (os @ [q]) q" using Some by (intro newest_snoc_new) auto
    with upd Some None show ?thesis by (simp add: dedupe_step_def)
  next
    case old: (Some p)
    then have kp: "(k, p) \<in> set (fst r)" by (rule map_of_SomeD)
    then have np: "newest k os p" using assms by (auto simp: dedupe_ok_def)
    show ?thesis
    proof (cases "is_newer q p")
      case True
      then have "newest k (os @ [q]) q"
        using Some newest_max [OF np] by (intro newest_snoc_new) (auto simp: is_newer_stamp intro: order.trans)
      with upd Some old True show ?thesis by (simp add: dedupe_step_def)
    next
      case False
      then have "newest k (os @ [q]) p"
        by (intro newest_snoc_old [OF np]) (auto simp: is_newer_stamp)
      with others have "newest j (os @ [q]) s" if "(j, s) \<in> set (fst r)" for j s
        using that kp assms by (cases "j = k") (auto simp: dedupe_ok_def dest: eq_key_imp_eq_value)
      moreover have "k \<in> fst ` set (fst r)" using kp by force
      ultimately show ?thesis using assms Some old False
        by (auto simp: dedupe_ok_def dedupe_step_def)
    qed
  qed
qed

lemma dedupe_ok_all: "dedupe_ok os (dedupe_all os)"
proof (induction os rule: rev_induct)
  case Nil
  show ?case by (simp add: dedupe_ok_def dedupe_all_def)
next
  case (snoc q os)
  then show ?case using dedupe_ok_snoc [of os "dedupe_all os" q] by (simp add: dedupe_all_def)
qed

lemma dedupe_subset: "set (dedupe_latest_orders os) \<subseteq> set os"
proof
  fix p
  assume "p \<in> set (dedupe_latest_orders os)"
  then consider k where "(k, p) \<in> set (fst (dedupe_all os))" | "p \<in> set (snd (dedupe_all os))"
    by (auto simp: dedupe_latest_orders_def)
  then show "p \<in> set os"
    using dedupe_ok_all [of os] by cases (auto simp: dedupe_ok_def newest_def)
qed

lemma dset_same: "map_of d k = Some v \<Longrightarrow> dset d k v = d"
  by (induction d) (auto split: if_splits)


section \<open>Facts about the account\<close>

definition bucketed :: "order_state \<Rightarrow> bool" where
  "bucketed s \<longleftrightarrow> s \<in> set OPEN_STATES \<or> s \<in> {CANCELED, REJECTED, EXPIRED, REPLACED}"

lemma book_fields:
  "cum_filled (book_child pr a c) = fadd (cum_filled a) (filled_qty c)"
  "open_qty (book_child pr a c) = (if ord_state c \<in> set OPEN_STATES then fadd (open_qty a) (unfilled c) else open_qty a)"
  "cum_canceled (book_child pr a c) = (if ord_state c = CANCELED then fadd (cum_canceled a) (unfilled c) else cum_canceled a)"
  "cum_rejected (book_child pr a c) = (if ord_state c = REJECTED then fadd (cum_rejected a) (unfilled c) else cum_rejected a)"
  "cum_expired (book_child pr a c) = (if ord_state c = EXPIRED then fadd (cum_expired a) (unfilled c) else cum_expired a)"
  "cum_replaced (book_child pr a c) = (if ord_state c = REPLACED then fadd (cum_replaced a) (unfilled c) else cum_replaced a)"
  "acct_target (book_child pr a c) = acct_target a"
  "unlinked_replacement_ids (book_child pr a c) = unlinked_replacement_ids a @
     (if ord_state c = REPLACED \<and> unlinked pr c then [lineage_id c] else [])"
  by (cases "ord_state c"; simp add: book_child_def Let_def OPEN_STATES_def)+

text \<open>A field that a fold adds numbers to, for the elements of a kind.\<close>

lemma foldl_field:
  assumes "\<And>a c. g (step a c) = (if P c then fadd (g a) (v c) else g a)"
    and "g a = Num r" and "\<forall>c \<in> set cs. v c = Num (w c)"
  shows "g (foldl step a cs) = Num (r + (\<Sum>c \<leftarrow> filter P cs. w c))"
  using assms(2,3) by (induction cs arbitrary: a r) (auto simp: assms(1))

definition rem :: "order_record \<Rightarrow> rat" where
  "rem c = max (num_of (ord_qty c) - num_of (filled_qty c)) 0"

definition remainder :: "(order_state \<Rightarrow> bool) \<Rightarrow> order_record list \<Rightarrow> rat" where
  "remainder P cs = (\<Sum>c \<leftarrow> filter (P \<circ> ord_state) cs. rem c)"

definition filled_sum :: "order_record list \<Rightarrow> rat" where
  "filled_sum cs = (\<Sum>c \<leftarrow> cs. num_of (filled_qty c))"

definition finite_order :: "order_record \<Rightarrow> bool" where
  "finite_order c \<longleftrightarrow> is_num (ord_qty c) \<and> is_num (filled_qty c)"

lemma unfilled_rem: "finite_order c \<Longrightarrow> unfilled c = Num (rem c)"
  by (cases "ord_qty c"; cases "filled_qty c") (simp_all add: finite_order_def unfilled_def rem_def)

lemma filled_num: "finite_order c \<Longrightarrow> filled_qty c = Num (num_of (filled_qty c))"
  by (cases "filled_qty c") (simp_all add: finite_order_def)

lemma remainder_nonneg: "0 \<le> remainder P cs"
  unfolding remainder_def by (rule sum_list_nonneg) (auto simp: rem_def)

lemma remainder_split:
  "remainder bucketed cs =
     remainder (\<lambda>s. s \<in> set OPEN_STATES) cs + remainder (\<lambda>s. s = CANCELED) cs +
     remainder (\<lambda>s. s = REJECTED) cs + remainder (\<lambda>s. s = EXPIRED) cs + remainder (\<lambda>s. s = REPLACED) cs"
proof (induction cs)
  case (Cons c cs)
  then show ?case
    by (cases "ord_state c") (simp_all add: remainder_def bucketed_def OPEN_STATES_def)
qed (simp add: remainder_def)

lemma account_fields:
  fixes p sy sd :: string and t :: rat and children :: "order_record list"
  assumes "list_all finite_order children"
  defines "a \<equiv> account_from_children p sy sd (Num t) children"
    and "ds \<equiv> dedupe_latest_orders children"
  shows "cum_filled a = Num (filled_sum ds)"
    and "open_qty a = Num (remainder (\<lambda>s. s \<in> set OPEN_STATES) ds)"
    and "cum_canceled a = Num (remainder (\<lambda>s. s = CANCELED) ds)"
    and "cum_rejected a = Num (remainder (\<lambda>s. s = REJECTED) ds)"
    and "cum_expired a = Num (remainder (\<lambda>s. s = EXPIRED) ds)"
    and "cum_replaced a = Num (remainder (\<lambda>s. s = REPLACED) ds)"
    and "acct_target a = Num t"
    and "unlinked_replacement_ids a =
           map lineage_id (filter (\<lambda>c. ord_state c = REPLACED \<and> unlinked (present_keys ds) c) ds)"
proof -
  have fin: "\<forall>c \<in> set ds. finite_order c"
    using assms(1) dedupe_subset [of children] by (auto simp: ds_def list_all_iff)
  then have num: "\<forall>c \<in> set ds. filled_qty c = Num (num_of (filled_qty c))" "\<forall>c \<in> set ds. unfilled c = Num (rem c)"
    by (simp_all add: unfilled_rem flip: filled_num)
  let ?s = "book_child (present_keys ds)" and ?a0 = "new_account p sy sd (Num t)"
  have a: "a = foldl ?s ?a0 ds" by (simp add: a_def account_from_children_def ds_def Let_def)
  note field = foldl_field [where step = ?s and a = ?a0 and r = 0 and cs = ds]
  show "cum_filled a = Num (filled_sum ds)"
    using field [of cum_filled "\<lambda>_. True" filled_qty "\<lambda>c. num_of (filled_qty c)"] num(1)
    by (simp add: a book_fields new_account_def filled_sum_def)
  show "open_qty a = Num (remainder (\<lambda>s. s \<in> set OPEN_STATES) ds)"
    using field [of open_qty "\<lambda>c. ord_state c \<in> set OPEN_STATES" unfilled rem] num(2)
    by (simp add: a book_fields new_account_def remainder_def o_def)
  show "cum_canceled a = Num (remainder (\<lambda>s. s = CANCELED) ds)"
    using field [of cum_canceled "\<lambda>c. ord_state c = CANCELED" unfilled rem] num(2)
    by (simp add: a book_fields new_account_def remainder_def o_def)
  show "cum_rejected a = Num (remainder (\<lambda>s. s = REJECTED) ds)"
    using field [of cum_rejected "\<lambda>c. ord_state c = REJECTED" unfilled rem] num(2)
    by (simp add: a book_fields new_account_def remainder_def o_def)
  show "cum_expired a = Num (remainder (\<lambda>s. s = EXPIRED) ds)"
    using field [of cum_expired "\<lambda>c. ord_state c = EXPIRED" unfilled rem] num(2)
    by (simp add: a book_fields new_account_def remainder_def o_def)
  show "cum_replaced a = Num (remainder (\<lambda>s. s = REPLACED) ds)"
    using field [of cum_replaced "\<lambda>c. ord_state c = REPLACED" unfilled rem] num(2)
    by (simp add: a book_fields new_account_def remainder_def o_def)
  have "acct_target (foldl ?s b cs) = acct_target b" for b cs
    by (induction cs arbitrary: b) (simp_all add: book_fields)
  then show "acct_target a = Num t" by (simp add: a new_account_def)
  have "unlinked_replacement_ids (foldl ?s b cs) = unlinked_replacement_ids b @
      map lineage_id (filter (\<lambda>c. ord_state c = REPLACED \<and> unlinked (present_keys ds) c) cs)" for b cs
    by (induction cs arbitrary: b) (simp_all add: book_fields)
  then show "unlinked_replacement_ids a =
      map lineage_id (filter (\<lambda>c. ord_state c = REPLACED \<and> unlinked (present_keys ds) c) ds)"
    by (simp add: a new_account_def)
qed

lemma dedupe_all_superseded:
  assumes "\<forall>q \<in> set rs. \<exists>p \<in> set (dedupe_latest_orders os).
      order_key p = order_key q \<and> order_key q \<noteq> None \<and> (q = p \<or> stamp q < stamp p)"
  shows "dedupe_all (os @ rs) = dedupe_all os"
  using assms
proof (induction rs rule: rev_induct)
  case (snoc q rs)
  let ?r = "dedupe_all os"
  have IH: "dedupe_all (os @ rs) = ?r" using snoc by simp
  from snoc.prems obtain p k where p: "p \<in> set (dedupe_latest_orders os)" "order_key p = Some k"
    "order_key q = Some k" "q = p \<or> stamp q < stamp p" by force
  have ok: "dedupe_ok os ?r" by (rule dedupe_ok_all)
  obtain j where "(j, p) \<in> set (fst ?r)"
    using p(1,2) ok by (auto simp: dedupe_latest_orders_def dedupe_ok_def)
  moreover from this ok have "j = k" using p(2) by (auto simp: dedupe_ok_def newest_def)
  ultimately have m: "map_of (fst ?r) k = Some p"
    using ok by (auto simp: dedupe_ok_def intro: map_of_is_SomeI)
  have "dedupe_step ?r q = ?r"
    using p(3,4) m by (auto simp: dedupe_step_def dset_same is_newer_stamp)
  then show ?case using IH by (simp add: dedupe_all_def flip: append_assoc)
qed simp

lemma group_step_get:
  "dget (foldl group_step d os) p [] = dget d p [] @ filter (\<lambda>q. parent_intent_id_of q = Some p) os"
proof (induction os arbitrary: d)
  case (Cons q os)
  then show ?case by (cases "parent_intent_id_of q") (auto simp: group_step_def)
qed simp

section \<open>Properties\<close>

text \<open>Deduplication keeps exactly one snapshot per child identity, the last of the newest ones
  (an order with a readable \<open>updated_at\<close> beats one without), and every record without an
  identity; nothing else.\<close>

theorem dedupe_keeps_latest:
  "set (dedupe_latest_orders os) =
     {p. \<exists>k. newest k os p} \<union> {p \<in> set os. order_key p = None} \<and>
   distinct (map order_key (filter (\<lambda>p. order_key p \<noteq> None) (dedupe_latest_orders os))) \<and>
   order_key ` set (dedupe_latest_orders os) = order_key ` set os"
proof (intro conjI)
  let ?r = "dedupe_all os"
  have ok: "dedupe_ok os ?r" by (rule dedupe_ok_all)
  have keyed: "order_key p = Some j" if "(j, p) \<in> set (fst ?r)" for j p
    using ok that by (auto simp: dedupe_ok_def newest_def)
  have kept: "p \<in> set (map snd (fst ?r)) \<longleftrightarrow> (\<exists>k. newest k os p)" for p
  proof
    assume "p \<in> set (map snd (fst ?r))"
    with ok show "\<exists>k. newest k os p" by (fastforce simp: dedupe_ok_def)
  next
    assume "\<exists>k. newest k os p"
    then obtain j where j: "newest j os p" by blast
    then have "p \<in> set os \<and> order_key p = Some j" by (auto simp: newest_def)
    with ok have "j \<in> fst ` set (fst ?r)" by (auto simp: dedupe_ok_def)
    then obtain q where q: "(j, q) \<in> set (fst ?r)" by auto
    with ok j have "q = p" by (auto simp: dedupe_ok_def intro: newest_unique)
    with q show "p \<in> set (map snd (fst ?r))" by force
  qed
  have rest: "snd ?r = filter (\<lambda>p. order_key p = None) os" using ok by (simp add: dedupe_ok_def)
  show "set (dedupe_latest_orders os) = {p. \<exists>k. newest k os p} \<union> {p \<in> set os. order_key p = None}"
    using kept rest by (auto simp: dedupe_latest_orders_def)
  have "filter (\<lambda>p. order_key p \<noteq> None) (dedupe_latest_orders os) = map snd (fst ?r)"
  proof -
    have "filter (\<lambda>p. order_key p \<noteq> None) (map snd (fst ?r)) = map snd (fst ?r)"
      using keyed by (intro filter_True) auto
    moreover have "filter (\<lambda>p. order_key p \<noteq> None) (snd ?r) = []" by (auto simp: rest filter_empty_conv)
    ultimately show ?thesis unfolding dedupe_latest_orders_def filter_append by simp
  qed
  moreover have "map order_key (map snd (fst ?r)) = map Some (map fst (fst ?r))"
    using keyed by (auto simp: list_eq_iff_nth_eq)
  moreover have "distinct (map Some (map fst (fst ?r)))"
    using ok unfolding dedupe_ok_def distinct_map [of Some] by auto
  ultimately show "distinct (map order_key (filter (\<lambda>p. order_key p \<noteq> None) (dedupe_latest_orders os)))"
    by metis
  have "order_key q \<in> order_key ` set (dedupe_latest_orders os)" if q: "q \<in> set os" for q
  proof (cases "order_key q")
    case None
    with q have "q \<in> set (dedupe_latest_orders os)" by (simp add: dedupe_latest_orders_def rest)
    then show ?thesis by simp
  next
    case (Some j)
    with q ok have "j \<in> fst ` set (fst ?r)" by (auto simp: dedupe_ok_def)
    then obtain p where p: "(j, p) \<in> set (fst ?r)" by auto
    then have "p \<in> set (dedupe_latest_orders os)" by (force simp: dedupe_latest_orders_def)
    with keyed [OF p] Some show ?thesis by (metis imageI)
  qed
  with dedupe_subset [of os] show "order_key ` set (dedupe_latest_orders os) = order_key ` set os"
    by blast
qed


text \<open>Delivering snapshots again never counts twice: records that repeat a kept snapshot, or are
  strictly older than the kept snapshot of their identity, leave the account unchanged.\<close>

theorem redelivery_changes_nothing:
  assumes "\<forall>q \<in> set rs. \<exists>p \<in> set (dedupe_latest_orders children).
      order_key p = order_key q \<and> order_key q \<noteq> None \<and> (q = p \<or> stamp q < stamp p)"
  shows "account_from_children par sy sd target (children @ rs) = account_from_children par sy sd target children"
  by (simp add: account_from_children_def dedupe_latest_orders_def dedupe_all_superseded [OF assms])

definition demo_order :: "string \<Rightarrow> order_state \<Rightarrow> rat \<Rightarrow> rat \<Rightarrow> string \<Rightarrow> order_record" where
  "demo_order cid st q f ts =
     \<lparr>ord_symbol = ''SPY'', ord_side = ''buy'', ord_qty = Num q, filled_qty = Num f,
      filled_avg_price = None, ord_state = st, ord_client_id = Some cid, ord_broker_id = None,
      ord_parent_id = None, submitted_at = None, created_at = None, updated_at = Some ts,
      replaces = None, replaced_by = None\<rparr>"

lemma demo_stamps:
  "parse_ts (Some ''2026-07-01'') = Some 1782864000000000"
  "parse_ts (Some ''2026-07-02'') = Some 1782950400000000"
  by code_simp+

lemma demo_order_sel [simp]:
  "order_key (demo_order cid st q f ts) = (if cid = [] then None else Some cid)"
  "updated_at (demo_order cid st q f ts) = Some ts"
  "ord_state (demo_order cid st q f ts) = st" "ord_qty (demo_order cid st q f ts) = Num q"
  "filled_qty (demo_order cid st q f ts) = Num f" "ord_client_id (demo_order cid st q f ts) = Some cid"
  "ord_parent_id (demo_order cid st q f ts) = None"
  by (simp_all add: demo_order_def order_key_def str_or_def)

theorem redelivery_changes_nothing_witness:
  "account_from_children ''p'' ''spy'' ''buy'' (Num 10)
     [demo_order ''p:0'' FILLED 10 10 ''2026-07-02'', demo_order ''p:0'' ACCEPTED 10 4 ''2026-07-01'',
      demo_order ''p:0'' FILLED 10 10 ''2026-07-02''] =
   account_from_children ''p'' ''spy'' ''buy'' (Num 10) [demo_order ''p:0'' FILLED 10 10 ''2026-07-02'']"
proof -
  have "dedupe_latest_orders [demo_order ''p:0'' FILLED 10 10 ''2026-07-02''] =
      [demo_order ''p:0'' FILLED 10 10 ''2026-07-02'']"
    by (simp add: dedupe_latest_orders_def dedupe_all_def dedupe_step_def)
  then show ?thesis
    using redelivery_changes_nothing [of "[demo_order ''p:0'' ACCEPTED 10 4 ''2026-07-01'',
        demo_order ''p:0'' FILLED 10 10 ''2026-07-02'']" "[demo_order ''p:0'' FILLED 10 10 ''2026-07-02'']"
        "''p''" "''spy''" "''buy''" "Num 10"]
    by (simp add: stamp_def demo_stamps)
qed

text \<open>With finite quantities the account is exact: filled is the sum of the kept fills, every
  unfilled remainder of an open, canceled, rejected, expired or replaced child is in exactly one
  bucket, the gross is their total, the economic invariant is the inequality with the
  tolerance, no account is over- and under-filled at once, and the broken lineages are those of
  the replaced children whose replacement is not among the kept orders.\<close>

theorem account_conservation:
  assumes "list_all finite_order children"
  shows "let a = account_from_children par sy sd (Num t) children; ds = dedupe_latest_orders children in
    cum_filled a = Num (filled_sum ds) \<and>
    open_qty a = Num (remainder (\<lambda>s. s \<in> set OPEN_STATES) ds) \<and>
    gross_submitted_qty a = Num (filled_sum ds + remainder bucketed ds) \<and>
    remaining_unsubmitted a =
      Num (max (t - (filled_sum ds + remainder (\<lambda>s. s \<in> set OPEN_STATES) ds)) 0) \<and>
    (invariant_holds a \<longleftrightarrow> filled_sum ds + remainder (\<lambda>s. s \<in> set OPEN_STATES) ds \<le> t + QTY_TOL) \<and>
    \<not> (is_over_filled a \<and> is_under_filled a) \<and>
    unlinked_replacement_ids a =
      map lineage_id (filter (\<lambda>c. ord_state c = REPLACED \<and> unlinked (present_keys ds) c) ds)"
proof -
  note f = account_fields [OF assms, of par sy sd t]
  have "0 \<le> QTY_TOL" by (simp add: QTY_TOL_def)
  then show ?thesis
    using remainder_nonneg [of "\<lambda>s. s \<in> set OPEN_STATES" "dedupe_latest_orders children"]
    by (simp add: Let_def f gross_submitted_qty_def economic_exposure_def remaining_unsubmitted_def
        invariant_holds_def is_over_filled_def is_under_filled_def is_settled_def remainder_split add.assoc)
      linarith
qed

theorem account_conservation_witness:
  "gross_submitted_qty (account_from_children ''p'' ''spy'' ''buy'' (Num 10)
     [demo_order ''p:0'' CANCELED 10 4 ''2026-07-01'', demo_order ''p:1'' ACCEPTED 6 0 ''2026-07-02'']) = Num 16"
proof -
  let ?cs = "[demo_order ''p:0'' CANCELED 10 4 ''2026-07-01'', demo_order ''p:1'' ACCEPTED 6 0 ''2026-07-02'']"
  have d: "dedupe_latest_orders ?cs = ?cs"
    by (simp add: dedupe_latest_orders_def dedupe_all_def dedupe_step_def)
  have "list_all finite_order ?cs" by (simp add: finite_order_def)
  from account_conservation [OF this, of "''p''" "''spy''" "''buy''" 10] show ?thesis
    by (simp add: Let_def d filled_sum_def remainder_def bucketed_def rem_def OPEN_STATES_def)
qed

text \<open>A child with an \<open>UNKNOWN\<close> (or not yet submitted) state contributes its fills but its
  remainder is in no bucket: an account whose only child is such an order is settled, shows the
  whole remainder as available to submit, and as an under-fill.\<close>

theorem unknown_child_has_no_exposure:
  assumes "ord_state c \<in> {UNKNOWN, NONE, INTENDED}" and "filled_qty c = Num f" and "f + QTY_TOL < t"
  shows "let a = account_from_children par sy sd (Num t) [c] in
    open_qty a = Num 0 \<and> is_settled a \<and> is_under_filled a \<and>
    remaining_unsubmitted a = Num (t - f) \<and> gross_submitted_qty a = Num f"
proof -
  have d: "dedupe_latest_orders [c] = [c]"
    by (cases "order_key c") (simp_all add: dedupe_latest_orders_def dedupe_all_def dedupe_step_def)
  have a: "account_from_children par sy sd (Num t) [c] = (new_account par sy sd (Num t))\<lparr>cum_filled := Num f\<rparr>"
    using assms(1,2) by (auto simp: account_from_children_def d Let_def book_child_def OPEN_STATES_def new_account_def)
  have "0 \<le> QTY_TOL" by (simp add: QTY_TOL_def)
  then show ?thesis
    using assms(3)
    by (simp add: a Let_def new_account_def is_settled_def is_under_filled_def has_unlinked_replacement_def
        remaining_unsubmitted_def economic_exposure_def gross_submitted_qty_def)
qed

theorem unknown_child_has_no_exposure_witness:
  "remaining_unsubmitted (account_from_children ''p'' ''spy'' ''buy'' (Num 10)
     [demo_order ''p:0'' UNKNOWN 10 0 ''2026-07-01'']) = Num 10"
  using unknown_child_has_no_exposure [of "demo_order ''p:0'' UNKNOWN 10 0 ''2026-07-01''" 0 10 "''p''" "''spy''" "''buy''"]
  by (simp add: Let_def QTY_TOL_def)

text \<open>\<open>accounts_by_parent\<close> yields one account per intent, in the order of the intents, folded over
  exactly the orders that resolve to its identity, in their order; and an order whose client id
  is the parent id, a colon and a text without a colon resolves to that parent.\<close>

theorem accounts_grouped_by_parent:
  "accounts_by_parent intents os =
     map (\<lambda>i. account_from_children (parent_intent_id i) (oi_symbol i) (oi_side i) (target_qty i)
            (filter (\<lambda>q. parent_intent_id_of q = Some (parent_intent_id i)) os)) intents \<and>
   (ord_parent_id q = None \<and> ord_client_id q = Some (k @ '':'' @ n) \<and> CHR '':'' \<notin> set n \<longrightarrow>
      parent_intent_id_of q = Some k)"
proof -
  have "before_last_colon (k @ '':'' @ n) = k" if "CHR '':'' \<notin> set n"
  proof -
    have "dropWhile (\<lambda>c. c \<noteq> CHR '':'') (rev n @ CHR '':'' # rev k) = CHR '':'' # rev k"
      using that by (subst dropWhile_append2) auto
    then show ?thesis by (simp add: before_last_colon_def)
  qed
  then show ?thesis
    using group_step_get [of "[]" os]
    by (auto simp: accounts_by_parent_def Let_def dget_def parent_intent_id_of_def)
qed

theorem accounts_grouped_by_parent_witness:
  "parent_intent_id_of (demo_order ''pi-1:0'' FILLED 1 1 ''2026-07-01'') = Some ''pi-1''"
proof -
  have "ord_parent_id (demo_order ''pi-1:0'' FILLED 1 1 ''2026-07-01'') = None \<and>
      ord_client_id (demo_order ''pi-1:0'' FILLED 1 1 ''2026-07-01'') = Some (''pi-1'' @ '':'' @ ''0'') \<and>
      CHR '':'' \<notin> set ''0''" by simp
  with accounts_grouped_by_parent [of "[]" "[]" "demo_order ''pi-1:0'' FILLED 1 1 ''2026-07-01''" "''pi-1''" "''0''"]
  show ?thesis by blast
qed

end
