(* ===== verification/Reconciler.thy ===== *)
theory Reconciler
  imports QuantityAccounts
begin

text \<open>
  \<open>execution_reconciler.py\<close>, part 4: \<open>ExecutionReconciler.reconcile\<close> with its three diffs, the
  report and \<open>maybe_alert\<close>. The loaders are arguments (the two states); the \<open>detail\<close> texts are
  left out, so the alert's poster receives the report where the code passes its summary.
  A quantity that cannot be rounded, and a naive \<open>as_of\<close> datetime, raise.
\<close>

section \<open>The divergence taxonomy\<close>

datatype severity = INFO | WARNING | CRITICAL

fun SEVERITY_ORDER :: "severity \<Rightarrow> nat" where
  "SEVERITY_ORDER INFO = 0"
| "SEVERITY_ORDER WARNING = 1"
| "SEVERITY_ORDER CRITICAL = 2"

instantiation severity :: linorder
begin

definition less_eq_severity :: "severity \<Rightarrow> severity \<Rightarrow> bool" where
  "less_eq_severity a b \<longleftrightarrow> SEVERITY_ORDER a \<le> SEVERITY_ORDER b"

definition less_severity :: "severity \<Rightarrow> severity \<Rightarrow> bool" where
  "less_severity a b \<longleftrightarrow> SEVERITY_ORDER a < SEVERITY_ORDER b"

instance
proof
  fix a b c :: severity
  show "(a < b) = (a \<le> b \<and> \<not> b \<le> a)" by (auto simp: less_eq_severity_def less_severity_def)
  show "a \<le> a" by (simp add: less_eq_severity_def)
  show "a \<le> b \<Longrightarrow> b \<le> c \<Longrightarrow> a \<le> c" by (simp add: less_eq_severity_def)
  show "a \<le> b \<Longrightarrow> b \<le> a \<Longrightarrow> a = b" by (cases a; cases b) (auto simp: less_eq_severity_def)
  show "a \<le> b \<or> b \<le> a" by (auto simp: less_eq_severity_def)
qed

end

lemma severity_bounds [simp]: "INFO \<le> s" "s \<le> CRITICAL" "CRITICAL \<le> s \<longleftrightarrow> s = CRITICAL"
  by (cases s; simp add: less_eq_severity_def)+

datatype divergence_kind = MISSING_LOCAL_FILL | PHANTOM_LOCAL_POSITION | QUANTITY_MISMATCH
  | ORPHAN_BROKER_ORDER | UNTRACKED_LOCAL_ORDER | ORDER_STATE_DRIFT | STALE_PENDING_ORDER
  | OVER_FILL | UNDER_FILL | FRACTIONAL_QUANTITY | UNKNOWN_ORDER_STATUS | REPLACEMENT_LINEAGE_BREAK

definition LEDGER_MISMATCH_KINDS :: "divergence_kind list" where
  "LEDGER_MISMATCH_KINDS =
     [ORPHAN_BROKER_ORDER, UNTRACKED_LOCAL_ORDER, ORDER_STATE_DRIFT, UNKNOWN_ORDER_STATUS,
      REPLACEMENT_LINEAGE_BREAK]"

text \<open>What a divergence shows of one side.\<close>

datatype side_value = NoValue | Quantity pyfloat | OrderId "string option" | StateOf order_state
  | AccountOf quantity_account

record divergence =
  div_kind :: divergence_kind
  div_severity :: severity
  div_symbol :: string
  div_local :: side_value
  div_broker :: side_value

definition diverge :: "divergence_kind \<Rightarrow> severity \<Rightarrow> string \<Rightarrow> side_value \<Rightarrow> side_value \<Rightarrow> divergence" where
  "diverge k s y l b = \<lparr>div_kind = k, div_severity = s, div_symbol = y, div_local = l, div_broker = b\<rparr>"

record local_state =
  loc_positions :: "position dict"
  loc_orders :: "order_record list"
  loc_accounts :: "quantity_account list"

record broker_state =
  brk_positions :: "position dict"
  brk_orders :: "order_record list"

section \<open>Positions\<close>

definition qty_of :: "position dict \<Rightarrow> string \<Rightarrow> pyfloat" where
  "qty_of ps y = (case map_of ps y of Some p \<Rightarrow> pos_qty p | None \<Rightarrow> Num 0)"

definition nonzero :: "pyfloat \<Rightarrow> bool" where
  "nonzero q \<longleftrightarrow> flt (Num QTY_TOL) (fabs q)"

definition negligible :: "pyfloat \<Rightarrow> bool" where
  "negligible q \<longleftrightarrow> fle (fabs q) (Num QTY_TOL)"

definition side_fractional :: "pyfloat \<Rightarrow> py_error + bool" where
  "side_fractional q = (if nonzero q then map_sum id Not (is_whole_share q) else Inr False)"

definition mismatch_rows :: "string \<Rightarrow> pyfloat \<Rightarrow> pyfloat \<Rightarrow> divergence list" where
  "mismatch_rows y lq bq =
     (if negligible (fsub lq bq) then []
      else if negligible lq \<and> nonzero bq
        then [diverge MISSING_LOCAL_FILL CRITICAL y (Quantity lq) (Quantity bq)]
      else if nonzero lq \<and> negligible bq
        then [diverge PHANTOM_LOCAL_POSITION CRITICAL y (Quantity lq) (Quantity bq)]
      else [diverge QUANTITY_MISMATCH WARNING y (Quantity lq) (Quantity bq)])"

definition diff_position :: "string \<Rightarrow> pyfloat \<Rightarrow> pyfloat \<Rightarrow> py_error + divergence list" where
  "diff_position y lq bq =
     (case side_fractional lq of Inl e \<Rightarrow> Inl e | Inr lf \<Rightarrow>
     (case side_fractional bq of Inl e \<Rightarrow> Inl e | Inr bf \<Rightarrow>
        Inr ((if lf \<or> bf then [diverge FRACTIONAL_QUANTITY INFO y (Quantity lq) (Quantity bq)] else [])
             @ mismatch_rows y lq bq)))"

definition all_symbols :: "local_state \<Rightarrow> broker_state \<Rightarrow> string list" where
  "all_symbols l b = sort (remdups (map fst (loc_positions l) @ map fst (brk_positions b)))"

definition diff_positions :: "local_state \<Rightarrow> broker_state \<Rightarrow> py_error + divergence list" where
  "diff_positions l b =
     collect_all (\<lambda>y. diff_position y (qty_of (loc_positions l) y) (qty_of (brk_positions b) y)) (all_symbols l b)"

section \<open>Orders\<close>

definition by_id :: "order_record list \<Rightarrow> order_record dict" where
  "by_id os = foldl (\<lambda>d q. case ord_client_id q of
       None \<Rightarrow> d | Some k \<Rightarrow> if k = [] then d else dset d k q) [] os"

definition tracked :: "order_record dict \<Rightarrow> order_record \<Rightarrow> bool" where
  "tracked d q \<longleftrightarrow> (case ord_client_id q of None \<Rightarrow> False | Some k \<Rightarrow> dhas d k)"

definition unknown_rows :: "order_record list \<Rightarrow> divergence list" where
  "unknown_rows os =
     [diverge UNKNOWN_ORDER_STATUS CRITICAL (ord_symbol q) NoValue (OrderId (order_key q)). q \<leftarrow> os, is_unknown_status q]"

definition orphan_rows :: "order_record dict \<Rightarrow> order_record list \<Rightarrow> divergence list" where
  "orphan_rows local_ids os =
     [diverge ORPHAN_BROKER_ORDER WARNING (ord_symbol q) NoValue (OrderId (order_key q)).
        q \<leftarrow> os, is_open q \<and> \<not> tracked local_ids q]"

definition untracked_rows :: "order_record dict \<Rightarrow> order_record list \<Rightarrow> divergence list" where
  "untracked_rows broker_ids os =
     [diverge UNTRACKED_LOCAL_ORDER WARNING (ord_symbol q) (OrderId (ord_client_id q)) NoValue.
        q \<leftarrow> os, is_open q \<and> \<not> tracked broker_ids q]"

definition drift_rows :: "order_record \<Rightarrow> order_record \<Rightarrow> divergence list" where
  "drift_rows lo bo =
     (if is_unknown_status bo then []
      else if flt (Num QTY_TOL) (fsub (filled_qty bo) (filled_qty lo))
        then [diverge MISSING_LOCAL_FILL CRITICAL (ord_symbol bo) (Quantity (filled_qty lo)) (Quantity (filled_qty bo))]
      else if ord_state bo \<noteq> ord_state lo
        then [diverge ORDER_STATE_DRIFT WARNING (ord_symbol bo) (StateOf (ord_state lo)) (StateOf (ord_state bo))]
      else [])"

definition matched_rows :: "order_record dict \<Rightarrow> order_record dict \<Rightarrow> divergence list" where
  "matched_rows local_ids broker_ids =
     concat (map (\<lambda>(cid, lo). case map_of broker_ids cid of None \<Rightarrow> [] | Some bo \<Rightarrow> drift_rows lo bo) local_ids)"

text \<open>
  The age of an open order, in seconds; subtracting an aware timestamp from a naive \<open>as_of\<close>
  raises.
\<close>

definition stale_row :: "pyfloat \<Rightarrow> datetime \<Rightarrow> order_record \<Rightarrow> py_error + divergence list" where
  "stale_row max_age as_of q =
     (if \<not> is_open q then Inr []
      else case parse_ts (str_or (submitted_at q) (created_at q)) of
        None \<Rightarrow> Inr []
      | Some ts \<Rightarrow>
          if utc_offset as_of = None then Inl TypeError
          else if flt max_age (Num (of_int (utc_instant as_of - ts) / 1000000))
            then Inr [diverge STALE_PENDING_ORDER WARNING (ord_symbol q) NoValue (OrderId (order_key q))]
          else Inr [])"

definition diff_orders ::
    "pyfloat \<Rightarrow> local_state \<Rightarrow> broker_state \<Rightarrow> datetime option \<Rightarrow> py_error + divergence list" where
  "diff_orders max_age l b as_of =
     (let lids = by_id (loc_orders l); bids = by_id (brk_orders b);
          rows = unknown_rows (brk_orders b) @ orphan_rows lids (brk_orders b)
                 @ untracked_rows bids (loc_orders l) @ matched_rows lids bids in
      case as_of of
        None \<Rightarrow> Inr rows
      | Some t \<Rightarrow> map_sum id (\<lambda>st. rows @ st) (collect_all (stale_row max_age t) (brk_orders b)))"

section \<open>Accounts\<close>

definition account_rows :: "quantity_account \<Rightarrow> py_error + divergence list" where
  "account_rows a =
     (let fill = (if is_over_filled a then [diverge OVER_FILL CRITICAL (acct_symbol a) (AccountOf a) NoValue]
                  else if is_under_filled a then [diverge UNDER_FILL INFO (acct_symbol a) (AccountOf a) NoValue]
                  else []);
          lineage = (if has_unlinked_replacement a
                     then [diverge REPLACEMENT_LINEAGE_BREAK WARNING (acct_symbol a) (AccountOf a) NoValue] else []) in
      map_sum id (\<lambda>fr. fill @ (if fr then [diverge FRACTIONAL_QUANTITY INFO (acct_symbol a) (AccountOf a) NoValue]
                                 else []) @ lineage) (is_fractional a))"

definition diff_accounts :: "local_state \<Rightarrow> py_error + divergence list" where
  "diff_accounts l = collect_all account_rows (loc_accounts l)"

section \<open>The report\<close>

datatype as_of_arg = NoAsOf | AsOfText string | AsOfDatetime datetime

definition as_of_datetime :: "as_of_arg \<Rightarrow> datetime option" where
  "as_of_datetime a =
     (case a of
        NoAsOf \<Rightarrow> None
      | AsOfText s \<Rightarrow> map_option (\<lambda>t. \<lparr>wall = t, utc_offset = Some 0\<rparr>) (parse_ts (Some s))
      | AsOfDatetime d \<Rightarrow> Some d)"

type_synonym report = "divergence list"

definition reconcile :: "pyfloat \<Rightarrow> local_state \<Rightarrow> broker_state \<Rightarrow> as_of_arg \<Rightarrow> py_error + report" where
  "reconcile max_age l b as_of =
     (case diff_positions l b of Inl e \<Rightarrow> Inl e | Inr ps \<Rightarrow>
     (case diff_orders max_age l b (as_of_datetime as_of) of Inl e \<Rightarrow> Inl e | Inr os \<Rightarrow>
     (case diff_accounts l of Inl e \<Rightarrow> Inl e | Inr as \<Rightarrow> Inr (ps @ os @ as))))"

definition DEFAULT_MAX_PENDING_AGE :: pyfloat where "DEFAULT_MAX_PENDING_AGE = Num 600"

definition is_clean :: "report \<Rightarrow> bool" where
  "is_clean r \<longleftrightarrow> r = []"

definition max_severity :: "report \<Rightarrow> severity option" where
  "max_severity r =
     (case map div_severity r of
        [] \<Rightarrow> None
      | s # ss \<Rightarrow> Some (foldl (\<lambda>m x. if SEVERITY_ORDER m < SEVERITY_ORDER x then x else m) s ss))"

definition halt_new_entries_advised :: "report \<Rightarrow> bool" where
  "halt_new_entries_advised r \<longleftrightarrow>
     list_ex (\<lambda>d. div_severity d = CRITICAL \<or> div_kind d \<in> set LEDGER_MISMATCH_KINDS) r"

definition counts_by_kind :: "report \<Rightarrow> (divergence_kind \<times> nat) list" where
  "counts_by_kind r =
     foldl (\<lambda>d x. AList.update (div_kind x) ((case map_of d (div_kind x) of Some n \<Rightarrow> n | None \<Rightarrow> 0) + 1) d) [] r"

definition counts_by_severity :: "report \<Rightarrow> (severity \<times> nat) list" where
  "counts_by_severity r =
     foldl (\<lambda>d x. AList.update (div_severity x) ((case map_of d (div_severity x) of Some n \<Rightarrow> n | None \<Rightarrow> 0) + 1) d) [] r"

definition of_kind :: "divergence_kind \<Rightarrow> report \<Rightarrow> report" where
  "of_kind k r = filter (\<lambda>d. div_kind d = k) r"

fun severity_name :: "severity \<Rightarrow> string" where
  "severity_name INFO = ''INFO''"
| "severity_name WARNING = ''WARNING''"
| "severity_name CRITICAL = ''CRITICAL''"

definition maybe_alert ::
    "(string \<Rightarrow> report \<Rightarrow> string \<Rightarrow> bool) \<Rightarrow> bool \<Rightarrow> string option \<Rightarrow> severity \<Rightarrow> report \<Rightarrow> bool" where
  "maybe_alert poster enabled topic min_severity r =
     (if \<not> enabled then False
      else case topic of
        None \<Rightarrow> False
      | Some t \<Rightarrow>
          if t = [] then False
          else case max_severity r of
            None \<Rightarrow> False
          | Some s \<Rightarrow>
              if SEVERITY_ORDER s < SEVERITY_ORDER min_severity then False
              else poster (''renquant105 reconcile: '' @ severity_name s @
                    (if halt_new_entries_advised r then '' (halt-new-entries advised)'' else '''')) r t)"


section \<open>Facts about the indexes\<close>

definition lookup_id :: "order_record list \<Rightarrow> string \<Rightarrow> order_record option" where
  "lookup_id os k = (if k = [] then None else find (\<lambda>q. ord_client_id q = Some k) (rev os))"

lemma by_id_snoc:
  "by_id (os @ [q]) = (case ord_client_id q of None \<Rightarrow> by_id os
     | Some k \<Rightarrow> if k = [] then by_id os else dset (by_id os) k q)"
  unfolding by_id_def by (simp split: option.split)

lemma map_of_by_id: "map_of (by_id os) k = lookup_id os k"
proof (induction os rule: rev_induct)
  case Nil
  show ?case by (simp add: by_id_def lookup_id_def)
next
  case (snoc q os)
  then show ?case by (cases "ord_client_id q") (auto simp: by_id_snoc lookup_id_def)
qed

lemma distinct_by_id: "distinct (map fst (by_id os))"
proof (induction os rule: rev_induct)
  case Nil
  show ?case by (simp add: by_id_def)
next
  case (snoc q os)
  then show ?case by (cases "ord_client_id q") (auto simp: by_id_snoc distinct_keys_dset)
qed

lemma mem_by_id: "(k, q) \<in> set (by_id os) \<longleftrightarrow> lookup_id os k = Some q"
  using distinct_by_id [of os] by (simp add: map_of_by_id flip: map_of_eq_Some_iff)

lemma lookup_id_exists:
  "lookup_id os k \<noteq> None \<longleftrightarrow> k \<noteq> [] \<and> (\<exists>p \<in> set os. ord_client_id p = Some k)"
  using find_None_iff [of "\<lambda>q. ord_client_id q = Some k" "rev os"]
  by (auto simp: lookup_id_def)

definition known_in :: "order_record list \<Rightarrow> order_record \<Rightarrow> bool" where
  "known_in os q \<longleftrightarrow> (\<exists>k p. ord_client_id q = Some k \<and> k \<noteq> [] \<and> p \<in> set os \<and> ord_client_id p = Some k)"

lemma tracked_by_id: "tracked (by_id os) q \<longleftrightarrow> known_in os q"
proof (cases "ord_client_id q")
  case (Some k)
  have "dhas (by_id os) k \<longleftrightarrow> lookup_id os k \<noteq> None" by (simp add: dhas_def map_of_by_id)
  with Some show ?thesis unfolding lookup_id_exists by (auto simp: tracked_def known_in_def)
qed (simp add: tracked_def known_in_def)

section \<open>Facts about the rows\<close>

definition whole :: "rat \<Rightarrow> bool" where
  "whole x \<longleftrightarrow> \<bar>x - of_int (round_half_even x)\<bar> \<le> QTY_TOL"

definition halting :: "divergence \<Rightarrow> bool" where
  "halting d \<longleftrightarrow> div_severity d = CRITICAL \<or> div_kind d \<in> set LEDGER_MISMATCH_KINDS"

lemma halting_diverge: "halting (diverge k s y l b) \<longleftrightarrow> s = CRITICAL \<or> k \<in> set LEDGER_MISMATCH_KINDS"
  by (simp add: halting_def diverge_def)

lemmas halting_rows = halting_diverge LEDGER_MISMATCH_KINDS_def

lemma small_whole: "\<bar>x\<bar> \<le> QTY_TOL \<Longrightarrow> whole x"
proof -
  assume x: "\<bar>x\<bar> \<le> QTY_TOL"
  then have "x < 1/2" "- (1/2) < x" by (auto simp: QTY_TOL_def)
  then have "\<lfloor>x\<rfloor> = 0 \<or> \<lfloor>x\<rfloor> = -1" by linarith
  then have "round_half_even x = 0"
    using \<open>x < 1/2\<close> \<open>- (1/2) < x\<close> by (auto simp: round_half_even_def Let_def)
  with x show ?thesis by (simp add: whole_def)
qed

lemma side_fractional_Num: "side_fractional (Num x) = Inr (\<not> whole x)"
  using small_whole [of x] by (auto simp: side_fractional_def nonzero_def is_whole_share_def simp flip: whole_def)

definition position_rows :: "string \<Rightarrow> rat \<Rightarrow> rat \<Rightarrow> divergence list" where
  "position_rows y l b =
     (if whole l \<and> whole b then [] else [diverge FRACTIONAL_QUANTITY INFO y (Quantity (Num l)) (Quantity (Num b))])
     @ mismatch_rows y (Num l) (Num b)"

lemma diff_position_Num: "diff_position y (Num l) (Num b) = Inr (position_rows y l b)"
  by (auto simp: diff_position_def side_fractional_Num position_rows_def)

lemma position_rows_Nil: "position_rows y l b = [] \<longleftrightarrow> whole l \<and> whole b \<and> \<bar>l - b\<bar> \<le> QTY_TOL"
  by (auto simp: position_rows_def mismatch_rows_def negligible_def)

lemma position_rows_halting:
  "list_ex halting (position_rows y l b) \<longleftrightarrow>
     QTY_TOL < \<bar>l - b\<bar> \<and> (\<bar>l\<bar> \<le> QTY_TOL) \<noteq> (\<bar>b\<bar> \<le> QTY_TOL)"
  by (auto simp: position_rows_def mismatch_rows_def negligible_def nonzero_def halting_rows)

definition finite_quantities :: "local_state \<Rightarrow> broker_state \<Rightarrow> bool" where
  "finite_quantities l b \<longleftrightarrow>
     (\<forall>(y, p) \<in> set (loc_positions l). is_num (pos_qty p)) \<and>
     (\<forall>(y, p) \<in> set (brk_positions b). is_num (pos_qty p)) \<and>
     (\<forall>a \<in> set (loc_accounts l). is_num (acct_target a) \<and> is_num (cum_filled a) \<and> is_num (open_qty a))"

definition aware :: "as_of_arg \<Rightarrow> bool" where
  "aware t \<longleftrightarrow> (case t of AsOfDatetime d \<Rightarrow> utc_offset d \<noteq> None | _ \<Rightarrow> True)"

abbreviation held :: "position dict \<Rightarrow> string \<Rightarrow> rat" where
  "held ps y \<equiv> num_of (qty_of ps y)"

lemma qty_of_Num: "(\<forall>(y, p) \<in> set ps. is_num (pos_qty p)) \<Longrightarrow> qty_of ps y = Num (held ps y)"
proof (cases "map_of ps y")
  case (Some p)
  moreover assume "\<forall>(y, p) \<in> set ps. is_num (pos_qty p)"
  ultimately have "is_num (pos_qty p)" by (auto dest: map_of_SomeD)
  with Some show ?thesis by (cases "pos_qty p") (simp_all add: qty_of_def)
qed (simp add: qty_of_def)

lemma held_absent: "y \<notin> fst ` set ps \<Longrightarrow> held ps y = 0"
  by (simp add: qty_of_def map_of_eq_None_iff [THEN iffD2])

definition positions_report :: "local_state \<Rightarrow> broker_state \<Rightarrow> divergence list" where
  "positions_report l b =
     concat (map (\<lambda>y. position_rows y (held (loc_positions l) y) (held (brk_positions b) y)) (all_symbols l b))"

lemma diff_positions_finite:
  assumes "finite_quantities l b"
  shows "diff_positions l b = Inr (positions_report l b)"
proof -
  have "qty_of (loc_positions l) y = Num (held (loc_positions l) y)"
    "qty_of (brk_positions b) y = Num (held (brk_positions b) y)" for y
    using assms by (auto simp: finite_quantities_def intro!: qty_of_Num)
  then show ?thesis unfolding diff_positions_def positions_report_def
    by (intro collect_all_Inr) (metis diff_position_Num)
qed

lemma set_all_symbols: "set (all_symbols l b) = fst ` set (loc_positions l) \<union> fst ` set (brk_positions b)"
  by (simp add: all_symbols_def)

lemma unlisted_symbol:
  "y \<notin> set (all_symbols l b) \<Longrightarrow> held (loc_positions l) y = 0 \<and> held (brk_positions b) y = 0"
  by (simp add: set_all_symbols held_absent)

lemma zero_rows: "position_rows y 0 0 = []"
  by (simp add: position_rows_Nil small_whole QTY_TOL_def)

text \<open>A predicate of a symbol's rows that no empty list has ranges over all strings alike.\<close>

lemma all_symbols_all:
  "(\<forall>y \<in> set (all_symbols l b). position_rows y (held (loc_positions l) y) (held (brk_positions b) y) = []) \<longleftrightarrow>
   (\<forall>y. position_rows y (held (loc_positions l) y) (held (brk_positions b) y) = [])"
  using unlisted_symbol zero_rows by metis

lemma all_symbols_ex:
  "(\<exists>y \<in> set (all_symbols l b). list_ex P (position_rows y (held (loc_positions l) y) (held (brk_positions b) y))) \<longleftrightarrow>
   (\<exists>y. list_ex P (position_rows y (held (loc_positions l) y) (held (brk_positions b) y)))"
  using unlisted_symbol zero_rows by (metis (no_types) list_ex_iff empty_iff list.set(1))


section \<open>Facts about the order and account rows\<close>

definition drifted :: "order_record \<Rightarrow> order_record \<Rightarrow> bool" where
  "drifted lo bo \<longleftrightarrow> ord_state bo \<noteq> UNKNOWN \<and>
     (flt (Num QTY_TOL) (fsub (filled_qty bo) (filled_qty lo)) \<or> ord_state bo \<noteq> ord_state lo)"

lemma unknown_rows_facts:
  "unknown_rows os = [] \<longleftrightarrow> (\<forall>q \<in> set os. ord_state q \<noteq> UNKNOWN)"
  "list_ex halting (unknown_rows os) \<longleftrightarrow> (\<exists>q \<in> set os. ord_state q = UNKNOWN)"
  by (auto simp: unknown_rows_def is_unknown_status_def list_ex_iff halting_rows)

lemma orphan_rows_facts:
  "orphan_rows (by_id ls) os = [] \<longleftrightarrow> (\<forall>q \<in> set os. is_open q \<longrightarrow> known_in ls q)"
  "list_ex halting (orphan_rows (by_id ls) os) \<longleftrightarrow> (\<exists>q \<in> set os. is_open q \<and> \<not> known_in ls q)"
  by (auto simp: orphan_rows_def tracked_by_id list_ex_iff halting_rows)

lemma untracked_rows_facts:
  "untracked_rows (by_id bs) os = [] \<longleftrightarrow> (\<forall>q \<in> set os. is_open q \<longrightarrow> known_in bs q)"
  "list_ex halting (untracked_rows (by_id bs) os) \<longleftrightarrow> (\<exists>q \<in> set os. is_open q \<and> \<not> known_in bs q)"
  by (auto simp: untracked_rows_def tracked_by_id list_ex_iff halting_rows)

lemma drift_rows_facts:
  "drift_rows lo bo = [] \<longleftrightarrow> \<not> drifted lo bo"
  "list_ex halting (drift_rows lo bo) \<longleftrightarrow> drifted lo bo"
  by (auto simp: drift_rows_def drifted_def is_unknown_status_def halting_rows)

lemma matched_rows_mem:
  "d \<in> set (matched_rows (by_id ls) (by_id bs)) \<longleftrightarrow>
   (\<exists>k lo bo. lookup_id ls k = Some lo \<and> lookup_id bs k = Some bo \<and> d \<in> set (drift_rows lo bo))"
proof -
  have "d \<in> set (matched_rows (by_id ls) (by_id bs)) \<longleftrightarrow>
      (\<exists>k lo. (k, lo) \<in> set (by_id ls) \<and>
        d \<in> set (case lookup_id bs k of None \<Rightarrow> [] | Some bo \<Rightarrow> drift_rows lo bo))"
    by (auto simp: matched_rows_def map_of_by_id)
  moreover have "d \<in> set (case lookup_id bs k of None \<Rightarrow> [] | Some bo \<Rightarrow> drift_rows lo bo) \<longleftrightarrow>
      (\<exists>bo. lookup_id bs k = Some bo \<and> d \<in> set (drift_rows lo bo))" for k lo
    by (cases "lookup_id bs k") auto
  ultimately show ?thesis unfolding mem_by_id by blast
qed

lemma matched_rows_facts:
  "matched_rows (by_id ls) (by_id bs) = [] \<longleftrightarrow>
     (\<forall>k lo bo. lookup_id ls k = Some lo \<and> lookup_id bs k = Some bo \<longrightarrow> \<not> drifted lo bo)"
  "list_ex halting (matched_rows (by_id ls) (by_id bs)) \<longleftrightarrow>
     (\<exists>k lo bo. lookup_id ls k = Some lo \<and> lookup_id bs k = Some bo \<and> drifted lo bo)"
proof -
  have "matched_rows (by_id ls) (by_id bs) = [] \<longleftrightarrow> (\<nexists>d. d \<in> set (matched_rows (by_id ls) (by_id bs)))"
    by (metis last_in_set list.set(1) empty_iff)
  also have "\<dots> \<longleftrightarrow> (\<forall>k lo bo. lookup_id ls k = Some lo \<and> lookup_id bs k = Some bo \<longrightarrow> drift_rows lo bo = [])"
    unfolding matched_rows_mem by (metis last_in_set list.set(1) empty_iff)
  finally show "matched_rows (by_id ls) (by_id bs) = [] \<longleftrightarrow>
     (\<forall>k lo bo. lookup_id ls k = Some lo \<and> lookup_id bs k = Some bo \<longrightarrow> \<not> drifted lo bo)"
    by (simp only: drift_rows_facts)
  show "list_ex halting (matched_rows (by_id ls) (by_id bs)) \<longleftrightarrow>
     (\<exists>k lo bo. lookup_id ls k = Some lo \<and> lookup_id bs k = Some bo \<and> drifted lo bo)"
    unfolding list_ex_iff Bex_def matched_rows_mem drift_rows_facts(2) [symmetric] by blast
qed

definition stale :: "pyfloat \<Rightarrow> datetime \<Rightarrow> order_record \<Rightarrow> bool" where
  "stale max_age t q \<longleftrightarrow> is_open q \<and>
     (case parse_ts (str_or (submitted_at q) (created_at q)) of None \<Rightarrow> False
      | Some ts \<Rightarrow> flt max_age (Num (of_int (utc_instant t - ts) / 1000000)))"

lemma stale_row_aware:
  "utc_offset t \<noteq> None \<Longrightarrow> stale_row max_age t q =
     Inr (if stale max_age t q then [diverge STALE_PENDING_ORDER WARNING (ord_symbol q) NoValue (OrderId (order_key q))]
          else [])"
  by (auto simp: stale_row_def stale_def split: option.split)

definition stale_report :: "pyfloat \<Rightarrow> broker_state \<Rightarrow> datetime option \<Rightarrow> divergence list" where
  "stale_report max_age b as_of =
     (case as_of of None \<Rightarrow> []
      | Some t \<Rightarrow> concat (map (\<lambda>q. if stale max_age t q
          then [diverge STALE_PENDING_ORDER WARNING (ord_symbol q) NoValue (OrderId (order_key q))] else [])
          (brk_orders b)))"

definition orders_report :: "local_state \<Rightarrow> broker_state \<Rightarrow> divergence list" where
  "orders_report l b =
     unknown_rows (brk_orders b) @ orphan_rows (by_id (loc_orders l)) (brk_orders b)
     @ untracked_rows (by_id (brk_orders b)) (loc_orders l)
     @ matched_rows (by_id (loc_orders l)) (by_id (brk_orders b))"

lemma diff_orders_aware:
  assumes "aware as_of"
  shows "diff_orders max_age l b (as_of_datetime as_of) =
    Inr (orders_report l b @ stale_report max_age b (as_of_datetime as_of))"
proof (cases "as_of_datetime as_of")
  case None
  then show ?thesis by (simp add: diff_orders_def orders_report_def stale_report_def Let_def)
next
  case (Some t)
  then have t: "utc_offset t \<noteq> None"
    using assms by (auto simp: as_of_datetime_def aware_def split: as_of_arg.splits)
  have "collect_all (stale_row max_age t) (brk_orders b) = Inr (stale_report max_age b (Some t))"
    unfolding stale_report_def option.case by (rule collect_all_Inr) (simp add: stale_row_aware [OF t])
  with Some show ?thesis by (simp add: diff_orders_def orders_report_def Let_def)
qed

lemma stale_report_facts:
  "stale_report max_age b as_of = [] \<longleftrightarrow>
     (\<forall>t. as_of = Some t \<longrightarrow> (\<forall>q \<in> set (brk_orders b). \<not> stale max_age t q))"
  "\<not> list_ex halting (stale_report max_age b as_of)"
  by (auto simp: stale_report_def list_ex_iff halting_rows split: option.split if_splits)

definition account_fractional :: "quantity_account \<Rightarrow> bool" where
  "account_fractional a \<longleftrightarrow>
     \<not> (whole (num_of (acct_target a)) \<and> whole (num_of (cum_filled a)) \<and> whole (num_of (open_qty a)))"

definition account_report :: "quantity_account \<Rightarrow> divergence list" where
  "account_report a =
     (if is_over_filled a then [diverge OVER_FILL CRITICAL (acct_symbol a) (AccountOf a) NoValue]
      else if is_under_filled a then [diverge UNDER_FILL INFO (acct_symbol a) (AccountOf a) NoValue] else [])
     @ (if account_fractional a then [diverge FRACTIONAL_QUANTITY INFO (acct_symbol a) (AccountOf a) NoValue] else [])
     @ (if has_unlinked_replacement a
        then [diverge REPLACEMENT_LINEAGE_BREAK WARNING (acct_symbol a) (AccountOf a) NoValue] else [])"

lemma is_fractional_Num:
  "is_num (acct_target a) \<Longrightarrow> is_num (cum_filled a) \<Longrightarrow> is_num (open_qty a) \<Longrightarrow>
   is_fractional a = Inr (account_fractional a)"
  by (cases "acct_target a"; cases "cum_filled a"; cases "open_qty a")
    (simp_all add: is_fractional_def account_fractional_def is_whole_share_def flip: whole_def)

lemma diff_accounts_finite:
  assumes "finite_quantities l b"
  shows "diff_accounts l = Inr (concat (map account_report (loc_accounts l)))"
  unfolding diff_accounts_def using assms
  by (intro collect_all_Inr)
    (simp add: finite_quantities_def account_rows_def account_report_def is_fractional_Num Let_def)

lemma account_report_facts:
  "account_report a = [] \<longleftrightarrow> \<not> is_over_filled a \<and> \<not> is_under_filled a \<and> \<not> account_fractional a \<and>
     \<not> has_unlinked_replacement a"
  "list_ex halting (account_report a) \<longleftrightarrow> is_over_filled a \<or> has_unlinked_replacement a"
  by (auto simp: account_report_def halting_rows)

lemma reconcile_finite:
  assumes "finite_quantities l b" and "aware as_of"
  shows "reconcile max_age l b as_of =
    Inr (positions_report l b @ (orders_report l b @ stale_report max_age b (as_of_datetime as_of)) @
         concat (map account_report (loc_accounts l)))"
  by (simp add: reconcile_def diff_positions_finite [OF assms(1)] diff_orders_aware [OF assms(2)]
      diff_accounts_finite [OF assms(1)])

lemma positions_report_facts:
  "positions_report l b = [] \<longleftrightarrow>
     (\<forall>y. whole (held (loc_positions l) y) \<and> whole (held (brk_positions b) y) \<and>
          \<bar>held (loc_positions l) y - held (brk_positions b) y\<bar> \<le> QTY_TOL)"
  "list_ex halting (positions_report l b) \<longleftrightarrow>
     (\<exists>y. QTY_TOL < \<bar>held (loc_positions l) y - held (brk_positions b) y\<bar> \<and>
          (\<bar>held (loc_positions l) y\<bar> \<le> QTY_TOL) \<noteq> (\<bar>held (brk_positions b) y\<bar> \<le> QTY_TOL))"
proof -
  have "positions_report l b = [] \<longleftrightarrow>
      (\<forall>y \<in> set (all_symbols l b). position_rows y (held (loc_positions l) y) (held (brk_positions b) y) = [])"
    by (auto simp: positions_report_def)
  then show "positions_report l b = [] \<longleftrightarrow>
     (\<forall>y. whole (held (loc_positions l) y) \<and> whole (held (brk_positions b) y) \<and>
          \<bar>held (loc_positions l) y - held (brk_positions b) y\<bar> \<le> QTY_TOL)"
    by (simp only: all_symbols_all) (simp only: position_rows_Nil)
  have "list_ex halting (positions_report l b) \<longleftrightarrow>
      (\<exists>y \<in> set (all_symbols l b). list_ex halting (position_rows y (held (loc_positions l) y) (held (brk_positions b) y)))"
    by (auto simp: positions_report_def list_ex_iff)
  then show "list_ex halting (positions_report l b) \<longleftrightarrow>
     (\<exists>y. QTY_TOL < \<bar>held (loc_positions l) y - held (brk_positions b) y\<bar> \<and>
          (\<bar>held (loc_positions l) y\<bar> \<le> QTY_TOL) \<noteq> (\<bar>held (brk_positions b) y\<bar> \<le> QTY_TOL))"
    by (simp only: all_symbols_ex) (simp only: position_rows_halting)
qed

lemma halt_advised: "halt_new_entries_advised r \<longleftrightarrow> list_ex halting r"
  by (simp add: halt_new_entries_advised_def halting_def [abs_def])

lemma max_severity_Max:
  "r \<noteq> [] \<Longrightarrow> max_severity r = Some (Max (div_severity ` set r))"
proof (induction r rule: rev_nonempty_induct)
  case (single d)
  show ?case by (simp add: max_severity_def)
next
  case (snoc d r)
  then have "map div_severity r \<noteq> []" by simp
  then obtain s ss where m: "map div_severity r = s # ss" by (cases "map div_severity r") auto
  with snoc have "foldl (\<lambda>m x. if SEVERITY_ORDER m < SEVERITY_ORDER x then x else m) s ss = Max (div_severity ` set r)"
    by (simp add: max_severity_def)
  with m have "max_severity (r @ [d]) =
      Some (if Max (div_severity ` set r) < div_severity d then div_severity d else Max (div_severity ` set r))"
    by (simp add: max_severity_def less_severity_def)
  also have "\<dots> = Some (Max (div_severity ` set (r @ [d])))"
    using snoc by (simp add: Max_insert max_def less_eq_severity_def less_severity_def)
  finally show ?case .
qed


lemma count_update:
  "map_of (foldl (\<lambda>d x. AList.update (f x) ((case map_of d (f x) of Some n \<Rightarrow> n | None \<Rightarrow> 0) + 1) d) [] r) k =
     (let n = length (filter (\<lambda>x. f x = k) r) in if n = 0 then None else Some (n::nat))"
proof (induction r rule: rev_induct)
  case (snoc x r)
  then show ?case by (cases "f x = k") (simp_all add: Let_def update_conv)
qed simp

section \<open>Properties\<close>

text \<open>The two sides agree: the specification of a clean report.\<close>

definition agree :: "pyfloat \<Rightarrow> local_state \<Rightarrow> broker_state \<Rightarrow> datetime option \<Rightarrow> bool" where
  "agree max_age l b as_of \<longleftrightarrow>
     (\<forall>y. whole (held (loc_positions l) y) \<and> whole (held (brk_positions b) y) \<and>
          \<bar>held (loc_positions l) y - held (brk_positions b) y\<bar> \<le> QTY_TOL) \<and>
     (\<forall>q \<in> set (brk_orders b). ord_state q \<noteq> UNKNOWN) \<and>
     (\<forall>q \<in> set (brk_orders b). is_open q \<longrightarrow> known_in (loc_orders l) q) \<and>
     (\<forall>q \<in> set (loc_orders l). is_open q \<longrightarrow> known_in (brk_orders b) q) \<and>
     (\<forall>k lo bo. lookup_id (loc_orders l) k = Some lo \<and> lookup_id (brk_orders b) k = Some bo \<longrightarrow>
        \<not> drifted lo bo) \<and>
     (\<forall>t. as_of = Some t \<longrightarrow> (\<forall>q \<in> set (brk_orders b). \<not> stale max_age t q)) \<and>
     (\<forall>a \<in> set (loc_accounts l). invariant_holds a \<and> \<not> is_under_filled a \<and>
        \<not> account_fractional a \<and> \<not> has_unlinked_replacement a)"

lemma reconcile_agree:
  assumes "finite_quantities l b" and "aware as_of"
  shows "\<exists>r. reconcile max_age l b as_of = Inr r \<and> (r = [] \<longleftrightarrow> agree max_age l b (as_of_datetime as_of))"
  by (rule exI, rule conjI [OF reconcile_finite [OF assms]])
    (simp only: append_is_Nil_conv positions_report_facts orders_report_def unknown_rows_facts
      orphan_rows_facts untracked_rows_facts matched_rows_facts stale_report_facts concat_eq_Nil_conv
      list.set_map ball_simps account_report_facts agree_def invariant_holds_def simp_thms conj_assoc)


definition demo_local :: local_state where
  "demo_local = \<lparr>loc_positions = [(''SPY'', \<lparr>pos_symbol = ''SPY'', pos_qty = Num 4, avg_entry_price = None, market_value = None\<rparr>)],
     loc_orders = [demo_order ''p:0'' ACCEPTED 10 4 ''2026-07-01''], loc_accounts = []\<rparr>"

definition demo_broker :: "order_state \<Rightarrow> broker_state" where
  "demo_broker s = \<lparr>brk_positions = [(''SPY'', \<lparr>pos_symbol = ''SPY'', pos_qty = Num 4, avg_entry_price = None, market_value = None\<rparr>)],
     brk_orders = [demo_order ''p:0'' s 10 4 ''2026-07-01'']\<rparr>"

lemma demo_finite: "finite_quantities demo_local (demo_broker s)" "aware NoAsOf"
  by (simp_all add: finite_quantities_def demo_local_def demo_broker_def aware_def)


text \<open>Halting new entries is advised exactly when a holding is on one side only, a broker
  status is unrecognised, an open order is unknown to the other side, a matched order drifted (a
  fill the local side misses, or another state), an account is over-filled or a replacement
  lineage is broken: a quantity mismatch, a stale order, an under-fill or a fractional quantity
  alone never halts.\<close>

theorem halt_advised_iff:
  assumes "finite_quantities l b" and "aware as_of" and "reconcile max_age l b as_of = Inr r"
  shows "halt_new_entries_advised r \<longleftrightarrow>
    (\<exists>y. QTY_TOL < \<bar>held (loc_positions l) y - held (brk_positions b) y\<bar> \<and>
         (\<bar>held (loc_positions l) y\<bar> \<le> QTY_TOL) \<noteq> (\<bar>held (brk_positions b) y\<bar> \<le> QTY_TOL)) \<or>
    (\<exists>q \<in> set (brk_orders b). ord_state q = UNKNOWN) \<or>
    (\<exists>q \<in> set (brk_orders b). is_open q \<and> \<not> known_in (loc_orders l) q) \<or>
    (\<exists>q \<in> set (loc_orders l). is_open q \<and> \<not> known_in (brk_orders b) q) \<or>
    (\<exists>k lo bo. lookup_id (loc_orders l) k = Some lo \<and> lookup_id (brk_orders b) k = Some bo \<and> drifted lo bo) \<or>
    (\<exists>a \<in> set (loc_accounts l). is_over_filled a \<or> has_unlinked_replacement a)"
proof -
  have r: "r = positions_report l b @ (orders_report l b @ stale_report max_age b (as_of_datetime as_of)) @
         concat (map account_report (loc_accounts l))"
    using assms(3) unfolding reconcile_finite [OF assms(1,2)] by simp
  have accounts: "list_ex halting (concat (map account_report as)) \<longleftrightarrow>
      (\<exists>a \<in> set as. is_over_filled a \<or> has_unlinked_replacement a)" for as
    unfolding account_report_facts(2) [symmetric] by (auto simp: list_ex_iff)
  show ?thesis
    unfolding r halt_advised list_ex_append orders_report_def positions_report_facts unknown_rows_facts
      orphan_rows_facts untracked_rows_facts matched_rows_facts accounts
    using stale_report_facts(2) by blast
qed

theorem halt_advised_iff_witness:
  "\<exists>r. reconcile DEFAULT_MAX_PENDING_AGE demo_local (demo_broker UNKNOWN) NoAsOf = Inr r \<and>
       halt_new_entries_advised r"
proof -
  obtain r where r: "reconcile DEFAULT_MAX_PENDING_AGE demo_local (demo_broker UNKNOWN) NoAsOf = Inr r"
    by (simp add: reconcile_finite demo_finite)
  have "\<exists>q \<in> set (brk_orders (demo_broker UNKNOWN)). ord_state q = UNKNOWN"
    by (simp add: demo_broker_def)
  with halt_advised_iff [OF demo_finite r] have "halt_new_entries_advised r" by blast
  with r show ?thesis by blast
qed

text \<open>A broker order with an unrecognised status is never silent: the report is at the highest
  severity, advises a halt, and an enabled alert with a topic is posted whatever the minimum
  severity.\<close>

theorem unknown_status_alerts:
  assumes "q \<in> set (brk_orders b)" and "ord_state q = UNKNOWN"
    and "reconcile max_age l b as_of = Inr r" and "topic \<noteq> []"
  shows "max_severity r = Some CRITICAL \<and> halt_new_entries_advised r \<and> of_kind UNKNOWN_ORDER_STATUS r \<noteq> [] \<and>
    maybe_alert poster True (Some topic) min_severity r =
      poster ''renquant105 reconcile: CRITICAL (halt-new-entries advised)'' r topic"
proof -
  let ?d = "diverge UNKNOWN_ORDER_STATUS CRITICAL (ord_symbol q) NoValue (OrderId (order_key q))"
  have "?d \<in> set (unknown_rows (brk_orders b))"
    using assms(1,2) by (force simp: unknown_rows_def is_unknown_status_def)
  moreover from assms(3) obtain ps os as where
      "diff_orders max_age l b (as_of_datetime as_of) = Inr os" "r = ps @ os @ as"
    by (auto simp: reconcile_def split: sum.splits)
  moreover have "set (unknown_rows (brk_orders b)) \<subseteq> set os"
    if "diff_orders max_age l b t = Inr os" for t
    using that by (auto simp: diff_orders_def Let_def map_sum_def split: option.splits sum.splits)
  ultimately have d: "?d \<in> set r" by auto
  then have ne: "r \<noteq> []" by auto
  have "CRITICAL \<in> div_severity ` set r"
    using d by (rule image_eqI [rotated]) (simp add: diverge_def)
  then have "Max (div_severity ` set r) = CRITICAL" by (intro Max_eqI) auto
  with ne have m: "max_severity r = Some CRITICAL" by (simp add: max_severity_Max)
  have h: "halt_new_entries_advised r"
    using d unfolding halt_advised by (force simp: list_ex_iff halting_rows)
  have "?d \<in> set (of_kind UNKNOWN_ORDER_STATUS r)" using d by (simp add: of_kind_def diverge_def)
  moreover have "\<not> SEVERITY_ORDER CRITICAL < SEVERITY_ORDER min_severity" by (cases min_severity) auto
  ultimately show ?thesis using m h assms(4) by (auto simp: maybe_alert_def)
qed

theorem unknown_status_alerts_witness:
  "\<exists>r. reconcile DEFAULT_MAX_PENDING_AGE demo_local (demo_broker UNKNOWN) NoAsOf = Inr r \<and>
       max_severity r = Some CRITICAL"
proof -
  obtain r where r: "reconcile DEFAULT_MAX_PENDING_AGE demo_local (demo_broker UNKNOWN) NoAsOf = Inr r"
    by (simp add: reconcile_finite demo_finite)
  have "demo_order ''p:0'' UNKNOWN 10 4 ''2026-07-01'' \<in> set (brk_orders (demo_broker UNKNOWN))"
    by (simp add: demo_broker_def)
  from unknown_status_alerts [OF this _ r, of "''t''"] r show ?thesis by auto
qed

text \<open>The matched-order diff is one-sided: when the local side records more filled than the
  broker, with the same state, the report is clean, however large the difference.\<close>

theorem local_fill_ahead_is_silent:
  assumes "ord_client_id bo = Some k" and "k \<noteq> []" and "ord_state bo \<noteq> UNKNOWN"
    and "filled_qty bo = Num g" and "g \<le> f"
  shows "reconcile max_age \<lparr>loc_positions = [], loc_orders = [bo\<lparr>filled_qty := Num f\<rparr>], loc_accounts = []\<rparr>
    \<lparr>brk_positions = [], brk_orders = [bo]\<rparr> NoAsOf = Inr []"
proof -
  let ?lo = "bo\<lparr>filled_qty := Num f\<rparr>"
  let ?l = "\<lparr>loc_positions = [], loc_orders = [?lo], loc_accounts = []\<rparr>"
  let ?b = "\<lparr>brk_positions = [], brk_orders = [bo]\<rparr>"
  have "0 \<le> QTY_TOL" by (simp add: QTY_TOL_def)
  then have "agree max_age ?l ?b None"
    using assms
    by (auto simp: agree_def qty_of_def small_whole known_in_def lookup_id_def drifted_def is_open_def
        split: if_splits)
  moreover have "finite_quantities ?l ?b" "aware NoAsOf" by (simp_all add: finite_quantities_def aware_def)
  ultimately show ?thesis
    using reconcile_agree [of ?l ?b NoAsOf max_age] by (simp add: as_of_datetime_def)
qed

theorem local_fill_ahead_is_silent_witness:
  "reconcile (Num 600) \<lparr>loc_positions = [],
      loc_orders = [(demo_order ''p:0'' ACCEPTED 10 0 ''2026-07-01'')\<lparr>filled_qty := Num 10\<rparr>], loc_accounts = []\<rparr>
    \<lparr>brk_positions = [], brk_orders = [demo_order ''p:0'' ACCEPTED 10 0 ''2026-07-01'']\<rparr> NoAsOf = Inr []"
  by (rule local_fill_ahead_is_silent [of _ "''p:0''" 0]) simp_all

text \<open>The report's counts are exact: each kind and each severity that occurs is counted as often
  as it occurs, and the maximum severity of a non-empty report is the greatest that occurs.\<close>

theorem report_counts:
  "map_of (counts_by_kind r) k = (let n = length (of_kind k r) in if n = 0 then None else Some n) \<and>
   map_of (counts_by_severity r) s =
     (let n = length (filter (\<lambda>d. div_severity d = s) r) in if n = 0 then None else Some n) \<and>
   max_severity r = (if r = [] then None else Some (Max (div_severity ` set r)))"
  using count_update [of div_kind r k] count_update [of div_severity r s] max_severity_Max [of r]
  by (auto simp: counts_by_kind_def counts_by_severity_def of_kind_def max_severity_def)

end
