(* ===== verification/SessionInputs.thy ===== *)
theory SessionInputs
  imports PyNum Interfaces
begin

text \<open>
  \<open>intraday_session_inputs.py\<close>: the class-A leak guard, the class-B capture and its
  verification, the class-C reservations read from the order-state file, and the bounded retry
  of a broker read. \<open>hash_jsonable\<close> belongs to another package: it is an argument. The
  order-state file is its parsed content, \<open>None\<close> when it does not exist and \<open>Inl\<close> when it does
  not parse; the clock readings and the results of the calls of a retry are arguments.
\<close>

section \<open>Leak guard and session-start snapshot\<close>

datatype input_error = SignalLeakError | OrderStateFileError | InputPy py_error

text \<open>The order of ISO dates is the order of their texts.\<close>

definition assert_signal_predates_session :: "json dict \<Rightarrow> string \<Rightarrow> input_error + unit" where
  "assert_signal_predates_session signal session_date =
     (let as_of = py_str (py_or (dget signal ''as_of'' JNull) (JStr [])) in
      if as_of = [] \<or> session_date \<le> as_of then Inl SignalLeakError else Inr ())"

definition capture_session_start :: "(json \<Rightarrow> string) \<Rightarrow> json dict \<Rightarrow> string \<Rightarrow> json dict" where
  "capture_session_start hash_jsonable gate_inputs captured_at =
     [(''captured_at'', JStr captured_at), (''gate_inputs'', JObj gate_inputs),
      (''gate_input_fingerprint'', JStr (hash_jsonable (JObj gate_inputs)))]"

definition verify_session_start :: "(json \<Rightarrow> string) \<Rightarrow> json dict \<Rightarrow> input_error + unit" where
  "verify_session_start hash_jsonable snapshot =
     (case as_mapping (py_or (dget snapshot ''gate_inputs'' JNull) (JObj [])) of
        Inl e \<Rightarrow> Inl (InputPy TypeError)
      | Inr inputs \<Rightarrow>
          if hash_jsonable (JObj inputs) \<noteq> py_str (py_or (dget snapshot ''gate_input_fingerprint'' JNull) (JStr []))
          then Inl SignalLeakError else Inr ())"

section \<open>Reservations from the order-state file\<close>

definition ORDER_STATE_SCHEMA_VERSION :: string where
  "ORDER_STATE_SCHEMA_VERSION = ''order-state-machine-v1''"

definition OPEN_CHILD_STATES :: "string list" where
  "OPEN_CHILD_STATES = [''SUBMITTED'', ''ACCEPTED'', ''PARTIALLY_FILLED'', ''STALE_PENDING'']"

record reservations =
  open_buy_reservations :: "pyfloat dict"
  in_flight_parent_intents :: "string list"
  pending_broker_tickers :: "string list"
  entries_halted :: bool
  halt_reason :: json

definition empty_reservations :: reservations where
  "empty_reservations = \<lparr>open_buy_reservations = [], in_flight_parent_intents = [],
     pending_broker_tickers = [], entries_halted = False, halt_reason = JNull\<rparr>"

text \<open>One child: what an open one adds to the reserved amount; \<open>None\<close> for a closed one.\<close>

definition child_reserve :: "json \<Rightarrow> input_error + pyfloat option" where
  "child_reserve child =
     (case as_mapping child of Inl e \<Rightarrow> Inl (InputPy e) | Inr c \<Rightarrow>
      if py_str (py_or (dget c ''state'' JNull) (JStr [])) \<notin> set OPEN_CHILD_STATES then Inr None
      else case py_float (dget c ''requested_qty'' (JFloat (Num 0))) of Inl e \<Rightarrow> Inl (InputPy e) | Inr q \<Rightarrow>
      case py_float (dget c ''filled_qty'' (JFloat (Num 0))) of Inl e \<Rightarrow> Inl (InputPy e) | Inr f \<Rightarrow>
      if flt (fsub q f) (Num 0) then Inl OrderStateFileError
      else case py_float (dget c ''price'' (JFloat (Num 0))) of Inl e \<Rightarrow> Inl (InputPy e) | Inr p \<Rightarrow>
      Inr (Some (fmul (fsub q f) p)))"

fun children_reserve :: "json list \<Rightarrow> pyfloat \<Rightarrow> bool \<Rightarrow> input_error + pyfloat \<times> bool" where
  "children_reserve [] reserved has_open = Inr (reserved, has_open)"
| "children_reserve (child # cs) reserved has_open =
     (case child_reserve child of
        Inl e \<Rightarrow> Inl e
      | Inr None \<Rightarrow> children_reserve cs reserved has_open
      | Inr (Some x) \<Rightarrow> children_reserve cs (fadd reserved x) True)"

record parent_acc =
  pa_reservations :: "pyfloat dict"
  pa_in_flight :: "string list"
  pa_pending :: "string list"

definition parent_step :: "json \<Rightarrow> parent_acc \<Rightarrow> input_error + parent_acc" where
  "parent_step parent acc =
     (case as_mapping parent of Inl e \<Rightarrow> Inl (InputPy e) | Inr p \<Rightarrow>
      let pid = py_str (py_or (dget p ''parent_intent_id'' JNull) (JStr [])) in
      if pid = [] then Inl OrderStateFileError
      else let side = py_upper (py_str (py_or (dget p ''side'' JNull) (JStr []))) in
      case iter_json (dget p ''children'' (JList [])) of Inl e \<Rightarrow> Inl (InputPy e) | Inr cs \<Rightarrow>
      case children_reserve cs (Num 0) False of Inl e \<Rightarrow> Inl e | Inr (reserved, has_open) \<Rightarrow>
      Inr \<lparr>pa_reservations = (if side = ''BUY'' \<and> flt (Num 0) reserved
                            then dset (pa_reservations acc) pid reserved else pa_reservations acc),
           pa_in_flight = pa_in_flight acc @ [pid],
           pa_pending = (if has_open
             then pa_pending acc @ [py_upper (py_str (py_or (dget p ''symbol'' JNull) (JStr [])))]
             else pa_pending acc)\<rparr>)"

fun parents_loop :: "json list \<Rightarrow> parent_acc \<Rightarrow> input_error + parent_acc" where
  "parents_loop [] acc = Inr acc"
| "parents_loop (p # ps) acc = (case parent_step p acc of Inl e \<Rightarrow> Inl e | Inr acc' \<Rightarrow> parents_loop ps acc')"

definition read_book :: "json dict \<Rightarrow> string option \<Rightarrow> input_error + reservations" where
  "read_book book trading_day =
     (if dget book ''schema_version'' JNull \<noteq> JStr ORDER_STATE_SCHEMA_VERSION then Inl OrderStateFileError
      else if trading_day \<noteq> None \<and> Some (py_str (dget book ''trading_day'' JNull)) \<noteq> trading_day
        then Inl OrderStateFileError
      else case iter_json (dget book ''parents'' (JList [])) of Inl e \<Rightarrow> Inl (InputPy e) | Inr ps \<Rightarrow>
      case parents_loop ps \<lparr>pa_reservations = [], pa_in_flight = [], pa_pending = []\<rparr> of Inl e \<Rightarrow> Inl e | Inr acc \<Rightarrow>
      Inr \<lparr>open_buy_reservations = pa_reservations acc,
           in_flight_parent_intents = sort (pa_in_flight acc),
           pending_broker_tickers = sort (remdups (filter (\<lambda>t. t \<noteq> []) (pa_pending acc))),
           entries_halted = truthy (dget book ''entries_halted'' (JBool False)),
           halt_reason = dget book ''halt_reason'' JNull\<rparr>)"

definition load_order_state_reservations ::
    "(unit + json) option \<Rightarrow> string option \<Rightarrow> input_error + reservations" where
  "load_order_state_reservations content trading_day =
     (case content of
        None \<Rightarrow> Inr empty_reservations
      | Some (Inl u) \<Rightarrow> Inl OrderStateFileError
      | Some (Inr j) \<Rightarrow> (case as_mapping j of Inl e \<Rightarrow> Inl (InputPy e) | Inr book \<Rightarrow> read_book book trading_day))"

section \<open>Retrying a broker read\<close>

definition BROKER_MAX_RETRIES :: nat where "BROKER_MAX_RETRIES = 3"
definition BROKER_BACKOFF_BASE :: rat where "BROKER_BACKOFF_BASE = 2"
definition BROKER_MAX_RETRY_WAIT :: pyfloat where "BROKER_MAX_RETRY_WAIT = Num 30"
definition NON_TRANSIENT_STATUS :: "int list" where "NON_TRANSIENT_STATUS = [400, 401, 403, 404, 405, 422]"

record broker_exc =
  ex_status :: "int option"
  ex_class :: string
  ex_message :: string
  ex_retry_after :: "pyfloat option"

fun contains :: "string \<Rightarrow> string \<Rightarrow> bool" where
  "contains k [] = (k = [])"
| "contains k (c # cs) = (take (length k) (c # cs) = k \<or> contains k cs)"

definition is_transient :: "broker_exc \<Rightarrow> bool" where
  "is_transient e =
     (case ex_status e of
        Some s \<Rightarrow> (if s \<in> set NON_TRANSIENT_STATUS then False else s \<in> {429, 500, 502, 503, 504})
      | None \<Rightarrow>
          (if list_ex (\<lambda>k. contains k (py_lower (ex_class e))) [''timeout'', ''connectionerror'', ''connectionreset''] then True
           else list_ex (\<lambda>k. contains k (py_lower (ex_message e))) [''timeout'', ''timed out'', ''504'', ''502'', ''503'']))"

text \<open>\<open>min(a, b)\<close> keeps its first argument unless the second is smaller.\<close>

definition fmin :: "pyfloat \<Rightarrow> pyfloat \<Rightarrow> pyfloat" where
  "fmin x y = (if flt y x then y else x)"

definition retry_wait :: "nat \<Rightarrow> broker_exc \<Rightarrow> pyfloat" where
  "retry_wait attempt e =
     (let backoff = Num (BROKER_BACKOFF_BASE ^ attempt) in
      if ex_status e = Some 429 then
        (case ex_retry_after e of
           Some r \<Rightarrow> fmin r BROKER_MAX_RETRY_WAIT
         | None \<Rightarrow> fmin backoff BROKER_MAX_RETRY_WAIT)
      else fmin backoff BROKER_MAX_RETRY_WAIT)"

text \<open>
  What the environment answers at an attempt: the budget left before it, the call's result, and
  the budget left after a failure.
\<close>

record 'v attempt_env =
  budget_before :: pyfloat
  call_result :: "broker_exc + 'v"
  budget_after :: pyfloat

datatype 'v retry_result = CallReturned 'v | CallRaised broker_exc | DeadlineExceeded nat
  | SleepRaised | Unreachable

text \<open>The result, the number of calls made and the waits slept; \<open>time.sleep\<close> refuses a NaN.\<close>

fun retry_loop :: "nat \<Rightarrow> nat \<Rightarrow> (nat \<Rightarrow> 'v attempt_env) \<Rightarrow> 'v retry_result \<times> nat \<times> pyfloat list" where
  "retry_loop 0 attempt env = (Unreachable, attempt, [])"
| "retry_loop (Suc n) attempt env =
     (let o1 = env attempt in
      if fle (budget_before o1) (Num 0) \<and> attempt > 0 then (DeadlineExceeded attempt, attempt, [])
      else case call_result o1 of
        Inr v \<Rightarrow> (CallReturned v, attempt + 1, [])
      | Inl e \<Rightarrow>
          if \<not> is_transient e \<or> attempt = BROKER_MAX_RETRIES - 1 then (CallRaised e, attempt + 1, [])
          else let w = retry_wait attempt e in
            if flt (budget_after o1) w then (DeadlineExceeded (attempt + 1), attempt + 1, [])
            else if w = NaN then (SleepRaised, attempt + 1, [])
            else (let (r, calls, ws) = retry_loop n (attempt + 1) env in (r, calls, w # ws)))"

definition broker_call_with_retry :: "(nat \<Rightarrow> 'v attempt_env) \<Rightarrow> 'v retry_result \<times> nat \<times> pyfloat list" where
  "broker_call_with_retry env = retry_loop BROKER_MAX_RETRIES 0 env"

section \<open>Facts\<close>

lemma verify_capture:
  "verify_session_start h (capture_session_start h gi t) = Inr ()"
  by (cases gi; cases "h (JObj gi)")
    (simp_all add: verify_session_start_def capture_session_start_def dget_def py_or_def)


text \<open>A parent row as the reader sees it: its id, its side and the amount its open children reserve.\<close>

definition parent_id :: "json \<Rightarrow> string" where
  "parent_id j = (case j of JObj p \<Rightarrow> py_str (py_or (dget p ''parent_intent_id'' JNull) (JStr [])) | _ \<Rightarrow> [])"

definition parent_is_buy :: "json \<Rightarrow> bool" where
  "parent_is_buy j = (case j of JObj p \<Rightarrow> py_upper (py_str (py_or (dget p ''side'' JNull) (JStr []))) = ''BUY'' | _ \<Rightarrow> False)"

definition parent_reserves :: "json \<Rightarrow> pyfloat \<Rightarrow> bool" where
  "parent_reserves j x \<longleftrightarrow> (\<exists>p cs amounts. j = JObj p \<and> iter_json (dget p ''children'' (JList [])) = Inr cs \<and>
     map child_reserve cs = map Inr amounts \<and> x = foldl fadd (Num 0) [a. Some a \<leftarrow> amounts])"

lemma children_reserve_Inr:
  "children_reserve cs r b = Inr (x, b') \<Longrightarrow>
   \<exists>amounts. map child_reserve cs = map Inr amounts \<and> x = foldl fadd r [a. Some a \<leftarrow> amounts]"
proof (induction cs arbitrary: r b)
  case Nil
  then show ?case by (intro exI [of _ "[]"]) simp
next
  case (Cons c cs)
  then obtain y where y: "child_reserve c = Inr y" by (cases "child_reserve c") auto
  show ?case
  proof (cases y)
    case None
    with Cons y obtain amounts where "map child_reserve cs = map Inr amounts"
      "x = foldl fadd r [a. Some a \<leftarrow> amounts]" by auto
    with y None show ?thesis by (intro exI [of _ "None # amounts"]) simp
  next
    case (Some a)
    with Cons.prems y have "children_reserve cs (fadd r a) True = Inr (x, b')" by simp
    from Cons.IH [OF this] obtain amounts where "map child_reserve cs = map Inr amounts"
      "x = foldl fadd (fadd r a) [a. Some a \<leftarrow> amounts]" by auto
    with y Some show ?thesis by (intro exI [of _ "Some a # amounts"]) simp
  qed
qed

lemma parent_step_Inr:
  assumes "parent_step j acc = Inr acc'"
  shows "parent_id j \<noteq> []" and "pa_in_flight acc' = pa_in_flight acc @ [parent_id j]"
    and "pa_reservations acc' = pa_reservations acc \<or>
      (\<exists>x. parent_is_buy j \<and> flt (Num 0) x \<and> parent_reserves j x \<and>
           pa_reservations acc' = dset (pa_reservations acc) (parent_id j) x)"
proof -
  obtain p where p: "j = JObj p"
    using assms by (cases j) (auto simp: parent_step_def)
  have id: "parent_id j \<noteq> []"
    using assms by (auto simp: parent_step_def p parent_id_def Let_def split: if_splits)
  then show "parent_id j \<noteq> []" .
  obtain cs where cs: "iter_json (dget p ''children'' (JList [])) = Inr cs"
    using assms id by (cases "iter_json (dget p ''children'' (JList []))") (auto simp: parent_step_def p parent_id_def Let_def)
  obtain x b where x: "children_reserve cs (Num 0) False = Inr (x, b)"
    using assms id cs by (cases "children_reserve cs (Num 0) False") (auto simp: parent_step_def p parent_id_def Let_def)
  have acc': "acc' = \<lparr>pa_reservations = (if parent_is_buy j \<and> flt (Num 0) x
        then dset (pa_reservations acc) (parent_id j) x else pa_reservations acc),
      pa_in_flight = pa_in_flight acc @ [parent_id j],
      pa_pending = pa_pending acc'\<rparr>"
    using assms id cs x by (auto simp: parent_step_def p parent_id_def parent_is_buy_def Let_def)
  then show "pa_in_flight acc' = pa_in_flight acc @ [parent_id j]"
    by (metis parent_acc.select_convs(2))
  have "parent_reserves j x"
    using children_reserve_Inr [OF x] p cs by (auto simp: parent_reserves_def)
  moreover have "pa_reservations acc' = (if parent_is_buy j \<and> flt (Num 0) x
        then dset (pa_reservations acc) (parent_id j) x else pa_reservations acc)"
    by (subst acc') simp
  ultimately show "pa_reservations acc' = pa_reservations acc \<or>
      (\<exists>x. parent_is_buy j \<and> flt (Num 0) x \<and> parent_reserves j x \<and>
           pa_reservations acc' = dset (pa_reservations acc) (parent_id j) x)" by auto
qed

definition reserved_by :: "json list \<Rightarrow> string \<Rightarrow> pyfloat \<Rightarrow> bool" where
  "reserved_by ps k x \<longleftrightarrow> (\<exists>j \<in> set ps. parent_id j = k \<and> parent_is_buy j \<and> flt (Num 0) x \<and> parent_reserves j x)"

lemma parents_loop_Inr:
  assumes "parents_loop ps acc = Inr acc'"
  shows "(\<forall>j \<in> set ps. parent_id j \<noteq> []) \<and> pa_in_flight acc' = pa_in_flight acc @ map parent_id ps \<and>
    (\<forall>(k, x) \<in> set (pa_reservations acc'). (k, x) \<in> set (pa_reservations acc) \<or> reserved_by ps k x)"
  using assms
proof (induction ps arbitrary: acc)
  case (Cons j ps)
  then obtain acc1 where step: "parent_step j acc = Inr acc1" and loop: "parents_loop ps acc1 = Inr acc'"
    by (cases "parent_step j acc") auto
  note s = parent_step_Inr [OF step]
  have head: "(k, x) \<in> set (pa_reservations acc) \<or> reserved_by [j] k x"
    if "(k, x) \<in> set (pa_reservations acc1)" for k x
    using that s(3) subsetD [OF set_dset_subset] by (fastforce simp: reserved_by_def)
  have "\<forall>(k, x) \<in> set (pa_reservations acc'). (k, x) \<in> set (pa_reservations acc) \<or> reserved_by (j # ps) k x"
    using Cons.IH [OF loop] head by (fastforce simp: reserved_by_def)
  with Cons.IH [OF loop] s(1,2) show ?case by simp
qed auto

lemma read_book_Inr:
  assumes "read_book book day = Inr r"
  shows "\<exists>ps acc. dget book ''schema_version'' JNull = JStr ORDER_STATE_SCHEMA_VERSION \<and>
    (day = None \<or> day = Some (py_str (dget book ''trading_day'' JNull))) \<and>
    iter_json (dget book ''parents'' (JList [])) = Inr ps \<and>
    parents_loop ps \<lparr>pa_reservations = [], pa_in_flight = [], pa_pending = []\<rparr> = Inr acc \<and>
    open_buy_reservations r = pa_reservations acc \<and>
    in_flight_parent_intents r = sort (pa_in_flight acc)"
proof -
  obtain ps where ps: "iter_json (dget book ''parents'' (JList [])) = Inr ps"
    using assms by (cases "iter_json (dget book ''parents'' (JList []))") (auto simp: read_book_def split: if_splits)
  obtain acc where acc: "parents_loop ps \<lparr>pa_reservations = [], pa_in_flight = [], pa_pending = []\<rparr> = Inr acc"
    using assms ps by (cases "parents_loop ps \<lparr>pa_reservations = [], pa_in_flight = [], pa_pending = []\<rparr>")
      (auto simp: read_book_def split: if_splits)
  show ?thesis
    by (intro exI [of _ ps] exI [of _ acc] conjI)
      (use assms in \<open>auto simp: read_book_def ps acc split: if_splits\<close>)
qed

lemma retry_wait_bound: "retry_wait k e \<noteq> NaN \<Longrightarrow> fle (retry_wait k e) (Num 30)"
proof -
  have "fmin x BROKER_MAX_RETRY_WAIT \<noteq> NaN \<Longrightarrow> fle (fmin x BROKER_MAX_RETRY_WAIT) (Num 30)" for x
    by (cases x) (auto simp: fmin_def BROKER_MAX_RETRY_WAIT_def fle_def)
  moreover assume "retry_wait k e \<noteq> NaN"
  ultimately show ?thesis by (auto simp: retry_wait_def Let_def split: if_splits option.splits)
qed

definition retry_ok :: "nat \<Rightarrow> (nat \<Rightarrow> 'v attempt_env) \<Rightarrow> 'v retry_result \<times> nat \<times> pyfloat list \<Rightarrow> bool" where
  "retry_ok attempt env out \<longleftrightarrow> (case out of (r, calls, ws) \<Rightarrow>
     r \<noteq> Unreachable \<and> calls \<le> 3 \<and> attempt \<le> calls \<and> length ws \<le> calls - attempt \<and>
     (\<forall>w \<in> set ws. w \<noteq> NaN \<and> fle w (Num 30)) \<and>
     (\<forall>i. attempt \<le> i \<and> i + 1 < calls \<longrightarrow> (\<exists>e. call_result (env i) = Inl e \<and> is_transient e)) \<and>
     (\<forall>v. r = CallReturned v \<longrightarrow> attempt < calls \<and> call_result (env (calls - 1)) = Inr v) \<and>
     (\<forall>e. r = CallRaised e \<longrightarrow> attempt < calls \<and> call_result (env (calls - 1)) = Inl e \<and>
        (is_transient e \<longrightarrow> calls = 3)))"

lemma retry_ok_final:
  "r \<noteq> Unreachable \<Longrightarrow> \<forall>v. r \<noteq> CallReturned v \<Longrightarrow> \<forall>e. r \<noteq> CallRaised e \<Longrightarrow> k \<le> 3 \<Longrightarrow> a \<le> k \<Longrightarrow> k \<le> a + 1 \<Longrightarrow>
   retry_ok a env (r, k, [])"
  by (auto simp: retry_ok_def)

lemma retry_ok_later:
  assumes "retry_ok (Suc a) env (r, calls, ws)" and "call_result (env a) = Inl e" "is_transient e"
    and "w \<noteq> NaN" "fle w (Num 30)"
  shows "retry_ok a env (r, calls, w # ws)"
proof -
  have "\<exists>e. call_result (env i) = Inl e \<and> is_transient e" if "a \<le> i" "i + 1 < calls" for i
    using that assms(1-3) by (cases "i = a") (auto simp: retry_ok_def)
  then show ?thesis using assms(1,4,5) by (auto simp: retry_ok_def)
qed

lemma retry_loop_ok: "0 < n \<Longrightarrow> n + attempt = 3 \<Longrightarrow> retry_ok attempt env (retry_loop n attempt env)"
proof (induction n arbitrary: attempt)
  case (Suc n)
  let ?o = "env attempt"
  show ?case
  proof (cases "fle (budget_before ?o) (Num 0) \<and> attempt > 0")
    case True
    then show ?thesis using Suc.prems by (simp add: Let_def retry_ok_final)
  next
    case False
    note guard = this
    show ?thesis
    proof (cases "call_result ?o")
      case (Inr v)
      with guard Suc.prems show ?thesis by (auto simp: Let_def retry_ok_def)
    next
      case (Inl e)
      show ?thesis
      proof (cases "\<not> is_transient e \<or> attempt = BROKER_MAX_RETRIES - 1")
        case True
        with guard Inl Suc.prems show ?thesis by (auto simp: Let_def retry_ok_def BROKER_MAX_RETRIES_def)
      next
        case go: False
        then have n: "0 < n" "n + Suc attempt = 3" using Suc.prems by (auto simp: BROKER_MAX_RETRIES_def)
        let ?w = "retry_wait attempt e"
        obtain r calls ws where rec: "retry_loop n (Suc attempt) env = (r, calls, ws)"
          by (cases "retry_loop n (Suc attempt) env")
        have step: "retry_loop (Suc n) attempt env =
          (if flt (budget_after ?o) ?w then (DeadlineExceeded (attempt + 1), attempt + 1, [])
           else if ?w = NaN then (SleepRaised, attempt + 1, [])
           else (r, calls, ?w # ws))"
          using guard Inl go rec by (simp add: Let_def)
        from Suc.IH [OF n] rec have "retry_ok (Suc attempt) env (r, calls, ws)" by simp
        then have "retry_ok attempt env (r, calls, ?w # ws)" if "?w \<noteq> NaN"
          using Inl go that retry_wait_bound [OF that] by (intro retry_ok_later) auto
        then show ?thesis using Suc.prems n unfolding step
          by (auto intro!: retry_ok_final)
      qed
    qed
  qed
qed simp

section \<open>Properties\<close>

text \<open>A reservation snapshot read from an order-state file comes from a book of the right schema
  and day; every parent row has an id and all of them are in flight, on both sides; every
  reservation belongs to a BUY parent and is the positive sum of its open children's unfilled
  quantity times price. Without a file everything is empty.\<close>

theorem reservations_sound:
  assumes "load_order_state_reservations content day = Inr r"
  shows "(content = None \<and> r = empty_reservations) \<or>
    (\<exists>book ps. content = Some (Inr (JObj book)) \<and>
       dget book ''schema_version'' JNull = JStr ORDER_STATE_SCHEMA_VERSION \<and>
       (day = None \<or> day = Some (py_str (dget book ''trading_day'' JNull))) \<and>
       iter_json (dget book ''parents'' (JList [])) = Inr ps \<and>
       (\<forall>j \<in> set ps. parent_id j \<noteq> []) \<and>
       in_flight_parent_intents r = sort (map parent_id ps) \<and>
       (\<forall>(k, x) \<in> set (open_buy_reservations r). reserved_by ps k x))"
proof (cases content)
  case None
  with assms show ?thesis by (simp add: load_order_state_reservations_def)
next
  case (Some f)
  then obtain book where f: "f = Inr (JObj book)" and rb: "read_book book day = Inr r"
    using assms by (cases f; cases "projr f") (auto simp: load_order_state_reservations_def)
  from read_book_Inr [OF rb] obtain ps acc where b:
    "dget book ''schema_version'' JNull = JStr ORDER_STATE_SCHEMA_VERSION"
    "day = None \<or> day = Some (py_str (dget book ''trading_day'' JNull))"
    "iter_json (dget book ''parents'' (JList [])) = Inr ps"
    "parents_loop ps \<lparr>pa_reservations = [], pa_in_flight = [], pa_pending = []\<rparr> = Inr acc"
    "open_buy_reservations r = pa_reservations acc"
    "in_flight_parent_intents r = sort (pa_in_flight acc)" by blast
  from parents_loop_Inr [OF b(4)] have
    "\<forall>j \<in> set ps. parent_id j \<noteq> []" "pa_in_flight acc = map parent_id ps"
    "\<forall>(k, x) \<in> set (pa_reservations acc). reserved_by ps k x" by auto
  with Some f b show ?thesis by auto
qed

definition demo_book :: "json dict" where
  "demo_book = [(''schema_version'', JStr ''order-state-machine-v1''), (''trading_day'', JStr ''2026-07-01''),
     (''parents'', JList [JObj [(''parent_intent_id'', JStr ''pi-1''), (''side'', JStr ''buy''), (''symbol'', JStr ''spy''),
        (''children'', JList [JObj [(''state'', JStr ''ACCEPTED''), (''requested_qty'', JInt 10), (''filled_qty'', JInt 4),
           (''price'', JInt 5)], JObj [(''state'', JStr ''FILLED'')]])]])]"

lemma demo_book_reads:
  "load_order_state_reservations (Some (Inr (JObj demo_book))) (Some ''2026-07-01'') =
     Inr \<lparr>open_buy_reservations = [(''pi-1'', Num 30)], in_flight_parent_intents = [''pi-1''],
          pending_broker_tickers = [''SPY''], entries_halted = False, halt_reason = JNull\<rparr>"
  by code_simp

theorem reservations_sound_witness:
  "\<exists>ps. iter_json (dget demo_book ''parents'' (JList [])) = Inr ps \<and> reserved_by ps ''pi-1'' (Num 30)"
  using reservations_sound [OF demo_book_reads] by auto

text \<open>A broker read is tried at most three times; at most two waits are slept, each at most
  thirty seconds; a returned value is the answer of the last call, after transient failures
  only; an exception that is passed on is the last call's, and a transient one only after the third call.\<close>

theorem retry_bounded:
  "case broker_call_with_retry env of (r, calls, ws) \<Rightarrow>
     r \<noteq> Unreachable \<and> calls \<le> BROKER_MAX_RETRIES \<and> length ws \<le> calls \<and>
     (\<forall>w \<in> set ws. w \<noteq> NaN \<and> fle w BROKER_MAX_RETRY_WAIT) \<and>
     (\<forall>i. i + 1 < calls \<longrightarrow> (\<exists>e. call_result (env i) = Inl e \<and> is_transient e)) \<and>
     (\<forall>v. r = CallReturned v \<longrightarrow> 0 < calls \<and> call_result (env (calls - 1)) = Inr v) \<and>
     (\<forall>e. r = CallRaised e \<longrightarrow> 0 < calls \<and> call_result (env (calls - 1)) = Inl e \<and>
        (is_transient e \<longrightarrow> calls = BROKER_MAX_RETRIES))"
  using retry_loop_ok [of 3 0 env]
  by (simp add: broker_call_with_retry_def retry_ok_def BROKER_MAX_RETRIES_def BROKER_MAX_RETRY_WAIT_def)

definition flaky_env :: "nat \<Rightarrow> nat attempt_env" where
  "flaky_env i = \<lparr>budget_before = Num 60,
     call_result = (if i = 0 then Inl \<lparr>ex_status = Some 503, ex_class = ''APIError'', ex_message = ''x'', ex_retry_after = None\<rparr>
                    else Inr i),
     budget_after = Num 59\<rparr>"

theorem retry_bounded_witness:
  "broker_call_with_retry flaky_env = (CallReturned 1, 2, [Num 1]) \<and> call_result (flaky_env (2 - 1)) = Inr 1"
proof -
  have r: "broker_call_with_retry flaky_env = (CallReturned 1, 2, [Num 1])"
    by (simp add: broker_call_with_retry_def BROKER_MAX_RETRIES_def flaky_env_def is_transient_def
        NON_TRANSIENT_STATUS_def retry_wait_def fmin_def BROKER_BACKOFF_BASE_def BROKER_MAX_RETRY_WAIT_def
        numeral_3_eq_3 Let_def)
  with retry_bounded [of flaky_env] show ?thesis by auto
qed

end
