(* ===== verification/EntryTiming.thy ===== *)
theory EntryTiming
  imports SessionInputs PyTime
begin

text \<open>
  \<open>entry_timing_policy.py\<close>: the configuration, the pure policy decision, and the shadow evaluator
  that follows the tick records of a session. Instants are UTC microseconds; the reading of a
  naive wall clock as New York time is the argument \<open>et\<close>. A step that may raise half-way
  returns the state it leaves beside the error, since the scheduler goes on after it. The
  configuration fingerprint and the constant columns of a row are left out.
\<close>

section \<open>Configuration\<close>

datatype policy = BASELINE_OPEN_DELAY | DELAY_FIXED | GAP_REVERSION_TRIGGER | VWAP_CHASE | OTHER_POLICY string

definition policy_of :: "string \<Rightarrow> policy" where
  "policy_of s =
     (if s = ''baseline_open_delay'' then BASELINE_OPEN_DELAY else if s = ''delay_fixed'' then DELAY_FIXED
      else if s = ''gap_reversion_trigger'' then GAP_REVERSION_TRIGGER else if s = ''vwap_chase'' then VWAP_CHASE
      else OTHER_POLICY s)"

definition EVALUATED_POLICIES :: "policy list" where
  "EVALUATED_POLICIES = [BASELINE_OPEN_DELAY, DELAY_FIXED, GAP_REVERSION_TRIGGER]"

definition OUT_OF_SCOPE_POLICIES :: "policy list" where
  "OUT_OF_SCOPE_POLICIES = [VWAP_CHASE]"

datatype timing_error = DecisioningNotMapping | TimingNotMapping | TimingNotNumber string json
  | BelowMinimum string json | AboveMaximum string json | OutOfScopePolicy | UnknownPolicy string

record timing_config =
  tc_policy :: policy
  tc_delay_minutes :: pyfloat
  tc_retrace_frac :: pyfloat
  tc_min_gap_bps :: pyfloat
  tc_deadline_minutes :: pyfloat
  tc_prior_refs :: "string option"
  tc_shadow_log :: "string option"
  tc_errors :: "timing_error list"

definition default_timing_config :: timing_config where
  "default_timing_config = \<lparr>tc_policy = BASELINE_OPEN_DELAY, tc_delay_minutes = Num 30,
     tc_retrace_frac = Num (1/2), tc_min_gap_bps = Num 10, tc_deadline_minutes = Num 0,
     tc_prior_refs = None, tc_shadow_log = None, tc_errors = []\<rparr>"

definition timing_number ::
    "json dict \<Rightarrow> string \<Rightarrow> rat \<Rightarrow> rat option \<Rightarrow> rat option \<Rightarrow> pyfloat \<times> timing_error list" where
  "timing_number raw key dflt lo hi =
     (let v = dget raw key (JFloat (Num dflt)) in
      case py_float v of
        Inl e \<Rightarrow> (Num dflt, [TimingNotNumber key v])
      | Inr x \<Rightarrow>
          if (case lo of None \<Rightarrow> False | Some m \<Rightarrow> flt x (Num m)) then (Num dflt, [BelowMinimum key v])
          else if (case hi of None \<Rightarrow> False | Some m \<Rightarrow> flt (Num m) x) then (Num dflt, [AboveMaximum key v])
          else (x, []))"

definition read_policy :: "json dict \<Rightarrow> policy \<times> timing_error list" where
  "read_policy raw =
     (let s = py_str (py_or (dget raw ''policy'' (JStr ''baseline_open_delay'')) (JStr ''baseline_open_delay''));
          p = policy_of s in
      if p \<in> set OUT_OF_SCOPE_POLICIES then (BASELINE_OPEN_DELAY, [OutOfScopePolicy])
      else if p \<notin> set EVALUATED_POLICIES then (BASELINE_OPEN_DELAY, [UnknownPolicy s])
      else (p, []))"

definition optional_path :: "json dict \<Rightarrow> string \<Rightarrow> string option" where
  "optional_path raw key = (let v = dget raw key JNull in if truthy v then Some (py_str v) else None)"

definition load_timing_section :: "json dict \<Rightarrow> timing_config" where
  "load_timing_section raw =
     (let (p, e1) = read_policy raw;
          (delay, e2) = timing_number raw ''delay_minutes'' 30 (Some 0) None;
          (frac, e3) = timing_number raw ''retrace_frac'' (1/2) (Some 0) (Some 1);
          (gap, e4) = timing_number raw ''min_gap_bps'' 10 (Some 0) None;
          (dl, e5) = timing_number raw ''deadline_minutes_before_cutoff'' 0 (Some 0) None;
          errors = e1 @ e2 @ e3 @ e4 @ e5 in
      \<lparr>tc_policy = (if errors \<noteq> [] then BASELINE_OPEN_DELAY else p), tc_delay_minutes = delay,
       tc_retrace_frac = frac, tc_min_gap_bps = gap, tc_deadline_minutes = dl,
       tc_prior_refs = optional_path raw ''prior_close_refs_path'',
       tc_shadow_log = optional_path raw ''shadow_log'', tc_errors = errors\<rparr>)"

definition load_entry_timing_config :: "json dict \<Rightarrow> timing_config" where
  "load_entry_timing_config strategy_config =
     (case py_or (dget strategy_config ''intraday_decisioning'' JNull) (JObj []) of
        JObj section \<Rightarrow>
          (case dget section ''entry_timing'' JNull of
             JNull \<Rightarrow> default_timing_config
           | JObj raw \<Rightarrow> load_timing_section raw
           | _ \<Rightarrow> default_timing_config\<lparr>tc_errors := [TimingNotMapping]\<rparr>)
      | _ \<Rightarrow> default_timing_config\<lparr>tc_errors := [DecisioningNotMapping]\<rparr>)"

section \<open>The decision\<close>

record entry_intent =
  ei_ticker :: string
  ei_day :: string
  ei_arrival :: int
  ei_side :: string
  ei_parent :: string
  ei_signal_version :: "string option"
  ei_prior_close :: "pyfloat option"

record session_clock =
  ck_open :: int
  ck_first :: int
  ck_cutoff :: int
  ck_close :: int
  ck_tick_seconds :: pyfloat

record quote_context =
  qc_now :: int
  qc_mid :: "pyfloat option"
  qc_open_print :: "pyfloat option"

datatype timing_action = SUBMIT_NOW | WAIT

datatype timing_reason = WINDOW_NOT_OPEN | WINDOW_CLOSED | BASELINE | DELAY_ELAPSED | WAITING_DELAY
  | RETRACE_HIT | WAITING_RETRACE | GAP_DOWN | NO_GAP | MISSING_REF | DEADLINE | NON_BUY

record policy_decision =
  pd_policy :: policy
  pd_action :: timing_action
  pd_reason :: timing_reason
  pd_degraded :: bool
  pd_trigger :: "pyfloat option"
  pd_gap_bps :: "pyfloat option"
  pd_deadline :: "int option"

definition timedelta_minutes :: "pyfloat \<Rightarrow> py_error + int" where
  "timedelta_minutes m = timedelta_seconds (fmul m (Num 60))"

definition hard_deadline :: "session_clock \<Rightarrow> timing_config \<Rightarrow> py_error + int" where
  "hard_deadline ck cfg = map_sum id (\<lambda>d. ck_cutoff ck - d) (timedelta_minutes (tc_deadline_minutes cfg))"

definition plain :: "policy \<Rightarrow> timing_action \<Rightarrow> timing_reason \<Rightarrow> policy_decision" where
  "plain p a r = \<lparr>pd_policy = p, pd_action = a, pd_reason = r, pd_degraded = False,
     pd_trigger = None, pd_gap_bps = None, pd_deadline = None\<rparr>"

text \<open>The reversion policy, once a positive reference and an opening print exist.\<close>

definition reversion_decision ::
    "pyfloat \<Rightarrow> pyfloat \<Rightarrow> quote_context \<Rightarrow> timing_config \<Rightarrow> py_error + policy_decision" where
  "reversion_decision prior open1 q cfg =
     (case fdiv (fsub open1 prior) prior of
        Inl e \<Rightarrow> Inl e
      | Inr g \<Rightarrow>
          let gap = fmul g (Num 10000); p = GAP_REVERSION_TRIGGER in
          if flt (fabs gap) (tc_min_gap_bps cfg) then Inr ((plain p SUBMIT_NOW NO_GAP)\<lparr>pd_gap_bps := Some gap\<rparr>)
          else if flt gap (Num 0) then Inr ((plain p SUBMIT_NOW GAP_DOWN)\<lparr>pd_gap_bps := Some gap\<rparr>)
          else let trigger = fsub open1 (fmul (tc_retrace_frac cfg) (fsub open1 prior)) in
            if (case qc_mid q of None \<Rightarrow> False | Some m \<Rightarrow> fle m trigger)
            then Inr ((plain p SUBMIT_NOW RETRACE_HIT)\<lparr>pd_trigger := Some trigger, pd_gap_bps := Some gap\<rparr>)
            else Inr ((plain p WAIT WAITING_RETRACE)\<lparr>pd_trigger := Some trigger, pd_gap_bps := Some gap\<rparr>))"

definition natural_decision ::
    "policy \<Rightarrow> entry_intent \<Rightarrow> session_clock \<Rightarrow> quote_context \<Rightarrow> timing_config \<Rightarrow> py_error + policy_decision" where
  "natural_decision p i ck q cfg =
     (case p of
        BASELINE_OPEN_DELAY \<Rightarrow> Inr (plain p SUBMIT_NOW BASELINE)
      | DELAY_FIXED \<Rightarrow>
          (case timedelta_minutes (tc_delay_minutes cfg) of
             Inl e \<Rightarrow> Inl e
           | Inr d \<Rightarrow> if ck_open ck + d \<le> qc_now q then Inr (plain p SUBMIT_NOW DELAY_ELAPSED)
                      else Inr (plain p WAIT WAITING_DELAY))
      | GAP_REVERSION_TRIGGER \<Rightarrow>
          (case (ei_prior_close i, qc_open_print q) of
             (Some prior, Some open1) \<Rightarrow>
               if fle prior (Num 0) then Inr ((plain p SUBMIT_NOW MISSING_REF)\<lparr>pd_degraded := True\<rparr>)
               else reversion_decision prior open1 q cfg
           | _ \<Rightarrow> Inr ((plain p SUBMIT_NOW MISSING_REF)\<lparr>pd_degraded := True\<rparr>))
      | _ \<Rightarrow> Inl ValueError)"

definition decide ::
    "policy \<Rightarrow> entry_intent \<Rightarrow> session_clock \<Rightarrow> quote_context \<Rightarrow> timing_config \<Rightarrow> py_error + policy_decision" where
  "decide p i ck q cfg =
     (if py_lower (ei_side i) \<noteq> ''buy'' then Inr (plain p SUBMIT_NOW NON_BUY)
      else case hard_deadline ck cfg of Inl e \<Rightarrow> Inl e | Inr dl \<Rightarrow>
      if qc_now q < ck_first ck \<or> qc_now q < ei_arrival i
        then Inr ((plain p WAIT WINDOW_NOT_OPEN)\<lparr>pd_deadline := Some dl\<rparr>)
      else if ck_cutoff ck \<le> qc_now q then Inr ((plain p WAIT WINDOW_CLOSED)\<lparr>pd_deadline := Some dl\<rparr>)
      else case natural_decision p i ck q cfg of Inl e \<Rightarrow> Inl e | Inr n \<Rightarrow>
      if pd_action n = WAIT then
        (case timedelta_seconds (ck_tick_seconds ck) of
           Inl e \<Rightarrow> Inl e
         | Inr tick \<Rightarrow>
             if dl \<le> qc_now q + tick
             then Inr (n\<lparr>pd_policy := p, pd_action := SUBMIT_NOW, pd_reason := DEADLINE, pd_degraded := True,
                          pd_deadline := Some dl\<rparr>)
             else Inr (n\<lparr>pd_policy := p, pd_deadline := Some dl\<rparr>))
      else Inr (n\<lparr>pd_policy := p, pd_deadline := Some dl\<rparr>))"

section \<open>The shadow evaluator\<close>

record resolution =
  re_time :: int
  re_mid :: "pyfloat option"
  re_degraded :: bool
  re_reason :: timing_reason
  re_trigger :: "pyfloat option"
  re_gap :: "pyfloat option"
  re_deadline :: "int option"

record name_state =
  ns_intent :: entry_intent
  ns_resolutions :: "(policy \<times> resolution) list"
  ns_written :: "policy list"

record policy_row =
  pr_date :: string
  pr_ticker :: string
  pr_policy :: policy
  pr_intent :: entry_intent
  pr_open_print :: "pyfloat option"
  pr_resolution :: "resolution option"
  pr_base :: "resolution option"
  pr_saved_bps :: "pyfloat option"
  pr_censored :: "string option"

type_synonym row_key = "string \<times> string \<times> policy"

record timing_eval =
  te_config :: timing_config
  te_refs :: "pyfloat dict"
  te_tick_seconds :: pyfloat
  te_fallback :: "json"
  te_clocks :: "session_clock dict"
  te_names :: "((string \<times> string) \<times> name_state) list"
  te_prints :: "((string \<times> string) \<times> pyfloat) list"
  te_seen :: "row_key list"
  te_log :: "policy_row list"
  te_rows_written :: nat
  te_ticks_seen :: nat
  te_no_windows :: nat

definition row_key :: "policy_row \<Rightarrow> row_key" where
  "row_key r = (pr_date r, pr_ticker r, pr_policy r)"

definition append_row :: "timing_eval \<Rightarrow> policy_row \<Rightarrow> timing_eval \<times> bool" where
  "append_row ev r =
     (if row_key r \<in> set (te_seen ev) then (ev, False)
      else (ev\<lparr>te_log := te_log ev @ [r], te_seen := List.insert (row_key r) (te_seen ev),
               te_rows_written := te_rows_written ev + 1\<rparr>, True))"

text \<open>The division does not raise: the baseline mid is positive there.\<close>

definition saved_bps :: "resolution option \<Rightarrow> resolution \<Rightarrow> pyfloat option" where
  "saved_bps base res =
     (case base of
        None \<Rightarrow> None
      | Some b \<Rightarrow>
          (case (re_mid b, re_mid res) of
             (Some bm, Some rm) \<Rightarrow>
               if flt (Num 0) bm then
                 (case fdiv (fsub bm rm) bm of Inr x \<Rightarrow> Some (fmul x (Num 10000)) | Inl e \<Rightarrow> None)
               else None
           | _ \<Rightarrow> None))"

definition put_name :: "timing_eval \<Rightarrow> string \<times> string \<Rightarrow> name_state \<Rightarrow> timing_eval" where
  "put_name ev k ns = ev\<lparr>te_names := AList.update k ns (te_names ev)\<rparr>"

definition write_resolved :: "timing_eval \<Rightarrow> string \<times> string \<Rightarrow> name_state \<Rightarrow> policy \<Rightarrow> timing_eval \<times> name_state" where
  "write_resolved ev k ns p =
     (if p \<in> set (ns_written ns) then (ev, ns)
      else case map_of (ns_resolutions ns) p of
        None \<Rightarrow> (ev, ns)
      | Some res \<Rightarrow>
          (let base = map_of (ns_resolutions ns) BASELINE_OPEN_DELAY;
               (ev', added) = append_row ev
                 \<lparr>pr_date = fst k, pr_ticker = snd k, pr_policy = p, pr_intent = ns_intent ns,
                  pr_open_print = map_of (te_prints ev) k, pr_resolution = Some res, pr_base = base,
                  pr_saved_bps = saved_bps base res, pr_censored = None\<rparr> in
           (ev', if added then ns\<lparr>ns_written := p # ns_written ns\<rparr> else ns)))"

definition eval_policy ::
    "session_clock \<Rightarrow> int \<Rightarrow> pyfloat dict \<Rightarrow> string \<times> string \<Rightarrow> policy \<Rightarrow> timing_eval \<times> name_state \<Rightarrow>
     (timing_eval \<times> name_state) \<times> py_error option" where
  "eval_policy ck now prices k p s =
     (let (ev, ns) = s; q = \<lparr>qc_now = now, qc_mid = map_of prices (snd k), qc_open_print = map_of (te_prints ev) k\<rparr> in
      if map_of (ns_resolutions ns) p \<noteq> None then (s, None)
      else case decide p (ns_intent ns) ck q (te_config ev) of
        Inl e \<Rightarrow> (s, Some e)
      | Inr d \<Rightarrow>
          if pd_action d \<noteq> SUBMIT_NOW then (s, None)
          else (write_resolved ev k
                  (ns\<lparr>ns_resolutions := (p, \<lparr>re_time = now, re_mid = qc_mid q, re_degraded = pd_degraded d,
                       re_reason = pd_reason d, re_trigger = pd_trigger d, re_gap = pd_gap_bps d,
                       re_deadline = pd_deadline d\<rparr>) # ns_resolutions ns\<rparr>) p, None))"

fun eval_policies ::
    "session_clock \<Rightarrow> int \<Rightarrow> pyfloat dict \<Rightarrow> string \<times> string \<Rightarrow> policy list \<Rightarrow> timing_eval \<times> name_state \<Rightarrow>
     (timing_eval \<times> name_state) \<times> py_error option" where
  "eval_policies ck now prices k [] s = (s, None)"
| "eval_policies ck now prices k (p # ps) s =
     (case eval_policy ck now prices k p s of
        (s', Some e) \<Rightarrow> (s', Some e)
      | (s', None) \<Rightarrow> eval_policies ck now prices k ps s')"

fun eval_names ::
    "session_clock \<Rightarrow> int \<Rightarrow> string \<Rightarrow> pyfloat dict \<Rightarrow> ((string \<times> string) \<times> name_state) list \<Rightarrow> timing_eval \<Rightarrow>
     timing_eval \<times> py_error option" where
  "eval_names ck now day prices [] ev = (ev, None)"
| "eval_names ck now day prices ((k, ns) # names) ev =
     (if fst k \<noteq> day then eval_names ck now day prices names ev
      else case eval_policies ck now prices k EVALUATED_POLICIES (ev, ns) of
        ((ev', ns'), Some e) \<Rightarrow> (put_name ev' k ns', Some e)
      | ((ev', ns'), None) \<Rightarrow> eval_names ck now day prices names (put_name ev' k ns'))"

text \<open>The readable positive prices of a record, under their upper-case tickers.\<close>

definition tick_prices :: "json dict \<Rightarrow> pyfloat dict" where
  "tick_prices raw = foldl (\<lambda>d (t, v). case py_float v of
       Inl e \<Rightarrow> d
     | Inr x \<Rightarrow> if flt (Num 0) x then dset d (py_upper t) x else d) [] raw"

definition note_print :: "string \<Rightarrow> timing_eval \<Rightarrow> string \<times> pyfloat \<Rightarrow> timing_eval" where
  "note_print day ev px =
     (if map_of (te_prints ev) (day, fst px) \<noteq> None then ev
      else ev\<lparr>te_prints := te_prints ev @ [((day, fst px), snd px)]\<rparr>)"

definition note_intent :: "string \<Rightarrow> int \<Rightarrow> timing_eval \<Rightarrow> json dict \<Rightarrow> timing_eval" where
  "note_intent day now ev i =
     (let ticker = py_upper (py_str (dget i ''symbol'' (JStr []))); k = (day, ticker) in
      if py_lower (py_str (dget i ''kind'' (JStr []))) \<noteq> ''entry'' \<or>
         py_upper (py_str (dget i ''side'' (JStr []))) \<noteq> ''BUY'' \<or> ticker = [] \<or> map_of (te_names ev) k \<noteq> None
      then ev
      else put_name ev k \<lparr>ns_intent = \<lparr>ei_ticker = ticker, ei_day = day, ei_arrival = now, ei_side = ''buy'',
               ei_parent = py_str (dget i ''parent_intent_id'' (JStr [])),
               ei_signal_version = optional_path i ''signal_version'',
               ei_prior_close = map_of (te_refs ev) ticker\<rparr>,
             ns_resolutions = [], ns_written = []\<rparr>)"

definition parse_dt :: "(int \<Rightarrow> int) \<Rightarrow> string \<Rightarrow> py_error + int" where
  "parse_dt et v =
     (let s = py_strip v;
          s = (if s \<noteq> [] \<and> last s = CHR ''Z'' then butlast s @ ''+00:00'' else s) in
      case from_isoformat s of
        None \<Rightarrow> Inl ValueError
      | Some d \<Rightarrow> Inr (case utc_offset d of None \<Rightarrow> et (wall d) | Some z \<Rightarrow> wall d - z))"

definition window_field :: "(int \<Rightarrow> int) \<Rightarrow> json dict \<Rightarrow> string \<Rightarrow> py_error + int" where
  "window_field et w k = (case map_of w k of None \<Rightarrow> Inl KeyError | Some v \<Rightarrow> parse_dt et (py_str v))"

definition clock_from_windows :: "(int \<Rightarrow> int) \<Rightarrow> json dict \<Rightarrow> pyfloat \<Rightarrow> py_error + session_clock" where
  "clock_from_windows et w tick =
     (case window_field et w ''open'' of Inl e \<Rightarrow> Inl e | Inr a \<Rightarrow>
      case window_field et w ''first_eligible_tick'' of Inl e \<Rightarrow> Inl e | Inr b \<Rightarrow>
      case window_field et w ''entry_cutoff'' of Inl e \<Rightarrow> Inl e | Inr c \<Rightarrow>
      case window_field et w ''close'' of Inl e \<Rightarrow> Inl e | Inr d \<Rightarrow>
      Inr \<lparr>ck_open = a, ck_first = b, ck_cutoff = c, ck_close = d, ck_tick_seconds = tick\<rparr>)"

text \<open>The registration loop; an entry that is not a mapping raises after the earlier ones are in.\<close>

fun note_intents :: "string \<Rightarrow> int \<Rightarrow> json list \<Rightarrow> timing_eval \<Rightarrow> timing_eval \<times> py_error option" where
  "note_intents day now [] ev = (ev, None)"
| "note_intents day now (x # xs) ev =
     (case as_mapping x of
        Inl e \<Rightarrow> (ev, Some e)
      | Inr i \<Rightarrow> note_intents day now xs (note_intent day now ev i))"

text \<open>A sub-mapping read with \<open>record.get(key) or {}\<close>.\<close>

definition sub_mapping :: "json dict \<Rightarrow> string \<Rightarrow> py_error + json dict" where
  "sub_mapping d k = as_mapping (py_or (dget d k JNull) (JObj []))"

text \<open>The part of a tick after the clock is known.\<close>

definition follow_tick :: "(int \<Rightarrow> int) \<Rightarrow> string \<Rightarrow> session_clock \<Rightarrow> json dict \<Rightarrow> timing_eval \<Rightarrow> timing_eval \<times> py_error option" where
  "follow_tick et day ck r ev =
     (case parse_dt et (py_str (dget r ''tick_at'' JNull)) of Inl e \<Rightarrow> (ev, Some e) | Inr now \<Rightarrow>
      case sub_mapping r ''inputs'' of Inl e \<Rightarrow> (ev, Some e) | Inr inputs \<Rightarrow>
      case sub_mapping inputs ''live_state'' of Inl e \<Rightarrow> (ev, Some e) | Inr live \<Rightarrow>
      case sub_mapping live ''prices'' of Inl e \<Rightarrow> (ev, Some e) | Inr raw \<Rightarrow>
      let prices = tick_prices raw; ev = foldl (note_print day) ev prices in
      case sub_mapping r ''decisions'' of Inl e \<Rightarrow> (ev, Some e) | Inr decisions \<Rightarrow>
      case iter_json (py_or (dget decisions ''intents'' JNull) (JList [])) of Inl e \<Rightarrow> (ev, Some e) | Inr is \<Rightarrow>
      case note_intents day now is ev of (ev, Some e) \<Rightarrow> (ev, Some e) | (ev, None) \<Rightarrow>
      eval_names ck now day prices (te_names ev) ev)"

definition eval_tick :: "(int \<Rightarrow> int) \<Rightarrow> json dict \<Rightarrow> timing_eval \<Rightarrow> timing_eval \<times> py_error option" where
  "eval_tick et r ev0 =
     (let ev = ev0\<lparr>te_ticks_seen := te_ticks_seen ev0 + 1\<rparr>; day = py_str (dget r ''session_date'' JNull) in
      case map_of (te_clocks ev) day of
        Some ck \<Rightarrow> follow_tick et day ck r ev
      | None \<Rightarrow>
          (let windows = py_or (dget r ''windows'' JNull) (te_fallback ev) in
           if \<not> truthy windows then (ev\<lparr>te_no_windows := te_no_windows ev + 1\<rparr>, None)
           else case windows of
             JObj w \<Rightarrow>
               (case clock_from_windows et w (te_tick_seconds ev) of
                  Inl e \<Rightarrow> (ev, Some e)
                | Inr ck \<Rightarrow> follow_tick et day ck r (ev\<lparr>te_clocks := dset (te_clocks ev) day ck\<rparr>))
           | _ \<Rightarrow> (ev, Some TypeError)))"

definition censored_row :: "timing_eval \<Rightarrow> string \<Rightarrow> string \<times> string \<Rightarrow> name_state \<Rightarrow> policy \<Rightarrow> policy_row" where
  "censored_row ev reason k ns p =
     \<lparr>pr_date = fst k, pr_ticker = snd k, pr_policy = p, pr_intent = ns_intent ns,
      pr_open_print = map_of (te_prints ev) k, pr_resolution = None,
      pr_base = map_of (ns_resolutions ns) BASELINE_OPEN_DELAY, pr_saved_bps = None,
      pr_censored = Some reason\<rparr>"

definition flush_policy :: "string \<Rightarrow> string \<times> string \<Rightarrow> policy \<Rightarrow> timing_eval \<times> name_state \<times> nat \<Rightarrow> timing_eval \<times> name_state \<times> nat" where
  "flush_policy reason k p s =
     (case s of (ev, ns, n) \<Rightarrow>
      if p \<in> set (ns_written ns) then s
      else if map_of (ns_resolutions ns) p \<noteq> None then
        (let (ev', ns') = write_resolved ev k ns p in (ev', ns', n + 1))
      else
        (let (ev', added) = append_row ev (censored_row ev reason k ns p) in
         if added then (ev', ns\<lparr>ns_written := p # ns_written ns\<rparr>, n + 1) else (ev', ns, n)))"

fun flush_names :: "string \<Rightarrow> ((string \<times> string) \<times> name_state) list \<Rightarrow> timing_eval \<times> nat \<Rightarrow> timing_eval \<times> nat" where
  "flush_names reason [] s = s"
| "flush_names reason ((k, ns) # names) (ev, n) =
     (let (ev', ns', n') = foldl (\<lambda>s p. flush_policy reason k p s) (ev, ns, n) EVALUATED_POLICIES in
      flush_names reason names (put_name ev' k ns', n'))"

definition flush :: "string \<Rightarrow> timing_eval \<Rightarrow> timing_eval \<times> nat" where
  "flush reason ev = flush_names reason (te_names ev) (ev, 0)"

definition new_timing_eval ::
    "timing_config \<Rightarrow> policy_row list \<Rightarrow> pyfloat dict \<Rightarrow> pyfloat \<Rightarrow> json \<Rightarrow> timing_eval" where
  "new_timing_eval cfg rows refs tick windows =
     \<lparr>te_config = cfg, te_refs = foldl (\<lambda>d (k, v). dset d (py_upper k) v) [] refs,
      te_tick_seconds = tick, te_fallback = windows, te_clocks = [], te_names = [], te_prints = [],
      te_seen = remdups (map row_key rows), te_log = rows, te_rows_written = 0,
      te_ticks_seen = 0, te_no_windows = 0\<rparr>"

text \<open>A session of ticks; the scheduler ignores what an observer raises.\<close>

fun eval_ticks :: "(int \<Rightarrow> int) \<Rightarrow> json dict list \<Rightarrow> timing_eval \<Rightarrow> timing_eval" where
  "eval_ticks et [] ev = ev"
| "eval_ticks et (r # rs) ev = eval_ticks et rs (fst (eval_tick et r ev))"

section \<open>The configuration never selects an experiment by mistake\<close>

lemma timing_number_error: "snd (timing_number raw k d lo hi) \<noteq> [] \<Longrightarrow> fst (timing_number raw k d lo hi) = Num d"
  by (auto simp: timing_number_def Let_def split: sum.splits option.splits if_splits)

lemma timing_number_min: "m \<le> d \<Longrightarrow> \<not> flt (fst (timing_number raw k d (Some m) hi)) (Num m)"
  by (auto simp: timing_number_def Let_def split: sum.splits option.splits if_splits)

lemma timing_number_max: "d \<le> m \<Longrightarrow> \<not> flt (Num m) (fst (timing_number raw k d lo (Some m)))"
  by (auto simp: timing_number_def Let_def split: sum.splits option.splits if_splits)

lemma read_policy_evaluated: "fst (read_policy raw) \<in> set EVALUATED_POLICIES"
  unfolding read_policy_def Let_def by (auto simp: EVALUATED_POLICIES_def)

definition timing_config_ok :: "timing_config \<Rightarrow> bool" where
  "timing_config_ok cfg \<longleftrightarrow> tc_policy cfg \<in> set EVALUATED_POLICIES \<and>
     (tc_errors cfg \<noteq> [] \<longrightarrow> tc_policy cfg = BASELINE_OPEN_DELAY) \<and>
     \<not> flt (tc_delay_minutes cfg) (Num 0) \<and> \<not> flt (tc_retrace_frac cfg) (Num 0) \<and>
     \<not> flt (Num 1) (tc_retrace_frac cfg) \<and> \<not> flt (tc_min_gap_bps cfg) (Num 0) \<and>
     \<not> flt (tc_deadline_minutes cfg) (Num 0)"

lemma default_timing_config_ok: "timing_config_ok (default_timing_config\<lparr>tc_errors := es\<rparr>)"
  by (simp add: timing_config_ok_def default_timing_config_def EVALUATED_POLICIES_def)

lemma load_timing_section_ok: "timing_config_ok (load_timing_section raw)"
  unfolding timing_config_ok_def load_timing_section_def
  using read_policy_evaluated [of raw] timing_number_min [of 0 30 raw "''delay_minutes''" None]
    timing_number_min [of 0 "1/2" raw "''retrace_frac''" "Some 1"]
    timing_number_max [of "1/2" 1 raw "''retrace_frac''" "Some 0"]
    timing_number_min [of 0 10 raw "''min_gap_bps''" None]
    timing_number_min [of 0 0 raw "''deadline_minutes_before_cutoff''" None]
  by (simp add: Let_def split_beta EVALUATED_POLICIES_def)

lemma load_entry_timing_config_ok: "timing_config_ok (load_entry_timing_config sc)"
  using default_timing_config_ok [of "[]"] default_timing_config_ok [of "[TimingNotMapping]"]
    default_timing_config_ok [of "[DecisioningNotMapping]"]
  by (auto simp: load_entry_timing_config_def load_timing_section_ok default_timing_config_def split: json.splits)

section \<open>When a policy submits\<close>

definition window_open :: "session_clock \<Rightarrow> entry_intent \<Rightarrow> int \<Rightarrow> bool" where
  "window_open ck i now \<longleftrightarrow> ck_first ck \<le> now \<and> ei_arrival i \<le> now \<and> now < ck_cutoff ck"

lemma decide_closed:
  assumes "py_lower (ei_side i) = ''buy''" and "\<not> window_open ck i (qc_now q)"
    and "decide p i ck q cfg = Inr d"
  shows "pd_action d = WAIT"
  using assms unfolding decide_def window_open_def
  by (auto simp: plain_def split: sum.splits if_splits)

lemma natural_baseline: "natural_decision BASELINE_OPEN_DELAY i ck q cfg = Inr (plain BASELINE_OPEN_DELAY SUBMIT_NOW BASELINE)"
  by (simp add: natural_decision_def)

lemma decide_baseline:
  assumes "window_open ck i (qc_now q)" and "decide BASELINE_OPEN_DELAY i ck q cfg = Inr d"
  shows "pd_action d = SUBMIT_NOW"
  using assms unfolding decide_def window_open_def natural_baseline
  by (auto simp: plain_def split: sum.splits if_splits)

lemma deadline_before_cutoff:
  assumes "\<not> flt (tc_deadline_minutes cfg) (Num 0)" and "hard_deadline ck cfg = Inr dl"
  shows "dl \<le> ck_cutoff ck"
proof -
  from assms obtain d where d: "timedelta_minutes (tc_deadline_minutes cfg) = Inr d" "dl = ck_cutoff ck - d"
    by (auto simp: hard_deadline_def map_sum_def split: sum.splits)
  then obtain m where m: "tc_deadline_minutes cfg = Num m"
    by (cases "tc_deadline_minutes cfg") (auto simp: timedelta_minutes_def inf_of_def)
  with assms(1) d have "0 \<le> m" "d = round_half_even (m * 60 * 1000000)" by (auto simp: timedelta_minutes_def)
  then have "round_half_even (of_int 0) \<le> d" by (auto intro!: round_half_even_mono)
  with d round_half_even_of_int [of 0] show ?thesis by simp
qed

lemma decide_last_tick:
  assumes "\<not> flt (tc_deadline_minutes cfg) (Num 0)" and "window_open ck i (qc_now q)"
    and "timedelta_seconds (ck_tick_seconds ck) = Inr tau" and "ck_cutoff ck \<le> qc_now q + tau"
    and "decide p i ck q cfg = Inr d"
  shows "pd_action d = SUBMIT_NOW"
proof (cases "py_lower (ei_side i) = ''buy''")
  case False
  with assms(5) show ?thesis by (auto simp: decide_def plain_def)
next
  case True
  with assms(5) obtain dl where dl: "hard_deadline ck cfg = Inr dl"
    by (auto simp: decide_def split: sum.splits)
  from deadline_before_cutoff [OF assms(1) dl] assms(4) have "dl \<le> qc_now q + tau" by simp
  with True dl assms show ?thesis unfolding decide_def window_open_def
    by (auto split: sum.splits if_splits) (metis timing_action.exhaust)
qed

section \<open>The evaluator's log\<close>

definition timing_seen :: "timing_eval \<Rightarrow> bool" where
  "timing_seen ev \<longleftrightarrow> set (te_seen ev) = row_key ` set (te_log ev)"

lemma append_row_new:
  "timing_seen ev \<Longrightarrow> True \<Longrightarrow> row_key r \<notin> row_key ` set (te_log ev) \<Longrightarrow>
   snd (append_row ev r) \<and> te_log (fst (append_row ev r)) = te_log ev @ [r]"
  unfolding timing_seen_def append_row_def by simp

lemma append_row_known:
  "timing_seen ev \<Longrightarrow> row_key r \<in> row_key ` set (te_log ev) \<Longrightarrow> append_row ev r = (ev, False)"
  unfolding timing_seen_def append_row_def by simp

lemma append_row_seen: "timing_seen ev \<Longrightarrow> timing_seen (fst (append_row ev r))"
  unfolding timing_seen_def append_row_def by auto

interpretation timing_log: keyed_log append_row row_key "\<lambda>r. True" te_log timing_seen
  by unfold_locales (use append_row_new append_row_known append_row_seen in \<open>simp_all\<close>)

text \<open>What a step leaves alone, and the keys it may add.\<close>

definition frame :: "timing_eval \<Rightarrow> timing_eval \<Rightarrow> bool" where
  "frame ev ev' \<longleftrightarrow> te_config ev' = te_config ev \<and> te_tick_seconds ev' = te_tick_seconds ev \<and>
     te_clocks ev' = te_clocks ev \<and> te_names ev' = te_names ev \<and> set (te_seen ev) \<subseteq> set (te_seen ev')"

lemma frame_refl [simp, intro]: "frame ev ev"
  by (simp add: frame_def)

lemma frame_trans: "frame a b \<Longrightarrow> frame b c \<Longrightarrow> frame a c"
  by (auto simp: frame_def)

definition anchored :: "policy_row \<Rightarrow> bool" where
  "anchored r \<longleftrightarrow> (pr_resolution r \<noteq> None \<longrightarrow> pr_base r \<noteq> None)"

text \<open>The rows beyond those the file held: one per new key, each with its baseline anchor.\<close>

definition log_ok :: "policy_row list \<Rightarrow> timing_eval \<Rightarrow> bool" where
  "log_ok rows ev \<longleftrightarrow> timing_seen ev \<and>
     (\<exists>new. te_log ev = rows @ new \<and> distinct (map row_key new) \<and>
        row_key ` set new \<inter> row_key ` set rows = {} \<and> te_rows_written ev = length new \<and>
        (\<forall>r \<in> set new. anchored r))"

lemma log_ok_append:
  assumes "log_ok rows ev" and "anchored r" and "append_row ev r = (ev', b)"
  shows "log_ok rows ev' \<and> frame ev ev' \<and> row_key r \<in> set (te_seen ev')"
proof (cases "row_key r \<in> row_key ` set (te_log ev)")
  case True
  with assms timing_log.put_known [of ev r] show ?thesis
    by (auto simp: log_ok_def timing_seen_def)
next
  case False
  from assms(1) obtain new where new: "timing_seen ev" "te_log ev = rows @ new" "distinct (map row_key new)"
    "row_key ` set new \<inter> row_key ` set rows = {}" "te_rows_written ev = length new" "\<forall>r \<in> set new. anchored r"
    by (auto simp: log_ok_def)
  from False new(1) have "row_key r \<notin> set (te_seen ev)" by (simp add: timing_seen_def)
  with assms(3) have ev': "ev' = ev\<lparr>te_log := te_log ev @ [r], te_seen := List.insert (row_key r) (te_seen ev),
      te_rows_written := te_rows_written ev + 1\<rparr>"
    by (simp add: append_row_def)
  from timing_log.put_invar [OF new(1), of r] assms(3) have "timing_seen ev'" by simp
  moreover have "\<exists>nw. te_log ev' = rows @ nw \<and> distinct (map row_key nw) \<and>
      row_key ` set nw \<inter> row_key ` set rows = {} \<and> te_rows_written ev' = length nw \<and> (\<forall>r \<in> set nw. anchored r)"
    using new False assms(2) ev' by (intro exI [of _ "new @ [r]"]) auto
  ultimately show ?thesis using ev' by (auto simp: log_ok_def frame_def)
qed

definition resolved :: "name_state \<Rightarrow> policy \<Rightarrow> bool" where
  "resolved ns p \<longleftrightarrow> map_of (ns_resolutions ns) p \<noteq> None"

text \<open>A tracked name: a buy that has arrived by \<open>T\<close>, whose settled policies have their rows.\<close>

definition name_ok :: "int \<Rightarrow> timing_eval \<Rightarrow> string \<times> string \<Rightarrow> name_state \<Rightarrow> bool" where
  "name_ok T ev k ns \<longleftrightarrow> py_lower (ei_side (ns_intent ns)) = ''buy'' \<and> ei_arrival (ns_intent ns) \<le> T \<and>
     (\<forall>p. resolved ns p \<or> p \<in> set (ns_written ns) \<longrightarrow> (fst k, snd k, p) \<in> set (te_seen ev)) \<and>
     (\<forall>p. resolved ns p \<longrightarrow> resolved ns BASELINE_OPEN_DELAY)"

lemma name_ok_frame: "name_ok T ev k ns \<Longrightarrow> set (te_seen ev) \<subseteq> set (te_seen ev') \<Longrightarrow> name_ok T ev' k ns"
  unfolding name_ok_def by blast

lemma name_ok_later: "name_ok T ev k ns \<Longrightarrow> T \<le> T' \<Longrightarrow> name_ok T' ev k ns"
  unfolding name_ok_def by auto

lemma write_resolved_ok:
  assumes log: "log_ok rows ev" and base: "resolved ns BASELINE_OPEN_DELAY" and res: "resolved ns p"
    and wr: "p \<in> set (ns_written ns) \<longrightarrow> (fst k, snd k, p) \<in> set (te_seen ev)"
    and step: "write_resolved ev k ns p = (ev', ns')"
  shows "log_ok rows ev' \<and> frame ev ev' \<and> (fst k, snd k, p) \<in> set (te_seen ev') \<and>
         (ns' = ns \<or> ns' = ns\<lparr>ns_written := p # ns_written ns\<rparr>)"
proof (cases "p \<in> set (ns_written ns)")
  case True
  with assms show ?thesis by (simp add: write_resolved_def)
next
  case False
  from res obtain x where x: "map_of (ns_resolutions ns) p = Some x" by (auto simp: resolved_def)
  let ?base = "map_of (ns_resolutions ns) BASELINE_OPEN_DELAY"
  let ?row = "\<lparr>pr_date = fst k, pr_ticker = snd k, pr_policy = p, pr_intent = ns_intent ns,
                  pr_open_print = map_of (te_prints ev) k, pr_resolution = Some x, pr_base = ?base,
                  pr_saved_bps = saved_bps ?base x, pr_censored = None\<rparr>"
  obtain ev1 b where a1: "append_row ev ?row = (ev1, b)" by fastforce
  then have a: "append_row ev ?row = (ev', b)" and ns': "ns' = (if b then ns\<lparr>ns_written := p # ns_written ns\<rparr> else ns)"
    using step False x by (simp_all add: write_resolved_def)
  have "anchored ?row" using base by (simp add: anchored_def resolved_def)
  from log_ok_append [OF log this a] show ?thesis using ns' by (simp add: row_key_def)
qed

lemma resolved_cons [simp]:
  "resolved (ns\<lparr>ns_resolutions := (p, x) # ns_resolutions ns\<rparr>) q \<longleftrightarrow> q = p \<or> resolved ns q"
  by (simp add: resolved_def)

lemma resolved_written [simp]: "resolved (ns\<lparr>ns_written := w\<rparr>) q = resolved ns q"
  by (simp add: resolved_def)

text \<open>What a step of one name guarantees.\<close>

definition name_step :: "policy_row list \<Rightarrow> int \<Rightarrow> string \<times> string \<Rightarrow> timing_eval \<Rightarrow> name_state \<Rightarrow> timing_eval \<Rightarrow> name_state \<Rightarrow> bool" where
  "name_step rows T k ev ns ev' ns' \<longleftrightarrow> log_ok rows ev' \<and> frame ev ev' \<and> name_ok T ev' k ns' \<and>
     ns_intent ns' = ns_intent ns \<and> (\<forall>q. resolved ns q \<longrightarrow> resolved ns' q)"

lemma name_step_refl: "log_ok rows ev \<Longrightarrow> name_ok T ev k ns \<Longrightarrow> name_step rows T k ev ns ev ns"
  by (simp add: name_step_def)

lemma name_step_trans:
  "name_step rows T k ev ns ev1 ns1 \<Longrightarrow> name_step rows T k ev1 ns1 ev2 ns2 \<Longrightarrow> name_step rows T k ev ns ev2 ns2"
  unfolding name_step_def using frame_trans by metis

definition quote_at :: "timing_eval \<Rightarrow> int \<Rightarrow> pyfloat dict \<Rightarrow> string \<times> string \<Rightarrow> quote_context" where
  "quote_at ev now prices k = \<lparr>qc_now = now, qc_mid = map_of prices (snd k), qc_open_print = map_of (te_prints ev) k\<rparr>"

lemma qc_now_quote_at [simp]: "qc_now (quote_at ev now prices k) = now"
  by (simp add: quote_at_def)

lemma eval_policy_ok:
  assumes log: "log_ok rows ev" and ok: "name_ok T ev k ns"
    and base: "window_open ck (ns_intent ns) now \<longrightarrow> p = BASELINE_OPEN_DELAY \<or> resolved ns BASELINE_OPEN_DELAY"
    and step: "eval_policy ck now prices k p (ev, ns) = ((ev', ns'), e)"
  shows "name_step rows T k ev ns ev' ns' \<and>
    (e = None \<longrightarrow> resolved ns' p \<or>
       (\<exists>d. decide p (ns_intent ns) ck (quote_at ev now prices k) (te_config ev) = Inr d \<and> pd_action d = WAIT))"
proof (cases "resolved ns p")
  case True
  with step log ok show ?thesis by (auto simp: eval_policy_def resolved_def name_step_refl)
next
  case unres: False
  show ?thesis
  proof (cases "decide p (ns_intent ns) ck (quote_at ev now prices k) (te_config ev)")
    case (Inl x)
    with unres step log ok show ?thesis by (auto simp: eval_policy_def resolved_def name_step_refl quote_at_def)
  next
    case (Inr d)
    show ?thesis
    proof (cases "pd_action d")
      case WAIT
      with Inr unres step log ok show ?thesis by (auto simp: eval_policy_def resolved_def name_step_refl quote_at_def)
    next
      case SUBMIT_NOW
      from ok have "py_lower (ei_side (ns_intent ns)) = ''buy''" by (simp add: name_ok_def)
      with decide_closed [of "ns_intent ns" ck "quote_at ev now prices k"] Inr SUBMIT_NOW
      have "window_open ck (ns_intent ns) now" by fastforce
      with base have b: "p = BASELINE_OPEN_DELAY \<or> resolved ns BASELINE_OPEN_DELAY" by simp
      obtain x where w: "write_resolved ev k (ns\<lparr>ns_resolutions := (p, x) # ns_resolutions ns\<rparr>) p = (ev', ns')"
        and e: "e = None"
        using Inr SUBMIT_NOW unres step unfolding eval_policy_def resolved_def quote_at_def
        by simp (elim conjE, blast)
      have "p \<in> set (ns_written ns) \<longrightarrow> (fst k, snd k, p) \<in> set (te_seen ev)"
        using ok by (simp add: name_ok_def)
      with write_resolved_ok [OF log _ _ _ w] b
      have r: "log_ok rows ev'" "frame ev ev'" "(fst k, snd k, p) \<in> set (te_seen ev')"
        "ns' = ns\<lparr>ns_resolutions := (p, x) # ns_resolutions ns\<rparr> \<or>
         ns' = ns\<lparr>ns_resolutions := (p, x) # ns_resolutions ns, ns_written := p # ns_written ns\<rparr>"
        by auto
      have res: "resolved ns' q \<longleftrightarrow> q = p \<or> resolved ns q" for q using r(4) by (auto simp: resolved_def)
      have wr: "set (ns_written ns') \<subseteq> insert p (set (ns_written ns))" and i: "ns_intent ns' = ns_intent ns"
        using r(4) by auto
      have seen: "(fst k, snd k, q) \<in> set (te_seen ev')" if "resolved ns' q \<or> q \<in> set (ns_written ns')" for q
      proof (cases "q = p")
        case False
        with that res wr have "resolved ns q \<or> q \<in> set (ns_written ns)" by auto
        with ok r(2) show ?thesis by (auto simp: name_ok_def frame_def)
      qed (use r(3) in simp)
      from res b have "resolved ns' BASELINE_OPEN_DELAY" by auto
      with ok i seen have "name_ok T ev' k ns'" by (auto simp: name_ok_def)
      with r(1,2) res i e show ?thesis by (simp add: name_step_def)
    qed
  qed
qed

lemma eval_policies_ok:
  assumes "log_ok rows ev" and "name_ok T ev k ns"
    and "window_open ck (ns_intent ns) now \<longrightarrow> resolved ns BASELINE_OPEN_DELAY"
    and "eval_policies ck now prices k ps (ev, ns) = ((ev', ns'), e)"
  shows "name_step rows T k ev ns ev' ns' \<and>
    (e = None \<longrightarrow> (\<forall>p \<in> set ps. resolved ns' p \<or>
       (\<exists>q d. qc_now q = now \<and> decide p (ns_intent ns) ck q (te_config ev) = Inr d \<and> pd_action d = WAIT)))"
  using assms
proof (induction ps arbitrary: ev ns)
  case Nil
  then show ?case by (simp add: name_step_refl)
next
  case (Cons p ps)
  obtain ev1 ns1 e1 where s: "eval_policy ck now prices k p (ev, ns) = ((ev1, ns1), e1)" by (metis surj_pair)
  from eval_policy_ok [OF Cons.prems(1,2) _ s] Cons.prems(3)
  have o: "name_step rows T k ev ns ev1 ns1"
    "e1 = None \<longrightarrow> resolved ns1 p \<or>
       (\<exists>d. decide p (ns_intent ns) ck (quote_at ev now prices k) (te_config ev) = Inr d \<and> pd_action d = WAIT)"
    by auto
  show ?case
  proof (cases e1)
    case (Some x)
    with s o Cons.prems(4) show ?thesis by auto
  next
    case None
    with s Cons.prems(4) have r: "eval_policies ck now prices k ps (ev1, ns1) = ((ev', ns'), e)" by simp
    from o(1) have n: "log_ok rows ev1" "name_ok T ev1 k ns1" "ns_intent ns1 = ns_intent ns"
      "te_config ev1 = te_config ev" "\<forall>q. resolved ns q \<longrightarrow> resolved ns1 q"
      by (auto simp: name_step_def frame_def)
    with Cons.prems(3) have "window_open ck (ns_intent ns1) now \<longrightarrow> resolved ns1 BASELINE_OPEN_DELAY" by auto
    from Cons.IH [OF n(1,2) this r] have ih: "name_step rows T k ev1 ns1 ev' ns'"
      "e = None \<longrightarrow> (\<forall>p \<in> set ps. resolved ns' p \<or>
       (\<exists>q d. qc_now q = now \<and> decide p (ns_intent ns) ck q (te_config ev) = Inr d \<and> pd_action d = WAIT))"
      using n by auto
    have "resolved ns1 p \<longrightarrow> resolved ns' p" using ih(1) by (auto simp: name_step_def)
    then have hd: "resolved ns' p \<or>
       (\<exists>q d. qc_now q = now \<and> decide p (ns_intent ns) ck q (te_config ev) = Inr d \<and> pd_action d = WAIT)"
      using o(2) None qc_now_quote_at by blast
    with ih name_step_trans [OF o(1) ih(1)] show ?thesis by auto
  qed
qed

text \<open>Settled after a tick: resolved, or the policy decided to wait on that tick.\<close>

definition settled :: "session_clock \<Rightarrow> int \<Rightarrow> timing_config \<Rightarrow> name_state \<Rightarrow> policy \<Rightarrow> bool" where
  "settled ck now cfg ns p \<longleftrightarrow> resolved ns p \<or>
     (\<exists>q d. qc_now q = now \<and> decide p (ns_intent ns) ck q cfg = Inr d \<and> pd_action d = WAIT)"

lemma eval_all_ok:
  assumes log: "log_ok rows ev" and ok: "name_ok T ev k ns"
    and run: "eval_policies ck now prices k EVALUATED_POLICIES (ev, ns) = ((ev', ns'), e)"
  shows "name_step rows T k ev ns ev' ns' \<and>
    (e = None \<longrightarrow> (\<forall>p \<in> set EVALUATED_POLICIES. settled ck now (te_config ev) ns' p))"
proof -
  let ?ps = "[DELAY_FIXED, GAP_REVERSION_TRIGGER]"
  obtain ev1 ns1 e1 where s: "eval_policy ck now prices k BASELINE_OPEN_DELAY (ev, ns) = ((ev1, ns1), e1)"
    by (metis surj_pair)
  from eval_policy_ok [OF log ok _ s]
  have o: "name_step rows T k ev ns ev1 ns1" and w: "e1 = None \<longrightarrow> resolved ns1 BASELINE_OPEN_DELAY \<or>
       (\<exists>d. decide BASELINE_OPEN_DELAY (ns_intent ns) ck (quote_at ev now prices k) (te_config ev) = Inr d \<and> pd_action d = WAIT)"
    by auto
  show ?thesis
  proof (cases e1)
    case (Some x)
    with s o run show ?thesis by (auto simp: EVALUATED_POLICIES_def)
  next
    case None
    with s run have r: "eval_policies ck now prices k ?ps (ev1, ns1) = ((ev', ns'), e)"
      by (simp add: EVALUATED_POLICIES_def)
    from o have n: "log_ok rows ev1" "name_ok T ev1 k ns1" "ns_intent ns1 = ns_intent ns" "te_config ev1 = te_config ev"
      by (auto simp: name_step_def frame_def)
    have b: "window_open ck (ns_intent ns1) now \<longrightarrow> resolved ns1 BASELINE_OPEN_DELAY"
      using w None n(3) decide_baseline [of ck "ns_intent ns" "quote_at ev now prices k" "te_config ev"] by fastforce
    from eval_policies_ok [OF n(1,2) b r] have t: "name_step rows T k ev1 ns1 ev' ns'"
      "e = None \<longrightarrow> (\<forall>p \<in> set ?ps. settled ck now (te_config ev) ns' p)"
      using n by (auto simp: settled_def name_step_def)
    have "settled ck now (te_config ev) ns1 BASELINE_OPEN_DELAY"
      using w None n(3) qc_now_quote_at unfolding settled_def by metis
    then have "settled ck now (te_config ev) ns' BASELINE_OPEN_DELAY"
      using t(1) by (auto simp: settled_def name_step_def)
    with t name_step_trans [OF o t(1)] show ?thesis by (simp add: EVALUATED_POLICIES_def)
  qed
qed

section \<open>A tick of the evaluator\<close>

definition names_ok :: "policy_row list \<Rightarrow> int \<Rightarrow> timing_eval \<Rightarrow> bool" where
  "names_ok rows T ev \<longleftrightarrow> log_ok rows ev \<and> distinct (map fst (te_names ev)) \<and>
     (\<forall>k ns. map_of (te_names ev) k = Some ns \<longrightarrow> name_ok T ev k ns)"

lemma log_ok_put_name [simp]: "log_ok rows (put_name ev k ns) = log_ok rows ev"
  by (simp add: log_ok_def put_name_def timing_seen_def)

lemma name_ok_put_name [simp]: "name_ok T (put_name ev k ns) j ms = name_ok T ev j ms"
  by (simp add: name_ok_def put_name_def)

lemma put_name_simps [simp]:
  "te_config (put_name ev k ns) = te_config ev" "te_tick_seconds (put_name ev k ns) = te_tick_seconds ev"
  "te_clocks (put_name ev k ns) = te_clocks ev" "te_seen (put_name ev k ns) = te_seen ev"
  "te_prints (put_name ev k ns) = te_prints ev"
  "map_of (te_names (put_name ev k ns)) j = (if j = k then Some ns else map_of (te_names ev) j)"
  by (simp_all add: put_name_def update_conv')

lemma names_ok_put:
  assumes "names_ok rows T ev" and "log_ok rows ev'" and "frame ev ev'" and "name_ok T ev' k ns"
  shows "names_ok rows T (put_name ev' k ns)"
proof -
  have "distinct (map fst (te_names (put_name ev' k ns)))"
    using assms(1,3) by (simp add: names_ok_def frame_def put_name_def distinct_update)
  moreover have "name_ok T ev' j ms" if "map_of (te_names (put_name ev' k ns)) j = Some ms" for j ms
  proof (cases "j = k")
    case False
    with that assms(3) have "map_of (te_names ev) j = Some ms" by (simp add: frame_def)
    with assms(1,3) name_ok_frame show ?thesis unfolding names_ok_def frame_def by blast
  qed (use that assms(4) in simp)
  ultimately show ?thesis using assms(2) unfolding names_ok_def log_ok_put_name name_ok_put_name by blast
qed

lemma eval_names_ok:
  assumes "names_ok rows T ev" and "\<forall>(k, ns) \<in> set L. name_ok T ev k ns" and "distinct (map fst L)"
    and "eval_names ck now day prices L ev = (ev', e)"
  shows "names_ok rows T ev' \<and> te_config ev' = te_config ev \<and> te_tick_seconds ev' = te_tick_seconds ev \<and>
    te_clocks ev' = te_clocks ev \<and>
    (\<forall>k. k \<notin> fst ` set L \<longrightarrow> map_of (te_names ev') k = map_of (te_names ev) k) \<and>
    (e = None \<longrightarrow> (\<forall>k \<in> fst ` set L. fst k = day \<longrightarrow>
       (\<exists>ns. map_of (te_names ev') k = Some ns \<and> (\<forall>p \<in> set EVALUATED_POLICIES. settled ck now (te_config ev) ns p))))"
  using assms
proof (induction L arbitrary: ev)
  case Nil
  then show ?case by simp
next
  case (Cons a L)
  obtain k ns where a: "a = (k, ns)" by fastforce
  show ?case
  proof (cases "fst k = day")
    case False
    with Cons a show ?thesis by auto
  next
    case day: True
    obtain ev1 ns1 e1 where s: "eval_policies ck now prices k EVALUATED_POLICIES (ev, ns) = ((ev1, ns1), e1)"
      by (metis surj_pair)
    have "log_ok rows ev" "name_ok T ev k ns" using Cons.prems(1,2) a by (auto simp: names_ok_def)
    from eval_all_ok [OF this s] have o: "log_ok rows ev1" "frame ev ev1" "name_ok T ev1 k ns1"
      "e1 = None \<longrightarrow> (\<forall>p \<in> set EVALUATED_POLICIES. settled ck now (te_config ev) ns1 p)"
      by (auto simp: name_step_def)
    let ?ev = "put_name ev1 k ns1"
    have n: "names_ok rows T ?ev" by (rule names_ok_put [OF Cons.prems(1) o(1,2,3)])
    have f: "te_config ?ev = te_config ev" "te_tick_seconds ?ev = te_tick_seconds ev" "te_clocks ?ev = te_clocks ev"
      "\<forall>j. j \<noteq> k \<longrightarrow> map_of (te_names ?ev) j = map_of (te_names ev) j"
      using o(2) by (auto simp: frame_def)
    show ?thesis
    proof (cases e1)
      case (Some x)
      with s a day Cons.prems(4) have "ev' = ?ev" "e = Some x" by auto
      with n f a show ?thesis by auto
    next
      case None
      with s a day Cons.prems(4) have r: "eval_names ck now day prices L ?ev = (ev', e)" by simp
      have "\<forall>(j, ms) \<in> set L. name_ok T ?ev j ms"
        using Cons.prems(2) o(2) name_ok_frame [of T ev _ _ ev1] by (fastforce simp: frame_def)
      from Cons.IH [OF n this _ r] Cons.prems(3)
      have ih: "names_ok rows T ev'" "te_config ev' = te_config ?ev" "te_tick_seconds ev' = te_tick_seconds ?ev"
        "te_clocks ev' = te_clocks ?ev"
        "\<forall>j. j \<notin> fst ` set L \<longrightarrow> map_of (te_names ev') j = map_of (te_names ?ev) j"
        "e = None \<longrightarrow> (\<forall>j \<in> fst ` set L. fst j = day \<longrightarrow>
          (\<exists>ms. map_of (te_names ev') j = Some ms \<and> (\<forall>p \<in> set EVALUATED_POLICIES. settled ck now (te_config ?ev) ms p)))"
        by auto
      have "k \<notin> fst ` set L" using Cons.prems(3) a by simp
      with ih(5) have "map_of (te_names ev') k = map_of (te_names ?ev) k" by blast
      then have k: "map_of (te_names ev') k = Some ns1" by simp
      with ih f o(4) None a show ?thesis by auto
    qed
  qed
qed

definition timing_invar :: "policy_row list \<Rightarrow> timing_config \<Rightarrow> pyfloat \<Rightarrow> int \<Rightarrow> timing_eval \<Rightarrow> bool" where
  "timing_invar rows cfg tick T ev \<longleftrightarrow> names_ok rows T ev \<and> te_config ev = cfg \<and> te_tick_seconds ev = tick \<and>
     (\<forall>day ck. map_of (te_clocks ev) day = Some ck \<longrightarrow> ck_tick_seconds ck = tick)"

definition record_instant :: "(int \<Rightarrow> int) \<Rightarrow> json dict \<Rightarrow> py_error + int" where
  "record_instant et r = parse_dt et (py_str (dget r ''tick_at'' JNull))"

definition record_day :: "json dict \<Rightarrow> string" where
  "record_day r = py_str (dget r ''session_date'' JNull)"

text \<open>The changes of a tick the invariant does not look at.\<close>

definition same_book :: "timing_eval \<Rightarrow> timing_eval \<Rightarrow> bool" where
  "same_book ev ev' \<longleftrightarrow> te_config ev' = te_config ev \<and> te_tick_seconds ev' = te_tick_seconds ev \<and>
     te_clocks ev' = te_clocks ev \<and> te_names ev' = te_names ev \<and> te_seen ev' = te_seen ev \<and>
     te_log ev' = te_log ev \<and> te_rows_written ev' = te_rows_written ev"

lemma log_ok_same:
  "te_log ev' = te_log ev \<Longrightarrow> te_seen ev' = te_seen ev \<Longrightarrow> te_rows_written ev' = te_rows_written ev \<Longrightarrow>
   log_ok rows ev' = log_ok rows ev"
  unfolding log_ok_def timing_seen_def by simp

lemma name_ok_same: "te_seen ev' = te_seen ev \<Longrightarrow> name_ok T ev' k ns = name_ok T ev k ns"
  unfolding name_ok_def by simp

lemma timing_invar_same: "timing_invar rows cfg tick T ev \<Longrightarrow> same_book ev ev' \<Longrightarrow> timing_invar rows cfg tick T ev'"
  using log_ok_same [of ev' ev rows] name_ok_same [of ev' ev T]
  unfolding timing_invar_def names_ok_def same_book_def by metis

lemma same_book_prints: "same_book ev (foldl (note_print day) ev prices)"
proof (induction prices arbitrary: ev)
  case (Cons p ps)
  have "same_book ev (note_print day ev p)" by (simp add: note_print_def same_book_def)
  with Cons [of "note_print day ev p"] show ?case by (simp add: same_book_def)
qed (simp add: same_book_def)

lemma timing_invar_note_intent:
  assumes "timing_invar rows cfg tick T ev" and "now \<le> T"
  shows "timing_invar rows cfg tick T (note_intent day now ev i)"
proof (cases "note_intent day now ev i = ev")
  case False
  then obtain k ns where n: "note_intent day now ev i = put_name ev k ns" "ei_side (ns_intent ns) = ''buy''"
    "ei_arrival (ns_intent ns) = now" "ns_resolutions ns = []" "ns_written ns = []"
    by (auto simp: note_intent_def Let_def split: if_splits)
  have "py_lower ''buy'' = ''buy''" by code_simp
  with n assms(2) have "name_ok T ev k ns" by (simp add: name_ok_def resolved_def)
  with assms(1) names_ok_put [of rows T ev ev k ns] n(1) show ?thesis
    by (auto simp: timing_invar_def names_ok_def)
qed (use assms in simp)

lemma timing_invar_note_intents:
  "timing_invar rows cfg tick T ev \<Longrightarrow> now \<le> T \<Longrightarrow> timing_invar rows cfg tick T (fst (note_intents day now xs ev))"
  by (induction xs arbitrary: ev) (auto simp: timing_invar_note_intent split: sum.splits)

lemma eval_names_tick:
  assumes "timing_invar rows cfg tick T ev" and "eval_names ck now day prices (te_names ev) ev = (ev', e)"
  shows "timing_invar rows cfg tick T ev' \<and> te_clocks ev' = te_clocks ev \<and>
    (e = None \<longrightarrow> (\<forall>k ns. map_of (te_names ev') k = Some ns \<longrightarrow> fst k = day \<longrightarrow>
       (\<forall>p \<in> set EVALUATED_POLICIES. settled ck now cfg ns p)))"
proof -
  from assms(1) have n: "names_ok rows T ev" "te_config ev = cfg" "te_tick_seconds ev = tick"
    by (auto simp: timing_invar_def)
  then have d: "distinct (map fst (te_names ev))"
    and l: "\<forall>(k, ns) \<in> set (te_names ev). name_ok T ev k ns"
    by (auto simp: names_ok_def)
  note o = eval_names_ok [OF n(1) l d assms(2)]
  have "k \<in> fst ` set (te_names ev)" if "map_of (te_names ev') k = Some ns" for k ns
    using o that by (metis map_of_eq_None_iff option.distinct(1))
  with o n assms(1) show ?thesis unfolding timing_invar_def by (metis option.inject)
qed

lemma note_intents_clocks: "te_clocks (fst (note_intents day now xs ev)) = te_clocks ev"
  by (induction xs arbitrary: ev) (auto simp: note_intent_def Let_def split: sum.splits)

lemma follow_tick_ok:
  assumes inv: "timing_invar rows cfg tick T ev"
    and now: "\<forall>t. record_instant et r = Inr t \<longrightarrow> t \<le> T"
    and run: "follow_tick et day ck r ev = (ev', e)"
  shows "timing_invar rows cfg tick T ev' \<and> te_clocks ev' = te_clocks ev \<and>
    (e = None \<longrightarrow> (\<exists>t. record_instant et r = Inr t \<and>
      (\<forall>k ns. map_of (te_names ev') k = Some ns \<longrightarrow> fst k = day \<longrightarrow>
       (\<forall>p \<in> set EVALUATED_POLICIES. settled ck t cfg ns p))))"
proof (cases "record_instant et r")
  case (Inl x)
  with run inv show ?thesis by (auto simp: follow_tick_def record_instant_def)
next
  case now_t: (Inr t)
  then have p: "parse_dt et (py_str (dget r ''tick_at'' JNull)) = Inr t" by (simp add: record_instant_def)
  have early: ?thesis if "ev' = ev" "e \<noteq> None" using that inv by auto
  define prints where "prints raw = foldl (note_print day) ev (tick_prices raw)" for raw
  have pr: "timing_invar rows cfg tick T (prints raw)" "te_clocks (prints raw) = te_clocks ev" for raw
    using timing_invar_same [OF inv] same_book_prints [of ev day] by (auto simp: prints_def same_book_def)
  have mid: ?thesis if "ev' = prints raw" "e \<noteq> None" for raw using that pr by auto
  have late: ?thesis if s: "note_intents day t xs (prints raw) = (ev1, e1)"
    "(case e1 of Some x \<Rightarrow> (ev1, Some x) | None \<Rightarrow> eval_names ck t day prices (te_names ev1) ev1) = (ev', e)"
    for xs raw prices ev1 e1
  proof -
    from now now_t have "t \<le> T" by simp
    from timing_invar_note_intents [OF pr(1) this, of day xs raw] s(1)
    have i: "timing_invar rows cfg tick T ev1" by simp
    from note_intents_clocks [of day t xs "prints raw"] s(1) pr(2) have c: "te_clocks ev1 = te_clocks ev" by simp
    show ?thesis
    proof (cases e1)
      case None
      with s(2) eval_names_tick [OF i] c now_t show ?thesis by auto
    qed (use s(2) i c in auto)
  qed
  show ?thesis using run early mid late unfolding follow_tick_def p
    by (auto simp: Let_def prints_def [symmetric] split: sum.splits prod.splits option.splits)
qed

lemma eval_tick_ok:
  assumes inv: "timing_invar rows cfg tick T ev"
    and now: "\<forall>t. record_instant et r = Inr t \<longrightarrow> t \<le> T"
    and run: "eval_tick et r ev = (ev', e)"
  shows "timing_invar rows cfg tick T ev' \<and>
    (e = None \<longrightarrow> (\<forall>ck t. map_of (te_clocks ev') (record_day r) = Some ck \<longrightarrow> record_instant et r = Inr t \<longrightarrow>
      (\<forall>k ns. map_of (te_names ev') k = Some ns \<longrightarrow> fst k = record_day r \<longrightarrow>
       (\<forall>p \<in> set EVALUATED_POLICIES. settled ck t cfg ns p))))"
proof -
  let ?ev = "ev\<lparr>te_ticks_seen := te_ticks_seen ev + 1\<rparr>"
  have i: "timing_invar rows cfg tick T ?ev"
    by (rule timing_invar_same [OF inv]) (simp add: same_book_def)
  show ?thesis
  proof (cases "map_of (te_clocks ev) (record_day r)")
    case (Some ck)
    with run have f: "follow_tick et (record_day r) ck r ?ev = (ev', e)"
      by (simp add: eval_tick_def record_day_def)
    from follow_tick_ok [OF i now f] Some show ?thesis by auto
  next
    case None
    define windows where "windows = py_or (dget r ''windows'' JNull) (te_fallback ev)"
    have tick: "eval_tick et r ev =
      (if \<not> truthy windows then (?ev\<lparr>te_no_windows := te_no_windows ev + 1\<rparr>, None)
       else case windows of
         JObj w \<Rightarrow>
           (case clock_from_windows et w (te_tick_seconds ev) of
              Inl e \<Rightarrow> (?ev, Some e)
            | Inr ck \<Rightarrow> follow_tick et (record_day r) ck r
                (?ev\<lparr>te_clocks := dset (te_clocks ev) (record_day r) ck\<rparr>))
       | _ \<Rightarrow> (?ev, Some TypeError))"
      using None unfolding eval_tick_def windows_def record_day_def
      by (simp add: Let_def cong: json.case_cong sum.case_cong)
    consider (none) "\<not> truthy windows" | (clock) w ck where "windows = JObj w" "truthy windows"
        "clock_from_windows et w (te_tick_seconds ev) = Inr ck"
      | (bad_clock) w x where "windows = JObj w" "truthy windows"
        "clock_from_windows et w (te_tick_seconds ev) = Inl x"
      | (bad) "truthy windows" "\<forall>w. windows \<noteq> JObj w"
      by (cases windows; cases "clock_from_windows et (case windows of JObj w \<Rightarrow> w | _ \<Rightarrow> []) (te_tick_seconds ev)") auto
    then show ?thesis
    proof cases
      case none
      with run None have "ev' = ?ev\<lparr>te_no_windows := te_no_windows ev + 1\<rparr>"
        by (simp add: tick)
      with None timing_invar_same [OF i, of ev'] show ?thesis by (auto simp: same_book_def)
    next
      case clock
      let ?ev2 = "?ev\<lparr>te_clocks := dset (te_clocks ev) (record_day r) ck\<rparr>"
      from clock(3) have "ck_tick_seconds ck = te_tick_seconds ev"
        by (auto simp: clock_from_windows_def split: sum.splits)
      with i have i2: "timing_invar rows cfg tick T ?ev2"
        using log_ok_same [of ?ev2 ev rows] name_ok_same [of ?ev2 ev T] inv
        by (auto simp: timing_invar_def names_ok_def)
      from run None clock have f: "follow_tick et (record_day r) ck r ?ev2 = (ev', e)"
        by (simp add: tick)
      from follow_tick_ok [OF i2 now f] show ?thesis by auto
    next
      case bad_clock
      with run tick have "ev' = ?ev" "e \<noteq> None" by auto
      with i show ?thesis by auto
    next
      case bad
      with run tick have "eval_tick et r ev = (?ev, Some TypeError)" by (cases windows) simp_all
      with run have "ev' = ?ev" "e = Some TypeError" by simp_all
      with i show ?thesis by auto
    qed
  qed
qed

lemma timing_invar_later:
  "timing_invar rows cfg tick T ev \<Longrightarrow> T \<le> T' \<Longrightarrow> timing_invar rows cfg tick T' ev"
  unfolding timing_invar_def names_ok_def using name_ok_later by blast

lemma eval_ticks_ok:
  "timing_invar rows cfg tick T ev \<Longrightarrow> (\<forall>r \<in> set rs. \<forall>t. record_instant et r = Inr t \<longrightarrow> t \<le> T) \<Longrightarrow>
   timing_invar rows cfg tick T (eval_ticks et rs ev)"
proof (induction rs arbitrary: ev)
  case (Cons r rs)
  obtain ev1 e where s: "eval_tick et r ev = (ev1, e)" by fastforce
  from eval_tick_ok [OF Cons.prems(1) _ s] Cons.prems(2) have "timing_invar rows cfg tick T ev1" by simp
  with Cons s show ?case by simp
qed simp

lemma new_timing_eval_ok: "timing_invar rows cfg tick T (new_timing_eval cfg rows refs tick windows)"
  by (simp add: timing_invar_def names_ok_def log_ok_def timing_seen_def new_timing_eval_def)

text \<open>Without a bound in view, the instants of finitely many records have one.\<close>

lemma eval_ticks_fresh:
  "\<exists>T. timing_invar rows cfg tick T (eval_ticks et rs (new_timing_eval cfg rows refs tick windows))"
proof -
  let ?I = "{t. \<exists>r \<in> set rs. record_instant et r = Inr t}"
  have "?I \<subseteq> (\<lambda>r. projr (record_instant et r)) ` set rs" by force
  then have "finite ?I" by (meson finite_imageI finite_set finite_subset)
  then have "\<forall>r \<in> set rs. \<forall>t. record_instant et r = Inr t \<longrightarrow> t \<le> Max ?I" by (auto intro: Max_ge)
  from eval_ticks_ok [OF new_timing_eval_ok this] show ?thesis by blast
qed

section \<open>Flushing\<close>

lemma flush_policy_ok:
  assumes log: "log_ok rows ev" and ok: "name_ok T ev k ns"
    and step: "flush_policy reason k p (ev, ns, n) = (ev', ns', n')"
  shows "log_ok rows ev' \<and> frame ev ev' \<and> name_ok T ev' k ns' \<and> (fst k, snd k, p) \<in> set (te_seen ev') \<and>
    ns_resolutions ns' = ns_resolutions ns"
proof (cases "p \<in> set (ns_written ns)")
  case True
  with assms show ?thesis by (auto simp: flush_policy_def name_ok_def)
next
  case unwritten: False
  have keep: "name_ok T ev' k ns'"
    if "frame ev ev'" "(fst k, snd k, p) \<in> set (te_seen ev')" "ns' = ns \<or> ns' = ns\<lparr>ns_written := p # ns_written ns\<rparr>"
    using ok that unfolding name_ok_def frame_def by (auto simp: resolved_def)
  show ?thesis
  proof (cases "resolved ns p")
    case True
    obtain ev1 ns1 where w: "write_resolved ev k ns p = (ev1, ns1)" by fastforce
    with step unwritten True have "ev1 = ev'" "ns1 = ns'"
      by (auto simp: flush_policy_def resolved_def)
    moreover have "resolved ns BASELINE_OPEN_DELAY" using ok True unfolding name_ok_def by blast
    ultimately show ?thesis using write_resolved_ok [OF log _ True _ w] unwritten keep by auto
  next
    case False
    obtain ev1 b where a: "append_row ev (censored_row ev reason k ns p) = (ev1, b)" by fastforce
    with step unwritten False have e: "ev1 = ev'" "ns' = (if b then ns\<lparr>ns_written := p # ns_written ns\<rparr> else ns)"
      by (auto simp: flush_policy_def resolved_def split: if_splits)
    have "anchored (censored_row ev reason k ns p)" by (simp add: anchored_def censored_row_def)
    from log_ok_append [OF log this a] e(1)
    have l: "log_ok rows ev'" "frame ev ev'" "(fst k, snd k, p) \<in> set (te_seen ev')"
      by (simp_all add: row_key_def censored_row_def)
    with keep e(2) show ?thesis by simp
  qed
qed

lemma flush_policies_ok:
  assumes "log_ok rows ev" and "name_ok T ev k ns"
    and "foldl (\<lambda>s p. flush_policy reason k p s) (ev, ns, n) ps = (ev', ns', n')"
  shows "log_ok rows ev' \<and> frame ev ev' \<and> name_ok T ev' k ns' \<and> (\<forall>p \<in> set ps. (fst k, snd k, p) \<in> set (te_seen ev'))"
  using assms
proof (induction ps arbitrary: ev ns n)
  case (Cons p ps)
  obtain ev1 ns1 n1 where s: "flush_policy reason k p (ev, ns, n) = (ev1, ns1, n1)" by (metis prod_cases3)
  from flush_policy_ok [OF Cons.prems(1,2) s] have o: "log_ok rows ev1" "frame ev ev1" "name_ok T ev1 k ns1"
    "(fst k, snd k, p) \<in> set (te_seen ev1)" by auto
  from Cons.IH [OF o(1,3)] Cons.prems(3) s have t: "log_ok rows ev'" "frame ev1 ev'" "name_ok T ev' k ns'"
    "\<forall>p \<in> set ps. (fst k, snd k, p) \<in> set (te_seen ev')" by auto
  with o frame_trans [OF o(2) t(2)] show ?case by (auto simp: frame_def)
qed simp

lemma flush_names_ok:
  assumes "names_ok rows T ev" and "\<forall>(k, ns) \<in> set L. name_ok T ev k ns"
    and "flush_names reason L (ev, n) = (ev', n')"
  shows "names_ok rows T ev' \<and> set (te_seen ev) \<subseteq> set (te_seen ev') \<and>
    (\<forall>k \<in> fst ` set L. \<forall>p \<in> set EVALUATED_POLICIES. (fst k, snd k, p) \<in> set (te_seen ev'))"
  using assms
proof (induction L arbitrary: ev n)
  case (Cons a L)
  obtain k ns where a: "a = (k, ns)" by fastforce
  obtain ev1 ns1 n1 where s: "foldl (\<lambda>s p. flush_policy reason k p s) (ev, ns, n) EVALUATED_POLICIES = (ev1, ns1, n1)"
    by (metis prod_cases3)
  have "log_ok rows ev" "name_ok T ev k ns" using Cons.prems(1,2) a by (auto simp: names_ok_def)
  from flush_policies_ok [OF this s] have o: "log_ok rows ev1" "frame ev ev1" "name_ok T ev1 k ns1"
    "\<forall>p \<in> set EVALUATED_POLICIES. (fst k, snd k, p) \<in> set (te_seen ev1)" by auto
  let ?ev = "put_name ev1 k ns1"
  have seen: "set (te_seen ev) \<subseteq> set (te_seen ?ev)" using o(2) by (simp add: frame_def)
  have "\<forall>(j, ms) \<in> set L. name_ok T ?ev j ms"
    using Cons.prems(2) name_ok_frame [OF _ seen] by fastforce
  from Cons.IH [OF names_ok_put [OF Cons.prems(1) o(1,2,3)] this, of n1] Cons.prems(3) s a
  have ih: "names_ok rows T ev'" "set (te_seen ?ev) \<subseteq> set (te_seen ev')"
    "\<forall>k \<in> fst ` set L. \<forall>p \<in> set EVALUATED_POLICIES. (fst k, snd k, p) \<in> set (te_seen ev')"
    by auto
  have "\<forall>p \<in> set EVALUATED_POLICIES. (fst k, snd k, p) \<in> set (te_seen ev')" using o(4) ih(2) by auto
  with ih seen a show ?case by auto
qed simp

lemma flush_ok:
  assumes "timing_invar rows cfg tick T ev"
  shows "names_ok rows T (fst (flush reason ev)) \<and> set (te_seen ev) \<subseteq> set (te_seen (fst (flush reason ev))) \<and>
    (\<forall>k \<in> fst ` set (te_names ev). \<forall>p \<in> set EVALUATED_POLICIES.
       (fst k, snd k, p) \<in> set (te_seen (fst (flush reason ev))))"
proof -
  from assms have n: "names_ok rows T ev" by (simp add: timing_invar_def)
  then have "\<forall>(k, ns) \<in> set (te_names ev). name_ok T ev k ns" by (auto simp: names_ok_def)
  from flush_names_ok [OF n this] show ?thesis unfolding flush_def by (metis prod.collapse)
qed

section \<open>Properties\<close>

text \<open>C40: Participation is never sacrificed: whatever the earlier ticks held, once a tick is
  processed from which waiting one more tick would reach the entry cutoff, every policy is
  resolved for every buy name of the day and its row is in the log. The configuration is any the
  loader returns.\<close>

theorem last_tick_resolves_all:
  assumes past: "\<forall>r' \<in> set rs. \<forall>t. record_instant et r' = Inr t \<longrightarrow> t \<le> now"
    and tick: "eval_tick et r (eval_ticks et rs
        (new_timing_eval (load_entry_timing_config sc) rows refs tick windows)) = (ev, None)"
    and now: "record_instant et r = Inr now"
    and clock: "map_of (te_clocks ev) (record_day r) = Some ck"
    and last: "timedelta_seconds tick = Inr tau" "ck_first ck \<le> now" "now < ck_cutoff ck"
      "ck_cutoff ck \<le> now + tau"
  shows "\<forall>ticker ns. map_of (te_names ev) (record_day r, ticker) = Some ns \<longrightarrow>
    (\<forall>p \<in> set EVALUATED_POLICIES. map_of (ns_resolutions ns) p \<noteq> None \<and>
       (record_day r, ticker, p) \<in> row_key ` set (te_log ev))"
proof (intro allI impI ballI)
  fix ticker ns p
  let ?cfg = "load_entry_timing_config sc"
  assume ns: "map_of (te_names ev) (record_day r, ticker) = Some ns" and p: "p \<in> set EVALUATED_POLICIES"
  from eval_tick_ok [OF eval_ticks_ok [OF new_timing_eval_ok past] _ tick] now
  have inv: "timing_invar rows ?cfg tick now ev" and s: "settled ck now ?cfg ns p"
    using clock ns p by auto
  from inv ns have ok: "name_ok now ev (record_day r, ticker) ns" and seen: "timing_seen ev"
    by (auto simp: timing_invar_def names_ok_def log_ok_def)
  from inv clock have "ck_tick_seconds ck = tick" by (auto simp: timing_invar_def)
  moreover have "window_open ck (ns_intent ns) now" using ok last by (simp add: window_open_def name_ok_def)
  moreover have "\<not> flt (tc_deadline_minutes ?cfg) (Num 0)"
    using load_entry_timing_config_ok [of sc] by (simp add: timing_config_ok_def)
  ultimately have "resolved ns p"
    using s last decide_last_tick [of ?cfg ck "ns_intent ns"] unfolding settled_def by fastforce
  with ok seen show "map_of (ns_resolutions ns) p \<noteq> None \<and> (record_day r, ticker, p) \<in> row_key ` set (te_log ev)"
    unfolding name_ok_def timing_seen_def resolved_def by (metis fst_conv snd_conv)
qed

text \<open>The timing log: after any ticks and a flush the file holds the rows it held before, then
  at most one row per session, ticker and policy that it did not hold yet, as many as the
  evaluator counted; every tracked name has a row for every evaluated policy; and every row of a
  participating entry carries its baseline anchor.\<close>

theorem one_row_per_cell:
  "\<exists>new. te_log (fst (flush reason (eval_ticks et rs (new_timing_eval cfg rows refs tick windows)))) = rows @ new \<and>
     distinct (map row_key new) \<and> row_key ` set new \<inter> row_key ` set rows = {} \<and>
     te_rows_written (fst (flush reason (eval_ticks et rs (new_timing_eval cfg rows refs tick windows)))) = length new \<and>
     (\<forall>row \<in> set new. pr_resolution row = None \<or> pr_base row \<noteq> None) \<and>
     (\<forall>k \<in> fst ` set (te_names (eval_ticks et rs (new_timing_eval cfg rows refs tick windows))).
        \<forall>p \<in> set EVALUATED_POLICIES. (fst k, snd k, p) \<in> row_key ` set (rows @ new))"
proof -
  let ?ev = "eval_ticks et rs (new_timing_eval cfg rows refs tick windows)"
  obtain T where "timing_invar rows cfg tick T ?ev" using eval_ticks_fresh by blast
  from flush_ok [OF this, of reason]
  have f: "log_ok rows (fst (flush reason ?ev))"
    "\<forall>k \<in> fst ` set (te_names ?ev). \<forall>p \<in> set EVALUATED_POLICIES.
       (fst k, snd k, p) \<in> set (te_seen (fst (flush reason ?ev)))"
    by (auto simp: names_ok_def)
  from f(1) obtain new where new: "te_log (fst (flush reason ?ev)) = rows @ new" "distinct (map row_key new)"
    "row_key ` set new \<inter> row_key ` set rows = {}" "te_rows_written (fst (flush reason ?ev)) = length new"
    "\<forall>r \<in> set new. anchored r" "set (te_seen (fst (flush reason ?ev))) = row_key ` set (rows @ new)"
    by (auto simp: log_ok_def timing_seen_def)
  show ?thesis
    by (intro exI [of _ new] conjI) (use new f(2) in \<open>auto simp: anchored_def\<close>)
qed

section \<open>A session at the last tick\<close>

definition demo_windows :: json where
  "demo_windows = JObj [(''open'', JStr ''2026-06-30T13:30:00Z''), (''first_eligible_tick'', JStr ''2026-06-30T13:45:00Z''),
     (''entry_cutoff'', JStr ''2026-06-30T19:30:00Z''), (''close'', JStr ''2026-06-30T20:00:00Z'')]"

definition demo_tick :: "string \<Rightarrow> json dict" where
  "demo_tick w = [(''session_date'', JStr ''2026-06-30''), (''tick_at'', JStr w), (''windows'', demo_windows),
     (''inputs'', JObj [(''live_state'', JObj [(''prices'', JObj [(''nvda'', JInt 101)])])]),
     (''decisions'', JObj [(''intents'', JList [JObj [(''kind'', JStr ''entry''), (''side'', JStr ''BUY''),
        (''symbol'', JStr ''NVDA'')]])])]"

definition demo_start :: timing_eval where
  "demo_start = new_timing_eval (load_entry_timing_config []) [] [(''NVDA'', Num 100)] (Num 720) JNull"

definition demo_end :: "timing_eval \<times> py_error option" where
  "demo_end = eval_tick id (demo_tick ''2026-06-30T19:20:00Z'') (eval_ticks id [demo_tick ''2026-06-30T13:46:00Z''] demo_start)"

lemma demo_runs:
  "snd demo_end = None"
  "map_option (\<lambda>ck. (ck_first ck, ck_cutoff ck)) (map_of (te_clocks (fst demo_end)) ''2026-06-30'')
     = Some (1782827100000000, 1782847800000000)"
  "record_instant id (demo_tick ''2026-06-30T19:20:00Z'') = Inr 1782847200000000"
  "record_instant id (demo_tick ''2026-06-30T13:46:00Z'') = Inr 1782827160000000"
  "record_day (demo_tick ''2026-06-30T19:20:00Z'') = ''2026-06-30''"
  "map fst (te_names (fst demo_end)) = [(''2026-06-30'', ''NVDA'')]"
  by code_simp+

theorem last_tick_resolves_all_witness:
  "\<exists>ns. map_of (te_names (fst demo_end)) (''2026-06-30'', ''NVDA'') = Some ns \<and>
     map_of (ns_resolutions ns) GAP_REVERSION_TRIGGER \<noteq> None"
proof -
  obtain ck where ck: "map_of (te_clocks (fst demo_end)) ''2026-06-30'' = Some ck"
    "ck_first ck = 1782827100000000" "ck_cutoff ck = 1782847800000000"
    using demo_runs(2) by auto
  obtain ns where ns: "map_of (te_names (fst demo_end)) (''2026-06-30'', ''NVDA'') = Some ns"
    using demo_runs(6) by (cases "map_of (te_names (fst demo_end)) (''2026-06-30'', ''NVDA'')")
      (auto simp: map_of_eq_None_iff simp flip: set_map)
  have t: "eval_tick id (demo_tick ''2026-06-30T19:20:00Z'') (eval_ticks id [demo_tick ''2026-06-30T13:46:00Z'']
      (new_timing_eval (load_entry_timing_config []) [] [(''NVDA'', Num 100)] (Num 720) JNull)) = (fst demo_end, None)"
    using demo_runs(1) unfolding demo_end_def demo_start_def by (metis prod.collapse)
  have u: "timedelta_seconds (Num 720) = Inr 720000000" by code_simp
  have "\<forall>ticker ns. map_of (te_names (fst demo_end)) (''2026-06-30'', ticker) = Some ns \<longrightarrow>
    (\<forall>p \<in> set EVALUATED_POLICIES. map_of (ns_resolutions ns) p \<noteq> None \<and>
       (''2026-06-30'', ticker, p) \<in> row_key ` set (te_log (fst demo_end)))"
    using last_tick_resolves_all [OF _ t demo_runs(3), unfolded demo_runs(5), OF _ ck(1) u] ck(2,3) demo_runs(4)
    by auto
  with ns show ?thesis by (auto simp: EVALUATED_POLICIES_def)
qed

definition demo_flushed :: timing_eval where
  "demo_flushed = fst (flush ''halted'' (eval_ticks id [demo_tick ''2026-06-30T13:46:00Z''] demo_start))"

lemma demo_flushed_rows:
  "map (\<lambda>r. (pr_policy r, pr_censored r)) (te_log demo_flushed) =
     [(BASELINE_OPEN_DELAY, None), (DELAY_FIXED, Some ''halted''), (GAP_REVERSION_TRIGGER, Some ''halted'')]"
  by code_simp

theorem one_row_per_cell_witness:
  "distinct (map row_key (te_log demo_flushed)) \<and> te_rows_written demo_flushed = 3"
  using one_row_per_cell [of "''halted''" id "[demo_tick ''2026-06-30T13:46:00Z'']" "load_entry_timing_config []" "[]"
      "[(''NVDA'', Num 100)]" "Num 720" JNull] arg_cong [OF demo_flushed_rows, of length]
  unfolding demo_flushed_def demo_start_def by auto

end
