(* ===== verification/SessionPolicy.thy ===== *)
theory SessionPolicy
  imports SessionInputs
begin

text \<open>
  \<open>intraday_session_scheduler.py\<close>, part 1, the parts without state: the configuration section,
  the environment flag, the effective mode, the session windows, the never-submit check, and
  the normalisation and window policy of a tick's result. A tick runner's result is the JSON
  value of the mapping or dataclass it returns; the keys of a dictionary are strings.
\<close>

section \<open>Configuration\<close>

definition MODE_SHADOW :: string where "MODE_SHADOW = ''shadow''"
definition MODE_PAPER :: string where "MODE_PAPER = ''paper''"
definition MODE_LIVE :: string where "MODE_LIVE = ''live''"

definition DEFAULT_TICK_SECONDS :: rat where "DEFAULT_TICK_SECONDS = 180"
definition DEFAULT_ENTRY_OPEN_DELAY_SECONDS :: rat where "DEFAULT_ENTRY_OPEN_DELAY_SECONDS = 300"
definition DEFAULT_ENTRY_CLOSE_CUTOFF_SECONDS :: rat where "DEFAULT_ENTRY_CLOSE_CUTOFF_SECONDS = 1800"

datatype config_error = SectionNotMapping | NotNumber string json | NotPositive string json
  | EnabledNotBoolean json | BadMode string | AllowlistNotList json

record session_config =
  sc_enabled :: bool
  sc_mode :: string
  sc_tick_seconds :: pyfloat
  sc_open_delay :: pyfloat
  sc_close_cutoff :: pyfloat
  sc_allowlist :: "string list"
  sc_kill_file :: "string option"
  sc_errors :: "config_error list"

definition default_session_config :: session_config where
  "default_session_config = \<lparr>sc_enabled = False, sc_mode = MODE_SHADOW,
     sc_tick_seconds = Num DEFAULT_TICK_SECONDS, sc_open_delay = Num DEFAULT_ENTRY_OPEN_DELAY_SECONDS,
     sc_close_cutoff = Num DEFAULT_ENTRY_CLOSE_CUTOFF_SECONDS, sc_allowlist = [], sc_kill_file = None,
     sc_errors = []\<rparr>"

text \<open>The nested helper \<open>_positive_seconds\<close>: the value and the errors it notes.\<close>

definition positive_seconds :: "json dict \<Rightarrow> string \<Rightarrow> rat \<Rightarrow> pyfloat \<times> config_error list" where
  "positive_seconds section key dflt =
     (let raw = dget section key (JFloat (Num dflt)) in
      case py_float raw of
        Inl e \<Rightarrow> (Num dflt, [NotNumber key raw])
      | Inr v \<Rightarrow> if \<not> flt (Num 0) v then (Num dflt, [NotPositive key raw]) else (v, []))"

definition read_enabled :: "json dict \<Rightarrow> bool \<times> config_error list" where
  "read_enabled section =
     (case dget section ''enabled'' (JBool False) of JBool b \<Rightarrow> (b, []) | raw \<Rightarrow> (False, [EnabledNotBoolean raw]))"

definition read_mode :: "json dict \<Rightarrow> string \<times> config_error list" where
  "read_mode section =
     (let mode = py_str (py_or (dget section ''mode'' (JStr MODE_SHADOW)) (JStr MODE_SHADOW)) in
      if mode \<in> {MODE_SHADOW, MODE_PAPER, MODE_LIVE} then (mode, []) else (MODE_SHADOW, [BadMode mode]))"

definition read_allowlist :: "json dict \<Rightarrow> string list \<times> config_error list" where
  "read_allowlist section =
     (case dget section ''canary_allowlist'' (JList []) of
        JList xs \<Rightarrow> (map (py_upper \<circ> py_str) (filter (\<lambda>t. py_strip (py_str t) \<noteq> []) xs), [])
      | raw \<Rightarrow> ([], [AllowlistNotList raw]))"

definition load_config_section :: "json dict \<Rightarrow> session_config" where
  "load_config_section section =
     (let (enabled, e1) = read_enabled section;
          (mode, e2) = read_mode section;
          (tick, e3) = positive_seconds section ''tick_seconds'' DEFAULT_TICK_SECONDS;
          (delay, e4) = positive_seconds section ''entry_open_delay_seconds'' DEFAULT_ENTRY_OPEN_DELAY_SECONDS;
          (cutoff, e5) = positive_seconds section ''entry_close_cutoff_seconds'' DEFAULT_ENTRY_CLOSE_CUTOFF_SECONDS;
          (allow, e6) = read_allowlist section;
          kill = dget section ''kill_switch_file'' JNull;
          errors = e1 @ e2 @ e3 @ e4 @ e5 @ e6 in
      \<lparr>sc_enabled = enabled \<and> errors = [], sc_mode = mode, sc_tick_seconds = tick, sc_open_delay = delay,
       sc_close_cutoff = cutoff, sc_allowlist = allow,
       sc_kill_file = (if truthy kill then Some (py_str kill) else None), sc_errors = errors\<rparr>)"

definition load_intraday_config :: "json dict \<Rightarrow> session_config" where
  "load_intraday_config strategy_config =
     (case dget strategy_config ''intraday_decisioning'' JNull of
        JNull \<Rightarrow> default_session_config
      | JObj section \<Rightarrow> load_config_section section
      | _ \<Rightarrow> default_session_config\<lparr>sc_errors := [SectionNotMapping]\<rparr>)"

definition ENV_TRUTHY :: "string list" where
  "ENV_TRUTHY = [''1'', ''true'', ''yes'', ''on'']"

definition env_flag_enabled :: "string dict \<Rightarrow> bool" where
  "env_flag_enabled env \<longleftrightarrow>
     py_lower (py_strip (dget env ''RENQUANT_INTRADAY_DECISIONING'' [])) \<in> set ENV_TRUTHY"

definition resolve_mode :: "session_config \<Rightarrow> string \<times> string option" where
  "resolve_mode cfg =
     (if sc_mode cfg = MODE_LIVE then (MODE_SHADOW, Some MODE_LIVE)
      else if sc_mode cfg = MODE_PAPER then (MODE_SHADOW, Some MODE_PAPER)
      else (MODE_SHADOW, None))"

section \<open>Session windows\<close>

datatype phase = PHASE_BEFORE_SESSION | PHASE_SETTLING | PHASE_ENTRIES_OPEN | PHASE_EXITS_ONLY
  | PHASE_CLOSED

record windows =
  w_open :: int
  w_first :: int
  w_cutoff :: int
  w_close :: int

definition windows_from_bounds :: "int \<times> int \<Rightarrow> session_config \<Rightarrow> py_error + windows" where
  "windows_from_bounds bounds cfg =
     (case timedelta_seconds (sc_open_delay cfg) of Inl e \<Rightarrow> Inl e | Inr d \<Rightarrow>
     (case timedelta_seconds (sc_close_cutoff cfg) of Inl e \<Rightarrow> Inl e | Inr c \<Rightarrow>
      (let first = fst bounds + d; cutoff = snd bounds - c in
       Inr \<lparr>w_open = fst bounds, w_first = first,
            w_cutoff = (if cutoff < first then first else cutoff), w_close = snd bounds\<rparr>)))"

definition phase_at :: "windows \<Rightarrow> int \<Rightarrow> phase" where
  "phase_at w moment =
     (if moment < w_open w then PHASE_BEFORE_SESSION
      else if moment < w_first w then PHASE_SETTLING
      else if w_close w \<le> moment then PHASE_CLOSED
      else if moment < w_cutoff w then PHASE_ENTRIES_OPEN
      else PHASE_EXITS_ONLY)"

section \<open>The never-submit check\<close>

definition FORBIDDEN_SUBMISSION_KEYS :: "string list" where
  "FORBIDDEN_SUBMISSION_KEYS =
     [''broker_order_id'', ''client_order_id'', ''child_order_id'', ''submitted_at'', ''filled_qty'',
      ''fill_price'', ''broker_status'']"

fun scan_forbidden :: "json \<Rightarrow> string \<Rightarrow> string list"
  and scan_fields :: "json dict \<Rightarrow> string \<Rightarrow> string list"
  and scan_items :: "json list \<Rightarrow> nat \<Rightarrow> string \<Rightarrow> string list" where
  "scan_forbidden (JObj kvs) path = scan_fields kvs path"
| "scan_forbidden (JList xs) path = scan_items xs 0 path"
| "scan_forbidden _ path = []"
| "scan_fields [] path = []"
| "scan_fields ((key, v) # kvs) path =
     (let here = (if path \<noteq> [] then path @ ''.'' @ key else key) in
      (if key \<in> set FORBIDDEN_SUBMISSION_KEYS then [here] else []) @ scan_forbidden v here
        @ scan_fields kvs path)"
| "scan_items [] i path = []"
| "scan_items (v # vs) i path =
     scan_forbidden v (path @ ''['' @ str_of_nat i @ '']'') @ scan_items vs (Suc i) path"

datatype session_error = ShadowModeViolation | TickInputUnavailable | InputError input_error
  | PyError py_error

definition assert_shadow_never_submits :: "string \<Rightarrow> json dict \<Rightarrow> session_error + unit" where
  "assert_shadow_never_submits mode decisions =
     (if mode \<noteq> MODE_SHADOW then Inl ShadowModeViolation
      else if scan_forbidden (JObj decisions) [] \<noteq> [] then Inl ShadowModeViolation
      else Inr ())"

section \<open>A tick's result\<close>

definition ZERO_COUNTERS :: "json dict" where
  "ZERO_COUNTERS = [(''entries_count'', JInt 0), (''deployed_notional'', JFloat (Num 0)),
     (''turnover_notional'', JFloat (Num 0))]"

definition strip_noop_decision_trace :: "json dict \<Rightarrow> json dict" where
  "strip_noop_decision_trace decisions =
     (if \<not> truthy (dget decisions ''intents'' JNull) \<and> dhas decisions ''decision_trace''
      then dset (filter (\<lambda>(k, v). k \<noteq> ''decision_trace'') decisions) ''decision_trace_stripped'' (JBool True)
      else decisions)"

text \<open>\<open>dict(v)\<close>: a mapping, or a sequence of key-value pairs.\<close>

fun pairs_dict :: "json list \<Rightarrow> json dict \<Rightarrow> py_error + json dict" where
  "pairs_dict [] d = Inr d"
| "pairs_dict (JList [JStr k, v] # ps) d = pairs_dict ps (dset d k v)"
| "pairs_dict (JStr [a, b] # ps) d = pairs_dict ps (dset d [a] (JStr [b]))"
| "pairs_dict (JStr s # ps) d = Inl ValueError"
| "pairs_dict (JList xs # ps) d = Inl ValueError"
| "pairs_dict (_ # ps) d = Inl TypeError"

definition py_dict :: "json \<Rightarrow> py_error + json dict" where
  "py_dict v = (case v of JObj kvs \<Rightarrow> Inr kvs
     | _ \<Rightarrow> (case iter_json v of Inl e \<Rightarrow> Inl e | Inr xs \<Rightarrow> pairs_dict xs []))"

text \<open>\<open>[dict(x) for x in v or ()]\<close>\<close>

fun dicts_of :: "json list \<Rightarrow> py_error + json dict list" where
  "dicts_of [] = Inr []"
| "dicts_of (x # xs) =
     (case py_dict x of Inl e \<Rightarrow> Inl e | Inr d \<Rightarrow> map_sum id (\<lambda>ds. d # ds) (dicts_of xs))"

definition dict_list :: "json \<Rightarrow> py_error + json dict list" where
  "dict_list v = (case iter_json (py_or v (JList [])) of Inl e \<Rightarrow> Inl e | Inr xs \<Rightarrow> dicts_of xs)"

definition setdefault :: "json dict \<Rightarrow> string \<Rightarrow> json \<Rightarrow> json dict" where
  "setdefault d k v = (if dhas d k then d else dset d k v)"

text \<open>\<open>{**a, **b}\<close>\<close>

definition merge :: "json dict \<Rightarrow> json dict \<Rightarrow> json dict" where
  "merge a b = foldl (\<lambda>d (k, v). dset d k v) a b"

definition default_kind :: "json dict \<Rightarrow> json dict" where
  "default_kind intent = setdefault intent ''kind''
     (JStr (if py_upper (py_str (dget intent ''side'' (JStr []))) = ''BUY'' then ''entry'' else ''exit''))"

definition normalize_tick_result :: "json \<Rightarrow> session_error + json dict" where
  "normalize_tick_result raw =
     (case raw of
        JObj d \<Rightarrow>
          (let p = setdefault (setdefault d ''enabled'' (JBool True)) ''reason'' (JStr ''ok'') in
           case dict_list (dget p ''intents'' JNull) of Inl e \<Rightarrow> Inl (PyError e) | Inr intents \<Rightarrow>
           case dict_list (dget p ''skipped'' JNull) of Inl e \<Rightarrow> Inl (PyError e) | Inr skipped \<Rightarrow>
           case py_dict (py_or (dget p ''blocked_by'' JNull) (JObj [])) of Inl e \<Rightarrow> Inl (PyError e) | Inr blocked \<Rightarrow>
           case py_dict (py_or (dget p ''counters'' JNull) (JObj [])) of Inl e \<Rightarrow> Inl (PyError e) | Inr counters \<Rightarrow>
           Inr (dset (dset (dset (dset p ''intents'' (JList (map (JObj \<circ> default_kind) intents)))
                  ''skipped'' (JList (map JObj skipped))) ''blocked_by'' (JObj blocked))
                  ''counters'' (JObj (merge ZERO_COUNTERS counters))))
      | _ \<Rightarrow> Inl ShadowModeViolation)"

definition is_exit :: "json dict \<Rightarrow> bool" where
  "is_exit intent \<longleftrightarrow> py_lower (py_str (dget intent ''kind'' (JStr []))) = ''exit''"

definition cutoff_row :: "json dict \<Rightarrow> json" where
  "cutoff_row intent = JObj [(''symbol'', dget intent ''symbol'' (JStr [])), (''side'', dget intent ''side'' (JStr ''BUY'')),
     (''parent_intent_id'', dget intent ''parent_intent_id'' (JStr [])),
     (''reasons'', JList [JStr ''entries_closed_window_cutoff''])]"

text \<open>Backing one suppressed entry out of the counters.\<close>

definition back_out :: "json dict \<Rightarrow> json dict \<Rightarrow> json dict \<Rightarrow> py_error + json dict" where
  "back_out before intent counters =
     (case py_float (py_or (dget intent ''notional'' JNull) (JFloat (Num 0))) of Inl e \<Rightarrow> Inl e | Inr notional \<Rightarrow>
      case py_int (dget counters ''entries_count'' JNull) of Inl e \<Rightarrow> Inl e | Inr n \<Rightarrow>
      case py_float (dget counters ''deployed_notional'' JNull) of Inl e \<Rightarrow> Inl e | Inr dep \<Rightarrow>
      case py_float (dget before ''turnover_notional'' (JFloat (Num 0))) of Inl e \<Rightarrow> Inl e | Inr floor1 \<Rightarrow>
      case py_float (dget counters ''turnover_notional'' JNull) of Inl e \<Rightarrow> Inl e | Inr turn \<Rightarrow>
      Inr (dset (dset (dset counters ''entries_count'' (JInt (max 0 (n - 1))))
             ''deployed_notional'' (JFloat (fmax (Num 0) (fsub dep notional))))
             ''turnover_notional'' (JFloat (fmax floor1 (fsub turn notional)))))"

fun policy_loop :: "json dict \<Rightarrow> json dict list \<Rightarrow> json dict list \<times> json list \<times> json dict \<Rightarrow>
    py_error + json dict list \<times> json list \<times> json dict" where
  "policy_loop before [] acc = Inr acc"
| "policy_loop before (intent # is) (kept, skipped, counters) =
     (if is_exit intent then policy_loop before is (kept @ [intent], skipped, counters)
      else case back_out before intent counters of
        Inl e \<Rightarrow> Inl e
      | Inr counters' \<Rightarrow> policy_loop before is (kept, skipped @ [cutoff_row intent], counters'))"

definition apply_entry_window_policy :: "json dict \<Rightarrow> phase \<Rightarrow> json dict \<Rightarrow> py_error + json dict" where
  "apply_entry_window_policy decisions phase1 before =
     (if phase1 \<noteq> PHASE_EXITS_ONLY then Inr decisions
      else case dict_list (dget decisions ''skipped'' JNull) of Inl e \<Rightarrow> Inl e | Inr skipped \<Rightarrow>
      case py_dict (py_or (dget decisions ''counters'' JNull) (JObj [])) of Inl e \<Rightarrow> Inl e | Inr counters \<Rightarrow>
      case dict_list (dget decisions ''intents'' JNull) of Inl e \<Rightarrow> Inl e | Inr intents \<Rightarrow>
      case policy_loop before intents ([], map JObj skipped, merge ZERO_COUNTERS counters) of
        Inl e \<Rightarrow> Inl e
      | Inr (kept, skipped', counters') \<Rightarrow>
          Inr (dset (dset (dset decisions ''intents'' (JList (map JObj kept))) ''skipped'' (JList skipped'))
                 ''counters'' (JObj counters')))"


section \<open>Facts\<close>

text \<open>A key occurs in a value at some depth: the specification of the scan.\<close>

inductive has_key :: "json \<Rightarrow> string \<Rightarrow> bool" where
  here: "(k, v) \<in> set kvs \<Longrightarrow> has_key (JObj kvs) k"
| field: "(j, v) \<in> set kvs \<Longrightarrow> has_key v k \<Longrightarrow> has_key (JObj kvs) k"
| item: "v \<in> set xs \<Longrightarrow> has_key v k \<Longrightarrow> has_key (JList xs) k"

inductive_simps has_key_JObj: "has_key (JObj kvs) k"
inductive_simps has_key_JList: "has_key (JList xs) k"
inductive_simps has_key_atom: "has_key JNull k" "has_key (JBool b) k" "has_key (JInt i) k"
  "has_key (JFloat f) k" "has_key (JStr s) k"

lemma has_key_Cons:
  "has_key (JObj ((j, v) # kvs)) k \<longleftrightarrow> k = j \<or> has_key v k \<or> has_key (JObj kvs) k"
  "has_key (JList (x # xs)) k \<longleftrightarrow> has_key x k \<or> has_key (JList xs) k"
  "\<not> has_key (JObj []) k" "\<not> has_key (JList []) k"
  by (auto simp: has_key_JObj has_key_JList)

definition clean :: "json \<Rightarrow> bool" where
  "clean v \<longleftrightarrow> (\<forall>k \<in> set FORBIDDEN_SUBMISSION_KEYS. \<not> has_key v k)"

lemma clean_simps:
  "clean JNull" "clean (JBool b)" "clean (JInt i)" "clean (JFloat f)" "clean (JStr s)"
  "clean (JObj [])" "clean (JList [])"
  "clean (JObj ((j, v) # kvs)) \<longleftrightarrow> j \<notin> set FORBIDDEN_SUBMISSION_KEYS \<and> clean v \<and> clean (JObj kvs)"
  "clean (JList (x # xs)) \<longleftrightarrow> clean x \<and> clean (JList xs)"
  by (auto simp: clean_def has_key_atom has_key_Cons)

lemma scan_clean:
  "scan_forbidden v path = [] \<longleftrightarrow> clean v"
  "scan_fields kvs path = [] \<longleftrightarrow> clean (JObj kvs)"
  "scan_items xs i path = [] \<longleftrightarrow> clean (JList xs)"
  by (induction v path and kvs path and xs i path rule: scan_forbidden_scan_fields_scan_items.induct)
    (auto simp: clean_simps Let_def)

lemma clean_JObj: "clean (JObj kvs) \<longleftrightarrow> (\<forall>(k, v) \<in> set kvs. k \<notin> set FORBIDDEN_SUBMISSION_KEYS \<and> clean v)"
  by (induction kvs) (auto simp: clean_simps)

lemma clean_strip: "clean (JObj d) \<Longrightarrow> clean (JObj (strip_noop_decision_trace d))"
proof -
  assume d: "clean (JObj d)"
  let ?f = "filter (\<lambda>(k, v). k \<noteq> ''decision_trace'') d"
  have f: "clean (JObj ?f)" using d by (auto simp: clean_JObj)
  have "''decision_trace_stripped'' \<notin> set FORBIDDEN_SUBMISSION_KEYS"
    by (simp add: FORBIDDEN_SUBMISSION_KEYS_def)
  with f have "clean (JObj (dset ?f ''decision_trace_stripped'' (JBool True)))"
    unfolding clean_JObj using set_dset_subset [of "''decision_trace_stripped''" "JBool True" ?f]
    by (auto simp: clean_simps)
  with d show ?thesis by (simp add: strip_noop_decision_trace_def)
qed

lemma back_out_entries:
  assumes "back_out before intent c = Inr c'" and "dget c ''entries_count'' JNull = JInt n"
  shows "dget c' ''entries_count'' JNull = JInt (max 0 (n - 1))"
proof -
  obtain d where "c' = dset (dset (dset c ''entries_count'' (JInt (max 0 (n - 1))))
      ''deployed_notional'' (fst d)) ''turnover_notional'' (snd d)"
    using assms by (auto simp: back_out_def split: sum.splits)
  then show ?thesis by simp
qed

lemma policy_loop_Inr:
  assumes "policy_loop before is (kept, skipped, c) = Inr (kept', skipped', c')"
  shows "kept' = kept @ filter is_exit is \<and>
    skipped' = skipped @ map cutoff_row (filter (\<lambda>i. \<not> is_exit i) is) \<and>
    (\<forall>n \<ge> 0. dget c ''entries_count'' JNull = JInt n \<longrightarrow>
       dget c' ''entries_count'' JNull = JInt (max 0 (n - int (length (filter (\<lambda>i. \<not> is_exit i) is)))))"
  using assms
proof (induction "is" arbitrary: kept skipped c)
  case (Cons i "is")
  show ?case
  proof (cases "is_exit i")
    case True
    with Cons.prems have "policy_loop before is (kept @ [i], skipped, c) = Inr (kept', skipped', c')" by simp
    from Cons.IH [OF this] True show ?thesis by simp
  next
    case False
    then obtain c1 where b: "back_out before i c = Inr c1"
      and l: "policy_loop before is (kept, skipped @ [cutoff_row i], c1) = Inr (kept', skipped', c')"
      using Cons.prems by (cases "back_out before i c") auto
    have "dget c' ''entries_count'' JNull = JInt (max 0 (n - int (length (filter (\<lambda>i. \<not> is_exit i) (i # is)))))"
      if "0 \<le> n" "dget c ''entries_count'' JNull = JInt n" for n
    proof -
      have "dget c1 ''entries_count'' JNull = JInt (max 0 (n - 1))" by (rule back_out_entries [OF b that(2)])
      with Cons.IH [OF l] have "dget c' ''entries_count'' JNull =
          JInt (max 0 (max 0 (n - 1) - int (length (filter (\<lambda>i. \<not> is_exit i) is))))" by simp
      with False show ?thesis by (simp add: max_def o_def)
    qed
    with Cons.IH [OF l] False show ?thesis by simp
  qed
qed simp

lemma positive_seconds_facts:
  "0 < dflt \<Longrightarrow> flt (Num 0) (fst (positive_seconds section key dflt))"
  by (auto simp: positive_seconds_def Let_def split: sum.split)

lemma read_mode_valid: "fst (read_mode section) \<in> {MODE_SHADOW, MODE_PAPER, MODE_LIVE}"
  by (simp add: read_mode_def Let_def)

lemma map_of_merge: "map_of (merge a b) k = (case map_of (rev b) k of Some v \<Rightarrow> Some v | None \<Rightarrow> map_of a k)"
proof (induction b rule: rev_induct)
  case Nil
  show ?case by (simp add: merge_def)
next
  case (snoc x b)
  then show ?case by (cases x) (auto simp: merge_def)
qed

lemma dget_merge:
  assumes "distinct (map fst b)"
  shows "dget (merge a b) k v = dget b k (dget a k v)"
proof -
  have "map_of (rev b) = map_of b"
    using assms by (subst map_of_inject_set) (simp_all flip: rev_map)
  then show ?thesis by (simp add: dget_def map_of_merge split: option.split)
qed

lemma dict_list_JObj: "dict_list (JList (map JObj ds)) = Inr ds"
proof -
  have "dicts_of (map JObj ds) = Inr ds" by (induction ds) (simp_all add: py_dict_def)
  then show ?thesis by (cases ds) (simp_all add: dict_list_def py_or_def)
qed

section \<open>Properties\<close>

text \<open>The loaded configuration is enabled exactly when the section says \<open>true\<close> and no value is
  malformed; whatever the input, the mode is one of the three known and the three durations are
  positive. The effective mode is always shadow.\<close>

theorem session_config_loader:
  "(sc_enabled (load_intraday_config c) \<longleftrightarrow>
      (\<exists>section. dget c ''intraday_decisioning'' JNull = JObj section \<and>
         dget section ''enabled'' (JBool False) = JBool True) \<and> sc_errors (load_intraday_config c) = []) \<and>
   sc_mode (load_intraday_config c) \<in> {MODE_SHADOW, MODE_PAPER, MODE_LIVE} \<and>
   flt (Num 0) (sc_tick_seconds (load_intraday_config c)) \<and>
   flt (Num 0) (sc_open_delay (load_intraday_config c)) \<and>
   flt (Num 0) (sc_close_cutoff (load_intraday_config c)) \<and>
   fst (resolve_mode (load_intraday_config c)) = MODE_SHADOW"
proof (cases "\<exists>section. dget c ''intraday_decisioning'' JNull = JObj section")
  case True
  then obtain s where s: "dget c ''intraday_decisioning'' JNull = JObj s" by blast
  have e: "fst (read_enabled s) \<and> snd (read_enabled s) = [] \<longleftrightarrow> dget s ''enabled'' (JBool False) = JBool True"
    by (auto simp: read_enabled_def split: json.split)
  have cfg: "load_intraday_config c = load_config_section s" by (simp add: load_intraday_config_def s)
  show ?thesis unfolding cfg s
    using e read_mode_valid [of s]
    by (auto simp: load_config_section_def Let_def split_beta resolve_mode_def
        positive_seconds_facts DEFAULT_TICK_SECONDS_def DEFAULT_ENTRY_OPEN_DELAY_SECONDS_def
        DEFAULT_ENTRY_CLOSE_CUTOFF_SECONDS_def)
next
  case False
  then have "load_intraday_config c = default_session_config \<or>
      load_intraday_config c = default_session_config\<lparr>sc_errors := [SectionNotMapping]\<rparr>"
    by (auto simp: load_intraday_config_def split: json.split)
  with False show ?thesis
    by (auto simp: default_session_config_def resolve_mode_def DEFAULT_TICK_SECONDS_def
        DEFAULT_ENTRY_OPEN_DELAY_SECONDS_def DEFAULT_ENTRY_CLOSE_CUTOFF_SECONDS_def)
qed

fun phase_rank :: "phase \<Rightarrow> nat" where
  "phase_rank PHASE_BEFORE_SESSION = 0"
| "phase_rank PHASE_SETTLING = 1"
| "phase_rank PHASE_ENTRIES_OPEN = 2"
| "phase_rank PHASE_EXITS_ONLY = 3"
| "phase_rank PHASE_CLOSED = 4"

text \<open>With the windows of positive delays, entries are open exactly from the first eligible tick
  to the cutoff, exits only from there to the close, and the phases of a session only move
  forward. The close is recognised only after the first eligible tick: with a delay longer than
  the session, the time after the bell still counts as settling.\<close>

theorem session_phases:
  assumes "windows_from_bounds (o1, c) cfg = Inr w" and "flt (Num 0) (sc_open_delay cfg)"
  shows "o1 \<le> w_first w \<and> w_first w \<le> w_cutoff w \<and>
    (phase_at w t = PHASE_ENTRIES_OPEN \<longleftrightarrow> w_first w \<le> t \<and> t < w_cutoff w \<and> t < c) \<and>
    (phase_at w t = PHASE_EXITS_ONLY \<longleftrightarrow> w_cutoff w \<le> t \<and> t < c) \<and>
    (phase_at w t = PHASE_CLOSED \<longleftrightarrow> w_first w \<le> t \<and> c \<le> t) \<and>
    (c \<le> t \<and> o1 \<le> t \<and> t < w_first w \<longrightarrow> phase_at w t = PHASE_SETTLING) \<and>
    (t \<le> t' \<longrightarrow> phase_rank (phase_at w t) \<le> phase_rank (phase_at w t'))"
proof -
  obtain d e where d: "timedelta_seconds (sc_open_delay cfg) = Inr d"
    and w: "w = \<lparr>w_open = o1, w_first = o1 + d, w_cutoff = (if c - e < o1 + d then o1 + d else c - e), w_close = c\<rparr>"
    using assms(1) by (auto simp: windows_from_bounds_def Let_def split: sum.splits)
  have "0 \<le> d"
  proof (cases "sc_open_delay cfg")
    case (Num x)
    with assms(2) have "0 \<le> x * 1000000" by simp
    then have "round_half_even 0 \<le> round_half_even (x * 1000000)" by (rule round_half_even_mono)
    with d Num show ?thesis using round_half_even_of_int [of 0] by simp
  qed (use d in auto)
  then show ?thesis by (auto simp: w phase_at_def)
qed

theorem session_phases_witness:
  "phase_at \<lparr>w_open = 0, w_first = 300000000, w_cutoff = 21600000000, w_close = 23400000000\<rparr> 300000000 = PHASE_ENTRIES_OPEN"
proof -
  have w: "windows_from_bounds (0, 23400000000) default_session_config =
      Inr \<lparr>w_open = 0, w_first = 300000000, w_cutoff = 21600000000, w_close = 23400000000\<rparr>"
    by code_simp
  have d: "flt (Num 0) (sc_open_delay default_session_config)" by code_simp
  from session_phases [OF w d, of 300000000] show ?thesis by simp
qed

text \<open>A tick's decisions pass the never-submit check exactly when the mode is shadow and no
  mapping at any depth has a key of a broker submission; removing the decision trace keeps it so.\<close>

theorem never_submit_check:
  "(assert_shadow_never_submits mode d = Inr () \<longleftrightarrow>
     mode = MODE_SHADOW \<and> (\<forall>k \<in> set FORBIDDEN_SUBMISSION_KEYS. \<not> has_key (JObj d) k)) \<and>
   (assert_shadow_never_submits mode d = Inr () \<longrightarrow>
     assert_shadow_never_submits mode (strip_noop_decision_trace d) = Inr ())"
  using scan_clean(1) [of "JObj d" "[]"] scan_clean(1) [of "JObj (strip_noop_decision_trace d)" "[]"]
    clean_strip [of d]
  by (auto simp: assert_shadow_never_submits_def clean_def)

theorem never_submit_check_witness:
  "assert_shadow_never_submits MODE_SHADOW [(''intents'', JList []), (''decision_trace'', JNull)] = Inr () \<and>
   assert_shadow_never_submits MODE_SHADOW (strip_noop_decision_trace [(''intents'', JList []), (''decision_trace'', JNull)]) = Inr ()"
proof -
  have a: "assert_shadow_never_submits MODE_SHADOW [(''intents'', JList []), (''decision_trace'', JNull)] = Inr ()"
    by code_simp
  with never_submit_check [of MODE_SHADOW "[(''intents'', JList []), (''decision_trace'', JNull)]"]
  show ?thesis by blast
qed

text \<open>Past the cutoff the policy keeps exactly the exit intents, unchanged and in order, moves
  every other intent to the skipped rows with the cutoff reason, takes one off the entry count for
  each of them but never below zero, and touches no other key; in any other phase it changes
  nothing.\<close>

theorem exits_only_policy:
  assumes "apply_entry_window_policy d ph before = Inr p"
    and "dget d ''intents'' JNull = JList (map JObj is)" and "dget d ''skipped'' JNull = JList (map JObj ss)"
    and "dget d ''counters'' JNull = JObj cs" and "distinct (map fst cs)"
    and "dget cs ''entries_count'' (JInt 0) = JInt n" and "0 \<le> n"
  shows "(ph \<noteq> PHASE_EXITS_ONLY \<longrightarrow> p = d) \<and>
    (ph = PHASE_EXITS_ONLY \<longrightarrow>
       dget p ''intents'' JNull = JList (map JObj (filter is_exit is)) \<and>
       dget p ''skipped'' JNull = JList (map JObj ss @ map cutoff_row (filter (\<lambda>i. \<not> is_exit i) is)) \<and>
       (\<exists>c'. dget p ''counters'' JNull = JObj c' \<and>
          dget c' ''entries_count'' JNull = JInt (max 0 (n - int (length (filter (\<lambda>i. \<not> is_exit i) is))))) \<and>
       (\<forall>k. k \<notin> {''intents'', ''skipped'', ''counters''} \<longrightarrow> map_of p k = map_of d k))"
proof (cases "ph = PHASE_EXITS_ONLY")
  case False
  with assms(1) show ?thesis by (simp add: apply_entry_window_policy_def)
next
  case True
  have c: "py_dict (py_or (JObj cs) (JObj [])) = Inr cs"
    by (cases cs) (simp_all add: py_or_def py_dict_def)
  have n: "dget (merge ZERO_COUNTERS cs) ''entries_count'' JNull = JInt n"
  proof -
    have z: "dget ZERO_COUNTERS ''entries_count'' JNull = JInt 0" by (simp add: dget_def ZERO_COUNTERS_def)
    show ?thesis using assms(5,6) by (simp add: dget_merge z)
  qed
  obtain kept skipped' c' where
    l: "policy_loop before is ([], map JObj ss, merge ZERO_COUNTERS cs) = Inr (kept, skipped', c')"
    and p: "p = dset (dset (dset d ''intents'' (JList (map JObj kept))) ''skipped'' (JList skipped')) ''counters'' (JObj c')"
    using assms(1) True unfolding apply_entry_window_policy_def assms(2-4) dict_list_JObj c
    by (auto split: sum.splits)
  from policy_loop_Inr [OF l] n assms(7) True show ?thesis by (simp add: p)
qed

theorem exits_only_policy_witness:
  "\<exists>p. apply_entry_window_policy
      [(''intents'', JList [JObj [(''kind'', JStr ''exit'')], JObj [(''kind'', JStr ''entry'')]]), (''skipped'', JList []),
       (''counters'', JObj ZERO_COUNTERS)] PHASE_EXITS_ONLY ZERO_COUNTERS = Inr p \<and>
     dget p ''intents'' JNull = JList [JObj [(''kind'', JStr ''exit'')]]"
proof -
  let ?d = "[(''intents'', JList [JObj [(''kind'', JStr ''exit'')], JObj [(''kind'', JStr ''entry'')]]), (''skipped'', JList []),
       (''counters'', JObj ZERO_COUNTERS)]"
  let ?p = "projr (apply_entry_window_policy ?d PHASE_EXITS_ONLY ZERO_COUNTERS)"
  have a: "apply_entry_window_policy ?d PHASE_EXITS_ONLY ZERO_COUNTERS = Inr ?p" by code_simp
  have "dget ?p ''intents'' JNull =
      JList (map JObj (filter is_exit [[(''kind'', JStr ''exit'')], [(''kind'', JStr ''entry'')]]))"
    using exits_only_policy [OF a, of "[[(''kind'', JStr ''exit'')], [(''kind'', JStr ''entry'')]]" "[]" ZERO_COUNTERS 0]
    by (simp add: dget_def ZERO_COUNTERS_def)
  moreover have "filter is_exit [[(''kind'', JStr ''exit'')], [(''kind'', JStr ''entry'')]] = [[(''kind'', JStr ''exit'')]]"
    by code_simp
  ultimately show ?thesis using a by auto
qed

end
