(* ===== verification/ShadowLog.thy ===== *)
theory ShadowLog
  imports SessionPolicy
begin

text \<open>
  \<open>intraday_session_scheduler.py\<close>, part 2: \<open>ShadowTickWriter\<close>, the append-only tick log, and
  \<open>LiveTickWriter\<close> of \<open>intraday_live_executor.py\<close>, the same code for another kind of record: the
  kind is an argument. A line of
  the file is the JSON value it parses to, \<open>None\<close> when it is blank or does not parse; writing a
  record and reading it back gives the same mapping.
\<close>

definition RECORD_KIND_TICK :: string where "RECORD_KIND_TICK = ''intraday_decision_shadow_tick''"

record tick_writer =
  log_lines :: "json option list"
  seen_keys :: "(string \<times> int) list"

definition tick_key :: "json dict \<Rightarrow> py_error + string \<times> int" where
  "tick_key r =
     map_sum id (Pair (py_str (dget r ''session_date'' JNull))) (py_int (dget r ''tick_index'' (JInt (- 1))))"

fun load_keys :: "string \<Rightarrow> json option list \<Rightarrow> (string \<times> int) list \<Rightarrow> py_error + (string \<times> int) list" where
  "load_keys kind [] ks = Inr ks"
| "load_keys kind (None # ls) ks = load_keys kind ls ks"
| "load_keys kind (Some j # ls) ks =
     (case as_mapping j of
        Inl e \<Rightarrow> Inl e
      | Inr r \<Rightarrow>
          if dget r ''kind'' JNull \<noteq> JStr kind then load_keys kind ls ks
          else case tick_key r of Inl e \<Rightarrow> Inl e | Inr k \<Rightarrow> load_keys kind ls (List.insert k ks))"

definition new_writer :: "string \<Rightarrow> json option list \<Rightarrow> py_error + tick_writer" where
  "new_writer kind ls = map_sum id (\<lambda>ks. \<lparr>log_lines = ls, seen_keys = ks\<rparr>) (load_keys kind ls [])"

definition append_tick :: "json dict \<Rightarrow> tick_writer \<Rightarrow> py_error + tick_writer \<times> bool" where
  "append_tick r w =
     (case tick_key r of
        Inl e \<Rightarrow> Inl e
      | Inr k \<Rightarrow>
          if k \<in> set (seen_keys w) then Inr (w, False)
          else Inr (\<lparr>log_lines = log_lines w @ [Some (JObj r)], seen_keys = List.insert k (seen_keys w)\<rparr>, True))"

definition RECORD_KIND_LIVE_TICK :: string where "RECORD_KIND_LIVE_TICK = ''intraday_live_tick''"

definition new_live_writer :: "json option list \<Rightarrow> py_error + tick_writer" where
  "new_live_writer = new_writer RECORD_KIND_LIVE_TICK"

definition append_live_tick :: "json dict \<Rightarrow> tick_writer \<Rightarrow> py_error + tick_writer \<times> bool" where
  "append_live_tick = append_tick"

section \<open>The tick log as a first-wins log\<close>

definition is_tick :: "string \<Rightarrow> json dict \<Rightarrow> bool" where
  "is_tick kind r \<longleftrightarrow> dget r ''kind'' JNull = JStr kind \<and> (\<exists>k. tick_key r = Inr k)"

definition key_of :: "json dict \<Rightarrow> string \<times> int" where
  "key_of r = projr (tick_key r)"

definition tick_rows :: "string \<Rightarrow> json option list \<Rightarrow> json dict list" where
  "tick_rows kind ls = [r. Some (JObj r) \<leftarrow> ls, dget r ''kind'' JNull = JStr kind]"

definition writer_ok :: "string \<Rightarrow> tick_writer \<Rightarrow> bool" where
  "writer_ok kind w \<longleftrightarrow> (\<exists>ks. load_keys kind (log_lines w) [] = Inr ks) \<and>
     set (seen_keys w) = key_of ` set (tick_rows kind (log_lines w))"

definition put_tick :: "string \<Rightarrow> tick_writer \<Rightarrow> json dict \<Rightarrow> tick_writer \<times> bool" where
  "put_tick kind w r = (if is_tick kind r then (case append_tick r w of Inr p \<Rightarrow> p | Inl e \<Rightarrow> (w, False)) else (w, False))"

lemma tick_rows_simps [simp]:
  "tick_rows kind [] = []" "tick_rows kind (None # ls) = tick_rows kind ls"
  "tick_rows kind (ls @ ls') = tick_rows kind ls @ tick_rows kind ls'"
  "tick_rows kind (Some (JObj r) # ls) =
     (if dget r ''kind'' JNull = JStr kind then r # tick_rows kind ls else tick_rows kind ls)"
  by (simp_all add: tick_rows_def)

lemma load_keys_Inr:
  "load_keys kind ls ks = Inr ks' \<Longrightarrow> set ks' = set ks \<union> key_of ` set (tick_rows kind ls)"
proof (induction kind ls ks rule: load_keys.induct)
  case (3 kind j ls ks)
  then obtain r where r: "j = JObj r" by (cases j) auto
  show ?case
  proof (cases "dget r ''kind'' JNull = JStr kind")
    case True
    then obtain k where "tick_key r = Inr k" using 3 r by (cases "tick_key r") auto
    with 3 r True show ?thesis by (auto simp: key_of_def)
  next
    case False
    with 3 r show ?thesis by simp
  qed
qed auto

lemma load_keys_append:
  "load_keys kind (ls @ ls') ks = (case load_keys kind ls ks of Inl e \<Rightarrow> Inl e | Inr ks' \<Rightarrow> load_keys kind ls' ks')"
  by (induction kind ls ks rule: load_keys.induct) (auto split: sum.splits)

lemma load_keys_total: "(\<exists>ks'. load_keys kind ls ks = Inr ks') = (\<exists>ks'. load_keys kind ls [] = Inr ks')"
proof -
  have "(\<exists>a. load_keys kind ls ks = Inr a) \<longleftrightarrow> (\<exists>a. load_keys kind ls ks2 = Inr a)" for ks2
  proof (induction ls arbitrary: ks ks2)
    case (Cons x ls)
    show ?case
    proof (cases x)
      case None
      with Cons show ?thesis by simp
    next
      case (Some j)
      with Cons show ?thesis by (cases "as_mapping j"; cases "tick_key (projr (as_mapping j))") auto
    qed
  qed simp
  then show ?thesis .
qed

lemma writer_ok_new: "new_writer kind ls = Inr w \<Longrightarrow> writer_ok kind w \<and> log_lines w = ls"
  by (cases "load_keys kind ls []") (auto simp: new_writer_def writer_ok_def dest: load_keys_Inr)

lemma append_tick_cases:
  assumes "is_tick kind r"
  shows "append_tick r w = Inr (if key_of r \<in> set (seen_keys w) then (w, False)
    else (\<lparr>log_lines = log_lines w @ [Some (JObj r)], seen_keys = List.insert (key_of r) (seen_keys w)\<rparr>, True))"
  using assms by (auto simp: is_tick_def append_tick_def key_of_def)

lemma writer_ok_append:
  assumes "writer_ok kind w" and "append_tick r w = Inr (w', b)" and "is_tick kind r"
  shows "writer_ok kind w'"
proof (cases "key_of r \<in> set (seen_keys w)")
  case True
  with assms show ?thesis by (simp add: append_tick_cases [where kind = kind])
next
  case False
  then have w': "w' = \<lparr>log_lines = log_lines w @ [Some (JObj r)], seen_keys = List.insert (key_of r) (seen_keys w)\<rparr>"
    using assms(2) by (simp add: append_tick_cases [OF assms(3)])
  obtain k where "tick_key r = Inr k" "dget r ''kind'' JNull = JStr kind"
    using assms(3) by (auto simp: is_tick_def)
  with assms(1) show ?thesis by (auto simp: w' writer_ok_def load_keys_append)
qed

interpretation shadow_log: keyed_log "put_tick kind" key_of "is_tick kind" "tick_rows kind \<circ> log_lines" "writer_ok kind" for kind
proof
  fix w r
  assume ok: "writer_ok kind w"
  show "snd (put_tick kind w r) \<and> (tick_rows kind \<circ> log_lines) (fst (put_tick kind w r)) = (tick_rows kind \<circ> log_lines) w @ [r]"
    if "is_tick kind r" "key_of r \<notin> key_of ` set ((tick_rows kind \<circ> log_lines) w)"
    using that ok by (simp add: put_tick_def append_tick_cases [where kind = kind] writer_ok_def) (simp add: is_tick_def)
  show "put_tick kind w r = (w, False)" if "key_of r \<in> key_of ` set ((tick_rows kind \<circ> log_lines) w)"
    using that ok by (simp add: put_tick_def append_tick_cases [where kind = kind] writer_ok_def)
  show "put_tick kind w r = (w, False)" if "\<not> is_tick kind r" using that by (simp add: put_tick_def)
  show "writer_ok kind (fst (put_tick kind w r))"
    using ok writer_ok_append [OF ok] by (auto simp: put_tick_def split: sum.split)
qed

lemma put_tick_lines:
  "\<exists>xs. log_lines (fst (put_tick kind w r)) = log_lines w @ map (Some \<circ> JObj) xs \<and> list_all (is_tick kind) xs"
proof (cases "is_tick kind r \<and> key_of r \<notin> set (seen_keys w)")
  case True
  then show ?thesis by (intro exI [of _ "[r]"]) (simp add: put_tick_def append_tick_cases [where kind = kind])
next
  case False
  then show ?thesis by (intro exI [of _ "[]"]) (auto simp: put_tick_def append_tick_cases [where kind = kind])
qed

lemma put_all_lines:
  "\<exists>xs. log_lines (fst (put_all (put_tick kind) w rs)) = log_lines w @ map (Some \<circ> JObj) xs \<and> list_all (is_tick kind) xs"
proof (induction rs arbitrary: w)
  case Nil
  show ?case by (intro exI [of _ "[]"]) simp
next
  case (Cons r rs)
  obtain xs where "log_lines (fst (put_tick kind w r)) = log_lines w @ map (Some \<circ> JObj) xs" "list_all (is_tick kind) xs"
    using put_tick_lines by blast
  moreover obtain ys where "log_lines (fst (put_all (put_tick kind) (fst (put_tick kind w r)) rs)) =
      log_lines (fst (put_tick kind w r)) @ map (Some \<circ> JObj) ys" "list_all (is_tick kind) ys"
    using Cons by blast
  ultimately show ?case by (intro exI [of _ "xs @ ys"]) (simp add: Let_def split_beta)
qed

lemma tick_rows_map: "list_all (is_tick kind) xs \<Longrightarrow> tick_rows kind (map (Some \<circ> JObj) xs) = xs"
  by (induction xs) (auto simp: is_tick_def)

section \<open>Properties\<close>

text \<open>From any log that opens, appending tick records adds the first record of each new key, in
  order, and changes no line already there; opening the resulting file again knows exactly the
  keys of its lines, and appending the same records after the restart adds nothing.\<close>

theorem tick_log_idempotent:
  assumes "new_writer kind ls = Inr w"
  shows "\<exists>w' xs. fst (put_all (put_tick kind) w rs) = w' \<and> log_lines w' = ls @ map (Some \<circ> JObj) xs \<and>
    xs = fresh key_of (key_of ` set (tick_rows kind ls)) (filter (is_tick kind) rs) \<and>
    (\<exists>w2. new_writer kind (log_lines w') = Inr w2 \<and> set (seen_keys w2) = key_of ` set (tick_rows kind ls @ xs) \<and>
       put_all (put_tick kind) w2 rs = (w2, replicate (length rs) False))"
proof -
  have ok: "writer_ok kind w" and lines: "log_lines w = ls" using writer_ok_new [OF assms] by auto
  let ?w' = "fst (put_all (put_tick kind) w rs)"
  obtain xs where xs: "log_lines ?w' = ls @ map (Some \<circ> JObj) xs" "list_all (is_tick kind) xs"
    using put_all_lines [of kind w rs] lines by auto
  have "tick_rows kind (log_lines ?w') = tick_rows kind ls @ fresh key_of (key_of ` set (tick_rows kind ls)) (filter (is_tick kind) rs)"
    using shadow_log.put_all_rows [OF ok] lines by simp
  then have fr: "xs = fresh key_of (key_of ` set (tick_rows kind ls)) (filter (is_tick kind) rs)"
    using xs by (simp add: tick_rows_map)
  have ok': "writer_ok kind ?w'" by (rule shadow_log.put_all_invar [OF ok])
  then obtain ks where ks: "load_keys kind (log_lines ?w') [] = Inr ks" by (auto simp: writer_ok_def)
  then have new: "new_writer kind (log_lines ?w') = Inr \<lparr>log_lines = log_lines ?w', seen_keys = ks\<rparr>"
    by (simp add: new_writer_def)
  let ?w2 = "\<lparr>log_lines = log_lines ?w', seen_keys = ks\<rparr>"
  have ok2: "writer_ok kind ?w2" using writer_ok_new [OF new] by simp
  have seen: "set (seen_keys ?w2) = key_of ` set (tick_rows kind ls @ xs)"
    using ok2 xs by (simp add: writer_ok_def tick_rows_map)
  have "put_all (put_tick kind) ?w2 rs = (?w2, replicate (length rs) False)"
    by (rule shadow_log.put_all_known [OF ok2]) (use xs fr in \<open>auto simp: tick_rows_map image_Un fresh_keys\<close>)
  with xs fr new seen show ?thesis by blast
qed

definition demo_tick :: "int \<Rightarrow> json dict" where
  "demo_tick i = [(''kind'', JStr RECORD_KIND_TICK), (''session_date'', JStr ''2026-07-01''), (''tick_index'', JInt i)]"

theorem tick_log_idempotent_witness:
  "\<exists>w'. fst (put_all (put_tick RECORD_KIND_TICK) \<lparr>log_lines = [None], seen_keys = []\<rparr> [demo_tick 0, demo_tick 0]) = w' \<and>
     log_lines w' = [None, Some (JObj (demo_tick 0))]"
proof -
  have w: "new_writer RECORD_KIND_TICK [None] = Inr \<lparr>log_lines = [None], seen_keys = []\<rparr>" by (simp add: new_writer_def)
  have f: "fresh key_of {} (filter (is_tick RECORD_KIND_TICK) [demo_tick 0, demo_tick 0]) = [demo_tick 0]"
    by (simp add: is_tick_def demo_tick_def tick_key_def dget_def)
  from tick_log_idempotent [OF w, of "[demo_tick 0, demo_tick 0]"] f show ?thesis by auto
qed

end
