(* ===== verification/SessionScheduler.thy ===== *)
theory SessionScheduler
  imports ShadowLog
begin

text \<open>
  \<open>intraday_session_scheduler.py\<close>, part 3: \<open>SessionScheduler\<close>, one decision tick and the session
  loop. Everything the code injects is an argument: a cycle's \<open>obs\<close> holds the clock, the kill
  switch and what the providers, the tick runner and the observer answer in that cycle; \<open>env\<close>
  holds the hash, the rendering of an instant in ET and the two identities stamped on records.
  The loop is a recursion over the cycles' observations; \<open>Pending\<close> means the observations ended
  before the session did. The manifest's \<open>updated_at\<close> and the log messages are left out.
\<close>

section \<open>The environment\<close>

record tick_request =
  rq_signal :: "json dict"
  rq_session_start :: "json dict"
  rq_live_state :: "json dict"
  rq_counters :: "json dict"
  rq_in_flight :: "string list"
  rq_exit_orders :: "json list"

record obs =
  ob_now :: int
  ob_kill :: bool
  ob_gates :: "session_error + json dict"
  ob_live :: "session_error + json dict"
  ob_exits :: "session_error + json list"
  ob_runner :: "tick_request \<Rightarrow> session_error + json"
  ob_observer_raises :: bool

record env =
  hash_json :: "json \<Rightarrow> string"
  iso_et :: "int \<Rightarrow> string"
  calendar_id :: string
  strategy_fingerprint :: string

record session =
  ses_date :: string
  ses_mode :: string
  ses_windows :: windows
  ses_signal :: "json dict"
  ses_max_cycles :: "nat option"

section \<open>The manifest\<close>

datatype manifest_error = ConfigProblem config_error | ErrorRaised session_error | SustainedOutage nat
  | NoFrozenSignal

record skipped_tick =
  sk_index :: nat
  sk_at :: string
  sk_phase :: phase
  sk_consecutive :: nat

record manifest =
  mf_status :: string
  mf_mode_requested :: string
  mf_mode_effective :: string
  mf_live_downgraded :: nat
  mf_paper_compat :: nat
  mf_kill_engaged :: bool
  mf_windows :: "windows option"
  mf_class_a :: "json dict option"
  mf_class_b :: "json dict option"
  mf_tick_count :: nat
  mf_last_tick_at :: "string option"
  mf_counters :: "json dict"
  mf_errors :: "manifest_error list"
  mf_skipped :: "skipped_tick list"
  mf_input_errors :: nat
  mf_observer_errors :: nat

definition init_manifest :: "session_config \<Rightarrow> string \<Rightarrow> string option \<Rightarrow> manifest" where
  "init_manifest cfg mode downgrade =
     \<lparr>mf_status = ''starting'', mf_mode_requested = sc_mode cfg, mf_mode_effective = mode,
      mf_live_downgraded = (if downgrade = Some MODE_LIVE then 1 else 0),
      mf_paper_compat = (if downgrade = Some MODE_PAPER then 1 else 0),
      mf_kill_engaged = False, mf_windows = None, mf_class_a = None, mf_class_b = None,
      mf_tick_count = 0, mf_last_tick_at = None, mf_counters = ZERO_COUNTERS, mf_errors = [],
      mf_skipped = [], mf_input_errors = 0, mf_observer_errors = 0\<rparr>"

section \<open>One decision tick\<close>

fun phase_name :: "phase \<Rightarrow> string" where
  "phase_name PHASE_BEFORE_SESSION = ''before_session''"
| "phase_name PHASE_SETTLING = ''settling''"
| "phase_name PHASE_ENTRIES_OPEN = ''entries_open''"
| "phase_name PHASE_EXITS_ONLY = ''exits_only''"
| "phase_name PHASE_CLOSED = ''closed''"

definition windows_record :: "env \<Rightarrow> windows \<Rightarrow> json" where
  "windows_record e w = JObj [(''open'', JStr (iso_et e (w_open w))),
     (''first_eligible_tick'', JStr (iso_et e (w_first w))),
     (''entry_cutoff'', JStr (iso_et e (w_cutoff w))), (''close'', JStr (iso_et e (w_close w)))]"

text \<open>\<open>set(v or ())\<close> of a value whose elements are parent ids, that is strings.\<close>

fun all_strings :: "json list \<Rightarrow> py_error + string list" where
  "all_strings [] = Inr []"
| "all_strings (JStr s # xs) = map_sum id (\<lambda>ss. s # ss) (all_strings xs)"
| "all_strings (_ # xs) = Inl TypeError"

definition id_set :: "json \<Rightarrow> py_error + string list" where
  "id_set v = (case iter_json (py_or v (JList [])) of Inl e \<Rightarrow> Inl e | Inr xs \<Rightarrow> all_strings xs)"

definition tick_record ::
    "env \<Rightarrow> session \<Rightarrow> obs \<Rightarrow> phase \<Rightarrow> nat \<Rightarrow> tick_request \<Rightarrow> json dict \<Rightarrow> json dict" where
  "tick_record e ses ob ph idx rq decisions =
     [(''schema_version'', JStr ''rq105-intraday-shadow-v1''), (''kind'', JStr RECORD_KIND_TICK),
      (''stage'', JStr ''renquant105-stage1-operations-only''), (''session_date'', JStr (ses_date ses)),
      (''tick_index'', JInt (int idx)), (''tick_at'', JStr (iso_et e (ob_now ob))),
      (''mode'', JStr (ses_mode ses)), (''window_phase'', JStr (phase_name ph)),
      (''calendar_id'', JStr (calendar_id e)), (''windows'', windows_record e (ses_windows ses)),
      (''fingerprints'', JObj
        [(''signal_version'', JStr (py_str (dget (rq_signal rq) ''signal_version'' (JStr [])))),
         (''score_content_sha256'', JStr (py_str (dget (rq_signal rq) ''score_content_sha256'' (JStr [])))),
         (''gate_input_fingerprint'', JStr (py_str (dget (rq_session_start rq) ''gate_input_fingerprint'' (JStr [])))),
         (''live_state_sha256'', JStr (hash_json e (JObj (rq_live_state rq)))),
         (''strategy_config_fingerprint'', JStr (strategy_fingerprint e))]),
      (''inputs'', JObj [(''live_state'', JObj (rq_live_state rq)),
         (''in_flight_parent_intents'', JList (map JStr (rq_in_flight rq))),
         (''counters_before'', JObj (rq_counters rq)), (''exit_orders'', JList (rq_exit_orders rq))]),
      (''decisions'', JObj decisions)]"

text \<open>The inputs of a tick: live state, exit orders, ids in flight, and the class-B check.\<close>

definition tick_inputs ::
    "env \<Rightarrow> session \<Rightarrow> obs \<Rightarrow> json dict \<Rightarrow> json dict \<Rightarrow> string list \<Rightarrow> session_error + tick_request" where
  "tick_inputs e ses ob start counters seen =
     (case ob_live ob of Inl x \<Rightarrow> Inl x | Inr live \<Rightarrow>
      case ob_exits ob of Inl x \<Rightarrow> Inl x | Inr exits \<Rightarrow>
      case id_set (dget live ''open_buy_reservations'' JNull) of Inl x \<Rightarrow> Inl (PyError x) | Inr reserved \<Rightarrow>
      case id_set (dget live ''in_flight_parent_intents'' JNull) of Inl x \<Rightarrow> Inl (PyError x) | Inr flying \<Rightarrow>
      case verify_session_start (hash_json e) start of Inl x \<Rightarrow> Inl (InputError x) | Inr u \<Rightarrow>
      Inr \<lparr>rq_signal = ses_signal ses, rq_session_start = start, rq_live_state = live,
           rq_counters = counters, rq_in_flight = sort (remdups (seen @ reserved @ flying)),
           rq_exit_orders = exits\<rparr>)"

text \<open>The tick's decisions, after normalisation, window policy and the never-submit check.\<close>

definition tick_decisions :: "session \<Rightarrow> obs \<Rightarrow> phase \<Rightarrow> tick_request \<Rightarrow> session_error + json dict" where
  "tick_decisions ses ob ph rq =
     (case ob_runner ob rq of Inl x \<Rightarrow> Inl x | Inr raw \<Rightarrow>
      case normalize_tick_result raw of Inl x \<Rightarrow> Inl x | Inr d \<Rightarrow>
      case apply_entry_window_policy d ph (rq_counters rq) of Inl x \<Rightarrow> Inl (PyError x) | Inr p \<Rightarrow>
      case assert_shadow_never_submits (ses_mode ses) p of Inl x \<Rightarrow> Inl x | Inr u \<Rightarrow> Inr p)"

record tick_outcome =
  to_record :: "json dict"
  to_decisions :: "json dict"
  to_counters :: "json dict"

definition run_tick ::
    "env \<Rightarrow> session \<Rightarrow> obs \<Rightarrow> phase \<Rightarrow> nat \<Rightarrow> json dict \<Rightarrow> json dict \<Rightarrow> string list \<Rightarrow> tick_writer \<Rightarrow>
     tick_writer \<times> (session_error + tick_outcome)" where
  "run_tick e ses ob ph idx start counters seen w =
     (case tick_inputs e ses ob start counters seen of Inl x \<Rightarrow> (w, Inl x) | Inr rq \<Rightarrow>
      case tick_decisions ses ob ph rq of Inl x \<Rightarrow> (w, Inl x) | Inr p \<Rightarrow>
      let d = strip_noop_decision_trace p; r = tick_record e ses ob ph idx rq d in
      case append_tick r w of Inl x \<Rightarrow> (w, Inl (PyError x)) | Inr (w', b) \<Rightarrow>
      case py_dict (py_or (dget p ''counters'' JNull) (JObj counters)) of Inl x \<Rightarrow> (w', Inl (PyError x)) | Inr c \<Rightarrow>
      (w', Inr \<lparr>to_record = r, to_decisions = d, to_counters = c\<rparr>))"

section \<open>The session loop\<close>

definition MAX_CONSECUTIVE_TICK_INPUT_FAILURES :: nat where
  "MAX_CONSECUTIVE_TICK_INPUT_FAILURES = 5"

record loop_state =
  ls_start :: "json dict option"
  ls_counters :: "json dict"
  ls_seen :: "string list"
  ls_index :: nat
  ls_cycles :: nat
  ls_failures :: nat
  ls_writer :: tick_writer
  ls_manifest :: manifest
  ls_stamps :: "manifest list"

datatype session_end = Returned string | Raised session_error | Pending

definition stamp_status :: "string \<Rightarrow> loop_state \<Rightarrow> loop_state" where
  "stamp_status status st =
     (let m = (ls_manifest st)\<lparr>mf_status := status\<rparr> in
      st\<lparr>ls_manifest := m, ls_stamps := ls_stamps st @ [m]\<rparr>)"

definition note_errors :: "manifest_error list \<Rightarrow> loop_state \<Rightarrow> loop_state" where
  "note_errors es st = st\<lparr>ls_manifest := (ls_manifest st)\<lparr>mf_errors := es\<rparr>\<rparr>"

definition record_skipped_tick :: "env \<Rightarrow> obs \<Rightarrow> phase \<Rightarrow> loop_state \<Rightarrow> loop_state" where
  "record_skipped_tick e ob ph st =
     (let m = ls_manifest st in
      st\<lparr>ls_manifest := m\<lparr>mf_skipped := mf_skipped m @
             [\<lparr>sk_index = ls_index st, sk_at = iso_et e (ob_now ob), sk_phase = ph, sk_consecutive = ls_failures st\<rparr>],
           mf_input_errors := mf_input_errors m + 1\<rparr>\<rparr>)"

definition parents_of :: "json dict \<Rightarrow> string list" where
  "parents_of d = (case dget d ''intents'' (JList []) of
     JList xs \<Rightarrow> [py_str (dget i ''parent_intent_id'' JNull). JObj i \<leftarrow> xs, truthy (dget i ''parent_intent_id'' JNull)]
   | _ \<Rightarrow> [])"

text \<open>The bookkeeping of a successful tick; the observer runs after the record is written.\<close>

definition accept_tick :: "env \<Rightarrow> obs \<Rightarrow> tick_outcome \<Rightarrow> loop_state \<Rightarrow> loop_state" where
  "accept_tick e ob t st =
     (let m = ls_manifest st;
          m1 = (if ob_observer_raises ob then m\<lparr>mf_observer_errors := mf_observer_errors m + 1\<rparr> else m) in
      stamp_status ''running''
        (st\<lparr>ls_failures := 0, ls_seen := remdups (ls_seen st @ parents_of (to_decisions t)),
            ls_index := ls_index st + 1, ls_counters := to_counters t,
            ls_manifest := m1\<lparr>mf_tick_count := ls_index st + 1, mf_last_tick_at := Some (iso_et e (ob_now ob)),
                              mf_counters := to_counters t\<rparr>\<rparr>))"

text \<open>The three \<open>except\<close> clauses around a tick.\<close>

definition reject_tick :: "env \<Rightarrow> obs \<Rightarrow> phase \<Rightarrow> session_error \<Rightarrow> loop_state \<Rightarrow> loop_state \<times> session_end option" where
  "reject_tick e ob ph x st =
     (if x = ShadowModeViolation then (stamp_status ''halted_shadow_violation'' st, Some (Raised x))
      else if x = TickInputUnavailable then
        (let st1 = record_skipped_tick e ob ph (st\<lparr>ls_failures := ls_failures st + 1\<rparr>) in
         if MAX_CONSECUTIVE_TICK_INPUT_FAILURES \<le> ls_failures st1
         then (stamp_status ''halted_tick_error'' (note_errors [SustainedOutage (ls_failures st1)] st1), Some (Raised x))
         else (stamp_status ''running'' st1, None))
      else (stamp_status ''halted_tick_error'' (note_errors [ErrorRaised x] st), Some (Raised x)))"

definition decide_tick :: "env \<Rightarrow> session \<Rightarrow> obs \<Rightarrow> phase \<Rightarrow> json dict \<Rightarrow> loop_state \<Rightarrow> loop_state \<times> session_end option" where
  "decide_tick e ses ob ph start st =
     (case run_tick e ses ob ph (ls_index st) start (ls_counters st) (ls_seen st) (ls_writer st) of
        (w', Inl x) \<Rightarrow> reject_tick e ob ph x (st\<lparr>ls_writer := w'\<rparr>)
      | (w', Inr t) \<Rightarrow> (accept_tick e ob t (st\<lparr>ls_writer := w'\<rparr>), None))"

text \<open>The class-B inputs are captured at the first eligible tick; a provider that raises ends the
  session without a stamp.\<close>

definition decision_cycle :: "env \<Rightarrow> session \<Rightarrow> obs \<Rightarrow> phase \<Rightarrow> loop_state \<Rightarrow> loop_state \<times> session_end option" where
  "decision_cycle e ses ob ph st =
     (case ls_start st of
        Some start \<Rightarrow> decide_tick e ses ob ph start st
      | None \<Rightarrow>
          (case ob_gates ob of
             Inl x \<Rightarrow> (st, Some (Raised x))
           | Inr gates \<Rightarrow>
               (let start = capture_session_start (hash_json e) gates (iso_et e (ob_now ob)) in
                decide_tick e ses ob ph start
                  (st\<lparr>ls_start := Some start, ls_manifest := (ls_manifest st)\<lparr>mf_class_b := Some start\<rparr>\<rparr>))))"

definition end_cycle :: "session \<Rightarrow> loop_state \<Rightarrow> loop_state \<times> session_end option" where
  "end_cycle ses st =
     (let st1 = st\<lparr>ls_cycles := ls_cycles st + 1\<rparr> in
      case ses_max_cycles ses of
        Some n \<Rightarrow> if n \<le> ls_cycles st1
                  then (stamp_status ''stopped_max_cycles'' st1, Some (Returned ''stopped_max_cycles''))
                  else (st1, None)
      | None \<Rightarrow> (st1, None))"

definition cycle :: "env \<Rightarrow> session \<Rightarrow> obs \<Rightarrow> loop_state \<Rightarrow> loop_state \<times> session_end option" where
  "cycle e ses ob st =
     (if ob_kill ob then
        (stamp_status ''halted_kill_switch''
           (st\<lparr>ls_manifest := (ls_manifest st)\<lparr>mf_kill_engaged := True\<rparr>\<rparr>), Some (Returned ''halted_kill_switch''))
      else
        (let ph = phase_at (ses_windows ses) (ob_now ob) in
         if ph = PHASE_CLOSED then (stamp_status ''completed'' st, Some (Returned ''completed''))
         else if ph = PHASE_ENTRIES_OPEN \<or> ph = PHASE_EXITS_ONLY then
           (case decision_cycle e ses ob ph st of
              (st1, Some r) \<Rightarrow> (st1, Some r)
            | (st1, None) \<Rightarrow> end_cycle ses st1)
         else end_cycle ses st))"

fun run_loop :: "env \<Rightarrow> session \<Rightarrow> obs list \<Rightarrow> loop_state \<Rightarrow> loop_state \<times> session_end" where
  "run_loop e ses [] st = (st, Pending)"
| "run_loop e ses (ob # obs) st =
     (case cycle e ses ob st of
        (st1, Some r) \<Rightarrow> (st1, r)
      | (st1, None) \<Rightarrow> run_loop e ses obs st1)"

definition start_state :: "manifest \<Rightarrow> tick_writer \<Rightarrow> loop_state" where
  "start_state m w =
     \<lparr>ls_start = None, ls_counters = ZERO_COUNTERS, ls_seen = [], ls_index = 0, ls_cycles = 0,
      ls_failures = 0, ls_writer = w, ls_manifest = m, ls_stamps = []\<rparr>"

section \<open>Starting a session\<close>

text \<open>What a session is started with: the date of the first clock reading, the flag's
  environment, the kill switch then, the calendar's bounds and the class-A loader's answer.\<close>

datatype class_a_error = ClassALeak | ClassAUnavailable | ClassAOther py_error

record session_start =
  ss_date :: string
  ss_environ :: "string dict"
  ss_kill :: bool
  ss_bounds :: "(int \<times> int) option"
  ss_signal :: "class_a_error + json dict"
  ss_max_cycles :: "nat option"

definition class_a_of :: "json dict \<Rightarrow> json dict" where
  "class_a_of signal =
     map (\<lambda>k. (k, dget signal k JNull)) [''signal_version'', ''as_of'', ''source_run_id'', ''score_content_sha256'']
     @ [(''scores'', py_or (dget signal ''scores'' JNull) (JObj []))]"

definition refuse :: "string \<Rightarrow> loop_state \<Rightarrow> loop_state \<times> session_end" where
  "refuse status st = (stamp_status status st, Returned status)"

definition run_session ::
    "env \<Rightarrow> session_config \<Rightarrow> session_start \<Rightarrow> tick_writer \<Rightarrow> obs list \<Rightarrow> loop_state \<times> session_end" where
  "run_session e cfg ss w obs =
     (let (mode, downgrade) = resolve_mode cfg; st = start_state (init_manifest cfg mode downgrade) w in
      if sc_errors cfg \<noteq> [] then refuse ''disabled_config_invalid'' (note_errors (map ConfigProblem (sc_errors cfg)) st)
      else if \<not> sc_enabled cfg then refuse ''disabled_config'' st
      else if \<not> env_flag_enabled (ss_environ ss) then refuse ''disabled_env_flag'' st
      else if ss_kill ss then
        refuse ''halted_kill_switch'' (st\<lparr>ls_manifest := (ls_manifest st)\<lparr>mf_kill_engaged := True\<rparr>\<rparr>)
      else case ss_bounds ss of None \<Rightarrow> refuse ''non_session_day'' st | Some bounds \<Rightarrow>
      case windows_from_bounds bounds cfg of Inl x \<Rightarrow> (st, Raised (PyError x)) | Inr wins \<Rightarrow>
      let st1 = st\<lparr>ls_manifest := (ls_manifest st)\<lparr>mf_windows := Some wins\<rparr>\<rparr> in
      case ss_signal ss of
        Inl ClassALeak \<Rightarrow> refuse ''aborted_class_a_leak'' (note_errors [ErrorRaised (InputError SignalLeakError)] st1)
      | Inl ClassAUnavailable \<Rightarrow> refuse ''aborted_class_a_unavailable'' (note_errors [NoFrozenSignal] st1)
      | Inl (ClassAOther x) \<Rightarrow> (st1, Raised (PyError x))
      | Inr signal \<Rightarrow>
          (case assert_signal_predates_session signal (ss_date ss) of
             Inl x \<Rightarrow> refuse ''aborted_class_a_leak'' (note_errors [ErrorRaised (InputError x)] st1)
           | Inr u \<Rightarrow>
               run_loop e \<lparr>ses_date = ss_date ss, ses_mode = mode, ses_windows = wins, ses_signal = signal,
                           ses_max_cycles = ss_max_cycles ss\<rparr> obs
                 (stamp_status ''running''
                    (st1\<lparr>ls_manifest := (ls_manifest st1)\<lparr>mf_class_a := Some (class_a_of signal)\<rparr>\<rparr>))))"

definition OK_STATUSES :: "string list" where
  "OK_STATUSES = [''completed'', ''stopped_max_cycles'', ''non_session_day'', ''disabled_config'', ''disabled_env_flag'']"

text \<open>The process exit code; an exception is the interpreter's exit code 1.\<close>

definition exit_code :: "session_end \<Rightarrow> int option" where
  "exit_code r = (case r of Returned s \<Rightarrow> Some (if s \<in> set OK_STATUSES then 0 else 1) | Raised x \<Rightarrow> Some 1 | Pending \<Rightarrow> None)"


section \<open>Facts about a tick\<close>

definition only_exits :: "json dict \<Rightarrow> bool" where
  "only_exits d \<longleftrightarrow> (\<exists>is. dget d ''intents'' JNull = JList (map JObj is) \<and> list_all is_exit is)"

lemma normalize_counters:
  "normalize_tick_result raw = Inr d \<Longrightarrow> \<exists>c. dget d ''counters'' JNull = JObj c"
  by (auto simp: normalize_tick_result_def Let_def split: json.splits sum.splits)

lemma policy_counters:
  assumes "apply_entry_window_policy d ph before = Inr p" and "dget d ''counters'' JNull = JObj c"
  shows "\<exists>c'. dget p ''counters'' JNull = JObj c'" and "ph = PHASE_EXITS_ONLY \<Longrightarrow> only_exits p"
proof -
  have "(\<exists>c'. dget p ''counters'' JNull = JObj c') \<and> (ph = PHASE_EXITS_ONLY \<longrightarrow> only_exits p)"
  proof (cases "ph = PHASE_EXITS_ONLY")
    case False
    with assms show ?thesis by (auto simp: apply_entry_window_policy_def)
  next
    case True
    obtain ss cs "is" kept skipped' c' where
      l: "policy_loop before is ([], ss, cs) = Inr (kept, skipped', c')"
      and p: "p = dset (dset (dset d ''intents'' (JList (map JObj kept))) ''skipped'' (JList skipped')) ''counters'' (JObj c')"
      using assms(1) True by (auto simp: apply_entry_window_policy_def split: sum.splits)
    have "kept = filter is_exit is" using policy_loop_Inr [OF l] by simp
    then have "list_all is_exit kept" by (simp add: list_all_iff)
    then show ?thesis by (auto simp: p only_exits_def)
  qed
  then show "\<exists>c'. dget p ''counters'' JNull = JObj c'" and "ph = PHASE_EXITS_ONLY \<Longrightarrow> only_exits p" by auto
qed

lemma strip_keeps: "k \<notin> {''decision_trace'', ''decision_trace_stripped''} \<Longrightarrow>
    dget (strip_noop_decision_trace d) k v = dget d k v"
proof -
  assume k: "k \<notin> {''decision_trace'', ''decision_trace_stripped''}"
  have "map_of (filter (\<lambda>(k, v). k \<noteq> ''decision_trace'') d) k = map_of d k"
    using k by (induction d) auto
  with k show ?thesis by (simp add: strip_noop_decision_trace_def dget_def)
qed

lemma tick_decisions_Inr:
  assumes "tick_decisions ses ob ph rq = Inr p"
  shows "ses_mode ses = MODE_SHADOW" and "clean (JObj (strip_noop_decision_trace p))"
    and "\<exists>c. dget p ''counters'' JNull = JObj c"
    and "ph = PHASE_EXITS_ONLY \<Longrightarrow> only_exits (strip_noop_decision_trace p)"
proof -
  obtain raw d where d: "normalize_tick_result raw = Inr d"
    and p: "apply_entry_window_policy d ph (rq_counters rq) = Inr p"
    and a: "assert_shadow_never_submits (ses_mode ses) p = Inr ()"
    using assms by (auto simp: tick_decisions_def split: sum.splits)
  show "ses_mode ses = MODE_SHADOW"
    using a by (simp add: assert_shadow_never_submits_def split: if_splits)
  have "clean (JObj p)"
    using a scan_clean(1) [of "JObj p" "[]"] by (simp add: assert_shadow_never_submits_def split: if_splits)
  then show "clean (JObj (strip_noop_decision_trace p))" by (rule clean_strip)
  obtain c where c: "dget d ''counters'' JNull = JObj c" using normalize_counters [OF d] by blast
  show "\<exists>c. dget p ''counters'' JNull = JObj c" by (rule policy_counters(1) [OF p c])
  show "only_exits (strip_noop_decision_trace p)" if "ph = PHASE_EXITS_ONLY"
    using policy_counters(2) [OF p c that] by (simp add: only_exits_def strip_keeps)
qed

text \<open>A record as the session writes it.\<close>

definition session_record :: "env \<Rightarrow> session \<Rightarrow> phase \<Rightarrow> nat \<Rightarrow> json dict \<Rightarrow> bool" where
  "session_record e ses ph idx r \<longleftrightarrow>
     (\<exists>ob rq d. r = tick_record e ses ob ph idx rq d \<and> ph = phase_at (ses_windows ses) (ob_now ob) \<and>
        ses_mode ses = MODE_SHADOW \<and> clean (JObj d) \<and> (ph = PHASE_EXITS_ONLY \<longrightarrow> only_exits d))"

lemma tick_record_get:
  "dget (tick_record e ses ob ph idx rq d) ''kind'' JNull = JStr RECORD_KIND_TICK"
  "dget (tick_record e ses ob ph idx rq d) ''session_date'' JNull = JStr (ses_date ses)"
  "dget (tick_record e ses ob ph idx rq d) ''tick_index'' v = JInt (int idx)"
  "dget (tick_record e ses ob ph idx rq d) ''mode'' JNull = JStr (ses_mode ses)"
  "dget (tick_record e ses ob ph idx rq d) ''window_phase'' JNull = JStr (phase_name ph)"
  "dget (tick_record e ses ob ph idx rq d) ''decisions'' JNull = JObj d"
  by (simp_all add: tick_record_def dget_def)

lemma tick_record_is_tick:
  "is_tick RECORD_KIND_TICK (tick_record e ses ob ph idx rq d)"
  "key_of (tick_record e ses ob ph idx rq d) = (ses_date ses, int idx)"
  by (simp_all add: is_tick_def key_of_def tick_key_def tick_record_get)

definition appended :: "session \<Rightarrow> nat \<Rightarrow> json dict \<Rightarrow> tick_writer \<Rightarrow> tick_writer" where
  "appended ses idx r w =
     (if (ses_date ses, int idx) \<in> set (seen_keys w) then w
      else \<lparr>log_lines = log_lines w @ [Some (JObj r)], seen_keys = List.insert (ses_date ses, int idx) (seen_keys w)\<rparr>)"

lemma run_tick_cases:
  assumes "run_tick e ses ob (phase_at (ses_windows ses) (ob_now ob)) idx start counters seen w = (w', res)"
  shows "(w' = w \<and> (\<exists>x. res = Inl x)) \<or>
    (\<exists>r t. res = Inr t \<and> session_record e ses (phase_at (ses_windows ses) (ob_now ob)) idx r \<and> w' = appended ses idx r w)"
proof -
  let ?ph = "phase_at (ses_windows ses) (ob_now ob)"
  show ?thesis
  proof (cases "tick_inputs e ses ob start counters seen")
    case (Inl x)
    with assms show ?thesis by (auto simp: run_tick_def)
  next
    case i: (Inr rq)
    show ?thesis
    proof (cases "tick_decisions ses ob ?ph rq")
      case (Inl x)
      with assms i show ?thesis by (auto simp: run_tick_def)
    next
      case (Inr p)
      let ?d = "strip_noop_decision_trace p"
      let ?r = "tick_record e ses ob ?ph idx rq ?d"
      from tick_decisions_Inr [OF Inr] obtain c where c: "dget p ''counters'' JNull = JObj c"
        and rec: "session_record e ses ?ph idx ?r" by (auto simp: session_record_def)
      have "py_dict (py_or (JObj c) (JObj counters)) = Inr (if c = [] then counters else c)"
        by (simp add: py_or_def py_dict_def)
      moreover have "append_tick ?r w = Inr (appended ses idx ?r w, (ses_date ses, int idx) \<notin> set (seen_keys w))"
        by (simp add: append_tick_cases [OF tick_record_is_tick(1)] tick_record_is_tick appended_def)
      ultimately have "w' = appended ses idx ?r w \<and> (\<exists>t. res = Inr t)"
        using assms i Inr c by (auto simp: run_tick_def Let_def)
      with rec show ?thesis by blast
    qed
  qed
qed

section \<open>Facts about a cycle\<close>

lemma stamp_status_sel [simp]:
  "ls_writer (stamp_status s st) = ls_writer st" "ls_index (stamp_status s st) = ls_index st"
  "ls_failures (stamp_status s st) = ls_failures st" "ls_cycles (stamp_status s st) = ls_cycles st"
  "mf_tick_count (ls_manifest (stamp_status s st)) = mf_tick_count (ls_manifest st)"
  "mf_status (ls_manifest (stamp_status s st)) = s"
  "mf_input_errors (ls_manifest (stamp_status s st)) = mf_input_errors (ls_manifest st)"
  by (simp_all add: stamp_status_def Let_def)

lemma note_errors_sel [simp]:
  "ls_writer (note_errors es st) = ls_writer st" "ls_index (note_errors es st) = ls_index st"
  "ls_failures (note_errors es st) = ls_failures st" "ls_cycles (note_errors es st) = ls_cycles st"
  "mf_tick_count (ls_manifest (note_errors es st)) = mf_tick_count (ls_manifest st)"
  "mf_input_errors (ls_manifest (note_errors es st)) = mf_input_errors (ls_manifest st)"
  by (simp_all add: note_errors_def)

lemma record_skipped_sel [simp]:
  "ls_writer (record_skipped_tick e ob ph st) = ls_writer st" "ls_index (record_skipped_tick e ob ph st) = ls_index st"
  "ls_failures (record_skipped_tick e ob ph st) = ls_failures st" "ls_cycles (record_skipped_tick e ob ph st) = ls_cycles st"
  "mf_tick_count (ls_manifest (record_skipped_tick e ob ph st)) = mf_tick_count (ls_manifest st)"
  "mf_input_errors (ls_manifest (record_skipped_tick e ob ph st)) = mf_input_errors (ls_manifest st) + 1"
  by (simp_all add: record_skipped_tick_def Let_def)

lemma accept_tick_sel [simp]:
  "ls_writer (accept_tick e ob t st) = ls_writer st" "ls_index (accept_tick e ob t st) = ls_index st + 1"
  "ls_failures (accept_tick e ob t st) = 0" "ls_cycles (accept_tick e ob t st) = ls_cycles st"
  "mf_tick_count (ls_manifest (accept_tick e ob t st)) = ls_index st + 1"
  by (simp_all add: accept_tick_def Let_def)

lemma end_cycle_sel:
  "ls_writer (fst (end_cycle ses st)) = ls_writer st" "ls_index (fst (end_cycle ses st)) = ls_index st"
  "ls_failures (fst (end_cycle ses st)) = ls_failures st" "ls_cycles (fst (end_cycle ses st)) = ls_cycles st + 1"
  "mf_tick_count (ls_manifest (fst (end_cycle ses st))) = mf_tick_count (ls_manifest st)"
  by (auto simp: end_cycle_def Let_def split: option.split)

lemma reject_tick_sel:
  "ls_writer (fst (reject_tick e ob ph x st)) = ls_writer st" "ls_index (fst (reject_tick e ob ph x st)) = ls_index st"
  "mf_tick_count (ls_manifest (fst (reject_tick e ob ph x st))) = mf_tick_count (ls_manifest st)"
  "ls_cycles (fst (reject_tick e ob ph x st)) = ls_cycles st"
  by (auto simp: reject_tick_def Let_def)

text \<open>What a cycle does to the log and the index: nothing, or one record at the current index.\<close>

definition log_step :: "env \<Rightarrow> session \<Rightarrow> loop_state \<Rightarrow> loop_state \<Rightarrow> bool" where
  "log_step e ses st st' \<longleftrightarrow>
     (ls_writer st' = ls_writer st \<and> ls_index st' = ls_index st \<and>
        mf_tick_count (ls_manifest st') = mf_tick_count (ls_manifest st)) \<or>
     (\<exists>ph r. ph \<in> {PHASE_ENTRIES_OPEN, PHASE_EXITS_ONLY} \<and> session_record e ses ph (ls_index st) r \<and>
        ls_writer st' = appended ses (ls_index st) r (ls_writer st) \<and> ls_index st' = ls_index st + 1 \<and>
        mf_tick_count (ls_manifest st') = ls_index st')"

lemma decide_log:
  assumes "phase_at (ses_windows ses) (ob_now ob) = ph" and "ph \<in> {PHASE_ENTRIES_OPEN, PHASE_EXITS_ONLY}"
  shows "log_step e ses st (fst (decide_tick e ses ob ph start st))"
proof -
  obtain w' res where run: "run_tick e ses ob ph (ls_index st) start (ls_counters st) (ls_seen st) (ls_writer st) = (w', res)"
    by (cases "run_tick e ses ob ph (ls_index st) start (ls_counters st) (ls_seen st) (ls_writer st)")
  from run_tick_cases [OF run [folded assms(1)]] show ?thesis
  proof (elim disjE conjE exE)
    fix x
    assume "w' = ls_writer st" "res = Inl x"
    with run show ?thesis by (simp add: decide_tick_def log_step_def reject_tick_sel)
  next
    fix r t
    assume "res = Inr t" "session_record e ses (phase_at (ses_windows ses) (ob_now ob)) (ls_index st) r"
      "w' = appended ses (ls_index st) r (ls_writer st)"
    with run assms show ?thesis
      unfolding decide_tick_def log_step_def by (intro disjI2 exI [of _ ph] exI [of _ r]) simp
  qed
qed

lemma log_step_cong:
  "log_step e ses st st1 \<Longrightarrow> ls_writer st2 = ls_writer st1 \<Longrightarrow> ls_index st2 = ls_index st1 \<Longrightarrow>
   mf_tick_count (ls_manifest st2) = mf_tick_count (ls_manifest st1) \<Longrightarrow> log_step e ses st st2"
  by (auto simp: log_step_def)

lemma decision_cycle_log:
  assumes "phase_at (ses_windows ses) (ob_now ob) = ph" and "ph \<in> {PHASE_ENTRIES_OPEN, PHASE_EXITS_ONLY}"
  shows "log_step e ses st (fst (decision_cycle e ses ob ph st))"
proof (cases "ls_start st")
  case (Some start)
  then show ?thesis using decide_log [OF assms] by (simp add: decision_cycle_def)
next
  case None
  show ?thesis
  proof (cases "ob_gates ob")
    case (Inl x)
    with None show ?thesis by (simp add: decision_cycle_def log_step_def)
  next
    case (Inr gates)
    let ?start = "capture_session_start (hash_json e) gates (iso_et e (ob_now ob))"
    let ?st = "st\<lparr>ls_start := Some ?start, ls_manifest := (ls_manifest st)\<lparr>mf_class_b := Some ?start\<rparr>\<rparr>"
    have "log_step e ses ?st (fst (decide_tick e ses ob ph ?start ?st))" by (rule decide_log [OF assms])
    then have "log_step e ses st (fst (decide_tick e ses ob ph ?start ?st))" by (simp add: log_step_def)
    with None Inr show ?thesis by (simp add: decision_cycle_def Let_def)
  qed
qed

lemma cycle_log: "log_step e ses st (fst (cycle e ses ob st))"
proof (cases "ob_kill ob")
  case True
  then show ?thesis by (simp add: cycle_def log_step_def)
next
  case False
  define ph where "ph = phase_at (ses_windows ses) (ob_now ob)"
  show ?thesis
  proof (cases "ph \<in> {PHASE_ENTRIES_OPEN, PHASE_EXITS_ONLY}")
    case True
    obtain st1 r where d: "decision_cycle e ses ob ph st = (st1, r)"
      by (cases "decision_cycle e ses ob ph st")
    have "log_step e ses st st1" using decision_cycle_log [OF ph_def [symmetric] True, of e st] d by simp
    then have "log_step e ses st (fst (end_cycle ses st1))" by (rule log_step_cong) (simp_all add: end_cycle_sel)
    with \<open>log_step e ses st st1\<close> d False True show ?thesis
      by (cases r) (auto simp: cycle_def Let_def simp flip: ph_def)
  next
    case other: False
    have "log_step e ses st (fst (end_cycle ses st))" by (simp add: log_step_def end_cycle_sel)
    with False other show ?thesis by (auto simp: cycle_def Let_def log_step_def simp flip: ph_def)
  qed
qed


section \<open>Facts about the loop\<close>

definition new_indices :: "session \<Rightarrow> tick_writer \<Rightarrow> nat \<Rightarrow> nat list" where
  "new_indices ses w n = filter (\<lambda>i. (ses_date ses, int i) \<notin> set (seen_keys w)) [0..<n]"

definition log_inv :: "env \<Rightarrow> session \<Rightarrow> tick_writer \<Rightarrow> loop_state \<Rightarrow> bool" where
  "log_inv e ses w st \<longleftrightarrow> mf_tick_count (ls_manifest st) = ls_index st \<and>
     (\<exists>xs. log_lines (ls_writer st) = log_lines w @ map (Some \<circ> JObj) xs \<and>
        set (seen_keys (ls_writer st)) = set (seen_keys w) \<union> key_of ` set xs \<and>
        list_all (\<lambda>x. \<exists>ph idx. ph \<in> {PHASE_ENTRIES_OPEN, PHASE_EXITS_ONLY} \<and> session_record e ses ph idx x) xs \<and>
        map key_of xs = map (\<lambda>i. (ses_date ses, int i)) (new_indices ses w (ls_index st)))"

lemma session_record_key: "session_record e ses ph idx r \<Longrightarrow> key_of r = (ses_date ses, int idx)"
  by (auto simp: session_record_def tick_record_is_tick)

lemma log_inv_step:
  assumes "log_inv e ses w st" and "log_step e ses st st'"
  shows "log_inv e ses w st'"
proof -
  from assms(1) obtain xs where xs: "mf_tick_count (ls_manifest st) = ls_index st"
    "log_lines (ls_writer st) = log_lines w @ map (Some \<circ> JObj) xs"
    "set (seen_keys (ls_writer st)) = set (seen_keys w) \<union> key_of ` set xs"
    "list_all (\<lambda>x. \<exists>ph idx. ph \<in> {PHASE_ENTRIES_OPEN, PHASE_EXITS_ONLY} \<and> session_record e ses ph idx x) xs"
    "map key_of xs = map (\<lambda>i. (ses_date ses, int i)) (new_indices ses w (ls_index st))"
    by (auto simp: log_inv_def)
  from assms(2) consider
      "ls_writer st' = ls_writer st" "ls_index st' = ls_index st" "mf_tick_count (ls_manifest st') = mf_tick_count (ls_manifest st)"
    | ph r where "ph \<in> {PHASE_ENTRIES_OPEN, PHASE_EXITS_ONLY}" "session_record e ses ph (ls_index st) r"
        "ls_writer st' = appended ses (ls_index st) r (ls_writer st)" "ls_index st' = ls_index st + 1"
        "mf_tick_count (ls_manifest st') = ls_index st'"
    unfolding log_step_def by blast
  then show ?thesis
  proof cases
    case 1
    with assms(1) show ?thesis by (simp add: log_inv_def)
  next
    case 2
    let ?k = "(ses_date ses, int (ls_index st))"
    have "?k \<notin> key_of ` set xs"
    proof
      assume "?k \<in> key_of ` set xs"
      then have "?k \<in> set (map key_of xs)" by simp
      then show False unfolding xs(5) by (auto simp: new_indices_def)
    qed
    then have seen: "?k \<in> set (seen_keys (ls_writer st)) \<longleftrightarrow> ?k \<in> set (seen_keys w)" using xs(3) by blast
    show ?thesis
    proof (cases "?k \<in> set (seen_keys w)")
      case True
      with 2 seen have "ls_writer st' = ls_writer st" by (simp add: appended_def)
      moreover have "new_indices ses w (ls_index st + 1) = new_indices ses w (ls_index st)"
        using True by (simp add: new_indices_def)
      ultimately show ?thesis using 2 xs unfolding log_inv_def by (intro conjI exI [of _ xs]) auto
    next
      case False
      with 2 seen have w': "ls_writer st' = \<lparr>log_lines = log_lines (ls_writer st) @ [Some (JObj r)],
          seen_keys = List.insert ?k (seen_keys (ls_writer st))\<rparr>" by (simp add: appended_def)
      have "new_indices ses w (ls_index st + 1) = new_indices ses w (ls_index st) @ [ls_index st]"
        using False by (simp add: new_indices_def)
      moreover have "list_all (\<lambda>x. \<exists>ph idx. ph \<in> {PHASE_ENTRIES_OPEN, PHASE_EXITS_ONLY} \<and> session_record e ses ph idx x) (xs @ [r])"
        using xs(4) 2(1,2) by (simp only: list_all_append list.pred_inject) blast
      moreover have "log_lines (ls_writer st') = log_lines w @ map (Some \<circ> JObj) (xs @ [r])"
        "set (seen_keys (ls_writer st')) = set (seen_keys w) \<union> key_of ` set (xs @ [r])"
        unfolding w' using xs(2,3) session_record_key [OF 2(2)] by auto
      moreover have "mf_tick_count (ls_manifest st') = ls_index st'" by (rule 2(5))
      moreover have "map key_of (xs @ [r]) = map (\<lambda>i. (ses_date ses, int i)) (new_indices ses w (ls_index st')) "
        using calculation(1) xs(5) session_record_key [OF 2(2)] 2(4) by simp
      ultimately show ?thesis unfolding log_inv_def by blast
    qed
  qed
qed

lemma run_loop_inv: "log_inv e ses w st \<Longrightarrow> log_inv e ses w (fst (run_loop e ses obs st))"
proof (induction obs arbitrary: st)
  case (Cons ob obs)
  obtain st1 r where c: "cycle e ses ob st = (st1, r)" by (cases "cycle e ses ob st")
  have "log_inv e ses w st1" using log_inv_step [OF Cons.prems cycle_log [of e ses st ob]] c by simp
  with Cons.IH c show ?case by (cases r) auto
qed simp

lemma log_inv_start: "mf_tick_count (ls_manifest st) = 0 \<Longrightarrow> ls_index st = 0 \<Longrightarrow> ls_writer st = w \<Longrightarrow> log_inv e ses w st"
  by (simp add: log_inv_def new_indices_def)

lemma cycle_not_Pending: "snd (cycle e ses ob st) \<noteq> Some Pending"
proof -
  have "snd (reject_tick e ob ph x st) \<noteq> Some Pending" for ph x st
    by (auto simp: reject_tick_def Let_def)
  then have d: "snd (decide_tick e ses ob ph start st) \<noteq> Some Pending" for ph start st
    by (auto simp: decide_tick_def split: prod.split sum.split)
  then have "snd (decision_cycle e ses ob ph st) \<noteq> Some Pending" for ph st
    by (auto simp: decision_cycle_def Let_def split: option.split sum.split)
  moreover have "snd (end_cycle ses st) \<noteq> Some Pending" for st
    by (auto simp: end_cycle_def Let_def split: option.split)
  ultimately show ?thesis
    unfolding cycle_def Let_def by (auto split: prod.split option.split) (metis snd_conv)+
qed

lemma run_loop_append:
  "run_loop e ses (obs @ obs') st =
     (case run_loop e ses obs st of (st', r) \<Rightarrow> if r = Pending then run_loop e ses obs' st' else (st', r))"
proof (induction obs arbitrary: st)
  case (Cons ob obs)
  obtain st1 r where c: "cycle e ses ob st = (st1, r)" by (cases "cycle e ses ob st")
  with cycle_not_Pending [of e ses ob st] Cons show ?case by (cases r) auto
qed simp

lemma run_session_cases:
  "(\<exists>st r. run_session e cfg ss w obs = (st, r) \<and> ls_writer st = w \<and> ls_index st = 0 \<and> mf_tick_count (ls_manifest st) = 0) \<or>
   (\<exists>wins signal st. sc_errors cfg = [] \<and> sc_enabled cfg \<and> env_flag_enabled (ss_environ ss) \<and> \<not> ss_kill ss \<and>
      ls_writer st = w \<and> ls_index st = 0 \<and> ls_failures st = 0 \<and> mf_tick_count (ls_manifest st) = 0 \<and>
      run_session e cfg ss w obs = run_loop e \<lparr>ses_date = ss_date ss, ses_mode = MODE_SHADOW, ses_windows = wins,
          ses_signal = signal, ses_max_cycles = ss_max_cycles ss\<rparr> obs st)"
proof -
  have m: "\<exists>dg. resolve_mode cfg = (MODE_SHADOW, dg)" by (simp add: resolve_mode_def)
  then obtain dg where dg: "resolve_mode cfg = (MODE_SHADOW, dg)" by blast
  show ?thesis
  proof (cases "sc_errors cfg \<noteq> [] \<or> \<not> sc_enabled cfg \<or> \<not> env_flag_enabled (ss_environ ss) \<or> ss_kill ss")
    case True
    then show ?thesis
      by (intro disjI1) (auto simp: run_session_def dg Let_def refuse_def start_state_def init_manifest_def)
  next
    case False
    show ?thesis
    proof (cases "ss_bounds ss")
      case None
      with False show ?thesis
        by (intro disjI1) (simp add: run_session_def dg Let_def refuse_def start_state_def init_manifest_def)
    next
      case (Some bounds)
      show ?thesis
      proof (cases "windows_from_bounds bounds cfg")
        case (Inl x)
        with False Some show ?thesis
          by (intro disjI1) (simp add: run_session_def dg Let_def start_state_def init_manifest_def)
      next
        case wins: (Inr wins)
        show ?thesis
        proof (cases "\<exists>signal u. ss_signal ss = Inr signal \<and> assert_signal_predates_session signal (ss_date ss) = Inr u")
          case True
          then obtain signal u where sg: "ss_signal ss = Inr signal"
            "assert_signal_predates_session signal (ss_date ss) = Inr u" by blast
          let ?st0 = "start_state (init_manifest cfg MODE_SHADOW dg) w"
          let ?st1 = "?st0\<lparr>ls_manifest := (ls_manifest ?st0)\<lparr>mf_windows := Some wins, mf_class_a := Some (class_a_of signal)\<rparr>\<rparr>"
          have "run_session e cfg ss w obs = run_loop e \<lparr>ses_date = ss_date ss, ses_mode = MODE_SHADOW,
              ses_windows = wins, ses_signal = signal, ses_max_cycles = ss_max_cycles ss\<rparr> obs
              (stamp_status ''running'' ?st1)"
            using False Some wins sg by (simp add: run_session_def dg Let_def)
          then show ?thesis using False
            by (intro disjI2 exI [of _ wins] exI [of _ signal] exI [of _ "stamp_status ''running'' ?st1"])
              (simp add: start_state_def init_manifest_def)
        next
          case bad: False
          with False Some wins show ?thesis
            by (intro disjI1)
              (auto simp: run_session_def dg Let_def refuse_def start_state_def init_manifest_def
                split: sum.split class_a_error.split)
        qed
      qed
    qed
  qed
qed


section \<open>Properties\<close>

text \<open>What the log of a session may hold: a tick in shadow mode whose decisions have no submission
  key at any depth, from a decision phase, and past the cutoff with exits only.\<close>

definition safe_record :: "json dict \<Rightarrow> bool" where
  "safe_record x \<longleftrightarrow> dget x ''kind'' JNull = JStr RECORD_KIND_TICK \<and> dget x ''mode'' JNull = JStr MODE_SHADOW \<and>
     (\<exists>d. dget x ''decisions'' JNull = JObj d \<and> clean (JObj d) \<and>
        (dget x ''window_phase'' JNull = JStr ''entries_open'' \<or>
         (dget x ''window_phase'' JNull = JStr ''exits_only'' \<and> only_exits d)))"

lemma session_record_safe:
  "ph \<in> {PHASE_ENTRIES_OPEN, PHASE_EXITS_ONLY} \<Longrightarrow> session_record e ses ph idx x \<Longrightarrow> safe_record x"
  by (auto simp: session_record_def safe_record_def tick_record_get)


text \<open>The tick records a session appends carry its date and, in order, exactly those indices
  below its tick count that the log did not hold for that date: contiguous from 0 on a fresh log,
  whatever was skipped; but a session restarted on the same day starts again at 0, and its ticks
  are counted yet not written until its index passes those already in the log.\<close>

theorem session_tick_indices:
  "\<exists>xs. log_lines (ls_writer (fst (run_session e cfg ss w obs))) = log_lines w @ map (Some \<circ> JObj) xs \<and>
     map key_of xs = map (\<lambda>i. (ss_date ss, int i))
       (filter (\<lambda>i. (ss_date ss, int i) \<notin> set (seen_keys w))
          [0..<mf_tick_count (ls_manifest (fst (run_session e cfg ss w obs)))])"
proof -
  from run_session_cases [of e cfg ss w obs] show ?thesis
  proof (elim disjE exE conjE)
    fix st r
    assume "run_session e cfg ss w obs = (st, r)" "ls_writer st = w" "mf_tick_count (ls_manifest st) = 0"
    then show ?thesis by (intro exI [of _ "[]"]) simp
  next
    fix wins signal st
    let ?ses = "\<lparr>ses_date = ss_date ss, ses_mode = MODE_SHADOW, ses_windows = wins, ses_signal = signal,
      ses_max_cycles = ss_max_cycles ss\<rparr>"
    assume a: "ls_writer st = w" "ls_index st = 0" "mf_tick_count (ls_manifest st) = 0"
      "run_session e cfg ss w obs = run_loop e ?ses obs st"
    then have "log_inv e ?ses w (fst (run_session e cfg ss w obs))"
      by (simp add: run_loop_inv log_inv_start)
    then show ?thesis by (auto simp: log_inv_def new_indices_def)
  qed
qed

lemma cycle_stops:
  assumes "ob_kill ob \<or> phase_at (ses_windows ses) (ob_now ob) = PHASE_CLOSED"
  shows "\<exists>st' s. cycle e ses ob st = (st', Some (Returned s)) \<and> ls_writer st' = ls_writer st \<and> ls_index st' = ls_index st \<and>
    s = (if ob_kill ob then ''halted_kill_switch'' else ''completed'') \<and> mf_status (ls_manifest st') = s"
  using assms by (auto simp: cycle_def Let_def)

lemma decision_cycle_cycles: "ls_cycles (fst (decision_cycle e ses ob ph st)) = ls_cycles st"
proof -
  have "ls_cycles (fst (decide_tick e ses ob ph start st)) = ls_cycles st" for start st
    by (auto simp: decide_tick_def reject_tick_sel split: prod.split sum.split)
  then show ?thesis
    by (auto simp: decision_cycle_def Let_def split: option.split sum.split)
qed

lemma end_cycle_None:
  "end_cycle ses st = (st', None) \<Longrightarrow> ls_cycles st' = ls_cycles st + 1 \<and> (\<forall>n. ses_max_cycles ses = Some n \<longrightarrow> ls_cycles st' < n)"
  by (auto simp: end_cycle_def Let_def split: option.splits if_splits)

lemma cycle_None:
  assumes "cycle e ses ob st = (st', None)"
  shows "ls_cycles st' = ls_cycles st + 1 \<and> (\<forall>n. ses_max_cycles ses = Some n \<longrightarrow> ls_cycles st' < n)"
proof -
  define ph where "ph = phase_at (ses_windows ses) (ob_now ob)"
  obtain st1 r where d: "decision_cycle e ses ob ph st = (st1, r)" by (cases "decision_cycle e ses ob ph st")
  then have "ls_cycles st1 = ls_cycles st" using decision_cycle_cycles [of e ses ob ph st] by simp
  moreover have "end_cycle ses st = (st', None) \<or> end_cycle ses st1 = (st', None)"
    using assms d by (cases r) (auto simp: cycle_def Let_def simp flip: ph_def split: if_splits)
  ultimately show ?thesis using end_cycle_None by metis
qed

lemma run_loop_Pending:
  "run_loop e ses obs st = (st', Pending) \<Longrightarrow>
   ls_cycles st' = ls_cycles st + length obs \<and> (\<forall>n. ses_max_cycles ses = Some n \<and> obs \<noteq> [] \<longrightarrow> ls_cycles st' < n)"
proof (induction obs arbitrary: st)
  case (Cons ob obs)
  obtain st1 r where c: "cycle e ses ob st = (st1, r)" by (cases "cycle e ses ob st")
  with Cons.prems cycle_not_Pending [of e ses ob st] have r: "r = None" by (cases r) auto
  with Cons c have "run_loop e ses obs st1 = (st', Pending)" by simp
  from Cons.IH [OF this] cycle_None [OF c [unfolded r]] this show ?case by (cases obs) auto
qed simp

text \<open>C19: The session loop ends no later than the first cycle that sees the kill switch or reads a
  clock past the close, and then decides nothing in it: the kill switch wins over every phase. It
  also ends within the maximum number of cycles, when one is given.\<close>

theorem session_loop_ends:
  assumes "ob_kill ob \<or> phase_at (ses_windows ses) (ob_now ob) = PHASE_CLOSED"
  shows "snd (run_loop e ses (obs @ ob # obs') st) \<noteq> Pending \<and>
    (run_loop e ses obs st = (st1, Pending) \<longrightarrow>
       (\<exists>st2. run_loop e ses (obs @ ob # obs') st =
            (st2, Returned (if ob_kill ob then ''halted_kill_switch'' else ''completed'')) \<and>
          ls_writer st2 = ls_writer st1 \<and> ls_index st2 = ls_index st1)) \<and>
    (ses_max_cycles ses = Some n \<and> xs \<noteq> [] \<and> n \<le> ls_cycles st + length xs \<longrightarrow>
      snd (run_loop e ses xs st) \<noteq> Pending)"
proof -
  obtain st' r where run: "run_loop e ses obs st = (st', r)" by (cases "run_loop e ses obs st")
  from cycle_stops [OF assms] obtain st2 where st2:
    "cycle e ses ob st' = (st2, Some (Returned (if ob_kill ob then ''halted_kill_switch'' else ''completed'')))"
    "ls_writer st2 = ls_writer st'" "ls_index st2 = ls_index st'" by blast
  have "run_loop e ses (obs @ ob # obs') st =
      (if r = Pending then (st2, Returned (if ob_kill ob then ''halted_kill_switch'' else ''completed'')) else (st', r))"
    by (simp add: run_loop_append run st2)
  moreover have "snd (run_loop e ses xs st) \<noteq> Pending"
    if "ses_max_cycles ses = Some n" "xs \<noteq> []" "n \<le> ls_cycles st + length xs"
  proof
    assume "snd (run_loop e ses xs st) = Pending"
    then have "run_loop e ses xs st = (fst (run_loop e ses xs st), Pending)" by (metis prod.collapse)
    from run_loop_Pending [OF this] that show False by auto
  qed
  ultimately show ?thesis using run st2 by auto
qed

definition demo_session :: session where
  "demo_session = \<lparr>ses_date = ''2026-07-01'', ses_mode = MODE_SHADOW,
     ses_windows = \<lparr>w_open = 0, w_first = 10, w_cutoff = 20, w_close = 30\<rparr>, ses_signal = [], ses_max_cycles = Some 9\<rparr>"

definition demo_obs :: "int \<Rightarrow> bool \<Rightarrow> obs" where
  "demo_obs t k = \<lparr>ob_now = t, ob_kill = k, ob_gates = Inr [], ob_live = Inl TickInputUnavailable,
     ob_exits = Inr [], ob_runner = (\<lambda>rq. Inl ShadowModeViolation), ob_observer_raises = False\<rparr>"

definition demo_env :: env where
  "demo_env = \<lparr>hash_json = (\<lambda>j. ''h''), iso_et = (\<lambda>t. ''t''), calendar_id = ''c'', strategy_fingerprint = ''s''\<rparr>"

definition demo_state :: loop_state where
  "demo_state = start_state (init_manifest default_session_config MODE_SHADOW None) \<lparr>log_lines = [], seen_keys = []\<rparr>"

theorem session_loop_ends_witness:
  "snd (run_loop demo_env demo_session [demo_obs 5 False, demo_obs 12 True, demo_obs 15 False] demo_state) \<noteq> Pending"
proof -
  have "ob_kill (demo_obs 12 True) \<or> phase_at (ses_windows demo_session) (ob_now (demo_obs 12 True)) = PHASE_CLOSED"
    by (simp add: demo_obs_def)
  from session_loop_ends [OF this, of demo_env "[demo_obs 5 False]" "[demo_obs 15 False]" demo_state demo_state 9 "[]"]
  show ?thesis by simp
qed

text \<open>An observation of a decision phase in which the broker's state cannot be read.\<close>

definition unavailable :: "session \<Rightarrow> obs \<Rightarrow> bool" where
  "unavailable ses ob \<longleftrightarrow> \<not> ob_kill ob \<and>
     phase_at (ses_windows ses) (ob_now ob) \<in> {PHASE_ENTRIES_OPEN, PHASE_EXITS_ONLY} \<and>
     ob_live ob = Inl TickInputUnavailable \<and> (\<exists>g. ob_gates ob = Inr g)"

lemma decision_cycle_unavailable:
  assumes "unavailable ses ob"
  defines "ph \<equiv> phase_at (ses_windows ses) (ob_now ob)"
  obtains st1 where "decision_cycle e ses ob ph st = reject_tick e ob ph TickInputUnavailable st1"
    and "ls_writer st1 = ls_writer st" "ls_index st1 = ls_index st" "ls_failures st1 = ls_failures st"
    and "mf_input_errors (ls_manifest st1) = mf_input_errors (ls_manifest st)"
proof -
  have run: "run_tick e ses ob ph idx start c seen w = (w, Inl TickInputUnavailable)" for idx start c seen w
    using assms(1) by (simp add: unavailable_def run_tick_def tick_inputs_def)
  then have dec: "decide_tick e ses ob ph start s1 = reject_tick e ob ph TickInputUnavailable s1" for start s1
    by (simp add: decide_tick_def)
  obtain g where g: "ob_gates ob = Inr g" using assms(1) by (auto simp: unavailable_def)
  show ?thesis
  proof (cases "ls_start st")
    case (Some start)
    then show ?thesis by (intro that [of st]) (simp_all add: decision_cycle_def dec)
  next
    case None
    let ?start = "capture_session_start (hash_json e) g (iso_et e (ob_now ob))"
    show ?thesis
      by (rule that [of "st\<lparr>ls_start := Some ?start, ls_manifest := (ls_manifest st)\<lparr>mf_class_b := Some ?start\<rparr>\<rparr>"])
        (simp_all add: decision_cycle_def None g dec Let_def)
  qed
qed

lemma cycle_unavailable:
  assumes "unavailable ses ob" and "ses_max_cycles ses = None"
  shows "\<exists>st'. cycle e ses ob st = (st', if 5 \<le> ls_failures st + 1 then Some (Raised TickInputUnavailable) else None) \<and>
    ls_writer st' = ls_writer st \<and> ls_index st' = ls_index st \<and> ls_failures st' = ls_failures st + 1 \<and>
    mf_input_errors (ls_manifest st') = mf_input_errors (ls_manifest st) + 1 \<and>
    (5 \<le> ls_failures st + 1 \<longrightarrow> mf_status (ls_manifest st') = ''halted_tick_error'')"
proof -
  define ph where "ph = phase_at (ses_windows ses) (ob_now ob)"
  obtain st1 where d: "decision_cycle e ses ob ph st = reject_tick e ob ph TickInputUnavailable st1"
    and st1: "ls_writer st1 = ls_writer st" "ls_index st1 = ls_index st" "ls_failures st1 = ls_failures st"
      "mf_input_errors (ls_manifest st1) = mf_input_errors (ls_manifest st)"
    using decision_cycle_unavailable [OF assms(1), of e st] unfolding ph_def by blast
  have ph: "\<not> ob_kill ob" "ph = PHASE_ENTRIES_OPEN \<or> ph = PHASE_EXITS_ONLY" "ph \<noteq> PHASE_CLOSED"
    using assms(1) by (auto simp: unavailable_def ph_def)
  have c: "cycle e ses ob st = (case reject_tick e ob ph TickInputUnavailable st1 of
      (s, Some r) \<Rightarrow> (s, Some r) | (s, None) \<Rightarrow> end_cycle ses s)"
    using ph d by (simp add: cycle_def Let_def flip: ph_def)
  show ?thesis
  proof (cases "5 \<le> ls_failures st + 1")
    case True
    then show ?thesis
      by (simp add: c reject_tick_def Let_def MAX_CONSECUTIVE_TICK_INPUT_FAILURES_def st1)
  next
    case False
    then show ?thesis
      by (simp add: c reject_tick_def Let_def MAX_CONSECUTIVE_TICK_INPUT_FAILURES_def st1 end_cycle_def assms(2))
  qed
qed

text \<open>A run of cycles whose broker state is unavailable writes nothing and consumes no index; each
  is counted; fewer than five in a row leave the session running, and the fifth halts it with the
  error raised and the status stamped.\<close>

theorem sustained_outage_halts:
  assumes "list_all (unavailable ses) obs" and "ses_max_cycles ses = None" and "ls_failures st = f" and "f < 5"
  shows "\<exists>st'. run_loop e ses obs st =
      (st', if f + length obs < MAX_CONSECUTIVE_TICK_INPUT_FAILURES then Pending else Raised TickInputUnavailable) \<and>
    ls_writer st' = ls_writer st \<and> ls_index st' = ls_index st \<and>
    mf_input_errors (ls_manifest st') = mf_input_errors (ls_manifest st) + min (length obs) (5 - f) \<and>
    (5 \<le> f + length obs \<longrightarrow> mf_status (ls_manifest st') = ''halted_tick_error'')"
  using assms(1,3,4)
proof (induction obs arbitrary: st f)
  case Nil
  then show ?case by (simp add: MAX_CONSECUTIVE_TICK_INPUT_FAILURES_def)
next
  case (Cons ob obs)
  from cycle_unavailable [OF _ assms(2), of ob e st] Cons.prems obtain st1 where st1:
    "cycle e ses ob st = (st1, if 5 \<le> f + 1 then Some (Raised TickInputUnavailable) else None)"
    "ls_writer st1 = ls_writer st" "ls_index st1 = ls_index st" "ls_failures st1 = f + 1"
    "mf_input_errors (ls_manifest st1) = mf_input_errors (ls_manifest st) + 1"
    "5 \<le> f + 1 \<longrightarrow> mf_status (ls_manifest st1) = ''halted_tick_error''"
    by auto
  show ?case
  proof (cases "5 \<le> f + 1")
    case True
    with st1 Cons.prems show ?thesis by (simp add: MAX_CONSECUTIVE_TICK_INPUT_FAILURES_def)
  next
    case False
    then have "f + 1 < 5" by simp
    from Cons.IH [OF _ st1(4) this] Cons.prems obtain st2 where
      "run_loop e ses obs st1 =
        (st2, if f + 1 + length obs < MAX_CONSECUTIVE_TICK_INPUT_FAILURES then Pending else Raised TickInputUnavailable)"
      "ls_writer st2 = ls_writer st1" "ls_index st2 = ls_index st1"
      "mf_input_errors (ls_manifest st2) = mf_input_errors (ls_manifest st1) + min (length obs) (5 - (f + 1))"
      "5 \<le> f + 1 + length obs \<longrightarrow> mf_status (ls_manifest st2) = ''halted_tick_error''" by auto
    with st1 False show ?thesis by auto
  qed
qed

theorem sustained_outage_halts_witness:
  "snd (run_loop demo_env (demo_session\<lparr>ses_max_cycles := None\<rparr>) (map (\<lambda>i. demo_obs i False) [11, 12, 13, 14, 15, 16]) demo_state)
     = Raised TickInputUnavailable"
proof -
  have "list_all (unavailable (demo_session\<lparr>ses_max_cycles := None\<rparr>)) (map (\<lambda>i. demo_obs i False) [11, 12, 13, 14, 15, 16])"
    by (simp add: unavailable_def demo_obs_def demo_session_def phase_at_def)
  from sustained_outage_halts [OF this, of demo_state 0 demo_env] show ?thesis
    by (auto simp: demo_session_def demo_state_def start_state_def MAX_CONSECUTIVE_TICK_INPUT_FAILURES_def)
qed

end
