(* ===== verification/LiveAuthorization.thy ===== *)
theory LiveAuthorization
  imports SessionPolicy PyTime
begin

text \<open>
  \<open>intraday_live_executor.py\<close>, part 1: the authorization file of the live stage,
  \<open>Stage2Authorization.authorization_from_payload\<close> and \<open>load_stage2_authorization\<close>. Every violation is collected, in
  the order of the code; the texts are left out. The artifact hash is an argument. A file is
  absent, unreadable, or the JSON value it holds.
\<close>

section \<open>Constants and data\<close>

definition MIN_SHADOW_SESSIONS_CLEAN :: int where "MIN_SHADOW_SESSIONS_CLEAN = 5"

definition MIN_SHADOW_SESSIONS_CLEAN_PAPER :: int where "MIN_SHADOW_SESSIONS_CLEAN_PAPER = 1"

definition MAX_AUTHORIZATION_WINDOW_DAYS :: int where "MAX_AUTHORIZATION_WINDOW_DAYS = 31"

definition MAX_CANARY_LIVE_SESSIONS :: int where "MAX_CANARY_LIVE_SESSIONS = 20"

definition ORDER_TYPES :: "string list" where "ORDER_TYPES = [''limit'', ''market'']"

datatype json_file = FileAbsent | FileUnreadable | FileJson json

datatype auth_error = NoAuthor | BadDate string json | PostDated string | Expired string
  | WindowTooLong int | CapNotNumber json | CapNotPositive json
  | AllowlistMissing | AllowlistNull | AllowlistNotList json | NotASymbol json | AllowlistEmpty
  | LossMissing | LossNotNumber json | LossNotPositive json
  | SessionsNotInt json | SessionsOutside int
  | NoEvidence | CleanNotInt json | CleanBelowFloor int | ReplayNotGreen json | NoTimingReport
  | OrderNotMapping json | BadOrderType string string | OffsetNotNumber json | OffsetOutside json

datatype auth_failure = Invalid "auth_error list" | AuthFileAbsent | AuthFileUnreadable
  | AuthNotObject | AuthRaised py_error

record authorization =
  au_by :: string
  au_date :: string
  au_expiry :: string
  au_cap :: pyfloat
  au_clean_sessions :: int
  au_timing_report :: string
  au_allowlist :: "string list"
  au_max_loss :: pyfloat
  au_max_sessions :: int
  au_entry_type :: string
  au_exit_type :: string
  au_offset_bps :: pyfloat
  au_sha :: string

section \<open>The fields\<close>

definition iso_date :: "json dict \<Rightarrow> string \<Rightarrow> string option \<times> auth_error list" where
  "iso_date payload key =
     (let raw = dget payload key JNull; s = py_str raw in
      case read_date s of None \<Rightarrow> (None, [BadDate key raw]) | Some d \<Rightarrow> (Some s, []))"

text \<open>The days between two dates that \<open>iso_date\<close> returned.\<close>

definition window_days :: "string \<Rightarrow> string \<Rightarrow> int" where
  "window_days from_day to_day = the (read_date to_day) - the (read_date from_day)"

definition date_errors :: "string option \<Rightarrow> string option \<Rightarrow> string \<Rightarrow> auth_error list" where
  "date_errors auth_date expiry today =
     (case auth_date of None \<Rightarrow> [] | Some d \<Rightarrow> if today < d then [PostDated d] else []) @
     (case expiry of None \<Rightarrow> [] | Some x \<Rightarrow> if x < today then [Expired x] else []) @
     (case (auth_date, expiry) of
        (Some d, Some x) \<Rightarrow>
          if MAX_AUTHORIZATION_WINDOW_DAYS < window_days d x then [WindowTooLong (window_days d x)] else []
      | _ \<Rightarrow> [])"

text \<open>\<open>float(raw)\<close>, which must be a positive finite amount.\<close>

definition positive_amount :: "(json \<Rightarrow> auth_error) \<Rightarrow> (json \<Rightarrow> auth_error) \<Rightarrow> json \<Rightarrow> pyfloat \<times> auth_error list" where
  "positive_amount not_number not_positive raw =
     (case py_float raw of
        Inl e \<Rightarrow> (Num 0, [not_number raw])
      | Inr x \<Rightarrow> if \<not> flt (Num 0) x \<or> \<not> feq x x \<or> x \<in> {PInf, NInf} then (x, [not_positive raw]) else (x, []))"

definition is_upper_char :: "char \<Rightarrow> bool" where
  "is_upper_char c \<longleftrightarrow> (let n = (of_char c :: nat) in 65 \<le> n \<and> n \<le> 90)"

text \<open>The pattern \<open>[A-Z][A-Z0-9.-]{0,9}\<close>.\<close>

fun plausible_symbol :: "string \<Rightarrow> bool" where
  "plausible_symbol [] = False"
| "plausible_symbol (c # cs) \<longleftrightarrow> is_upper_char c \<and> length cs \<le> 9 \<and>
     list_all (\<lambda>c. is_upper_char c \<or> is_digit c \<or> c = CHR ''.'' \<or> c = CHR ''-'') cs"

fun clean_symbols :: "json list \<Rightarrow> string list \<Rightarrow> string list \<times> auth_error list" where
  "clean_symbols [] cleaned = (cleaned, [])"
| "clean_symbols (item # items) cleaned =
     (let sym = py_upper (py_strip (py_str (py_or item (JStr [])))) in
      if \<not> plausible_symbol sym
      then (let (c, es) = clean_symbols items cleaned in (c, NotASymbol item # es))
      else clean_symbols items (if sym \<in> set cleaned then cleaned else cleaned @ [sym]))"

definition read_allowlist_field :: "json dict \<Rightarrow> string list \<times> auth_error list" where
  "read_allowlist_field payload =
     (case map_of payload ''canary_allowlist'' of
        None \<Rightarrow> ([], [AllowlistMissing])
      | Some JNull \<Rightarrow> ([], [AllowlistNull])
      | Some (JList items) \<Rightarrow>
          (let (cleaned, es) = clean_symbols items [] in
           (sort cleaned, es @ (if cleaned = [] \<and> es = [] then [AllowlistEmpty] else [])))
      | Some v \<Rightarrow> ([], [AllowlistNotList v]))"

definition read_max_loss :: "json dict \<Rightarrow> pyfloat \<times> auth_error list" where
  "read_max_loss payload =
     (case map_of payload ''max_cumulative_loss_usd'' of
        None \<Rightarrow> (Num 0, [LossMissing])
      | Some raw \<Rightarrow> positive_amount LossNotNumber LossNotPositive raw)"

definition read_max_sessions :: "json dict \<Rightarrow> int \<times> auth_error list" where
  "read_max_sessions payload =
     (case dget payload ''max_live_sessions'' (JInt MAX_CANARY_LIVE_SESSIONS) of
        JInt n \<Rightarrow> if 1 \<le> n \<and> n \<le> MAX_CANARY_LIVE_SESSIONS then (n, [])
                 else (MAX_CANARY_LIVE_SESSIONS, [SessionsOutside n])
      | v \<Rightarrow> (MAX_CANARY_LIVE_SESSIONS, [SessionsNotInt v]))"

text \<open>\<open>int\<close> raises \<open>OverflowError\<close> for an infinity, which the validation does not catch.\<close>

definition read_clean_sessions :: "bool \<Rightarrow> json \<Rightarrow> py_error + int \<times> auth_error list" where
  "read_clean_sessions paper raw =
     (case py_int raw of
        Inl OverflowError \<Rightarrow> Inl OverflowError
      | Inl e \<Rightarrow> Inr (0, [CleanNotInt raw])
      | Inr n \<Rightarrow> Inr (n, if n < (if paper then MIN_SHADOW_SESSIONS_CLEAN_PAPER else MIN_SHADOW_SESSIONS_CLEAN)
                        then [CleanBelowFloor n] else []))"

definition read_evidence :: "bool \<Rightarrow> json dict \<Rightarrow> py_error + int \<times> string \<times> auth_error list" where
  "read_evidence paper payload =
     (case dget payload ''evidence'' JNull of
        JObj evidence \<Rightarrow>
          (case read_clean_sessions paper (dget evidence ''shadow_sessions_clean'' JNull) of
             Inl e \<Rightarrow> Inl e
           | Inr (n, es) \<Rightarrow>
               (let green = dget evidence ''replay_audits_green'' JNull;
                    report = py_strip (py_str (py_or (dget evidence ''entry_timing_report'' JNull) (JStr []))) in
                Inr (n, report, es @ (if green \<noteq> JBool True then [ReplayNotGreen green] else []) @
                  (if report = [] then [NoTimingReport] else []))))
      | _ \<Rightarrow> Inr (0, [], [NoEvidence]))"

definition order_type_errors :: "string \<Rightarrow> string \<Rightarrow> auth_error list" where
  "order_type_errors key v = (if v \<in> set ORDER_TYPES then [] else [BadOrderType key v])"

definition read_order :: "json dict \<Rightarrow> string \<times> string \<times> pyfloat \<times> auth_error list" where
  "read_order payload =
     (case py_or (dget payload ''order'' JNull) (JObj []) of
        JObj order \<Rightarrow>
          (let entry = py_str (dget order ''entry_order_type'' (JStr ''limit''));
               exit_type = py_str (dget order ''exit_order_type'' (JStr ''market''));
               raw = dget order ''limit_price_offset_bps'' (JFloat (Num 0));
               types = order_type_errors ''entry_order_type'' entry @ order_type_errors ''exit_order_type'' exit_type in
           case py_float raw of
             Inl e \<Rightarrow> (entry, exit_type, Num 0, types @ [OffsetNotNumber raw])
           | Inr x \<Rightarrow> (entry, exit_type, x,
               types @ (if fle (Num 0) x \<and> fle x (Num 100) then [] else [OffsetOutside raw])))
      | v \<Rightarrow> (''limit'', ''market'', Num 0, [OrderNotMapping v]))"

section \<open>Validation\<close>

definition authorization_from_payload ::
    "(json dict \<Rightarrow> string) \<Rightarrow> json dict \<Rightarrow> string \<Rightarrow> bool \<Rightarrow> auth_failure + authorization" where
  "authorization_from_payload hash_jsonable payload today paper =
     (let by = py_strip (py_str (py_or (dget payload ''authorized_by'' JNull) (JStr [])));
          e0 = (if by = [] then [NoAuthor] else []);
          (auth_date, e1) = iso_date payload ''date'';
          (expiry, e2) = iso_date payload ''expiry'';
          e3 = date_errors auth_date expiry today;
          (cap, e4) = positive_amount CapNotNumber CapNotPositive (dget payload ''daily_entry_notional_cap'' JNull);
          (allow, e5) = read_allowlist_field payload;
          (loss, e6) = read_max_loss payload;
          (sessions, e7) = read_max_sessions payload in
      case read_evidence paper payload of
        Inl e \<Rightarrow> Inl (AuthRaised e)
      | Inr (n_clean, report, e8) \<Rightarrow>
          (let (entry, exit_type, offset, e9) = read_order payload;
               errors = e0 @ e1 @ e2 @ e3 @ e4 @ e5 @ e6 @ e7 @ e8 @ e9 in
           if errors \<noteq> [] then Inl (Invalid errors)
           else Inr \<lparr>au_by = by, au_date = the auth_date, au_expiry = the expiry, au_cap = cap,
             au_clean_sessions = n_clean, au_timing_report = report, au_allowlist = allow, au_max_loss = loss,
             au_max_sessions = sessions, au_entry_type = entry, au_exit_type = exit_type,
             au_offset_bps = offset, au_sha = hash_jsonable payload\<rparr>))"

definition load_authorization ::
    "(json dict \<Rightarrow> string) \<Rightarrow> json_file \<Rightarrow> string \<Rightarrow> bool \<Rightarrow> auth_failure + authorization" where
  "load_authorization hash_jsonable f today paper =
     (case f of
        FileAbsent \<Rightarrow> Inl AuthFileAbsent
      | FileUnreadable \<Rightarrow> Inl AuthFileUnreadable
      | FileJson (JObj payload) \<Rightarrow> authorization_from_payload hash_jsonable payload today paper
      | FileJson _ \<Rightarrow> Inl AuthNotObject)"

section \<open>What an accepted authorization guarantees\<close>

definition positive_finite :: "pyfloat \<Rightarrow> bool" where
  "positive_finite x \<longleftrightarrow> (\<exists>r. x = Num r \<and> 0 < r)"

lemma positive_amount_ok: "positive_amount f g raw = (x, []) \<Longrightarrow> positive_finite x"
  by (cases "py_float raw"; cases x) (simp_all add: positive_amount_def positive_finite_def split: if_splits)

lemma iso_date_ok: "iso_date payload key = (d, []) \<Longrightarrow> \<exists>s n. d = Some s \<and> read_date s = Some n"
  by (auto simp: iso_date_def Let_def split: option.splits)

lemma clean_symbols_ok:
  "clean_symbols items c = (c', []) \<Longrightarrow> distinct c \<Longrightarrow> list_all plausible_symbol c \<Longrightarrow>
   distinct c' \<and> list_all plausible_symbol c'"
  by (induction items arbitrary: c) (auto simp: Let_def split_beta split: if_splits)

lemma read_allowlist_ok:
  assumes "read_allowlist_field payload = (a, [])"
  shows "a \<noteq> [] \<and> sorted a \<and> distinct a \<and> list_all plausible_symbol a"
proof -
  from assms obtain items where "map_of payload ''canary_allowlist'' = Some (JList items)"
    by (auto simp: read_allowlist_field_def split: option.splits json.splits)
  with assms obtain c where "clean_symbols items [] = (c, [])" "c \<noteq> []" "a = sort c"
    by (auto simp: read_allowlist_field_def split_beta Let_def split: if_splits) (metis prod.collapse)+
  with clean_symbols_ok [of items "[]" c] show ?thesis
    by (auto simp: list_all_iff set_empty [symmetric] simp del: set_empty)
qed

lemma read_max_sessions_ok: "read_max_sessions payload = (n, es) \<Longrightarrow> 1 \<le> n \<and> n \<le> MAX_CANARY_LIVE_SESSIONS"
  by (auto simp: read_max_sessions_def MAX_CANARY_LIVE_SESSIONS_def split: json.splits if_splits)

lemma read_evidence_ok:
  "read_evidence paper payload = Inr (n, report, []) \<Longrightarrow>
   report \<noteq> [] \<and> (if paper then MIN_SHADOW_SESSIONS_CLEAN_PAPER else MIN_SHADOW_SESSIONS_CLEAN) \<le> n"
  by (auto simp: read_evidence_def read_clean_sessions_def Let_def split: json.splits sum.splits py_error.splits if_splits)

lemma read_order_ok:
  "read_order payload = (t, u, x, []) \<Longrightarrow> t \<in> set ORDER_TYPES \<and> u \<in> set ORDER_TYPES \<and> fle (Num 0) x \<and> fle x (Num 100)"
  by (auto simp: read_order_def order_type_errors_def Let_def ORDER_TYPES_def split: json.splits sum.splits if_splits)

text \<open>An accepted authorization is a bounded grant: it names a person, runs for at most 31
  days around today, carries a positive finite entry cap and loss budget, a non-empty sorted
  duplicate-free list of plausible symbols, between 1 and 20 sessions, the evidence floor of its
  mode, known order types and an offset within 0 and 100 basis points; and its identity is the
  hash of the file's own content.\<close>

theorem authorization_bounded:
  assumes "load_authorization hash_jsonable f today paper = Inr a"
  shows "au_by a \<noteq> [] \<and> au_date a \<le> today \<and> today \<le> au_expiry a \<and>
    window_days (au_date a) (au_expiry a) \<le> MAX_AUTHORIZATION_WINDOW_DAYS \<and>
    positive_finite (au_cap a) \<and> positive_finite (au_max_loss a) \<and>
    au_allowlist a \<noteq> [] \<and> sorted (au_allowlist a) \<and> distinct (au_allowlist a) \<and>
    list_all plausible_symbol (au_allowlist a) \<and>
    1 \<le> au_max_sessions a \<and> au_max_sessions a \<le> MAX_CANARY_LIVE_SESSIONS \<and>
    (if paper then MIN_SHADOW_SESSIONS_CLEAN_PAPER else MIN_SHADOW_SESSIONS_CLEAN) \<le> au_clean_sessions a \<and>
    au_timing_report a \<noteq> [] \<and> au_entry_type a \<in> set ORDER_TYPES \<and> au_exit_type a \<in> set ORDER_TYPES \<and>
    fle (Num 0) (au_offset_bps a) \<and> fle (au_offset_bps a) (Num 100) \<and>
    (\<exists>payload. f = FileJson (JObj payload) \<and> au_sha a = hash_jsonable payload)"
proof -
  from assms obtain payload where f: "f = FileJson (JObj payload)"
    and a: "authorization_from_payload hash_jsonable payload today paper = Inr a"
    by (auto simp: load_authorization_def split: json_file.splits json.splits)
  obtain d e1 where d: "iso_date payload ''date'' = (d, e1)" by fastforce
  obtain x e2 where x: "iso_date payload ''expiry'' = (x, e2)" by fastforce
  obtain cap e4 where cap: "positive_amount CapNotNumber CapNotPositive (dget payload ''daily_entry_notional_cap'' JNull) = (cap, e4)"
    by fastforce
  obtain al e5 where al: "read_allowlist_field payload = (al, e5)" by fastforce
  obtain loss e6 where loss: "read_max_loss payload = (loss, e6)" by fastforce
  obtain n e7 where n: "read_max_sessions payload = (n, e7)" by fastforce
  obtain c rep e8 where ev: "read_evidence paper payload = Inr (c, rep, e8)"
    using a by (cases "read_evidence paper payload") (auto simp: authorization_from_payload_def Let_def split_beta)
  obtain t u off e9 where o: "read_order payload = (t, u, off, e9)" by (metis prod_cases4)
  note parts = d x cap al loss n ev o
  have e: "e1 = []" "e2 = []" "e4 = []" "e5 = []" "e6 = []" "e7 = []" "e8 = []" "e9 = []" "date_errors d x today = []"
    and sel: "au_by a \<noteq> []" "au_date a = the d" "au_expiry a = the x" "au_cap a = cap" "au_clean_sessions a = c"
    "au_timing_report a = rep" "au_allowlist a = al" "au_max_loss a = loss" "au_max_sessions a = n"
    "au_entry_type a = t" "au_exit_type a = u" "au_offset_bps a = off" "au_sha a = hash_jsonable payload"
    using a by (auto simp: authorization_from_payload_def parts Let_def split: if_splits)
  from iso_date_ok [OF d [unfolded e]] iso_date_ok [OF x [unfolded e]] obtain ds xs where dx: "d = Some ds" "x = Some xs"
    by blast
  have dates: "\<not> today < ds" "\<not> xs < today" "window_days ds xs \<le> MAX_AUTHORIZATION_WINDOW_DAYS"
    using e(9) by (auto simp: date_errors_def dx not_less split: if_splits)
  from loss e have "positive_finite loss"
    by (auto simp: read_max_loss_def dest: positive_amount_ok split: option.splits)
  with positive_amount_ok [OF cap [unfolded e]] read_allowlist_ok [OF al [unfolded e]] read_max_sessions_ok [OF n]
    read_evidence_ok [OF ev [unfolded e]] read_order_ok [OF o [unfolded e]] dates sel f dx
  show ?thesis by auto
qed

definition demo_authorization :: "json dict" where
  "demo_authorization = [(''authorized_by'', JStr ''operator''), (''date'', JStr ''2026-07-01''), (''expiry'', JStr ''2026-07-31''),
     (''daily_entry_notional_cap'', JInt 500), (''canary_allowlist'', JList [JStr ''nvda'', JStr ''AAPL'']),
     (''max_cumulative_loss_usd'', JInt 150),
     (''evidence'', JObj [(''shadow_sessions_clean'', JInt 5), (''replay_audits_green'', JBool True),
        (''entry_timing_report'', JStr ''report.json'')])]"

lemma demo_authorization_loads:
  "map_sum id au_allowlist (load_authorization (\<lambda>p. ''sha'') (FileJson (JObj demo_authorization)) ''2026-07-10'' False)
     = Inr [''AAPL'', ''NVDA'']"
  by code_simp

theorem authorization_bounded_witness:
  "\<exists>a. load_authorization (\<lambda>p. ''sha'') (FileJson (JObj demo_authorization)) ''2026-07-10'' False = Inr a \<and>
     au_allowlist a = [''AAPL'', ''NVDA''] \<and> positive_finite (au_cap a)"
  using demo_authorization_loads
    authorization_bounded [of "\<lambda>p. ''sha''" "FileJson (JObj demo_authorization)" "''2026-07-10''" False]
  by (cases "load_authorization (\<lambda>p. ''sha'') (FileJson (JObj demo_authorization)) ''2026-07-10'' False") auto

text \<open>An infinite evidence count makes the validation raise instead of collecting a violation.\<close>

lemma infinite_evidence_raises:
  assumes "dget payload ''evidence'' JNull = JObj evidence"
    and "dget evidence ''shadow_sessions_clean'' JNull = JFloat PInf"
  shows "authorization_from_payload hash_jsonable payload today paper = Inl (AuthRaised OverflowError)"
  using assms by (simp add: authorization_from_payload_def read_evidence_def read_clean_sessions_def Let_def split_beta)

end
