(* ===== verification/CanaryEnvelope.thy ===== *)
theory CanaryEnvelope
  imports LiveAuthorization
begin

text \<open>
  \<open>intraday_live_executor.py\<close>, part 2: the canary envelope (\<open>CanaryEnvelopeTracker\<close>, the persisted
  loss budget and session counter), its read-only view for the arming gate, and the dead-man
  switch. The state file is a component of the state: every persisting step rewrites it. The text
  of a trip reason is a constant, its figures and the time stamps of the file are left out.
\<close>

section \<open>The tracker\<close>

datatype canary_error = StateUnreadable | StateMalformed py_error | SessionCeiling | CanaryRaised py_error

record cposition =
  cp_qty :: pyfloat
  cp_cost :: pyfloat

record canary =
  ca_auth :: authorization
  ca_sessions :: "string list"
  ca_positions :: "cposition dict"
  ca_realized :: pyfloat
  ca_marks :: "pyfloat dict"
  ca_tripped :: bool
  ca_reason :: "string option"
  ca_previous :: "json list"
  ca_file :: json_file

definition EPS :: rat where "EPS = 1 / 1000000000"

definition TRIP_TEXT :: string where
  "TRIP_TEXT = ''cumulative canary P&L breached the loss budget''"

text \<open>The file is written with sorted keys.\<close>

definition sorted_obj :: "('v \<Rightarrow> json) \<Rightarrow> 'v dict \<Rightarrow> json" where
  "sorted_obj f d = JObj (map (\<lambda>(k, v). (k, f v)) (sort_key fst d))"

definition position_json :: "cposition \<Rightarrow> json" where
  "position_json p = JObj [(''cost_basis'', JFloat (cp_cost p)), (''qty'', JFloat (cp_qty p))]"

definition canary_payload :: "canary \<Rightarrow> json dict" where
  "canary_payload c =
     [(''authorization_sha256'', JStr (au_sha (ca_auth c))),
      (''last_marks'', sorted_obj JFloat (ca_marks c)),
      (''loss_budget_tripped'', JBool (ca_tripped c)),
      (''positions'', sorted_obj position_json (ca_positions c)),
      (''previous_envelopes'', JList (ca_previous c)),
      (''realized_pnl_usd'', JFloat (ca_realized c)),
      (''schema_version'', JStr ''rq105-stage2-canary-state-v1''),
      (''sessions'', JList (map JStr (ca_sessions c))),
      (''trip_reason'', case ca_reason c of None \<Rightarrow> JNull | Some s \<Rightarrow> JStr s)]"

definition persist_canary :: "canary \<Rightarrow> canary" where
  "persist_canary c = c\<lparr>ca_file := FileJson (JObj (canary_payload c))\<rparr>"

section \<open>Reading the state\<close>

definition load_state_payload :: "json_file \<Rightarrow> canary_error + json dict option" where
  "load_state_payload f =
     (case f of
        FileAbsent \<Rightarrow> Inr None
      | FileJson (JObj p) \<Rightarrow> Inr (Some p)
      | _ \<Rightarrow> Inl StateUnreadable)"

definition fresh_canary :: "authorization \<Rightarrow> json_file \<Rightarrow> canary" where
  "fresh_canary a f = \<lparr>ca_auth = a, ca_sessions = [], ca_positions = [], ca_realized = Num 0, ca_marks = [],
     ca_tripped = False, ca_reason = None, ca_previous = [], ca_file = f\<rparr>"

text \<open>\<open>dict(row)\<close>; a non-empty sequence of pairs, which it also accepts, does not occur in the file.\<close>

fun dict_of :: "json \<Rightarrow> py_error + json dict" where
  "dict_of (JObj d) = Inr d"
| "dict_of (JList []) = Inr []"
| "dict_of (JStr []) = Inr []"
| "dict_of (JStr s) = Inl ValueError"
| "dict_of _ = Inl TypeError"

definition archived :: "json dict \<Rightarrow> json" where
  "archived p = JObj (map (\<lambda>k. (k, dget p k JNull))
     [''authorization_sha256'', ''sessions'', ''positions'', ''realized_pnl_usd'', ''last_marks'',
      ''loss_budget_tripped'', ''trip_reason''])"

text \<open>A subscription \<open>row[key]\<close> with a string key, then \<open>float\<close>.\<close>

definition float_item :: "json \<Rightarrow> string \<Rightarrow> py_error + pyfloat" where
  "float_item row k =
     (case row of
        JObj d \<Rightarrow> (case map_of d k of None \<Rightarrow> Inl KeyError | Some v \<Rightarrow> py_float v)
      | _ \<Rightarrow> Inl TypeError)"

definition read_position :: "json \<Rightarrow> py_error + cposition" where
  "read_position row =
     (case float_item row ''qty'' of Inl e \<Rightarrow> Inl e | Inr q \<Rightarrow>
      case float_item row ''cost_basis'' of Inl e \<Rightarrow> Inl e | Inr c \<Rightarrow> Inr \<lparr>cp_qty = q, cp_cost = c\<rparr>)"

text \<open>A dictionary comprehension over the items, and the mapping of \<open>payload.get(key) or {}\<close>.\<close>

definition read_values :: "(json \<Rightarrow> py_error + 'v) \<Rightarrow> json dict \<Rightarrow> py_error + 'v dict" where
  "read_values f = collect_all (\<lambda>(k, v). map_sum id (\<lambda>x. [(k, x)]) (f v))"

definition read_dict :: "(json \<Rightarrow> py_error + 'v) \<Rightarrow> json dict \<Rightarrow> string \<Rightarrow> py_error + 'v dict" where
  "read_dict f payload key =
     (case as_mapping (py_or (dget payload key JNull) (JObj [])) of Inl e \<Rightarrow> Inl e | Inr d \<Rightarrow> read_values f d)"

text \<open>The dates of the sessions, each once.\<close>

definition read_sessions :: "json dict \<Rightarrow> py_error + string list" where
  "read_sessions payload =
     map_sum id (\<lambda>xs. sort (remdups (map py_str xs))) (iter_json (py_or (dget payload ''sessions'' JNull) (JList [])))"

definition read_reason :: "json dict \<Rightarrow> string option" where
  "read_reason payload = (let v = dget payload ''trip_reason'' JNull in if v = JNull then None else Some (py_str v))"

definition read_state :: "json dict \<Rightarrow> canary \<Rightarrow> py_error + canary" where
  "read_state p c =
     (case read_sessions p of Inl e \<Rightarrow> Inl e | Inr ss \<Rightarrow>
      case read_dict read_position p ''positions'' of Inl e \<Rightarrow> Inl e | Inr ps \<Rightarrow>
      case py_float (dget p ''realized_pnl_usd'' (JFloat (Num 0))) of Inl e \<Rightarrow> Inl e | Inr r \<Rightarrow>
      case read_dict py_float p ''last_marks'' of Inl e \<Rightarrow> Inl e | Inr ms \<Rightarrow>
      Inr (c\<lparr>ca_sessions := ss, ca_positions := ps, ca_realized := r, ca_marks := ms,
             ca_tripped := truthy (dget p ''loss_budget_tripped'' (JBool False)), ca_reason := read_reason p\<rparr>))"

text \<open>\<open>AttributeError\<close> is not among the exceptions the constructor turns into a contract error.\<close>

definition state_error :: "py_error \<Rightarrow> canary_error" where
  "state_error e = (if e \<in> {KeyError, TypeError, ValueError} then StateMalformed e else CanaryRaised e)"

definition payload_sha :: "json dict \<Rightarrow> string" where
  "payload_sha p = py_str (dget p ''authorization_sha256'' (JStr []))"

definition new_canary :: "json_file \<Rightarrow> authorization \<Rightarrow> canary_error + canary" where
  "new_canary f a =
     (case load_state_payload f of
        Inl e \<Rightarrow> Inl e
      | Inr None \<Rightarrow> Inr (fresh_canary a f)
      | Inr (Some p) \<Rightarrow>
          (case (case iter_json (py_or (dget p ''previous_envelopes'' JNull) (JList [])) of
                   Inl e \<Rightarrow> Inl e
                 | Inr rows \<Rightarrow> collect_all (\<lambda>r. map_sum id (\<lambda>d. [JObj d]) (dict_of r)) rows) of
             Inl e \<Rightarrow> Inl (CanaryRaised e)
           | Inr previous \<Rightarrow>
               if payload_sha p \<noteq> au_sha a
               then Inr (persist_canary ((fresh_canary a f)\<lparr>ca_previous := previous @ [archived p]\<rparr>))
               else map_sum state_error id (read_state p ((fresh_canary a f)\<lparr>ca_previous := previous\<rparr>))))"

section \<open>Operations\<close>

definition begin_live_session :: "string \<Rightarrow> canary \<Rightarrow> canary_error + canary" where
  "begin_live_session day c =
     (if day \<in> set (ca_sessions c) then Inr c
      else if au_max_sessions (ca_auth c) \<le> int (length (ca_sessions c)) then Inl SessionCeiling
      else Inr (persist_canary (c\<lparr>ca_sessions := sort (remdups (day # ca_sessions c))\<rparr>)))"

definition observe_price :: "string \<Rightarrow> pyfloat \<Rightarrow> canary \<Rightarrow> canary" where
  "observe_price symb px c =
     (if flt (Num 0) px \<and> feq px px \<and> px \<noteq> PInf then c\<lparr>ca_marks := dset (ca_marks c) (py_upper symb) px\<rparr> else c)"

text \<open>The built-in \<open>min(a, b)\<close> keeps its first argument unless the second is smaller.\<close>

definition py_min :: "pyfloat \<Rightarrow> pyfloat \<Rightarrow> pyfloat" where
  "py_min x y = (if flt y x then y else x)"

definition record_buy :: "string \<Rightarrow> pyfloat \<Rightarrow> pyfloat \<Rightarrow> canary \<Rightarrow> canary \<times> py_error option" where
  "record_buy symb qty price c =
     (case map_of (ca_positions c) symb of
        None \<Rightarrow> (persist_canary (c\<lparr>ca_positions := dset (ca_positions c) symb \<lparr>cp_qty = qty, cp_cost = price\<rparr>\<rparr>), None)
      | Some p \<Rightarrow>
          (let total = fadd (cp_qty p) qty in
           case fdiv (fadd (fmul (cp_qty p) (cp_cost p)) (fmul qty price)) total of
             Inl e \<Rightarrow> (c, Some e)
           | Inr cost \<Rightarrow> (persist_canary (c\<lparr>ca_positions := dset (ca_positions c) symb \<lparr>cp_qty = total, cp_cost = cost\<rparr>\<rparr>), None)))"

definition record_sell :: "string \<Rightarrow> pyfloat \<Rightarrow> pyfloat \<Rightarrow> canary \<Rightarrow> canary" where
  "record_sell symb qty price c =
     (case map_of (ca_positions c) symb of
        None \<Rightarrow> c
      | Some p \<Rightarrow>
          (let matched = py_min qty (cp_qty p); left = fsub (cp_qty p) matched in
           persist_canary (c\<lparr>ca_positions := (if fle left (Num EPS) then AList.delete symb (ca_positions c)
                                      else dset (ca_positions c) symb (p\<lparr>cp_qty := left\<rparr>)),
                     ca_realized := fadd (ca_realized c) (fmul (fsub price (cp_cost p)) matched)\<rparr>)))"

definition record_fill :: "string \<Rightarrow> string \<Rightarrow> pyfloat \<Rightarrow> pyfloat \<Rightarrow> canary \<Rightarrow> canary \<times> py_error option" where
  "record_fill symb side qty price c =
     (let symb = py_upper symb in
      if fle qty (Num 0) \<or> fle price (Num 0) then (c, None)
      else let c = observe_price symb price c in
        if side = ''BUY'' then record_buy symb qty price c else (record_sell symb qty price c, None))"

definition unrealized_pnl :: "canary \<Rightarrow> pyfloat" where
  "unrealized_pnl c = foldl (\<lambda>total (s, p).
     fadd total (fmul (fsub (dget (ca_marks c) s (cp_cost p)) (cp_cost p)) (cp_qty p))) (Num 0) (ca_positions c)"

definition total_pnl :: "canary \<Rightarrow> pyfloat" where
  "total_pnl c = fadd (ca_realized c) (unrealized_pnl c)"

text \<open>The state after the check and whether the budget tripped in it.\<close>

definition evaluate_budget :: "canary \<Rightarrow> canary \<times> bool" where
  "evaluate_budget c =
     (if \<not> ca_tripped c \<and> fle (total_pnl c) (fneg (au_max_loss (ca_auth c)))
      then (persist_canary (c\<lparr>ca_tripped := True, ca_reason := Some TRIP_TEXT\<rparr>), True)
      else (c, False))"

section \<open>The arming gate's view\<close>

record envelope =
  en_sessions_used :: nat
  en_max_sessions :: int
  en_tripped :: bool
  en_reason :: "string option"

definition read_canary_envelope :: "json_file \<Rightarrow> authorization \<Rightarrow> canary_error + envelope" where
  "read_canary_envelope f a =
     (let fresh_env = \<lparr>en_sessions_used = 0, en_max_sessions = au_max_sessions a, en_tripped = False, en_reason = None\<rparr> in
      case load_state_payload f of
        Inl e \<Rightarrow> Inl e
      | Inr None \<Rightarrow> Inr fresh_env
      | Inr (Some p) \<Rightarrow>
          if payload_sha p \<noteq> au_sha a then Inr fresh_env
          else (case read_sessions p of
              Inl e \<Rightarrow> Inl (CanaryRaised e)
            | Inr ss \<Rightarrow> Inr \<lparr>en_sessions_used = length ss, en_max_sessions = au_max_sessions a,
                en_tripped = truthy (dget p ''loss_budget_tripped'' (JBool False)), en_reason = read_reason p\<rparr>))"

section \<open>The dead-man switch\<close>

definition DEAD_MAN_CONSECUTIVE_FAILURES :: nat where "DEAD_MAN_CONSECUTIVE_FAILURES = 3"

record dead_man =
  dm_threshold :: nat
  dm_failures :: nat
  dm_tripped :: bool

definition new_dead_man :: dead_man where
  "new_dead_man = \<lparr>dm_threshold = DEAD_MAN_CONSECUTIVE_FAILURES, dm_failures = 0, dm_tripped = False\<rparr>"

definition record_failure :: "dead_man \<Rightarrow> dead_man" where
  "record_failure d = (let n = dm_failures d + 1 in
     d\<lparr>dm_failures := n, dm_tripped := (dm_tripped d \<or> dm_threshold d \<le> n)\<rparr>)"

definition record_success :: "dead_man \<Rightarrow> dead_man" where
  "record_success d = d\<lparr>dm_failures := 0\<rparr>"

section \<open>Restarting from the state file\<close>

text \<open>Everything but the marks, which are only written with the next persisting step.\<close>

definition agrees :: "canary \<Rightarrow> canary \<Rightarrow> bool" where
  "agrees c c' \<longleftrightarrow> ca_auth c' = ca_auth c \<and> ca_sessions c' = ca_sessions c \<and>
     map_of (ca_positions c') = map_of (ca_positions c) \<and> ca_realized c' = ca_realized c \<and>
     ca_tripped c' = ca_tripped c \<and> ca_reason c' = ca_reason c \<and> ca_previous c' = ca_previous c"

definition listed_ok :: "canary \<Rightarrow> bool" where
  "listed_ok c \<longleftrightarrow> sorted (ca_sessions c) \<and> distinct (ca_sessions c) \<and> (\<forall>j \<in> set (ca_previous c). \<exists>d. j = JObj d)"

definition canary_ok :: "canary \<Rightarrow> bool" where
  "canary_ok c \<longleftrightarrow> listed_ok c \<and> (\<exists>c'. new_canary (ca_file c) (ca_auth c) = Inr c' \<and> agrees c c')"

lemma map_of_sort_key: "map_of (sort_key fst d) = map_of (d :: (string \<times> 'v) list)"
proof
  fix k
  have "map_of e k = map_option snd (find (\<lambda>x. fst x = k) e)" for e :: "(string \<times> 'v) list"
    by (induction e) auto
  moreover have "find P e = (case filter P e of [] \<Rightarrow> None | x # xs \<Rightarrow> Some x)" for P and e :: "(string \<times> 'v) list"
    by (induction e) auto
  moreover have "filter (\<lambda>x. fst x = k) (sort_key fst d) = filter (\<lambda>x. fst x = k) d"
    by (rule sort_key_stable)
  ultimately show "map_of (sort_key fst d) k = map_of d k" by simp
qed

lemma read_values_map: "(\<And>v. f (g v) = Inr v) \<Longrightarrow> read_values f (map (\<lambda>(k, v). (k, g v)) d) = Inr d"
  by (induction d) (auto simp: read_values_def)

lemma read_dict_sorted:
  "(\<And>v. f (g v) = Inr v) \<Longrightarrow> dget p key JNull = sorted_obj g d \<Longrightarrow> read_dict f p key = Inr (sort_key fst d)"
  using read_values_map [of f g "sort_key fst d"]
  by (cases "sort_key fst d") (simp_all add: read_dict_def sorted_obj_def py_or_def)

lemma read_position_json: "read_position (position_json p) = Inr p"
  by (simp add: read_position_def position_json_def float_item_def)

lemma payload_fields:
  "dget (canary_payload c) ''sessions'' JNull = JList (map JStr (ca_sessions c))"
  "dget (canary_payload c) ''positions'' JNull = sorted_obj position_json (ca_positions c)"
  "dget (canary_payload c) ''realized_pnl_usd'' j = JFloat (ca_realized c)"
  "dget (canary_payload c) ''last_marks'' JNull = sorted_obj JFloat (ca_marks c)"
  "dget (canary_payload c) ''loss_budget_tripped'' j = JBool (ca_tripped c)"
  "dget (canary_payload c) ''trip_reason'' JNull = (case ca_reason c of None \<Rightarrow> JNull | Some s \<Rightarrow> JStr s)"
  "dget (canary_payload c) ''previous_envelopes'' JNull = JList (ca_previous c)"
  "dget (canary_payload c) ''authorization_sha256'' j = JStr (au_sha (ca_auth c))"
  by (simp_all add: canary_payload_def dget_def)

lemma map_py_str [simp]: "map (py_str \<circ> JStr) xs = xs"
  by (induction xs) auto

lemma read_sessions_payload:
  assumes "listed_ok c" shows "read_sessions (canary_payload c) = Inr (ca_sessions c)"
proof -
  have "iter_json (py_or (JList (map JStr (ca_sessions c))) (JList [])) = Inr (map JStr (ca_sessions c))"
    by (simp add: py_or_def)
  with assms show ?thesis
    by (simp add: read_sessions_def payload_fields listed_ok_def distinct_remdups_id sorted_sort_id)
qed

lemma read_reason_payload: "read_reason (canary_payload c) = ca_reason c"
  by (cases "ca_reason c") (simp_all add: read_reason_def payload_fields)

lemma new_canary_payload:
  assumes "listed_ok c"
  shows "\<exists>c'. new_canary (FileJson (JObj (canary_payload c))) (ca_auth c) = Inr c' \<and> agrees c c'"
proof -
  have "collect_all (\<lambda>r. map_sum id (\<lambda>d. [JObj d]) (dict_of r)) rows = Inr rows"
    if "\<forall>j \<in> set rows. \<exists>d. j = JObj d" for rows
    using that by (induction rows) auto
  moreover have "iter_json (py_or (JList (ca_previous c)) (JList [])) = Inr (ca_previous c)"
    by (simp add: py_or_def)
  ultimately have prev: "(case iter_json (py_or (dget (canary_payload c) ''previous_envelopes'' JNull) (JList [])) of
      Inl e \<Rightarrow> Inl e | Inr rows \<Rightarrow> collect_all (\<lambda>r. map_sum id (\<lambda>d. [JObj d]) (dict_of r)) rows) = Inr (ca_previous c)"
    using assms by (simp add: payload_fields listed_ok_def)
  have "\<exists>c'. read_state (canary_payload c) d = Inr c' \<and> agrees c c'"
    if "ca_auth d = ca_auth c" "ca_previous d = ca_previous c" for d
    using that read_sessions_payload [OF assms] read_dict_sorted [OF read_position_json payload_fields(2)]
      read_dict_sorted [of py_float JFloat, OF _ payload_fields(4)] read_reason_payload
    by (simp add: read_state_def payload_fields agrees_def map_of_sort_key)
  from this [of "(fresh_canary (ca_auth c) (FileJson (JObj (canary_payload c))))\<lparr>ca_previous := ca_previous c\<rparr>"]
  obtain c' where "read_state (canary_payload c)
      ((fresh_canary (ca_auth c) (FileJson (JObj (canary_payload c))))\<lparr>ca_previous := ca_previous c\<rparr>) = Inr c'" "agrees c c'"
    by (auto simp: fresh_canary_def)
  with prev show ?thesis
    by (simp add: new_canary_def load_state_payload_def payload_sha_def payload_fields)
qed

lemma canary_ok_persist:
  assumes "listed_ok c" shows "canary_ok (persist_canary c)"
proof -
  from new_canary_payload [OF assms] assms show ?thesis
    by (auto simp: canary_ok_def persist_canary_def listed_ok_def agrees_def)
qed

lemma canary_ok_same:
  assumes "canary_ok c" and "agrees c d" and "ca_file d = ca_file c" shows "canary_ok d"
proof -
  from assms(1) obtain c' where "new_canary (ca_file c) (ca_auth c) = Inr c'" "agrees c c'" "listed_ok c"
    by (auto simp: canary_ok_def)
  with assms(2,3) show ?thesis by (auto simp: canary_ok_def agrees_def listed_ok_def)
qed

section \<open>Runs of the tracker\<close>

datatype canary_op = BeginSession string | ObservePrice string pyfloat | Fill string string pyfloat pyfloat
  | CheckBudget | Restart

definition apply_canary :: "canary \<Rightarrow> canary_op \<Rightarrow> canary" where
  "apply_canary c op =
     (case op of
        BeginSession day \<Rightarrow> (case begin_live_session day c of Inl e \<Rightarrow> c | Inr c' \<Rightarrow> c')
      | ObservePrice s x \<Rightarrow> observe_price s x c
      | Fill s side q x \<Rightarrow> fst (record_fill s side q x c)
      | CheckBudget \<Rightarrow> fst (evaluate_budget c)
      | Restart \<Rightarrow> (case new_canary (ca_file c) (ca_auth c) of Inl e \<Rightarrow> c | Inr c' \<Rightarrow> c'))"

abbreviation run_canary :: "canary_op list \<Rightarrow> canary \<Rightarrow> canary" where
  "run_canary ops c \<equiv> foldl apply_canary c ops"

lemma agrees_refl [simp]: "agrees c c"
  by (simp add: agrees_def)

lemma canary_ok_listed: "canary_ok c \<Longrightarrow> listed_ok c"
  by (simp add: canary_ok_def)

lemma observe_price_sel [simp]:
  "ca_auth (observe_price s x c) = ca_auth c" "ca_sessions (observe_price s x c) = ca_sessions c"
  "ca_positions (observe_price s x c) = ca_positions c" "ca_realized (observe_price s x c) = ca_realized c"
  "ca_tripped (observe_price s x c) = ca_tripped c" "ca_reason (observe_price s x c) = ca_reason c"
  "ca_previous (observe_price s x c) = ca_previous c" "ca_file (observe_price s x c) = ca_file c"
  by (simp_all add: observe_price_def)

lemma persist_sel [simp]:
  "ca_auth (persist_canary c) = ca_auth c" "ca_sessions (persist_canary c) = ca_sessions c"
  "ca_positions (persist_canary c) = ca_positions c" "ca_realized (persist_canary c) = ca_realized c"
  "ca_marks (persist_canary c) = ca_marks c" "ca_tripped (persist_canary c) = ca_tripped c"
  "ca_reason (persist_canary c) = ca_reason c" "ca_previous (persist_canary c) = ca_previous c"
  by (simp_all add: persist_canary_def)

lemma canary_ok_observe: "canary_ok c \<Longrightarrow> canary_ok (observe_price s x c)"
  by (rule canary_ok_same) (simp_all add: agrees_def)

text \<open>What a fill leaves alone; it persists unless it changes nothing but the marks.\<close>

lemma record_fill_cases:
  obtains (marks) "fst (record_fill s side q x c) \<in> {c, observe_price (py_upper s) x c}"
  | (booked) ps r where "fst (record_fill s side q x c) =
      persist_canary ((observe_price (py_upper s) x c)\<lparr>ca_positions := ps, ca_realized := r\<rparr>)"
proof (cases "fle q (Num 0) \<or> fle x (Num 0)")
  case True
  then show ?thesis using marks by (simp add: record_fill_def)
next
  case False
  let ?c = "observe_price (py_upper s) x c"
  have same: "persist_canary (?c\<lparr>ca_positions := ps\<rparr>) = persist_canary (?c\<lparr>ca_positions := ps, ca_realized := ca_realized ?c\<rparr>)" for ps
    by (rule arg_cong [where f = persist_canary], cases ?c) simp
  show ?thesis
  proof (cases "side = ''BUY''")
    case True
    with False have "fst (record_fill s side q x c) = fst (record_buy (py_upper s) q x ?c)"
      by (simp add: record_fill_def Let_def)
    moreover have "fst (record_buy (py_upper s) q x ?c) = ?c \<or>
        (\<exists>ps. fst (record_buy (py_upper s) q x ?c) = persist_canary (?c\<lparr>ca_positions := ps\<rparr>))"
      by (auto simp: record_buy_def Let_def split: option.splits sum.splits)
    ultimately show ?thesis using marks booked same by (metis insertCI)
  next
    case False
    with \<open>\<not> (fle q (Num 0) \<or> fle x (Num 0))\<close>
    have r: "fst (record_fill s side q x c) = record_sell (py_upper s) q x ?c"
      by (simp add: record_fill_def Let_def)
    show ?thesis
    proof (cases "map_of (ca_positions ?c) (py_upper s)")
      case None
      with r marks show ?thesis by (simp add: record_sell_def)
    next
      case (Some p)
      with r show ?thesis using booked by (simp add: record_sell_def Let_def)
    qed
  qed
qed

lemma record_fill_sel [simp]:
  "ca_auth (fst (record_fill s side q x c)) = ca_auth c" "ca_sessions (fst (record_fill s side q x c)) = ca_sessions c"
  "ca_tripped (fst (record_fill s side q x c)) = ca_tripped c" "ca_reason (fst (record_fill s side q x c)) = ca_reason c"
  "ca_previous (fst (record_fill s side q x c)) = ca_previous c"
  by (rule record_fill_cases [of s side q x c]; auto)+

lemma canary_ok_fill: "canary_ok c \<Longrightarrow> canary_ok (fst (record_fill s side q x c))"
proof (rule record_fill_cases [of s side q x c])
  fix ps r
  assume "canary_ok c" and f: "fst (record_fill s side q x c) =
      persist_canary ((observe_price (py_upper s) x c)\<lparr>ca_positions := ps, ca_realized := r\<rparr>)"
  then show ?thesis using canary_ok_listed [of c]
    unfolding f by (intro canary_ok_persist) (simp add: listed_ok_def)
qed (auto intro: canary_ok_observe)

lemma begin_live_session_cases:
  "begin_live_session day c = Inr c' \<Longrightarrow> c' = c \<or>
   (day \<notin> set (ca_sessions c) \<and> int (length (ca_sessions c)) < au_max_sessions (ca_auth c) \<and>
    c' = persist_canary (c\<lparr>ca_sessions := sort (remdups (day # ca_sessions c))\<rparr>))"
  by (auto simp: begin_live_session_def split: if_splits)

lemma canary_ok_begin: "canary_ok c \<Longrightarrow> begin_live_session day c = Inr c' \<Longrightarrow> canary_ok c'"
  using begin_live_session_cases [of day c c'] canary_ok_listed [of c]
  by (auto intro!: canary_ok_persist simp: listed_ok_def sorted_insort_key [of "\<lambda>x. x", simplified] distinct_insort)

lemma canary_ok_budget: "canary_ok c \<Longrightarrow> canary_ok (fst (evaluate_budget c))"
  using canary_ok_listed [of c] by (auto simp: evaluate_budget_def listed_ok_def intro!: canary_ok_persist)

lemma canary_ok_load: "new_canary f a = Inr c \<Longrightarrow> canary_ok c \<and> ca_auth c = a"
proof -
  assume new: "new_canary f a = Inr c"
  have objs: "collect_all (\<lambda>r. map_sum id (\<lambda>d. [JObj d]) (dict_of r)) rows = Inr js \<Longrightarrow> \<forall>j \<in> set js. \<exists>d. j = JObj d"
    for rows js by (induction rows arbitrary: js) (fastforce simp: map_sum_def split: sum.splits)+
  have state: "read_state p d = Inr c \<Longrightarrow> sorted (ca_sessions c) \<and> distinct (ca_sessions c) \<and> ca_auth c = ca_auth d \<and>
      ca_file c = ca_file d \<and> ca_previous c = ca_previous d" for p d
    by (cases "iter_json (py_or (dget p ''sessions'' JNull) (JList []))")
      (auto simp: read_state_def read_sessions_def split: sum.splits)
  show ?thesis
  proof (cases "load_state_payload f")
    case (Inr po)
    show ?thesis
    proof (cases po)
      case None
      with Inr new have "c = fresh_canary a f" by (simp add: new_canary_def)
      with new show ?thesis by (auto simp: canary_ok_def listed_ok_def fresh_canary_def)
    next
      case (Some p)
      let ?prev = "case iter_json (py_or (dget p ''previous_envelopes'' JNull) (JList [])) of
          Inl e \<Rightarrow> Inl e | Inr rows \<Rightarrow> collect_all (\<lambda>r. map_sum id (\<lambda>d. [JObj d]) (dict_of r)) rows"
      from new Inr Some obtain js where js: "?prev = Inr js" by (cases ?prev) (simp_all add: new_canary_def)
      then have obj: "\<forall>j \<in> set js. \<exists>d. j = JObj d" by (auto dest: objs split: sum.splits)
      have c: "(if payload_sha p \<noteq> au_sha a
               then Inr (persist_canary ((fresh_canary a f)\<lparr>ca_previous := js @ [archived p]\<rparr>))
               else map_sum state_error id (read_state p ((fresh_canary a f)\<lparr>ca_previous := js\<rparr>))) = Inr c"
        using new Inr Some js by (simp add: new_canary_def)
      show ?thesis
      proof (cases "payload_sha p = au_sha a")
        case True
        with c have "read_state p ((fresh_canary a f)\<lparr>ca_previous := js\<rparr>) = Inr c"
          by (cases "read_state p ((fresh_canary a f)\<lparr>ca_previous := js\<rparr>)") auto
        from state [OF this] obj new show ?thesis
          by (auto simp: canary_ok_def listed_ok_def fresh_canary_def)
      next
        case False
        with c obj show ?thesis
          by (auto simp: listed_ok_def fresh_canary_def archived_def intro!: canary_ok_persist)
      qed
    qed
  qed (use new in \<open>simp add: new_canary_def\<close>)
qed

lemma canary_ok_restart: "canary_ok c \<Longrightarrow> canary_ok (apply_canary c Restart)"
proof -
  assume ok: "canary_ok c"
  then obtain c' where n: "new_canary (ca_file c) (ca_auth c) = Inr c'" unfolding canary_ok_def by blast
  then have "apply_canary c Restart = c'" by (simp add: apply_canary_def)
  with canary_ok_load [OF n] show ?thesis by simp
qed

lemma canary_ok_apply: "canary_ok c \<Longrightarrow> canary_ok (apply_canary c op)"
  using canary_ok_restart [of c] canary_ok_begin [of c]
  by (cases op) (auto simp: apply_canary_def canary_ok_observe canary_ok_fill canary_ok_budget split: sum.splits)

lemma canary_ok_run: "canary_ok c \<Longrightarrow> canary_ok (run_canary ops c)"
  by (induction ops arbitrary: c) (simp_all add: canary_ok_apply)

lemma restart_agrees: "canary_ok c \<Longrightarrow> agrees c (apply_canary c Restart)"
  by (auto simp: canary_ok_def apply_canary_def)

text \<open>What every operation keeps: the authorization, a trip and its reason, the counted sessions and their bound.\<close>

definition stays :: "canary \<Rightarrow> canary \<Rightarrow> bool" where
  "stays c c' \<longleftrightarrow> ca_auth c' = ca_auth c \<and> (ca_tripped c \<longrightarrow> ca_tripped c' \<and> ca_reason c' = ca_reason c) \<and>
     set (ca_sessions c) \<subseteq> set (ca_sessions c') \<and>
     int (length (ca_sessions c')) \<le> max (int (length (ca_sessions c))) (au_max_sessions (ca_auth c))"

lemma stays_refl: "stays c c"
  by (simp add: stays_def)

lemma stays_trans: "stays a b \<Longrightarrow> stays b c \<Longrightarrow> stays a c"
  unfolding stays_def by (auto simp: le_max_iff_disj)

lemma stays_begin: "listed_ok c \<Longrightarrow> begin_live_session day c = Inr c' \<Longrightarrow> stays c c'"
  using begin_live_session_cases [of day c c'] by (auto simp: stays_def listed_ok_def distinct_remdups_id set_insort_key)

lemma stays_apply: "canary_ok c \<Longrightarrow> stays c (apply_canary c op)"
proof (cases op)
  case (BeginSession day)
  assume "canary_ok c"
  with BeginSession stays_begin [OF canary_ok_listed] show ?thesis
    by (auto simp: apply_canary_def stays_refl split: sum.splits)
next
  case Restart
  assume "canary_ok c"
  from restart_agrees [OF this] show ?thesis unfolding Restart by (simp add: agrees_def stays_def)
next
  case (ObservePrice s x)
  then show ?thesis by (simp add: apply_canary_def stays_def)
next
  case (Fill s side q x)
  then show ?thesis by (simp add: apply_canary_def stays_def)
next
  case CheckBudget
  then show ?thesis by (simp add: apply_canary_def stays_def evaluate_budget_def)
qed

lemma stays_run: "canary_ok c \<Longrightarrow> stays c (run_canary ops c)"
proof (induction ops arbitrary: c)
  case (Cons op ops)
  from stays_apply [OF Cons.prems] Cons.IH [OF canary_ok_apply [OF Cons.prems]] show ?case
    by (auto intro: stays_trans)
qed (simp add: stays_refl)

text \<open>The gate's view of a state file is what a restart would find.\<close>

lemma envelope_of_restart:
  assumes "new_canary f a = Inr c"
  shows "\<exists>env. read_canary_envelope f a = Inr env \<and> en_sessions_used env = length (ca_sessions c) \<and>
    en_max_sessions env = au_max_sessions a \<and> en_tripped env = ca_tripped c \<and> en_reason env = ca_reason c"
  using assms
  by (auto simp: new_canary_def read_canary_envelope_def fresh_canary_def read_state_def Let_def map_sum_def
      split: sum.splits option.splits if_splits)


text \<open>C21: The loss trip is sticky and the session count bounded, across restarts: what a later
  operation or restart leaves still has the trip, its reason and every counted session, at most
  the authorized number of them beyond what the file already held, and the arming gate reads
  exactly that from the file.\<close>

theorem canary_limits_persist:
  assumes "new_canary f a = Inr c0" and "run_canary ops1 c0 = c1" and "run_canary ops2 c1 = c2"
  shows "(ca_tripped c1 \<longrightarrow> ca_tripped c2 \<and> ca_reason c2 = ca_reason c1) \<and>
    set (ca_sessions c1) \<subseteq> set (ca_sessions c2) \<and>
    int (length (ca_sessions c2)) \<le> max (int (length (ca_sessions c0))) (au_max_sessions a) \<and>
    (\<exists>env. read_canary_envelope (ca_file c2) a = Inr env \<and> en_tripped env = ca_tripped c2 \<and>
       en_sessions_used env = length (ca_sessions c2) \<and> en_max_sessions env = au_max_sessions a)"
proof -
  from canary_ok_load [OF assms(1)] have c0: "canary_ok c0" "ca_auth c0 = a" by auto
  with assms(2) canary_ok_run [of c0 ops1] stays_run [of c0 ops1] have c1: "canary_ok c1" "stays c0 c1" by auto
  with assms(3) canary_ok_run [of c1 ops2] stays_run [of c1 ops2] have c2: "canary_ok c2" "stays c1 c2" by auto
  have s: "stays c0 c2" by (rule stays_trans [OF c1(2) c2(2)])
  from c2(1) obtain c' where n: "new_canary (ca_file c2) a = Inr c'" and ag: "agrees c2 c'"
    using s c0(2) by (auto simp: canary_ok_def stays_def)
  from envelope_of_restart [OF n] ag s c2(2) c0(2) show ?thesis
    by (auto simp: agrees_def stays_def)
qed

definition demo_grant :: authorization where
  "demo_grant = \<lparr>au_by = ''operator'', au_date = ''2026-07-01'', au_expiry = ''2026-07-31'', au_cap = Num 500,
     au_clean_sessions = 5, au_timing_report = ''report'', au_allowlist = [''NVDA''], au_max_loss = Num 150,
     au_max_sessions = 2, au_entry_type = ''limit'', au_exit_type = ''market'', au_offset_bps = Num 0,
     au_sha = ''sha''\<rparr>"

definition demo_canary :: canary where "demo_canary = fresh_canary demo_grant FileAbsent"

definition demo_ops :: "canary_op list" where
  "demo_ops = [BeginSession ''2026-07-01'', Fill ''NVDA'' ''BUY'' (Num 2) (Num 200), ObservePrice ''NVDA'' (Num 100), CheckBudget]"

lemma demo_canary_new: "new_canary FileAbsent demo_grant = Inr demo_canary"
  by (simp add: new_canary_def load_state_payload_def demo_canary_def)

lemma demo_canary_trips:
  "ca_tripped (run_canary demo_ops demo_canary)" "ca_sessions (run_canary demo_ops demo_canary) = [''2026-07-01'']"
  by code_simp+


theorem canary_limits_persist_witness:
  "ca_tripped (run_canary [Restart, Fill ''NVDA'' ''SELL'' (Num 2) (Num 900), CheckBudget] (run_canary demo_ops demo_canary))"
  using canary_limits_persist [OF demo_canary_new refl refl, of demo_ops
      "[Restart, Fill ''NVDA'' ''SELL'' (Num 2) (Num 900), CheckBudget]"] demo_canary_trips(1) by blast

section \<open>The result as cash plus value\<close>

text \<open>The ledger the accounts stand for: the quantity held of each symbol and the cash spent or
  received by the fills of tracked positions.\<close>

definition ledger_fill :: "(string \<Rightarrow> rat) \<times> rat \<Rightarrow> string \<times> string \<times> rat \<times> rat \<Rightarrow> (string \<Rightarrow> rat) \<times> rat" where
  "ledger_fill led x = (case led of (held, cash) \<Rightarrow> case x of (s, side, q, p) \<Rightarrow>
     let s = py_upper s in
     if side = ''BUY'' then (held(s := held s + q), cash - q * p)
     else let m = min q (held s) in (held(s := held s - m), cash + m * p))"

definition apply_fill :: "canary \<Rightarrow> string \<times> string \<times> rat \<times> rat \<Rightarrow> canary" where
  "apply_fill c x = (case x of (s, side, q, p) \<Rightarrow> fst (record_fill s side (Num q) (Num p) c))"

text \<open>Quantities of at least a micro-share.\<close>

definition on_grid :: "rat \<Rightarrow> bool" where
  "on_grid q \<longleftrightarrow> (\<exists>n::int. q = of_int n / 1000000)"

lemma on_grid_add: "on_grid a \<Longrightarrow> on_grid b \<Longrightarrow> on_grid (a + b)"
proof -
  assume "on_grid a" and "on_grid b"
  then obtain m n where "a = of_int m / 1000000" "b = of_int n / 1000000" by (auto simp: on_grid_def)
  then have "a + b = of_int (m + n) / 1000000" by (simp add: add_divide_distrib)
  then show ?thesis unfolding on_grid_def by blast
qed

lemma on_grid_diff: "on_grid a \<Longrightarrow> on_grid b \<Longrightarrow> on_grid (a - b)"
proof -
  assume "on_grid a" and "on_grid b"
  then obtain m n where "a = of_int m / 1000000" "b = of_int n / 1000000" by (auto simp: on_grid_def)
  then have "a - b = of_int (m - n) / 1000000" by (simp add: diff_divide_distrib)
  then show ?thesis unfolding on_grid_def by blast
qed

lemma on_grid_EPS: "on_grid a \<Longrightarrow> 0 \<le> a \<Longrightarrow> a \<le> EPS \<Longrightarrow> a = 0"
proof -
  assume g: "on_grid a" and a: "0 \<le> a" "a \<le> EPS"
  then obtain n :: int where n: "a = of_int n / 1000000" by (auto simp: on_grid_def)
  with a have "0 \<le> n" "(of_int n :: rat) < 1" by (auto simp: EPS_def field_simps zero_le_divide_iff)
  then have "n = 0" by linarith
  with n show "a = 0" by simp
qed

text \<open>Sums over a dictionary.\<close>

lemma sum_dset_new: "k \<notin> fst ` set d \<Longrightarrow> sum_list (map f (dset d k v)) = sum_list (map f d) + f (k, v)"
  by (induction d) (auto simp: add.assoc)

lemma sum_dset_old:
  "distinct (map fst d) \<Longrightarrow> map_of d k = Some w \<Longrightarrow>
   sum_list (map f (dset d k v)) = sum_list (map f d) - f (k, w) + (f (k, v) :: rat)"
  by (induction d) (auto simp: rev_image_eqI)

lemma delete_absent: "k \<notin> fst ` set d \<Longrightarrow> AList.delete k d = d"
  by (induction d) auto

lemma sum_delete:
  "distinct (map fst d) \<Longrightarrow> map_of d k = Some w \<Longrightarrow>
   sum_list (map f (AList.delete k d)) = sum_list (map f d) - (f (k, w) :: rat)"
  by (induction d) (auto simp: delete_absent rev_image_eqI)

definition cost_of :: "string \<times> cposition \<Rightarrow> rat" where
  "cost_of x = num_of (cp_qty (snd x)) * num_of (cp_cost (snd x))"

definition value_of :: "canary \<Rightarrow> string \<times> cposition \<Rightarrow> rat" where
  "value_of c x = num_of (cp_qty (snd x)) * num_of (dget (ca_marks c) (fst x) (Num 0))"

definition market_value :: "canary \<Rightarrow> rat" where
  "market_value c = sum_list (map (value_of c) (ca_positions c))"

text \<open>The accounts represent a ledger.\<close>

definition pos_ok :: "canary \<Rightarrow> (string \<Rightarrow> rat) \<Rightarrow> string \<Rightarrow> cposition \<Rightarrow> bool" where
  "pos_ok c held s p \<longleftrightarrow> cp_qty p = Num (held s) \<and> 0 < held s \<and> on_grid (held s) \<and>
     is_num (cp_cost p) \<and> (\<exists>m. map_of (ca_marks c) s = Some (Num m))"

definition represents :: "canary \<Rightarrow> (string \<Rightarrow> rat) \<times> rat \<Rightarrow> bool" where
  "represents c led \<longleftrightarrow> distinct (map fst (ca_positions c)) \<and>
     (\<forall>s. map_of (ca_positions c) s = None \<longrightarrow> fst led s = 0) \<and>
     (\<forall>s p. map_of (ca_positions c) s = Some p \<longrightarrow> pos_ok c (fst led) s p) \<and>
     ca_realized c = Num (snd led + sum_list (map cost_of (ca_positions c)))"

lemma representsD:
  assumes "represents c led"
  shows "distinct (map fst (ca_positions c))" and "map_of (ca_positions c) s = None \<Longrightarrow> fst led s = 0"
    and "map_of (ca_positions c) s = Some p \<Longrightarrow> pos_ok c (fst led) s p"
    and "ca_realized c = Num (snd led + sum_list (map cost_of (ca_positions c)))"
  using assms unfolding represents_def by blast+

lemma representsI:
  assumes "distinct (map fst (ca_positions c))" and "\<And>s. map_of (ca_positions c) s = None \<Longrightarrow> fst led s = 0"
    and "\<And>s p. map_of (ca_positions c) s = Some p \<Longrightarrow> pos_ok c (fst led) s p"
    and "ca_realized c = Num (snd led + sum_list (map cost_of (ca_positions c)))"
  shows "represents c led"
  using assms unfolding represents_def by blast

lemma pos_ok_later: "pos_ok c held s p \<Longrightarrow> (\<forall>m. map_of (ca_marks c) s = Some (Num m) \<longrightarrow>
    (\<exists>m. map_of (ca_marks d) s = Some (Num m))) \<Longrightarrow> h s = held s \<Longrightarrow> pos_ok d h s p"
  unfolding pos_ok_def by auto

lemma represents_fresh: "represents (fresh_canary a f) (\<lambda>s. 0, 0)"
  by (simp add: represents_def fresh_canary_def)

lemma total_pnl_represents:
  assumes "represents c led"
  shows "total_pnl c = Num (snd led + market_value c)"
proof -
  let ?m = "\<lambda>x. fmul (fsub (dget (ca_marks c) (fst x) (cp_cost (snd x))) (cp_cost (snd x))) (cp_qty (snd x))"
  have each: "?m x = Num (value_of c x - cost_of x)" if "x \<in> set (ca_positions c)" for x
  proof -
    have "map_of (ca_positions c) (fst x) = Some (snd x)"
      using that representsD(1) [OF assms] by simp
    with representsD(3) [OF assms] have "pos_ok c (fst led) (fst x) (snd x)" .
    then show ?thesis by (auto simp: pos_ok_def value_of_def cost_of_def is_num_iff dget_def algebra_simps)
  qed
  have sum: "foldl (\<lambda>total (s, p). fadd total (?m (s, p))) (Num r) xs = Num (r + sum_list (map (\<lambda>x. value_of c x - cost_of x) xs))"
    if "set xs \<subseteq> set (ca_positions c)" for r xs
    using that each by (induction xs arbitrary: r) (auto simp: add.assoc)
  have "unrealized_pnl c = Num (sum_list (map (\<lambda>x. value_of c x - cost_of x) (ca_positions c)))"
    using sum [of "ca_positions c" 0] by (simp add: unrealized_pnl_def)
  then show ?thesis using assms
    by (simp add: total_pnl_def represents_def market_value_def sum_list_subtractf)
qed

lemma apply_fill_sel [simp]:
  "ca_auth (apply_fill c x) = ca_auth c" "ca_tripped (apply_fill c x) = ca_tripped c"
  by (simp_all add: apply_fill_def split_beta)

lemma observe_Num: "0 < p \<Longrightarrow> observe_price s (Num p) c = c\<lparr>ca_marks := dset (ca_marks c) (py_upper s) (Num p)\<rparr>"
  by (simp add: observe_price_def)

lemma marks_observe:
  "map_of (ca_marks c) s = Some (Num m) \<Longrightarrow> \<exists>m. map_of (ca_marks (observe_price t x c)) s = Some (Num m)"
  by (cases x) (auto simp: observe_price_def)

lemma represents_observe:
  assumes "represents c led" shows "represents (observe_price s x c) led"
proof (rule representsI)
  fix t p
  assume "map_of (ca_positions (observe_price s x c)) t = Some p"
  with representsD(3) [OF assms, of t p] have "pos_ok c (fst led) t p" by (simp only: observe_price_sel)
  then show "pos_ok (observe_price s x c) (fst led) t p" by (rule pos_ok_later) (use marks_observe in blast)+
qed (use representsD [OF assms] in simp_all)

lemma represents_persist [simp]: "represents (persist_canary c) led = represents c led"
proof -
  have "pos_ok (persist_canary c) h s p = pos_ok c h s p" for h s p by (simp add: pos_ok_def)
  then show ?thesis by (simp add: represents_def)
qed

lemma represents_buy:
  assumes rep: "represents c (held, cash)" and q: "0 < q" "on_grid q" and m: "map_of (ca_marks c) s = Some (Num p)"
  shows "represents (fst (record_buy s (Num q) (Num p) c)) (held(s := held s + q), cash - q * p)"
proof (cases "map_of (ca_positions c) s")
  case None
  let ?c = "c\<lparr>ca_positions := dset (ca_positions c) s \<lparr>cp_qty = Num q, cp_cost = Num p\<rparr>\<rparr>"
  from representsD(2) [OF rep None] have h: "held s = 0" by simp
  from None have k: "s \<notin> fst ` set (ca_positions c)" by (simp add: map_of_eq_None_iff)
  have r: "fst (record_buy s (Num q) (Num p) c) = persist_canary ?c" using None by (simp add: record_buy_def)
  show ?thesis unfolding r represents_persist
  proof (rule representsI)
    fix t y
    assume y: "map_of (ca_positions ?c) t = Some y"
    show "pos_ok ?c (fst (held(s := held s + q), cash - q * p)) t y"
    proof (cases "t = s")
      case True
      with y q m h show ?thesis by (auto simp: pos_ok_def)
    next
      case False
      with y representsD(3) [OF rep, of t y] show ?thesis by (auto elim: pos_ok_later)
    qed
  qed (use representsD [OF rep] h sum_dset_new [OF k, of cost_of] in
      \<open>auto simp: distinct_update cost_of_def split: if_splits\<close>)
next
  case (Some x)
  from representsD(3) [OF rep Some] obtain k
    where k: "cp_cost x = Num k" "cp_qty x = Num (held s)" "0 < held s" "on_grid (held s)"
    by (auto simp: pos_ok_def is_num_iff)
  let ?t = "held s + q" let ?y = "\<lparr>cp_qty = Num ?t, cp_cost = Num ((held s * k + q * p) / ?t)\<rparr>"
  let ?c = "c\<lparr>ca_positions := dset (ca_positions c) s ?y\<rparr>"
  have t: "?t \<noteq> 0" "0 < ?t" using k q by auto
  have r: "fst (record_buy s (Num q) (Num p) c) = persist_canary ?c"
    using Some k t by (simp add: record_buy_def)
  have cost: "sum_list (map cost_of (dset (ca_positions c) s ?y)) = sum_list (map cost_of (ca_positions c)) + q * p"
    using sum_dset_old [OF representsD(1) [OF rep] Some, of cost_of ?y] k t by (simp add: cost_of_def)
  show ?thesis unfolding r represents_persist
  proof (rule representsI)
    fix u y
    assume y: "map_of (ca_positions ?c) u = Some y"
    show "pos_ok ?c (fst (held(s := held s + q), cash - q * p)) u y"
    proof (cases "u = s")
      case True
      with y q m t k show ?thesis by (auto simp: pos_ok_def on_grid_add)
    next
      case False
      with y representsD(3) [OF rep, of u y] show ?thesis by (auto elim: pos_ok_later)
    qed
  next
    fix u
    assume "map_of (ca_positions ?c) u = None"
    with representsD(2) [OF rep, of u] show "fst (held(s := held s + q), cash - q * p) u = 0"
      by (auto split: if_splits)
  qed (use representsD [OF rep] cost in \<open>simp_all add: distinct_update\<close>)
qed

lemma represents_sell:
  assumes rep: "represents c (held, cash)" and q: "0 < q" "on_grid q"
  shows "represents (record_sell s (Num q) (Num p) c) (held(s := held s - min q (held s)), cash + min q (held s) * p)"
proof (cases "map_of (ca_positions c) s")
  case None
  from representsD(2) [OF rep None] have h: "held s = 0" by simp
  then have "held(s := 0) = held" by auto
  with rep None h q show ?thesis by (simp add: record_sell_def min_def)
next
  case (Some x)
  from representsD(3) [OF rep Some] have x: "pos_ok c held s x" by simp
  then obtain k where k: "cp_cost x = Num k" "cp_qty x = Num (held s)" "0 < held s" "on_grid (held s)"
    by (auto simp: pos_ok_def is_num_iff)
  let ?m = "min q (held s)" let ?l = "held s - ?m"
  have m: "py_min (Num q) (cp_qty x) = Num ?m" using k by (auto simp: py_min_def min_def)
  have l: "on_grid ?l" "0 \<le> ?l" using k q on_grid_diff [of "held s" "held s"] by (auto simp: min_def on_grid_diff)
  have eps: "?l \<le> EPS \<longleftrightarrow> ?l = 0" using on_grid_EPS [OF l] by (auto simp: EPS_def)
  define ps where "ps = (if ?l = 0 then AList.delete s (ca_positions c) else dset (ca_positions c) s (x\<lparr>cp_qty := Num ?l\<rparr>))"
  let ?c = "c\<lparr>ca_positions := ps, ca_realized := fadd (ca_realized c) (Num ((p - k) * ?m))\<rparr>"
  have r: "record_sell s (Num q) (Num p) c = persist_canary ?c"
    using Some k m eps by (simp add: record_sell_def ps_def)
  note d = representsD(1) [OF rep]
  have at_s: "cost_of (s, x) = held s * k" "cost_of (s, x\<lparr>cp_qty := Num ?l\<rparr>) = ?l * k"
    using k by (simp_all add: cost_of_def)
  have "sum_list (map cost_of ps) = sum_list (map cost_of (ca_positions c)) - held s * k + ?l * k"
  proof (cases "?l = 0")
    case True
    then show ?thesis using sum_delete [OF d Some, of cost_of] at_s unfolding ps_def by simp
  next
    case False
    show ?thesis using sum_dset_old [OF d Some, of cost_of "x\<lparr>cp_qty := Num ?l\<rparr>"] at_s
      by (simp only: ps_def False if_False)
  qed
  then have cost: "sum_list (map cost_of ps) = sum_list (map cost_of (ca_positions c)) - ?m * k"
    by (simp only: left_diff_distrib)
  have mp: "map_of ps u = (if u = s then (if ?l = 0 then None else Some (x\<lparr>cp_qty := Num ?l\<rparr>)) else map_of (ca_positions c) u)" for u
    by (simp add: delete_conv' ps_def)
  show ?thesis unfolding r represents_persist
  proof (rule representsI)
    fix u y
    assume y: "map_of (ca_positions ?c) u = Some y"
    show "pos_ok ?c (fst (held(s := ?l), cash + ?m * p)) u y"
    proof (cases "u = s")
      case True
      with y mp [of u] x k l show ?thesis by (auto simp: pos_ok_def split: if_splits)
    next
      case False
      with y mp [of u] representsD(3) [OF rep, of u y] show ?thesis by (auto elim: pos_ok_later)
    qed
  next
    fix u
    assume "map_of (ca_positions ?c) u = None"
    with mp [of u] representsD(2) [OF rep, of u] show "fst (held(s := ?l), cash + ?m * p) u = 0"
      by (auto split: if_splits)
  next
    show "distinct (map fst (ca_positions ?c))" using d by (simp add: ps_def distinct_update distinct_delete)
    show "ca_realized ?c = Num (snd (held(s := ?l), cash + ?m * p) + sum_list (map cost_of (ca_positions ?c)))"
      using representsD(4) [OF rep] cost by (simp add: algebra_simps)
  qed
qed

definition fill_ok :: "string \<times> string \<times> rat \<times> rat \<Rightarrow> bool" where
  "fill_ok x \<longleftrightarrow> (case x of (s, side, q, p) \<Rightarrow> 0 < q \<and> on_grid q \<and> 0 < p)"

lemma represents_fill:
  assumes rep: "represents c led" and ok: "fill_ok x"
  shows "represents (apply_fill c x) (ledger_fill led x)"
proof -
  obtain s side q p where x: "x = (s, side, q, p)" by (cases x) auto
  obtain held cash where led: "led = (held, cash)" by fastforce
  from ok x have q: "0 < q" "on_grid q" "0 < p" by (auto simp: fill_ok_def)
  let ?c = "observe_price (py_upper s) (Num p) c"
  have r: "represents ?c (held, cash)" using represents_observe rep led by blast
  have m: "map_of (ca_marks ?c) (py_upper s) = Some (Num p)" using q by (simp add: observe_Num)
  show ?thesis using represents_buy [OF r q(1,2) m] represents_sell [OF r q(1,2), of "py_upper s" p] q
    unfolding x led by (simp add: apply_fill_def ledger_fill_def record_fill_def Let_def)
qed

text \<open>C22: The canary's profit and loss is exact: after fills of positive price and of at least
  micro-share quantities on a fresh envelope, realized plus unrealized result is the cash the
  tracked fills spent or received plus the marked value of what the ledger holds, sales beyond
  the tracked position counting nothing; and the budget check trips exactly when that total has
  lost the budget.\<close>

theorem canary_pnl_refines_ledger:
  assumes "\<forall>x \<in> set fills. fill_ok x" and "au_max_loss a = Num budget"
    and "foldl apply_fill (fresh_canary a f) fills = c" and "foldl ledger_fill (\<lambda>s. 0, 0) fills = (held, cash)"
  shows "total_pnl c = Num (cash + market_value c) \<and>
    (\<forall>s. held s = (case map_of (ca_positions c) s of None \<Rightarrow> 0 | Some p \<Rightarrow> num_of (cp_qty p))) \<and>
    (ca_tripped (fst (evaluate_budget c)) \<longleftrightarrow> cash + market_value c \<le> - budget)"
proof -
  have run: "represents (foldl apply_fill d xs) (foldl ledger_fill led xs) \<and> ca_auth (foldl apply_fill d xs) = ca_auth d \<and>
      ca_tripped (foldl apply_fill d xs) = ca_tripped d"
    if "represents d led" "\<forall>x \<in> set xs. fill_ok x" for d led xs
    using that
  proof (induction xs arbitrary: d led)
    case (Cons x xs)
    with Cons.IH [of "apply_fill d x" "ledger_fill led x"] represents_fill [of d led x] show ?case by simp
  qed simp
  from run [OF represents_fresh assms(1), of a f] assms(3,4)
  have rep: "represents c (held, cash)" and a: "ca_auth c = a" "\<not> ca_tripped c"
    by (auto simp: fresh_canary_def)
  have p: "total_pnl c = Num (cash + market_value c)" using total_pnl_represents [OF rep] by simp
  have "held s = (case map_of (ca_positions c) s of None \<Rightarrow> 0 | Some p \<Rightarrow> num_of (cp_qty p))" for s
    using representsD(2,3) [OF rep, of s] by (cases "map_of (ca_positions c) s") (auto simp: pos_ok_def)
  with p a assms(2) show ?thesis by (auto simp: evaluate_budget_def)
qed

theorem canary_pnl_refines_ledger_witness:
  "total_pnl (foldl apply_fill demo_canary [(''nvda'', ''BUY'', 2, 200), (''NVDA'', ''SELL'', 3, 100)]) = Num (-200)"
proof -
  let ?fills = "[(''nvda'', ''BUY'', 2, 200), (''NVDA'', ''SELL'', 3, 100)] :: (string \<times> string \<times> rat \<times> rat) list"
  have "on_grid (of_int n)" for n :: int unfolding on_grid_def by (intro exI [of _ "n * 1000000"]) simp
  from this [of 2] this [of 3] have g: "\<forall>x \<in> set ?fills. fill_ok x" by (auto simp: fill_ok_def)
  have l: "snd (foldl ledger_fill (\<lambda>s. 0, 0) ?fills) = -200" by code_simp
  have v: "market_value (foldl apply_fill demo_canary ?fills) = 0" by code_simp
  from canary_pnl_refines_ledger [OF g, of demo_grant 150 FileAbsent "foldl apply_fill demo_canary ?fills"
      "fst (foldl ledger_fill (\<lambda>s. 0, 0) ?fills)" "-200"] l v
  show ?thesis by (simp add: demo_canary_def demo_grant_def prod_eq_iff)
qed

end
