(* ===== verification/LiveArming.thy ===== *)
theory LiveArming
  imports CanaryEnvelope
begin

text \<open>
  \<open>intraday_live_executor.py\<close>, part 3: the arming gate of a live session
  (\<open>live_env_flag_enabled\<close>, \<open>resolve_stage2_arming\<close>, \<open>ArmDecision\<close>). The authorization file, the canary
  state file, the presence of the kill-switch file and the environment are arguments. What the
  gate lets through as an exception is the left of the result.
\<close>

section \<open>The gate\<close>

definition live_env_flag_enabled :: "string dict \<Rightarrow> bool" where
  "live_env_flag_enabled env \<longleftrightarrow> py_lower (py_strip (dget env ''RENQUANT_INTRADAY_LIVE'' [])) \<in> set ENV_TRUTHY"

datatype arm_reason = ConfigNotLive | AuthorizationFailed auth_failure | AllowlistDisagrees "string list"
  | EnvFlagOff | KillSwitchPresent | NoAuthorization | EnvelopeUnreadable canary_error
  | LossBudgetTripped | SessionCeilingReached

record gates =
  gt_config :: bool
  gt_authorization :: bool
  gt_env :: bool
  gt_kill_absent :: bool
  gt_envelope :: bool

record arm_decision =
  arm_armed :: bool
  arm_mode :: string
  arm_downgraded :: bool
  arm_gates :: gates
  arm_reasons :: "arm_reason list"
  arm_authorization :: "authorization option"
  arm_envelope :: "envelope option"

definition config_live :: "session_config \<Rightarrow> bool" where
  "config_live cfg \<longleftrightarrow> sc_enabled cfg \<and> sc_errors cfg = [] \<and> sc_mode cfg = MODE_LIVE"

text \<open>Authorized symbols that a configured allowlist lacks.\<close>

definition allowlist_extra :: "session_config \<Rightarrow> authorization \<Rightarrow> string list" where
  "allowlist_extra cfg a =
     (if sc_allowlist cfg = [] then []
      else sort (remdups (filter (\<lambda>s. s \<notin> set (map py_upper (sc_allowlist cfg))) (au_allowlist a))))"

text \<open>The envelope gate: a contract error closes it, any other exception leaves the function.\<close>

definition envelope_gate ::
    "json_file \<Rightarrow> authorization option \<Rightarrow> py_error + bool \<times> envelope option \<times> arm_reason list" where
  "envelope_gate state auth =
     (case auth of
        None \<Rightarrow> Inr (False, None, [NoAuthorization])
      | Some a \<Rightarrow>
          (case read_canary_envelope state a of
             Inl (CanaryRaised e) \<Rightarrow> Inl e
           | Inl x \<Rightarrow> Inr (False, None, [EnvelopeUnreadable x])
           | Inr env \<Rightarrow>
               (let full = (en_max_sessions env \<le> int (en_sessions_used env)) in
                Inr (\<not> en_tripped env \<and> \<not> full, Some env,
                  (if en_tripped env then [LossBudgetTripped] else []) @
                  (if full then [SessionCeilingReached] else [])))))"

definition granted :: "auth_failure + authorization \<Rightarrow> authorization option" where
  "granted loaded = (case loaded of Inl x \<Rightarrow> None | Inr a \<Rightarrow> Some a)"

definition arm_verdict ::
    "session_config \<Rightarrow> auth_failure + authorization \<Rightarrow> bool \<Rightarrow> string dict \<Rightarrow>
     bool \<times> envelope option \<times> arm_reason list \<Rightarrow> arm_decision" where
  "arm_verdict cfg loaded kill env gate =
     (let live = config_live cfg; auth = granted loaded;
          extra = (case auth of None \<Rightarrow> [] | Some a \<Rightarrow> allowlist_extra cfg a);
          auth_ok = (auth \<noteq> None \<and> extra = []); env_ok = live_env_flag_enabled env;
          (envelope_ok, view, why) = gate;
          armed = (live \<and> auth_ok \<and> env_ok \<and> \<not> kill \<and> envelope_ok) in
      \<lparr>arm_armed = armed, arm_mode = (if armed then MODE_LIVE else MODE_SHADOW),
       arm_downgraded = (sc_mode cfg = MODE_LIVE \<and> \<not> armed),
       arm_gates = \<lparr>gt_config = live, gt_authorization = auth_ok, gt_env = env_ok,
         gt_kill_absent = (\<not> kill), gt_envelope = envelope_ok\<rparr>,
       arm_reasons = (if live then [] else [ConfigNotLive]) @
         (case loaded of Inl x \<Rightarrow> [AuthorizationFailed x] | Inr a \<Rightarrow> []) @
         (if extra = [] then [] else [AllowlistDisagrees extra]) @
         (if env_ok then [] else [EnvFlagOff]) @ (if kill then [KillSwitchPresent] else []) @ why,
       arm_authorization = auth, arm_envelope = view\<rparr>)"

definition resolve_stage2_arming ::
    "(json dict \<Rightarrow> string) \<Rightarrow> session_config \<Rightarrow> json_file \<Rightarrow> json_file \<Rightarrow> bool \<Rightarrow> string dict \<Rightarrow> string \<Rightarrow> bool \<Rightarrow>
     py_error + arm_decision" where
  "resolve_stage2_arming hash_jsonable cfg auth_file state kill env today paper =
     (let loaded = load_authorization hash_jsonable auth_file today paper in
      case loaded of
        Inl (AuthRaised e) \<Rightarrow> Inl e
      | _ \<Rightarrow> map_sum id (arm_verdict cfg loaded kill env) (envelope_gate state (granted loaded)))"

section \<open>When a session arms\<close>

definition may_arm ::
    "session_config \<Rightarrow> auth_failure + authorization \<Rightarrow> json_file \<Rightarrow> bool \<Rightarrow> string dict \<Rightarrow> bool" where
  "may_arm cfg loaded state kill env \<longleftrightarrow> config_live cfg \<and> live_env_flag_enabled env \<and> \<not> kill \<and>
     (\<exists>a. loaded = Inr a \<and> (sc_allowlist cfg = [] \<or> set (au_allowlist a) \<subseteq> py_upper ` set (sc_allowlist cfg)) \<and>
        (\<exists>view. read_canary_envelope state a = Inr view \<and> \<not> en_tripped view \<and>
           int (en_sessions_used view) < en_max_sessions view))"

lemma allowlist_extra_Nil:
  "allowlist_extra cfg a = [] \<longleftrightarrow> sc_allowlist cfg = [] \<or> set (au_allowlist a) \<subseteq> py_upper ` set (sc_allowlist cfg)"
proof -
  have "sort xs = [] \<longleftrightarrow> xs = []" for xs :: "string list" by (metis length_0_conv length_sort)
  then show ?thesis by (auto simp: allowlist_extra_def filter_empty_conv)
qed

lemma envelope_gate_facts:
  assumes "envelope_gate state auth = Inr (ok, view, why)"
  shows "(ok \<longleftrightarrow> (\<exists>a v. auth = Some a \<and> read_canary_envelope state a = Inr v \<and> \<not> en_tripped v \<and>
           int (en_sessions_used v) < en_max_sessions v)) \<and> (why = [] \<longleftrightarrow> ok)"
  using assms by (auto simp: envelope_gate_def Let_def not_le split: option.splits sum.splits canary_error.splits if_splits)

lemma resolve_Inr:
  assumes "resolve_stage2_arming h cfg auth_file state kill env today paper = Inr d"
  obtains gate where "envelope_gate state (granted (load_authorization h auth_file today paper)) = Inr gate"
    and "d = arm_verdict cfg (load_authorization h auth_file today paper) kill env gate"
  using assms by (cases "envelope_gate state (granted (load_authorization h auth_file today paper))")
    (auto simp: resolve_stage2_arming_def Let_def split: sum.splits auth_failure.splits)

lemma reason_Nil [simp]: "((if b then [] else [x]) = []) = b" "((if b then [x] else []) = []) = (\<not> b)"
  by simp_all

lemma arm_verdict_armed:
  "arm_armed (arm_verdict cfg loaded kill env (ok, view, why)) \<longleftrightarrow> config_live cfg \<and> live_env_flag_enabled env \<and>
     \<not> kill \<and> ok \<and> (\<exists>a. loaded = Inr a \<and> allowlist_extra cfg a = [])"
  by (cases loaded) (auto simp: arm_verdict_def granted_def Let_def)

lemma arm_verdict_reasons:
  assumes "why = [] \<longleftrightarrow> ok"
  shows "arm_reasons (arm_verdict cfg loaded kill env (ok, view, why)) = [] \<longleftrightarrow>
         arm_armed (arm_verdict cfg loaded kill env (ok, view, why))"
  unfolding arm_verdict_armed using assms
  by (cases loaded) (simp_all add: arm_verdict_def granted_def Let_def, blast)

lemma arm_verdict_mode:
  "arm_mode (arm_verdict cfg loaded kill env gate) = (if arm_armed (arm_verdict cfg loaded kill env gate) then MODE_LIVE else MODE_SHADOW)"
  "arm_downgraded (arm_verdict cfg loaded kill env gate) \<longleftrightarrow>
     sc_mode cfg = MODE_LIVE \<and> \<not> arm_armed (arm_verdict cfg loaded kill env gate)"
  by (auto simp: arm_verdict_def Let_def split_beta)

lemma arming_iff:
  assumes "resolve_stage2_arming hash_jsonable cfg auth_file state kill env today paper = Inr d"
  shows "(arm_armed d \<longleftrightarrow> may_arm cfg (load_authorization hash_jsonable auth_file today paper) state kill env) \<and>
    (arm_mode d = MODE_LIVE \<longleftrightarrow> arm_armed d) \<and> (arm_mode d = MODE_SHADOW \<longleftrightarrow> \<not> arm_armed d) \<and>
    (arm_reasons d = [] \<longleftrightarrow> arm_armed d) \<and>
    (arm_downgraded d \<longleftrightarrow> sc_mode cfg = MODE_LIVE \<and> \<not> arm_armed d)"
proof -
  let ?l = "load_authorization hash_jsonable auth_file today paper"
  obtain ok view why where g: "envelope_gate state (granted ?l) = Inr (ok, view, why)"
    and d: "d = arm_verdict cfg ?l kill env (ok, view, why)"
    by (rule resolve_Inr [OF assms]) (metis prod_cases3)
  note f = envelope_gate_facts [OF g]
  have "arm_armed d \<longleftrightarrow> may_arm cfg ?l state kill env"
    unfolding d arm_verdict_armed using f by (cases ?l) (auto simp: may_arm_def allowlist_extra_Nil granted_def)
  moreover have "arm_reasons d = [] \<longleftrightarrow> arm_armed d" unfolding d by (rule arm_verdict_reasons) (use f in blast)
  moreover have "arm_mode d = (if arm_armed d then MODE_LIVE else MODE_SHADOW)"
    "arm_downgraded d \<longleftrightarrow> sc_mode cfg = MODE_LIVE \<and> \<not> arm_armed d"
    unfolding d by (rule arm_verdict_mode)+
  ultimately show ?thesis by (auto simp: MODE_LIVE_def MODE_SHADOW_def)
qed

text \<open>C7: A session arms exactly when all five gates hold: the configuration is enabled, free of
  errors and live; the authorization validates and stays within a configured allowlist; the
  environment flag is set; the kill switch is absent; and the envelope of this authorization has
  neither tripped nor used up its sessions. The mode is live exactly then, no reason is recorded
  exactly then, and a live configuration that does not arm is counted as downgraded.\<close>

theorem arming_iff_all_gates:
  assumes "resolve_stage2_arming hash_jsonable cfg auth_file state kill env today paper = Inr d"
  shows "(arm_armed d \<longleftrightarrow> may_arm cfg (load_authorization hash_jsonable auth_file today paper) state kill env) \<and>
    (arm_mode d = MODE_LIVE \<longleftrightarrow> arm_armed d) \<and> (arm_mode d = MODE_SHADOW \<longleftrightarrow> \<not> arm_armed d) \<and>
    (arm_reasons d = [] \<longleftrightarrow> arm_armed d) \<and>
    (arm_downgraded d \<longleftrightarrow> sc_mode cfg = MODE_LIVE \<and> \<not> arm_armed d)"
  by (rule arming_iff [OF assms])

text \<open>An exhausted envelope never arms again under the same authorization: once the tracker of a
  state file has tripped or counted all its sessions, then after any further operations and
  restarts a session that loads this authorization and this file stays in shadow mode.\<close>

theorem exhausted_envelope_never_arms:
  assumes "new_canary f a = Inr c0" and "run_canary ops1 c0 = c1"
    and "ca_tripped c1 \<or> au_max_sessions a \<le> int (length (ca_sessions c1))"
    and "load_authorization hash_jsonable auth_file today paper = Inr a"
    and "resolve_stage2_arming hash_jsonable cfg auth_file (ca_file (run_canary ops2 c1)) kill env today paper = Inr d"
  shows "\<not> arm_armed d \<and> arm_mode d = MODE_SHADOW"
proof -
  let ?c = "run_canary ops2 c1"
  from canary_ok_load [OF assms(1)] assms(2) canary_ok_run [of c0 ops1] stays_run [of c0 ops1]
  have c1: "canary_ok c1" "ca_auth c1 = a" by (auto simp: stays_def)
  from c1(1) have "distinct (ca_sessions c1)" "distinct (ca_sessions ?c)"
    using canary_ok_run [OF c1(1), of ops2] by (auto simp: canary_ok_def listed_ok_def)
  moreover have s: "stays c1 ?c" by (rule stays_run [OF c1(1)])
  ultimately have "length (ca_sessions c1) \<le> length (ca_sessions ?c)"
    by (metis card_mono distinct_card finite_set stays_def)
  moreover from canary_ok_run [OF c1(1), of ops2] s c1(2) obtain c' where
    n: "new_canary (ca_file ?c) a = Inr c'" "agrees ?c c'"
    by (auto simp: canary_ok_def stays_def)
  moreover from envelope_of_restart [OF n(1)] n(2) obtain v where
    v: "read_canary_envelope (ca_file ?c) a = Inr v" "en_tripped v = ca_tripped ?c"
      "en_sessions_used v = length (ca_sessions ?c)" "en_max_sessions v = au_max_sessions a"
    by (auto simp: agrees_def)
  ultimately have "\<not> may_arm cfg (Inr a) (ca_file ?c) kill env"
    using assms(3) s by (auto simp: may_arm_def stays_def)
  with arming_iff [OF assms(5)] assms(4) show ?thesis by simp
qed

section \<open>An armed session\<close>

definition live_config :: session_config where
  "live_config = default_session_config\<lparr>sc_enabled := True, sc_mode := MODE_LIVE, sc_allowlist := [''nvda'', ''aapl'']\<rparr>"

definition demo_arming :: "json_file \<Rightarrow> py_error + arm_decision" where
  "demo_arming state = resolve_stage2_arming (\<lambda>p. ''sha'') live_config (FileJson (JObj demo_authorization)) state False
     [(''RENQUANT_INTRADAY_LIVE'', ''1'')] ''2026-07-10'' False"

lemma demo_arming_armed: "map_sum id arm_armed (demo_arming FileAbsent) = Inr True"
  by code_simp

theorem arming_iff_all_gates_witness:
  "may_arm live_config (load_authorization (\<lambda>p. ''sha'') (FileJson (JObj demo_authorization)) ''2026-07-10'' False)
     FileAbsent False [(''RENQUANT_INTRADAY_LIVE'', ''1'')]"
proof -
  obtain d where d: "demo_arming FileAbsent = Inr d" "arm_armed d"
    using demo_arming_armed by (cases "demo_arming FileAbsent") auto
  from arming_iff_all_gates [OF d(1) [unfolded demo_arming_def]] d(2) show ?thesis by blast
qed

definition loaded_grant :: authorization where
  "loaded_grant = projr (load_authorization (\<lambda>p. ''sha'') (FileJson (JObj demo_authorization)) ''2026-07-10'' False)"

definition loaded_canary :: canary where
  "loaded_canary = fresh_canary loaded_grant FileAbsent"

lemma loaded_runs:
  "case load_authorization (\<lambda>p. ''sha'') (FileJson (JObj demo_authorization)) ''2026-07-10'' False of Inl x \<Rightarrow> False | Inr a \<Rightarrow> True"
  "ca_tripped (run_canary demo_ops loaded_canary)"
  "map_sum id arm_armed (demo_arming (ca_file (run_canary [Restart] (run_canary demo_ops loaded_canary)))) = Inr False"
  by code_simp+

theorem exhausted_envelope_never_arms_witness:
  "\<exists>d. demo_arming (ca_file (run_canary [Restart] (run_canary demo_ops loaded_canary))) = Inr d \<and> \<not> arm_armed d"
proof -
  have n: "new_canary FileAbsent loaded_grant = Inr loaded_canary"
    by (simp add: new_canary_def load_state_payload_def loaded_canary_def)
  have l: "load_authorization (\<lambda>p. ''sha'') (FileJson (JObj demo_authorization)) ''2026-07-10'' False = Inr loaded_grant"
    using loaded_runs(1) unfolding loaded_grant_def by (auto split: sum.splits)
  obtain d where d: "demo_arming (ca_file (run_canary [Restart] (run_canary demo_ops loaded_canary))) = Inr d"
    using loaded_runs(3) by (cases "demo_arming (ca_file (run_canary [Restart] (run_canary demo_ops loaded_canary)))") simp_all
  from exhausted_envelope_never_arms [OF n refl _ l, of demo_ops live_config "[Restart]"] d loaded_runs(2)
  show ?thesis unfolding demo_arming_def by blast
qed

end
