(* ===== verification/Effects.thy ===== *)
theory Effects
  imports PyBase
begin

text \<open>
  Steps that change a state and may raise: a step returns the state it leaves, also when it
  raises. The combinators are those of straight-line Python code: sequencing, a loop over a list,
  a \<open>try\<close> that looks at the outcome. The locale \<open>step_order\<close> is the proof interface: a relation between
  the states before and after that every run of the parts keeps, whatever they raise.
\<close>

type_synonym ('s, 'e, 'a) step = "'s \<Rightarrow> 's \<times> ('e + 'a)"

definition give :: "'a \<Rightarrow> ('s, 'e, 'a) step" where
  "give x s = (s, Inr x)"

definition fail :: "'e \<Rightarrow> ('s, 'e, 'a) step" where
  "fail e s = (s, Inl e)"

definition lift :: "'e + 'a \<Rightarrow> ('s, 'e, 'a) step" where
  "lift r s = (s, r)"

definition modify :: "('s \<Rightarrow> 's) \<Rightarrow> ('s, 'e, unit) step" where
  "modify f s = (f s, Inr ())"

definition seq :: "('s, 'e, 'a) step \<Rightarrow> ('a \<Rightarrow> ('s, 'e, 'b) step) \<Rightarrow> ('s, 'e, 'b) step" where
  "seq m k s = (case m s of (s', Inl e) \<Rightarrow> (s', Inl e) | (s', Inr x) \<Rightarrow> k x s')"

text \<open>The outcome of a step, for the clauses of a \<open>try\<close>.\<close>

definition attempt :: "('s, 'e, 'a) step \<Rightarrow> ('s, 'e, 'e + 'a) step" where
  "attempt m s = (case m s of (s', r) \<Rightarrow> (s', Inr r))"

fun each :: "('x \<Rightarrow> ('s, 'e, 'b) step) \<Rightarrow> 'x list \<Rightarrow> ('s, 'e, 'b list) step" where
  "each f [] = give []"
| "each f (x # xs) = seq (f x) (\<lambda>y. seq (each f xs) (\<lambda>ys. give (y # ys)))"

definition only_if :: "bool \<Rightarrow> ('s, 'e, unit) step \<Rightarrow> ('s, 'e, unit) step" where
  "only_if b m = (if b then m else give ())"

definition moves :: "('s \<Rightarrow> 's \<Rightarrow> bool) \<Rightarrow> ('s, 'e, 'a) step \<Rightarrow> bool" where
  "moves R m \<longleftrightarrow> (\<forall>s. R s (fst (m s)))"

text \<open>What a step guarantees of the state it leaves and the value it returns.\<close>

definition yields :: "('s, 'e, 'a) step \<Rightarrow> ('s \<Rightarrow> 'a \<Rightarrow> bool) \<Rightarrow> bool" where
  "yields m Q \<longleftrightarrow> (\<forall>s s' x. m s = (s', Inr x) \<longrightarrow> Q s' x)"

lemma yieldsD: "yields m Q \<Longrightarrow> m s = (s', Inr x) \<Longrightarrow> Q s' x"
  by (auto simp: yields_def)

lemma seq_Inr:
  "seq m k s = (s', Inr y) \<Longrightarrow> \<exists>s1 x. m s = (s1, Inr x) \<and> k x s1 = (s', Inr y)"
  by (auto simp: seq_def split: prod.splits sum.splits)

lemma seq_runs: "m s = (s', Inr x) \<Longrightarrow> seq m k s = k x s'"
  by (simp add: seq_def)

locale step_order =
  fixes R :: "'s \<Rightarrow> 's \<Rightarrow> bool"
  assumes refl: "R s s"
    and trans: "R s t \<Longrightarrow> R t u \<Longrightarrow> R s u"
begin

lemma moves_give [intro, simp]: "moves R (give x)" "moves R (fail e)" "moves R (lift r)"
  by (simp_all add: moves_def give_def fail_def lift_def refl)

lemma moves_modify: "(\<And>s. R s (f s)) \<Longrightarrow> moves R (modify f)"
  by (simp add: moves_def modify_def)

lemma moves_seq_yields:
  assumes "moves R m" and "\<And>s s' x. m s = (s', Inr x) \<Longrightarrow> R s' (fst (k x s'))"
  shows "moves R (seq m k)"
  unfolding moves_def
proof
  fix s
  obtain s' r where m: "m s = (s', r)" by fastforce
  with assms(1) have "R s s'" by (metis fst_conv moves_def)
  with m assms(2) [of s s'] trans show "R s (fst (seq m k s))"
    by (cases r) (auto simp: seq_def)
qed

lemma moves_seq [intro]:
  assumes "moves R m" and "\<And>x. moves R (k x)"
  shows "moves R (seq m k)"
  by (rule moves_seq_yields) (use assms in \<open>auto simp: moves_def\<close>)

lemma moves_each: "(\<And>x. x \<in> set xs \<Longrightarrow> moves R (f x)) \<Longrightarrow> moves R (each f xs)"
  by (induction xs) auto

lemma moves_attempt: "moves R m \<Longrightarrow> moves R (attempt m)"
  by (auto simp: moves_def attempt_def split: prod.splits) (metis fst_conv)

lemma moves_only_if: "moves R m \<Longrightarrow> moves R (only_if b m)"
  by (simp add: only_if_def)

lemma moves_sum: "(\<And>x. r = Inl x \<Longrightarrow> moves R (f x)) \<Longrightarrow> (\<And>y. r = Inr y \<Longrightarrow> moves R (g y)) \<Longrightarrow>
    moves R (case r of Inl x \<Rightarrow> f x | Inr y \<Rightarrow> g y)"
  by (cases r) auto

lemma moves_option: "(r = None \<Longrightarrow> moves R f) \<Longrightarrow> (\<And>y. r = Some y \<Longrightarrow> moves R (g y)) \<Longrightarrow>
    moves R (case r of None \<Rightarrow> f | Some y \<Rightarrow> g y)"
  by (cases r) auto

lemma moves_if: "(b \<Longrightarrow> moves R f) \<Longrightarrow> (\<not> b \<Longrightarrow> moves R g) \<Longrightarrow> moves R (if b then f else g)"
  by simp

lemma moves_prod: "(\<And>a b. x = (a, b) \<Longrightarrow> moves R (f a b)) \<Longrightarrow> moves R (case x of (a, b) \<Rightarrow> f a b)"
  by (cases x) auto

text \<open>The same from one state on.\<close>

lemma seq_at:
  assumes "R s (fst (m s))" and "\<And>s' x. m s = (s', Inr x) \<Longrightarrow> R s' (fst (k x s'))"
  shows "R s (fst (seq m k s))"
proof -
  obtain s' r where m: "m s = (s', r)" by fastforce
  with assms trans [of s s'] show ?thesis by (cases r) (auto simp: seq_def)
qed

lemma moves_at: "moves R m \<Longrightarrow> R s (fst (m s))"
  by (simp add: moves_def)

lemmas moves_intros = moves_prod moves_give moves_seq moves_each moves_attempt moves_only_if moves_sum moves_option moves_if

end

end
