(* ===== verification/LiveExecutor.thy ===== *)
theory LiveExecutor
  imports LiveArming Effects
begin

text \<open>
  \<open>intraday_live_executor.py\<close>, part 4: \<open>LiveTickExecutor\<close>, the driver of a live session. The order-state
  book and the broker port are components of \<open>renquant_execution\<close>, so they are arguments: a record of
  the book's operations over an arbitrary book state, and replies of the port that may depend on
  the number of calls made before. An open child is a child of one of the book's parents. The
  trace lists the journal's rows, the mutating broker calls and the notifications in order; the
  figures and time stamps of a journal row are left out.
\<close>

section \<open>The external components\<close>

record child_view =
  cv_id :: string
  cv_qty :: pyfloat
  cv_price :: pyfloat
  cv_filled :: pyfloat
  cv_is_filled :: bool
  cv_is_open :: bool

record parent_view =
  pv_id :: string
  pv_symbol :: string
  pv_side :: string
  pv_remaining :: pyfloat
  pv_children :: "child_view list"

datatype book_error = EconomicInvariant | DuplicateChild | EntryBlocked string | OtherLifecycle string | BookOther

type_synonym ('b, 'a) book_step = "'b \<Rightarrow> 'b \<times> (book_error + 'a)"

text \<open>\<open>bk_lifecycle\<close> is the text of an exception that is a \<open>LifecycleError\<close>; \<open>bk_reconcile\<close> returns whether the
  reconciliation was clean.\<close>

record 'b book_ops =
  bk_new :: "string \<Rightarrow> string \<Rightarrow> 'b"
  bk_restore :: "json dict \<Rightarrow> book_error + 'b"
  bk_snapshot :: "'b \<Rightarrow> json"
  bk_parents :: "'b \<Rightarrow> parent_view list"
  bk_open_children :: "'b \<Rightarrow> string list"
  bk_can_emit :: "'b \<Rightarrow> string \<Rightarrow> bool"
  bk_halted :: "'b \<Rightarrow> bool"
  bk_halt_reason :: "'b \<Rightarrow> string"
  bk_halt :: "string \<Rightarrow> 'b \<Rightarrow> 'b"
  bk_register :: "string \<Rightarrow> string \<Rightarrow> string \<Rightarrow> pyfloat \<Rightarrow> ('b, parent_view) book_step"
  bk_submit_child :: "string \<Rightarrow> pyfloat \<Rightarrow> pyfloat \<Rightarrow> int \<Rightarrow> ('b, child_view) book_step"
  bk_ack :: "string \<Rightarrow> ('b, unit) book_step"
  bk_reject :: "string \<Rightarrow> ('b, unit) book_step"
  bk_cancel :: "string \<Rightarrow> ('b, unit) book_step"
  bk_expire :: "string \<Rightarrow> ('b, unit) book_step"
  bk_fill :: "string \<Rightarrow> pyfloat \<Rightarrow> ('b, unit) book_step"
  bk_mark_stale :: "int \<Rightarrow> ('b, string list) book_step"
  bk_reconcile :: "nat \<Rightarrow> ('b, bool) book_step"
  bk_lifecycle :: "book_error \<Rightarrow> string option"

datatype broker_action = SubmitOrder string string string pyfloat "pyfloat option" | CancelOrder string

text \<open>A reply is \<open>None\<close> when the call raises.\<close>

record port =
  pt_act :: "nat \<Rightarrow> broker_action \<Rightarrow> json dict option"
  pt_status :: "nat \<Rightarrow> string \<Rightarrow> json dict option"

section \<open>State\<close>

datatype live_event = WroteAhead broker_action string | Called broker_action | Outcome broker_action string
  | Stamped string | Notified

datatype live_error = NotReconciled | CapExceeded | NotAllowlisted string | LockstepViolation string
  | UnknownChild string | BookUnreadable | CanaryErr canary_error | BookErr book_error | PyErr py_error

record 'b live =
  lx_account :: string
  lx_day :: string
  lx_auth :: authorization
  lx_canary :: canary
  lx_dead :: dead_man
  lx_book :: "'b option"
  lx_restored :: bool
  lx_open :: bool
  lx_book_file :: json_file
  lx_calls :: nat
  lx_trace :: "live_event list"

type_synonym ('b, 'a) live_step = "('b live, live_error, 'a) step"

definition new_live :: "string \<Rightarrow> string \<Rightarrow> authorization \<Rightarrow> json_file \<Rightarrow> json_file \<Rightarrow> canary_error + 'b live" where
  "new_live account day a state book_file =
     map_sum id (\<lambda>c. \<lparr>lx_account = account, lx_day = day, lx_auth = a, lx_canary = c, lx_dead = new_dead_man,
        lx_book = None, lx_restored = False, lx_open = False, lx_book_file = book_file, lx_calls = 0,
        lx_trace = []\<rparr>) (new_canary state a)"

section \<open>Elementary steps\<close>

definition jot :: "live_event \<Rightarrow> ('b, unit) live_step" where
  "jot e = modify (\<lambda>s. s\<lparr>lx_trace := lx_trace s @ [e]\<rparr>)"

definition require_open :: "('b, 'b) live_step" where
  "require_open s = (if \<not> lx_open s then (s, Inl NotReconciled)
     else case lx_book s of None \<Rightarrow> (s, Inl NotReconciled) | Some b \<Rightarrow> (s, Inr b))"

definition on_book :: "('b, 'a) book_step \<Rightarrow> ('b, 'a) live_step" where
  "on_book f s =
     (case lx_book s of
        None \<Rightarrow> (s, Inl NotReconciled)
      | Some b \<Rightarrow> (case f b of (b', r) \<Rightarrow> (s\<lparr>lx_book := Some b'\<rparr>, map_sum BookErr id r)))"

definition act :: "port \<Rightarrow> broker_action \<Rightarrow> ('b, json dict option) live_step" where
  "act pt a s = (s\<lparr>lx_trace := lx_trace s @ [Called a], lx_calls := lx_calls s + 1\<rparr>, Inr (pt_act pt (lx_calls s) a))"

definition order_status :: "port \<Rightarrow> string \<Rightarrow> ('b, json dict option) live_step" where
  "order_status pt cid s = (s\<lparr>lx_calls := lx_calls s + 1\<rparr>, Inr (pt_status pt (lx_calls s) cid))"

definition canary_fill :: "string \<Rightarrow> string \<Rightarrow> pyfloat \<Rightarrow> pyfloat \<Rightarrow> ('b, unit) live_step" where
  "canary_fill symb side qty price s =
     (case record_fill symb side qty price (lx_canary s) of
        (c, None) \<Rightarrow> (s\<lparr>lx_canary := c\<rparr>, Inr ())
      | (c, Some e) \<Rightarrow> (s\<lparr>lx_canary := c\<rparr>, Inl (PyErr e)))"

definition persist_book :: "'b book_ops \<Rightarrow> 'b live \<Rightarrow> 'b live" where
  "persist_book ops s = (case lx_book s of None \<Rightarrow> s | Some b \<Rightarrow> s\<lparr>lx_book_file := FileJson (bk_snapshot ops b)\<rparr>)"

definition halt_unless_halted :: "'b book_ops \<Rightarrow> string \<Rightarrow> 'b live \<Rightarrow> 'b live" where
  "halt_unless_halted ops reason s =
     (case lx_book s of
        None \<Rightarrow> s
      | Some b \<Rightarrow> if bk_halted ops b then s else s\<lparr>lx_book := Some (bk_halt ops reason b)\<rparr>)"

definition record_broker_failure :: "'b book_ops \<Rightarrow> ('b, unit) live_step" where
  "record_broker_failure ops = modify (\<lambda>s.
     let s = s\<lparr>lx_dead := record_failure (lx_dead s)\<rparr> in
     if dm_tripped (lx_dead s) then halt_unless_halted ops ''dead_man_consecutive_broker_errors'' s else s)"

definition broker_success :: "('b, unit) live_step" where
  "broker_success = modify (\<lambda>s. s\<lparr>lx_dead := record_success (lx_dead s)\<rparr>)"

section \<open>The entry cap and the allowlist\<close>

definition entry_notional :: "'b book_ops \<Rightarrow> 'b \<Rightarrow> pyfloat" where
  "entry_notional ops b =
     foldl (\<lambda>total c. fadd total (fmul (cv_qty c) (cv_price c))) (Num 0)
       (concat (map pv_children (filter (\<lambda>p. pv_side p = ''BUY'') (bk_parents ops b))))"

definition cap_exceeded :: "authorization \<Rightarrow> pyfloat \<Rightarrow> bool" where
  "cap_exceeded a x \<longleftrightarrow> flt (fadd (au_cap a) (Num EPS)) x"

definition assert_entry_cap :: "'b book_ops \<Rightarrow> pyfloat \<Rightarrow> ('b, unit) live_step" where
  "assert_entry_cap ops additional s =
     (case lx_book s of
        None \<Rightarrow> (s, Inl NotReconciled)
      | Some b \<Rightarrow> if cap_exceeded (lx_auth s) (fadd (entry_notional ops b) additional)
                  then (s, Inl CapExceeded) else (s, Inr ()))"

definition assert_canary_allowlist :: "string \<Rightarrow> string \<Rightarrow> ('b, unit) live_step" where
  "assert_canary_allowlist symb side s =
     (if side = ''BUY'' \<and> py_upper symb \<notin> py_upper ` set (au_allowlist (lx_auth s))
      then (s, Inl (NotAllowlisted symb)) else (s, Inr ()))"

section \<open>Broker interaction\<close>

definition ACK_STATUSES :: "string list" where
  "ACK_STATUSES = [''accepted'', ''new'', ''pending_new'', ''accepted_for_bidding'']"

definition CANCELED_STATUSES :: "string list" where
  "CANCELED_STATUSES = [''canceled'', ''cancelled'', ''done_for_day'']"

text \<open>A usable number: \<open>_positive\<close>.\<close>

definition positive :: "json \<Rightarrow> pyfloat option" where
  "positive v =
     (case py_float v of
        Inl e \<Rightarrow> None
      | Inr x \<Rightarrow> if \<not> feq x x \<or> fle x (Num 0) \<or> x = PInf then None else Some x)"

text \<open>The first usable price of a reply.\<close>

definition usable_price :: "json \<Rightarrow> pyfloat option" where
  "usable_price v =
     (case py_float v of Inl e \<Rightarrow> None | Inr x \<Rightarrow> if flt (Num 0) x \<and> feq x x \<and> x \<noteq> PInf then Some x else None)"

definition row_fill_price :: "json dict \<Rightarrow> pyfloat option" where
  "row_fill_price row =
     (case usable_price (dget row ''fill_price'' JNull) of
        Some x \<Rightarrow> Some x
      | None \<Rightarrow> usable_price (dget row ''filled_avg_price'' JNull))"

definition fill_price_or :: "json dict \<Rightarrow> pyfloat \<Rightarrow> pyfloat" where
  "fill_price_or row x = (case row_fill_price row of None \<Rightarrow> x | Some y \<Rightarrow> y)"

definition filled_qty_of :: "json dict \<Rightarrow> live_error + pyfloat" where
  "filled_qty_of row =
     map_sum PyErr id (py_float (py_or (dget row ''filled_qty'' (JFloat (Num 0))) (JFloat (Num 0))))"

definition find_child :: "parent_view list \<Rightarrow> string \<Rightarrow> (parent_view \<times> child_view) option" where
  "find_child ps cid =
     find (\<lambda>(p, c). cv_id c = cid) (concat (map (\<lambda>p. map (Pair p) (pv_children p)) ps))"

definition child_parent :: "'b book_ops \<Rightarrow> string \<Rightarrow> ('b, parent_view \<times> child_view) live_step" where
  "child_parent ops cid s =
     (case lx_book s of
        None \<Rightarrow> (s, Inl NotReconciled)
      | Some b \<Rightarrow> (case find_child (bk_parents ops b) cid of None \<Rightarrow> (s, Inl (UnknownChild cid)) | Some x \<Rightarrow> (s, Inr x)))"

record submission =
  sb_cid :: string
  sb_symbol :: string
  sb_side :: string
  sb_status :: string

definition order_type_for :: "string \<Rightarrow> 'b live \<Rightarrow> string" where
  "order_type_for side s = (if side = ''BUY'' then au_entry_type (lx_auth s) else au_exit_type (lx_auth s))"

definition write_ahead_submit :: "string \<Rightarrow> broker_action \<Rightarrow> ('b, unit) live_step" where
  "write_ahead_submit side a = modify (\<lambda>s. s\<lparr>lx_trace := lx_trace s @ [WroteAhead a (order_type_for side s)]\<rparr>)"

definition book_response ::
    "'b book_ops \<Rightarrow> parent_view \<Rightarrow> child_view \<Rightarrow> json dict \<Rightarrow> string \<Rightarrow> ('b, unit) live_step" where
  "book_response ops p c row status =
     (if status = ''rejected'' then seq (on_book (bk_reject ops (cv_id c))) (\<lambda>u. record_broker_failure ops)
      else seq broker_success (\<lambda>u.
           seq (only_if (status \<in> set ACK_STATUSES) (on_book (bk_ack ops (cv_id c)))) (\<lambda>u.
           seq (lift (filled_qty_of row)) (\<lambda>q.
           only_if (flt (Num EPS) q) (seq (on_book (bk_fill ops (cv_id c) q)) (\<lambda>u.
             canary_fill (pv_symbol p) (pv_side p) q (fill_price_or row (cv_price c))))))))"

definition submission_of :: "parent_view \<Rightarrow> child_view \<Rightarrow> string \<Rightarrow> submission" where
  "submission_of p c status =
     \<lparr>sb_cid = cv_id c, sb_symbol = pv_symbol p, sb_side = pv_side p, sb_status = status\<rparr>"

text \<open>What follows the broker's reply; a call that raised is booked as a reject.\<close>

definition after_reply ::
    "'b book_ops \<Rightarrow> parent_view \<Rightarrow> child_view \<Rightarrow> broker_action \<Rightarrow> json dict option \<Rightarrow> ('b, submission) live_step" where
  "after_reply ops p c a reply =
     (case reply of
         None \<Rightarrow> seq (on_book (bk_reject ops (cv_id c))) (\<lambda>u. seq (jot (Outcome a ''error'')) (\<lambda>u.
                 seq (record_broker_failure ops) (\<lambda>u. give (submission_of p c ''error''))))
       | Some row \<Rightarrow>
           let status = py_lower (py_str (py_or (dget row ''status'' (JStr [])) (JStr ''submitted''))) in
           seq (jot (Outcome a status)) (\<lambda>u.
           seq (book_response ops p c row status) (\<lambda>u. give (submission_of p c status))))"

text \<open>The journal row, then the broker call, then its booking.\<close>

definition transmit ::
    "'b book_ops \<Rightarrow> port \<Rightarrow> parent_view \<Rightarrow> pyfloat option \<Rightarrow> child_view \<Rightarrow> ('b, submission) live_step" where
  "transmit ops pt p limit c =
     (let a = SubmitOrder (cv_id c) (pv_symbol p) (pv_side p) (cv_qty c) limit in
      seq (write_ahead_submit (pv_side p) a) (\<lambda>u. seq (act pt a) (after_reply ops p c a)))"

definition submit_parent_remainder ::
    "'b book_ops \<Rightarrow> port \<Rightarrow> int \<Rightarrow> parent_view \<Rightarrow> pyfloat \<Rightarrow> pyfloat option \<Rightarrow> ('b, submission) live_step" where
  "submit_parent_remainder ops pt now p reference limit =
     seq require_open (\<lambda>b.
     seq (assert_canary_allowlist (pv_symbol p) (pv_side p)) (\<lambda>u.
     seq (on_book (bk_submit_child ops (pv_id p) (pv_remaining p) reference now)) (transmit ops pt p limit)))"

definition cancel_child :: "'b book_ops \<Rightarrow> port \<Rightarrow> string \<Rightarrow> string \<Rightarrow> ('b, string \<times> string) live_step" where
  "cancel_child ops pt reason cid =
     (let a = CancelOrder cid in
     seq require_open (\<lambda>b.
     seq (jot (WroteAhead a reason)) (\<lambda>u.
     seq (act pt a) (\<lambda>reply. case reply of
         None \<Rightarrow> seq (jot (Outcome a ''error'')) (\<lambda>u. seq (record_broker_failure ops) (\<lambda>u. give (cid, ''error'')))
       | Some row \<Rightarrow>
           let status = py_lower (py_str (py_or (dget row ''status'' (JStr [])) (JStr ''canceled''))) in
           seq (jot (Outcome a status)) (\<lambda>u. seq broker_success (\<lambda>u.
           seq (child_parent ops cid) (\<lambda>(p, c).
           seq (lift (filled_qty_of row)) (\<lambda>q.
           let delta = fsub q (cv_filled c) in
           seq (only_if (flt (Num EPS) delta) (seq (on_book (bk_fill ops cid delta)) (\<lambda>u.
             canary_fill (pv_symbol p) (pv_side p) delta (fill_price_or row (cv_price c))))) (\<lambda>u.
           seq (child_parent ops cid) (\<lambda>(p', c').
           seq (only_if (\<not> cv_is_filled c' \<and> cv_is_open c') (on_book (bk_cancel ops cid))) (\<lambda>u.
           give (cid, status))))))))))))"

definition cancel_stale :: "'b book_ops \<Rightarrow> port \<Rightarrow> int \<Rightarrow> ('b, (string \<times> string) list) live_step" where
  "cancel_stale ops pt now =
     seq require_open (\<lambda>b. seq (on_book (bk_mark_stale ops now)) (\<lambda>cids.
       each (cancel_child ops pt ''stale_pending_watchdog'') cids))"

text \<open>One open child of the poll; a read that raises leaves it open.\<close>

definition sync_child :: "'b book_ops \<Rightarrow> port \<Rightarrow> string \<Rightarrow> ('b, (string \<times> string \<times> pyfloat) option) live_step" where
  "sync_child ops pt cid =
     seq (order_status pt cid) (\<lambda>reply. case reply of
         None \<Rightarrow> give None
       | Some row \<Rightarrow>
           seq (child_parent ops cid) (\<lambda>(p, c).
           seq (lift (filled_qty_of row)) (\<lambda>q.
           let delta = fsub q (cv_filled c); status = py_lower (py_str (dget row ''status'' (JStr []))) in
           seq (only_if (flt (Num EPS) delta) (seq (on_book (bk_fill ops cid delta)) (\<lambda>u.
             canary_fill (pv_symbol p) (pv_side p) delta (fill_price_or row (cv_price c))))) (\<lambda>u.
           seq (child_parent ops cid) (\<lambda>(p', c').
           seq (if cv_is_filled c' then give ()
                else if status \<in> set CANCELED_STATUSES then on_book (bk_cancel ops cid)
                else if status = ''expired'' then on_book (bk_expire ops cid)
                else if status = ''rejected'' then seq (on_book (bk_reject ops cid)) (\<lambda>u. record_broker_failure ops)
                else give ()) (\<lambda>u.
           give (Some (cid, status, delta))))))))"

definition sync_open_children :: "'b book_ops \<Rightarrow> port \<Rightarrow> ('b, (string \<times> string \<times> pyfloat) list) live_step" where
  "sync_open_children ops pt =
     seq require_open (\<lambda>b. seq (each (sync_child ops pt) (bk_open_children ops b)) (\<lambda>rs.
       give (map the (filter (\<lambda>r. r \<noteq> None) rs))))"

section \<open>The tick\<close>

record skip_row =
  sk_symbol :: string
  sk_side :: string
  sk_parent :: string
  sk_reason :: string

definition skip :: "json dict \<Rightarrow> string \<Rightarrow> skip_row" where
  "skip i reason = \<lparr>sk_symbol = py_str (dget i ''symbol'' (JStr [])), sk_side = py_str (dget i ''side'' (JStr [])),
     sk_parent = py_str (dget i ''parent_intent_id'' (JStr [])), sk_reason = reason\<rparr>"

definition REASON_ENTRY_CAP :: string where "REASON_ENTRY_CAP = ''stage2_daily_entry_notional_cap''"

definition REASON_ENTRIES_HALTED :: string where "REASON_ENTRIES_HALTED = ''stage2_entries_halted''"

definition REASON_NOT_ALLOWLISTED :: string where "REASON_NOT_ALLOWLISTED = ''stage2_canary_allowlist''"

definition HALT_REASON_LOSS_BUDGET :: string where "HALT_REASON_LOSS_BUDGET = ''stage2_cumulative_loss_budget''"

definition register_intent :: "'b book_ops \<Rightarrow> json dict \<Rightarrow> string \<Rightarrow> ('b, parent_view) live_step" where
  "register_intent ops i side =
     seq require_open (\<lambda>b.
     seq (lift (map_sum PyErr id (py_float (dget i ''quantity'' (JFloat (Num 0)))))) (\<lambda>qty.
     seq (on_book (bk_register ops (py_str (dget i ''symbol'' (JStr []))) side
            (py_str (dget i ''signal_version'' (JStr []))) qty)) (\<lambda>p.
     let declared = py_str (py_or (dget i ''parent_intent_id'' (JStr [])) (JStr [])) in
     if declared \<noteq> [] \<and> declared \<noteq> pv_id p then fail (LockstepViolation declared) else give p)))"

text \<open>The handlers around a registration: two lifecycle errors go on, the others skip the intent.\<close>

definition registration ::
    "'b book_ops \<Rightarrow> json dict \<Rightarrow> string \<Rightarrow> ('b, string + parent_view) live_step" where
  "registration ops i side =
     seq (attempt (register_intent ops i side)) (\<lambda>r. case r of
       Inr p \<Rightarrow> give (Inr p)
     | Inl e \<Rightarrow> (case e of
           BookErr x \<Rightarrow> if x \<in> {EconomicInvariant, DuplicateChild} then fail e
             else (case bk_lifecycle ops x of None \<Rightarrow> fail e | Some t \<Rightarrow> give (Inl t))
         | _ \<Rightarrow> fail e))"

text \<open>A read of the book between two steps.\<close>

definition look :: "('b \<Rightarrow> 'a) \<Rightarrow> ('b, 'a) live_step" where
  "look f s = (case lx_book s of None \<Rightarrow> (s, Inl NotReconciled) | Some b \<Rightarrow> (s, Inr (f b)))"

definition exit_step ::
    "'b book_ops \<Rightarrow> port \<Rightarrow> int \<Rightarrow> json dict \<Rightarrow> ('b, string option \<times> (skip_row + submission)) live_step" where
  "exit_step ops pt now i =
     seq (registration ops i ''SELL'') (\<lambda>r. case r of
         Inl t \<Rightarrow> give (None, Inl (skip i t))
       | Inr p \<Rightarrow>
           seq (look (\<lambda>b. bk_can_emit ops b (pv_id p))) (\<lambda>can.
           if \<not> can then give (None, Inl (skip i ''no_emittable_remainder''))
           else let price = positive (dget i ''price'' JNull) in
             seq (submit_parent_remainder ops pt now p (case price of None \<Rightarrow> Num 1 | Some x \<Rightarrow> x) price)
               (\<lambda>sub. give (Some (pv_id p), Inr sub))))"

text \<open>The chase of unsubmitted exit remainders; the parents are those of the book at its start.\<close>

definition find_parent :: "string \<Rightarrow> parent_view list \<Rightarrow> parent_view option" where
  "find_parent pid ps = find (\<lambda>p. pv_id p = pid) ps"

definition chase_step ::
    "'b book_ops \<Rightarrow> port \<Rightarrow> int \<Rightarrow> string list \<Rightarrow> string \<Rightarrow> ('b, submission option) live_step" where
  "chase_step ops pt now attempted pid =
     seq (look (\<lambda>b. (find_parent pid (bk_parents ops b), bk_can_emit ops b pid))) (\<lambda>(found, can). case found of
         None \<Rightarrow> give None
       | Some p \<Rightarrow>
           if pv_side p \<noteq> ''SELL'' \<or> pid \<in> set attempted \<or> \<not> can then give None
           else seq (submit_parent_remainder ops pt now p
                  (if pv_children p = [] then Num 1 else fmax (cv_price (last (pv_children p))) (Num 1)) None)
                (\<lambda>sub. give (Some sub)))"

definition evaluate_loss_budget :: "'b book_ops \<Rightarrow> ('b, bool) live_step" where
  "evaluate_loss_budget ops s =
     (case evaluate_budget (lx_canary s) of
        (c, newly) \<Rightarrow>
          (let s = s\<lparr>lx_canary := c\<rparr> in
           if newly then
             (let s = halt_unless_halted ops HALT_REASON_LOSS_BUDGET s in
              (s\<lparr>lx_trace := lx_trace s @ [Stamped ''loss_budget_trip'', Notified]\<rparr>, Inr True))
           else (s, Inr False)))"

text \<open>An entry whose parent is registered: the cap is checked against its remainder, and again after the submission.\<close>

definition submit_entry ::
    "'b book_ops \<Rightarrow> port \<Rightarrow> int \<Rightarrow> json dict \<Rightarrow> pyfloat \<Rightarrow> parent_view \<Rightarrow> ('b, skip_row + submission) live_step" where
  "submit_entry ops pt now i price p =
     seq (look (\<lambda>b. bk_can_emit ops b (pv_id p))) (\<lambda>can.
     if \<not> can then give (Inl (skip i ''no_emittable_remainder''))
     else seq (assert_entry_cap ops (fmul (pv_remaining p) price)) (\<lambda>u.
       seq (attempt (submit_parent_remainder ops pt now p price (Some price))) (\<lambda>r. case r of
           Inl (BookErr (EntryBlocked reason)) \<Rightarrow> give (Inl (skip i reason))
         | Inl e \<Rightarrow> fail e
         | Inr sub \<Rightarrow> seq (assert_entry_cap ops (Num 0)) (\<lambda>u. give (Inr sub)))))"

definition entry_step ::
    "'b book_ops \<Rightarrow> port \<Rightarrow> int \<Rightarrow> json dict \<Rightarrow> ('b, skip_row + submission) live_step" where
  "entry_step ops pt now i s =
     (case lx_book s of
        None \<Rightarrow> (s, Inl NotReconciled)
      | Some b \<Rightarrow>
          if bk_halted ops b then give (Inl (skip i REASON_ENTRIES_HALTED)) s
          else if py_upper (py_str (dget i ''symbol'' (JStr []))) \<notin> set (au_allowlist (lx_auth s))
            then give (Inl (skip i REASON_NOT_ALLOWLISTED)) s
          else (case (positive (dget i ''price'' JNull), positive (dget i ''quantity'' JNull)) of
              (Some price, Some qty) \<Rightarrow>
                if cap_exceeded (lx_auth s) (fadd (entry_notional ops b) (fmul qty price))
                then give (Inl (skip i REASON_ENTRY_CAP)) s
                else seq (registration ops i ''BUY'') (\<lambda>r. case r of
                    Inl t \<Rightarrow> give (Inl (skip i t))
                  | Inr p \<Rightarrow> submit_entry ops pt now i price p) s
            | _ \<Rightarrow> give (Inl (skip i ''missing_entry_price_or_quantity'')) s))"

definition observe_items :: "json \<Rightarrow> canary \<Rightarrow> canary" where
  "observe_items source c =
     (case source of
        JObj kvs \<Rightarrow> foldl (\<lambda>c (k, v). case positive v of None \<Rightarrow> c | Some x \<Rightarrow> observe_price k x c) c kvs
      | _ \<Rightarrow> c)"

definition observe_intent :: "canary \<Rightarrow> json dict \<Rightarrow> canary" where
  "observe_intent c i =
     (case positive (dget i ''price'' JNull) of
        None \<Rightarrow> c
      | Some x \<Rightarrow> observe_price (py_str (dget i ''symbol'' (JStr []))) x c)"

definition harvest_marks :: "json dict \<Rightarrow> json dict list \<Rightarrow> canary \<Rightarrow> canary" where
  "harvest_marks decisions intents c =
     foldl observe_intent (observe_items (dget decisions ''quotes'' JNull)
       (observe_items (dget decisions ''marks'' JNull) c)) intents"

definition side_of :: "json dict \<Rightarrow> string" where
  "side_of i = py_upper (py_str (dget i ''side'' (JStr [])))"

record cap_state =
  cs_cap :: pyfloat
  cs_used :: pyfloat
  cs_remaining :: pyfloat

definition cap_state_of :: "'b book_ops \<Rightarrow> 'b live \<Rightarrow> cap_state" where
  "cap_state_of ops s =
     (let cap = au_cap (lx_auth s); used = (case lx_book s of None \<Rightarrow> Num 0 | Some b \<Rightarrow> entry_notional ops b) in
      \<lparr>cs_cap = cap, cs_used = used, cs_remaining = fmax (Num 0) (fsub cap used)\<rparr>)"

record tick_report =
  tk_stale :: "(string \<times> string) list"
  tk_sync :: "(string \<times> string \<times> pyfloat) list"
  tk_submitted :: "submission list"
  tk_skipped :: "skip_row list"
  tk_cap :: cap_state
  tk_allowlist :: "string list"
  tk_allowlist_skips :: nat
  tk_newly_tripped :: bool
  tk_canary :: canary
  tk_halted :: bool
  tk_halt_reason :: string
  tk_dead_man :: dead_man

definition lefts :: "('a + 'b) list \<Rightarrow> 'a list" where
  "lefts xs = [x. Inl x \<leftarrow> xs]"

definition rights :: "('a + 'b) list \<Rightarrow> 'b list" where
  "rights xs = [y. Inr y \<leftarrow> xs]"

text \<open>The intents of a normalised payload, copied one by one.\<close>

definition read_intents :: "json dict \<Rightarrow> live_error + json dict list" where
  "read_intents decisions =
     map_sum PyErr id (case iter_json (py_or (dget decisions ''intents'' JNull) (JList [])) of
       Inl e \<Rightarrow> Inl e
     | Inr xs \<Rightarrow> collect_all (\<lambda>x. map_sum id (\<lambda>d. [d]) (dict_of x)) xs)"

definition exits_phase ::
    "'b book_ops \<Rightarrow> port \<Rightarrow> int \<Rightarrow> json dict list \<Rightarrow> ('b, (string option \<times> (skip_row + submission)) list \<times> submission list) live_step" where
  "exits_phase ops pt now intents =
     seq (each (exit_step ops pt now) (filter (\<lambda>i. side_of i = ''SELL'') intents)) (\<lambda>outs.
     seq (look (\<lambda>b. map pv_id (bk_parents ops b))) (\<lambda>pids.
     seq (each (chase_step ops pt now [pid. (Some pid, r) \<leftarrow> outs]) pids) (\<lambda>chased.
     give (outs, [sub. Some sub \<leftarrow> chased]))))"

text \<open>The report of a tick; the halt and its reason are those of the book after the entries.\<close>

definition report_tick ::
    "'b book_ops \<Rightarrow> (string \<times> string) list \<Rightarrow> (string \<times> string \<times> pyfloat) list \<Rightarrow> submission list \<Rightarrow>
     skip_row list \<Rightarrow> bool \<Rightarrow> ('b, tick_report) live_step" where
  "report_tick ops stale sync submitted skipped newly s =
     (case lx_book s of
        None \<Rightarrow> (s, Inl NotReconciled)
      | Some b \<Rightarrow> (s, Inr \<lparr>tk_stale = stale, tk_sync = sync, tk_submitted = submitted, tk_skipped = skipped,
          tk_cap = cap_state_of ops s, tk_allowlist = sort (au_allowlist (lx_auth s)),
          tk_allowlist_skips = length (filter (\<lambda>r. sk_reason r = REASON_NOT_ALLOWLISTED) skipped),
          tk_newly_tripped = newly, tk_canary = lx_canary s, tk_halted = bk_halted ops b,
          tk_halt_reason = bk_halt_reason ops b, tk_dead_man = lx_dead s\<rparr>))"

definition tick_body ::
    "'b book_ops \<Rightarrow> port \<Rightarrow> int \<Rightarrow> json dict \<Rightarrow> ('b, tick_report) live_step" where
  "tick_body ops pt now decisions =
     seq (cancel_stale ops pt now) (\<lambda>stale.
     seq (sync_open_children ops pt) (\<lambda>sync.
     seq (lift (read_intents decisions)) (\<lambda>intents.
     seq (modify (\<lambda>s. s\<lparr>lx_canary := harvest_marks decisions intents (lx_canary s)\<rparr>)) (\<lambda>u.
     seq (exits_phase ops pt now intents) (\<lambda>(outs, chased).
     seq (evaluate_loss_budget ops) (\<lambda>newly.
     seq (each (entry_step ops pt now) (filter (\<lambda>i. side_of i = ''BUY'') intents)) (\<lambda>entries.
     report_tick ops stale sync (rights (map snd outs) @ chased @ rights entries)
       (lefts (map snd outs) @ lefts entries) newly)))))))"

text \<open>The book is persisted whatever the tick raised.\<close>

definition process_tick ::
    "'b book_ops \<Rightarrow> port \<Rightarrow> int \<Rightarrow> json dict \<Rightarrow> ('b, tick_report) live_step" where
  "process_tick ops pt now decisions =
     seq require_open (\<lambda>b. \<lambda>s. case tick_body ops pt now decisions s of (s', r) \<Rightarrow> (persist_book ops s', r))"

section \<open>Opening and closing a session\<close>

definition same_session :: "'b live \<Rightarrow> json dict \<Rightarrow> bool" where
  "same_session s p \<longleftrightarrow> py_str (dget p ''trading_day'' JNull) = lx_day s \<and> py_str (dget p ''account'' JNull) = lx_account s"

definition restore_book :: "'b book_ops \<Rightarrow> ('b, unit) live_step" where
  "restore_book ops s =
     (case lx_book_file s of
        FileAbsent \<Rightarrow> (s, Inr ())
      | FileUnreadable \<Rightarrow> (s, Inl BookUnreadable)
      | FileJson (JObj p) \<Rightarrow>
          if same_session s p then
            (case bk_restore ops p of Inl x \<Rightarrow> (s, Inl (BookErr x))
             | Inr b \<Rightarrow> (s\<lparr>lx_book := Some b, lx_restored := True\<rparr>, Inr ()))
          else (s, Inr ())
      | FileJson _ \<Rightarrow> (s, Inl (PyErr AttributeError)))"

definition begin_canary :: "('b, unit) live_step" where
  "begin_canary s =
     (case begin_live_session (lx_day s) (lx_canary s) of
        Inl e \<Rightarrow> (s, Inl (CanaryErr e))
      | Inr c \<Rightarrow> (s\<lparr>lx_canary := c\<rparr>, Inr ()))"

definition reconcile_book :: "'b book_ops \<Rightarrow> ('b, bool) live_step" where
  "reconcile_book ops s = on_book (bk_reconcile ops (lx_calls s)) (s\<lparr>lx_calls := lx_calls s + 1\<rparr>)"

record begin_report =
  br_restored :: bool
  br_clean :: bool
  br_halted :: bool
  br_halt_reason :: string
  br_canary :: canary

definition report_begin :: "'b book_ops \<Rightarrow> bool \<Rightarrow> ('b, begin_report) live_step" where
  "report_begin ops matched s =
     (case lx_book s of
        None \<Rightarrow> (s, Inl NotReconciled)
      | Some b \<Rightarrow> (s, Inr \<lparr>br_restored = lx_restored s, br_clean = matched, br_halted = bk_halted ops b,
          br_halt_reason = bk_halt_reason ops b, br_canary = lx_canary s\<rparr>))"

definition begin_session :: "'b book_ops \<Rightarrow> ('b, begin_report) live_step" where
  "begin_session ops =
     seq (restore_book ops) (\<lambda>u.
     seq (modify (\<lambda>s. case lx_book s of None \<Rightarrow> s\<lparr>lx_book := Some (bk_new ops (lx_account s) (lx_day s))\<rparr> | Some b \<Rightarrow> s)) (\<lambda>u.
     seq (reconcile_book ops) (\<lambda>matched.
     seq begin_canary (\<lambda>u.
     seq (modify (\<lambda>s. if ca_tripped (lx_canary s) then halt_unless_halted ops HALT_REASON_LOSS_BUDGET s else s)) (\<lambda>u.
     seq (jot (Stamped ''session_begin'')) (\<lambda>u.
     seq (modify (\<lambda>s. persist_book ops (s\<lparr>lx_open := True\<rparr>))) (\<lambda>u. report_begin ops matched)))))))"

text \<open>The result: the outcome of each cancel, and how many children are still open.\<close>

definition close_session :: "'b book_ops \<Rightarrow> port \<Rightarrow> ('b, (string \<times> string) list \<times> nat) live_step" where
  "close_session ops pt =
     seq require_open (\<lambda>b.
     seq (each (cancel_child ops pt ''session_close_cancel'') (bk_open_children ops b)) (\<lambda>cancels.
     seq (sync_open_children ops pt) (\<lambda>u.
     seq (modify (\<lambda>s. (persist_book ops s)\<lparr>lx_open := False\<rparr>)) (\<lambda>u.
     seq (look (\<lambda>b. length (bk_open_children ops b))) (\<lambda>n. give (cancels, n))))))"

end
