(* ===== verification/LiveSafety.thy ===== *)
theory LiveSafety
  imports LiveExecutor
begin

text \<open>
  The safety of the live executor. \<open>live_steps\<close> is the interface between the session's steps and what
  one wants to keep: a relation that quiet changes, bookkeeping, harmless events and permitted
  submissions keep is kept by every phase of a tick before the entries. It is interpreted for the
  three relations of this theory: the journalled and allowlisted trace, the entry cap, and the
  absence of entries. \<open>book_laws\<close> states what the code relies on of the order-state book.
\<close>

section \<open>What the book promises\<close>

text \<open>The book's operations other than the submission of a child.\<close>

inductive bookkeeping :: "'b book_ops \<Rightarrow> 'b \<Rightarrow> 'b \<Rightarrow> bool" for ops where
  "bookkeeping ops b (fst (bk_ack ops cid b))"
| "bookkeeping ops b (fst (bk_reject ops cid b))"
| "bookkeeping ops b (fst (bk_cancel ops cid b))"
| "bookkeeping ops b (fst (bk_expire ops cid b))"
| "bookkeeping ops b (fst (bk_fill ops cid q b))"
| "bookkeeping ops b (fst (bk_mark_stale ops now b))"
| "bookkeeping ops b (fst (bk_register ops symb side v qty b))"
| "bookkeeping ops b (bk_halt ops reason b)"

text \<open>
  No operation but a submission changes the requested quantities and prices of the children, and
  none lifts a halt; a registered parent is a parent of the book with the requested side; a
  submission adds at most one child, with the given quantity and price; remainders are finite.
\<close>

definition book_laws :: "'b book_ops \<Rightarrow> bool" where
  "book_laws ops \<longleftrightarrow>
     (\<forall>b b'. bookkeeping ops b b' \<longrightarrow> entry_notional ops b' = entry_notional ops b \<and> (bk_halted ops b \<longrightarrow> bk_halted ops b')) \<and>
     (\<forall>b reason. bk_halted ops (bk_halt ops reason b)) \<and>
     (\<forall>b b' p symb side v qty. bk_register ops symb side v qty b = (b', Inr p) \<longrightarrow>
        p \<in> set (bk_parents ops b') \<and> pv_side p = side) \<and>
     (\<forall>b p q x now b' r. p \<in> set (bk_parents ops b) \<longrightarrow> bk_submit_child ops (pv_id p) q x now b = (b', r) \<longrightarrow>
        (entry_notional ops b' = entry_notional ops b \<or>
         pv_side p = ''BUY'' \<and> entry_notional ops b' = fadd (entry_notional ops b) (fmul q x)) \<and>
        (bk_halted ops b \<longrightarrow> bk_halted ops b')) \<and>
     (\<forall>b p. p \<in> set (bk_parents ops b) \<longrightarrow> is_num (pv_remaining p))"

lemma book_lawsD:
  assumes "book_laws ops"
  shows "bookkeeping ops b b' \<Longrightarrow> entry_notional ops b' = entry_notional ops b"
    and "bookkeeping ops b b' \<Longrightarrow> bk_halted ops b \<Longrightarrow> bk_halted ops b'"
    and "bk_halted ops (bk_halt ops reason b)"
    and "bk_register ops symb side v qty b = (b', Inr p) \<Longrightarrow> p \<in> set (bk_parents ops b') \<and> pv_side p = side"
    and "p \<in> set (bk_parents ops b) \<Longrightarrow> bk_submit_child ops (pv_id p) q x now b = (b', r) \<Longrightarrow>
      (entry_notional ops b' = entry_notional ops b \<or>
       pv_side p = ''BUY'' \<and> entry_notional ops b' = fadd (entry_notional ops b) (fmul q x)) \<and>
      (bk_halted ops b \<longrightarrow> bk_halted ops b')"
    and "p \<in> set (bk_parents ops b) \<Longrightarrow> is_num (pv_remaining p)"
  using assms unfolding book_laws_def by blast+

section \<open>Traces\<close>

text \<open>Every broker call stands right after its own journal row.\<close>

definition wal :: "live_event list \<Rightarrow> bool" where
  "wal xs \<longleftrightarrow> (\<forall>ys a zs. xs = ys @ Called a # zs \<longrightarrow> (\<exists>ws t. ys = ws @ [WroteAhead a t]))"

lemma walD: "wal xs \<Longrightarrow> xs = ys @ Called a # zs \<Longrightarrow> \<exists>ws t. ys = ws @ [WroteAhead a t]"
  unfolding wal_def by blast

lemma wal_Nil [simp]: "wal []"
  by (simp add: wal_def)

lemma wal_append: "wal xs \<Longrightarrow> wal ys \<Longrightarrow> wal (xs @ ys)"
proof -
  assume w: "wal xs" "wal ys"
  show "wal (xs @ ys)" unfolding wal_def
  proof (intro allI impI)
    fix us a zs
    assume "xs @ ys = us @ Called a # zs"
    then consider vs where "xs = us @ Called a # vs" | vs where "us = xs @ vs" "ys = vs @ Called a # zs"
      by (auto simp: append_eq_append_conv2 append_eq_Cons_conv Cons_eq_append_conv)
    then show "\<exists>ws t. us = ws @ [WroteAhead a t]"
    proof cases
      case 1
      from walD [OF w(1) this] show ?thesis .
    next
      case 2
      from walD [OF w(2) 2(2)] obtain ws t where "vs = ws @ [WroteAhead a t]" by blast
      with 2(1) show ?thesis by auto
    qed
  qed
qed

lemma wal_no_call: "(\<And>a. Called a \<notin> set xs) \<Longrightarrow> wal xs"
  unfolding wal_def by (metis in_set_conv_decomp)

lemma wal_pair [simp]: "wal [WroteAhead a t, Called a]"
  by (auto simp: wal_def Cons_eq_append_conv append_eq_Cons_conv)

definition is_submit :: "live_event \<Rightarrow> bool" where
  "is_submit e \<longleftrightarrow> (\<exists>cid symb side q l. e = Called (SubmitOrder cid symb side q l))"

section \<open>The interface\<close>

definition same_but_book :: "'b live \<Rightarrow> 'b live \<Rightarrow> bool" where
  "same_but_book s s' \<longleftrightarrow> lx_auth s' = lx_auth s \<and> lx_trace s' = lx_trace s \<and>
     ca_tripped (lx_canary s') = ca_tripped (lx_canary s)"

definition add_events :: "live_event list \<Rightarrow> 'b live \<Rightarrow> 'b live" where
  "add_events es s = s\<lparr>lx_trace := lx_trace s @ es\<rparr>"

locale live_steps = step_order R for R :: "'b live \<Rightarrow> 'b live \<Rightarrow> bool" +
  fixes ops :: "'b book_ops"
  assumes quiet: "same_but_book s s' \<Longrightarrow> lx_book s' = lx_book s \<Longrightarrow> R s s'"
    and kept: "lx_book s = Some b \<Longrightarrow> bookkeeping ops b b' \<Longrightarrow> R s (s\<lparr>lx_book := Some b'\<rparr>)"
    and events: "wal es \<Longrightarrow> (\<forall>e \<in> set es. \<not> is_submit e) \<Longrightarrow> R s (add_events es s)"
    and exit_child: "lx_book s = Some b \<Longrightarrow> (book_laws ops \<Longrightarrow> p \<in> set (bk_parents ops b) \<and> pv_side p = ''SELL'') \<Longrightarrow>
      R s (s\<lparr>lx_book := Some (fst (bk_submit_child ops (pv_id p) q x now b))\<rparr>)"
    and exit_call: "(book_laws ops \<Longrightarrow> side = ''SELL'') \<Longrightarrow>
      (side = ''BUY'' \<Longrightarrow> py_upper symb \<in> py_upper ` set (au_allowlist (lx_auth s))) \<Longrightarrow>
      R s (add_events [WroteAhead (SubmitOrder cid symb side q l) t, Called (SubmitOrder cid symb side q l)] s)"
begin

lemma moves_quiet: "(\<And>s. same_but_book s (fst (m s)) \<and> lx_book (fst (m s)) = lx_book s) \<Longrightarrow> moves R m"
  by (simp add: moves_def quiet)

lemma moves_reads:
  "moves R require_open" "moves R (look f)" "moves R (child_parent ops cid)" "moves R (order_status pt cid)"
  "moves R (assert_entry_cap ops x)" "moves R (assert_canary_allowlist symb side)" "moves R broker_success"
  "moves R (report_tick ops stale sync sent skipped newly)" "moves R (report_begin ops matched)"
  by (rule moves_quiet; simp add: same_but_book_def require_open_def look_def child_parent_def order_status_def
      assert_entry_cap_def assert_canary_allowlist_def broker_success_def report_tick_def report_begin_def modify_def split: option.splits)+

lemma moves_canary_fill: "moves R (canary_fill symb side q x)"
proof (rule moves_quiet)
  fix s :: "'b live"
  obtain c r where f: "record_fill symb side q x (lx_canary s) = (c, r)" by fastforce
  with record_fill_sel(3) [of symb side q x "lx_canary s"] have "ca_tripped c = ca_tripped (lx_canary s)" by simp
  with f show "same_but_book s (fst (canary_fill symb side q x s)) \<and> lx_book (fst (canary_fill symb side q x s)) = lx_book s"
    by (auto simp: canary_fill_def same_but_book_def split: option.splits)
qed

lemma moves_on_book:
  assumes "\<And>b. bookkeeping ops b (fst (f b))" shows "moves R (on_book f)"
  unfolding moves_def
proof
  fix s :: "'b live"
  show "R s (fst (on_book f s))"
  proof (cases "lx_book s")
    case None
    then show ?thesis by (simp add: on_book_def refl)
  next
    case (Some b)
    with kept [OF Some assms] show ?thesis by (simp add: on_book_def split_beta)
  qed
qed

lemma moves_book:
  "moves R (on_book (bk_ack ops cid))" "moves R (on_book (bk_reject ops cid))" "moves R (on_book (bk_cancel ops cid))"
  "moves R (on_book (bk_expire ops cid))" "moves R (on_book (bk_fill ops cid q))" "moves R (on_book (bk_mark_stale ops now))"
  "moves R (on_book (bk_register ops symb side v qty))"
  by (rule moves_on_book; rule bookkeeping.intros)+

lemma halt_at: "R s (halt_unless_halted ops reason s)"
proof (cases "lx_book s")
  case None
  then show ?thesis by (simp add: halt_unless_halted_def refl)
next
  case (Some b)
  have "bookkeeping ops b (bk_halt ops reason b)" by (rule bookkeeping.intros)
  from kept [OF Some this] Some show ?thesis by (simp add: halt_unless_halted_def refl)
qed

lemma moves_failure: "moves R (record_broker_failure ops)"
  unfolding moves_def
proof
  fix s :: "'b live"
  have "R s (s\<lparr>lx_dead := record_failure (lx_dead s)\<rparr>)" by (rule quiet) (simp_all add: same_but_book_def)
  with halt_at trans show "R s (fst (record_broker_failure ops s))"
    by (auto simp: record_broker_failure_def modify_def Let_def)
qed

lemma moves_jot: "(\<And>a. e \<noteq> Called a) \<Longrightarrow> moves R (jot e)"
  using events [of "[e]"] wal_no_call [of "[e]"]
  by (auto simp: moves_def jot_def modify_def add_events_def is_submit_def)

text \<open>A journal row and its call.\<close>

lemma moves_journalled:
  assumes "\<And>s. R s (add_events [WroteAhead a t, Called a] s)" and "\<And>r. moves R (k r)"
  shows "moves R (seq (jot (WroteAhead a t)) (\<lambda>u. seq (act pt a) k))"
  unfolding moves_def
proof
  fix s :: "'b live"
  define s1 where "s1 = add_events [WroteAhead a t, Called a] s"
  define s2 where "s2 = s1\<lparr>lx_calls := lx_calls s1 + 1\<rparr>"
  have "R s s1" unfolding s1_def by (rule assms(1))
  moreover have "R s1 s2" unfolding s2_def by (rule quiet) (simp_all add: same_but_book_def)
  moreover have "R s2 (fst (k (pt_act pt (lx_calls s) a) s2))" by (rule moves_at [OF assms(2)])
  ultimately have "R s (fst (k (pt_act pt (lx_calls s) a) s2))" using trans by blast
  moreover have "fst (seq (jot (WroteAhead a t)) (\<lambda>u. seq (act pt a) k) s) = fst (k (pt_act pt (lx_calls s) a) s2)"
    by (simp add: seq_def jot_def modify_def act_def s2_def s1_def add_events_def)
  ultimately show "R s (fst (seq (jot (WroteAhead a t)) (\<lambda>u. seq (act pt a) k) s))" by simp
qed

lemmas base_moves = moves_reads moves_canary_fill moves_book moves_failure

lemma moves_cancel_child: "moves R (cancel_child ops pt reason cid)"
  unfolding cancel_child_def Let_def
  by (intro moves_journalled moves_intros base_moves moves_jot events) (simp_all add: is_submit_def)

lemma moves_cancel_stale: "moves R (cancel_stale ops pt now)"
  unfolding cancel_stale_def by (intro moves_intros base_moves moves_cancel_child)

lemma moves_sync_child: "moves R (sync_child ops pt cid)"
  unfolding sync_child_def Let_def by (intro moves_intros base_moves)

lemma moves_sync: "moves R (sync_open_children ops pt)"
  unfolding sync_open_children_def by (intro moves_intros base_moves moves_sync_child)

lemma moves_book_response: "moves R (book_response ops p c row status)"
  unfolding book_response_def by (intro moves_intros base_moves)

lemma moves_after_reply: "moves R (after_reply ops p c a reply)"
  unfolding after_reply_def Let_def by (intro moves_intros base_moves moves_book_response moves_jot) simp_all

text \<open>One submission, from a state in which the book step and the call are permitted.\<close>

lemma submit_at:
  fixes s :: "'b live"
  assumes child: "\<And>b. lx_book s = Some b \<Longrightarrow>
      R s (s\<lparr>lx_book := Some (fst (bk_submit_child ops (pv_id p) (pv_remaining p) x now b))\<rparr>)"
    and call: "\<And>s' cid q t. lx_auth s' = lx_auth s \<Longrightarrow>
      (pv_side p = ''BUY'' \<Longrightarrow> py_upper (pv_symbol p) \<in> py_upper ` set (au_allowlist (lx_auth s'))) \<Longrightarrow>
      R s' (add_events [WroteAhead (SubmitOrder cid (pv_symbol p) (pv_side p) q l) t,
                        Called (SubmitOrder cid (pv_symbol p) (pv_side p) q l)] s')"
  shows "R s (fst (submit_parent_remainder ops pt now p x l s))"
  unfolding submit_parent_remainder_def
proof (rule seq_at [OF moves_at [OF moves_reads(1)]], rule seq_at [OF moves_at [OF moves_reads(6)]])
  fix s1 b s2 u
  assume "require_open s = (s1, Inr b)" "assert_canary_allowlist (pv_symbol p) (pv_side p) s1 = (s2, Inr u)"
  then have s2: "s2 = s" and allow: "pv_side p = ''BUY'' \<Longrightarrow> py_upper (pv_symbol p) \<in> py_upper ` set (au_allowlist (lx_auth s))"
    by (auto simp: require_open_def assert_canary_allowlist_def split: if_splits option.splits)
  show "R s2 (fst (seq (on_book (bk_submit_child ops (pv_id p) (pv_remaining p) x now)) (transmit ops pt p l) s2))"
  proof (rule seq_at)
    show "R s2 (fst (on_book (bk_submit_child ops (pv_id p) (pv_remaining p) x now) s2))"
      using child unfolding s2 by (auto simp: on_book_def split_beta refl split: option.splits)
  next
    fix s3 c
    assume "on_book (bk_submit_child ops (pv_id p) (pv_remaining p) x now) s2 = (s3, Inr c)"
    then have s3: "lx_auth s3 = lx_auth s" unfolding s2 by (auto simp: on_book_def split: option.splits prod.splits)
    define a where "a = SubmitOrder (cv_id c) (pv_symbol p) (pv_side p) (cv_qty c) l"
    define s4 where "s4 = add_events [WroteAhead a (order_type_for (pv_side p) s3), Called a] s3"
    define s5 where "s5 = s4\<lparr>lx_calls := lx_calls s4 + 1\<rparr>"
    have "R s3 s4" unfolding s4_def a_def using s3 allow by (intro call) simp_all
    moreover have "R s4 s5" unfolding s5_def by (rule quiet) (simp_all add: same_but_book_def)
    moreover have "R s5 (fst (after_reply ops p c a (pt_act pt (lx_calls s3) a) s5))" by (rule moves_at [OF moves_after_reply])
    ultimately have "R s3 (fst (after_reply ops p c a (pt_act pt (lx_calls s3) a) s5))" using trans by blast
    moreover have "transmit ops pt p l c s3 = after_reply ops p c a (pt_act pt (lx_calls s3) a) s5"
      by (simp add: transmit_def Let_def a_def [symmetric] seq_def write_ahead_submit_def modify_def act_def s5_def s4_def
          add_events_def order_type_for_def)
    ultimately show "R s3 (fst (transmit ops pt p l c s3))" by simp
  qed
qed

lemma moves_register: "moves R (register_intent ops i side)"
  unfolding register_intent_def Let_def by (intro moves_intros base_moves)

lemma moves_registration: "moves R (registration ops i side)"
  unfolding registration_def
proof (intro moves_seq moves_attempt moves_register moves_sum moves_give)
  fix r e
  show "moves R (case e of
           BookErr x \<Rightarrow> if x \<in> {EconomicInvariant, DuplicateChild} then fail e
             else (case bk_lifecycle ops x of None \<Rightarrow> fail e | Some t \<Rightarrow> give (Inl t))
         | _ \<Rightarrow> fail e)"
    by (cases e) (auto split: option.splits)
qed

end

text \<open>A registration that returns a parent has registered it.\<close>

lemma register_yields:
  "yields (register_intent ops i side) (\<lambda>s p. \<exists>b. lx_book s = Some b \<and>
     (book_laws ops \<longrightarrow> p \<in> set (bk_parents ops b) \<and> pv_side p = side))"
  unfolding yields_def
proof (intro allI impI)
  fix s s' p
  assume "register_intent ops i side s = (s', Inr p)"
  then obtain s1 qty where r: "on_book (bk_register ops (py_str (dget i ''symbol'' (JStr []))) side
            (py_str (dget i ''signal_version'' (JStr []))) qty) s1 = (s', Inr p)"
    unfolding register_intent_def
    by (auto dest!: seq_Inr simp: Let_def give_def fail_def split: if_splits)
  then obtain b b' where "lx_book s1 = Some b" "s' = s1\<lparr>lx_book := Some b'\<rparr>"
    "bk_register ops (py_str (dget i ''symbol'' (JStr []))) side (py_str (dget i ''signal_version'' (JStr []))) qty b = (b', Inr p)"
    by (auto simp: on_book_def map_sum_def split: option.splits prod.splits sum.splits)
  with book_lawsD(4) show "\<exists>b. lx_book s' = Some b \<and> (book_laws ops \<longrightarrow> p \<in> set (bk_parents ops b) \<and> pv_side p = side)"
    by fastforce
qed

lemma registration_yields:
  "registration ops i side s = (s', Inr (Inr p)) \<Longrightarrow> \<exists>b. lx_book s' = Some b \<and>
     (book_laws ops \<longrightarrow> p \<in> set (bk_parents ops b) \<and> pv_side p = side)"
  using yieldsD [OF register_yields] unfolding registration_def
  by (auto dest!: seq_Inr simp: attempt_def give_def fail_def split: sum.splits prod.splits live_error.splits
      option.splits if_splits)

lemma look_Inr: "look f s = (s', Inr x) \<Longrightarrow> s' = s \<and> (\<exists>b. lx_book s = Some b \<and> x = f b)"
  by (auto simp: look_def split: option.splits)

context live_steps
begin

lemma submit_exit:
  fixes s :: "'b live"
  assumes "lx_book s = Some b" and "book_laws ops \<Longrightarrow> p \<in> set (bk_parents ops b) \<and> pv_side p = ''SELL''"
  shows "R s (fst (submit_parent_remainder ops pt now p x l s))"
  by (rule submit_at) (use assms exit_child exit_call in auto)

lemma moves_exit_step: "moves R (exit_step ops pt now i)"
  unfolding exit_step_def
proof (rule moves_seq_yields [OF moves_registration])
  fix s s1 :: "'b live" and r
  assume reg: "registration ops i ''SELL'' s = (s1, Inr r)"
  show "R s1 (fst ((case r of
         Inl t \<Rightarrow> give (None, Inl (skip i t))
       | Inr p \<Rightarrow>
           seq (look (\<lambda>b. bk_can_emit ops b (pv_id p))) (\<lambda>can.
           if \<not> can then give (None, Inl (skip i ''no_emittable_remainder''))
           else let price = positive (dget i ''price'' JNull) in
             seq (submit_parent_remainder ops pt now p (case price of None \<Rightarrow> Num 1 | Some x \<Rightarrow> x) price)
               (\<lambda>sub. give (Some (pv_id p), Inr sub)))) s1))"
  proof (cases r)
    case (Inl t)
    then show ?thesis by (simp add: moves_at)
  next
    case (Inr p)
    from registration_yields [OF reg [unfolded Inr]] obtain b where b: "lx_book s1 = Some b"
      "book_laws ops \<longrightarrow> p \<in> set (bk_parents ops b) \<and> pv_side p = ''SELL''" by blast
    show ?thesis unfolding Inr sum.case Let_def
    proof (rule seq_at [OF moves_at [OF moves_reads(2)]])
      fix s2 can
      assume "look (\<lambda>b. bk_can_emit ops b (pv_id p)) s1 = (s2, Inr can)"
      with look_Inr have s2: "s2 = s1" by metis
      have "R s1 (fst (seq (submit_parent_remainder ops pt now p y l) (\<lambda>sub. give (Some (pv_id p), Inr sub)) s1))" for y l
        by (rule seq_at, rule submit_exit [OF b(1)]) (use b(2) in \<open>auto intro: moves_at\<close>)
      then show "R s2 (fst ((if \<not> can then give (None, Inl (skip i ''no_emittable_remainder''))
           else seq (submit_parent_remainder ops pt now p
               (case positive (dget i ''price'' JNull) of None \<Rightarrow> Num 1 | Some x \<Rightarrow> x) (positive (dget i ''price'' JNull)))
               (\<lambda>sub. give (Some (pv_id p), Inr sub))) s2))"
        unfolding s2 by (auto simp: moves_at)
    qed
  qed
qed

lemma moves_chase_step: "moves R (chase_step ops pt now attempted pid)"
  unfolding chase_step_def
proof (rule moves_seq_yields [OF moves_reads(2)])
  fix s s1 :: "'b live" and x
  assume "look (\<lambda>b. (find_parent pid (bk_parents ops b), bk_can_emit ops b pid)) s = (s1, Inr x)"
  from look_Inr [OF this] obtain b where b: "s1 = s" "lx_book s1 = Some b"
    "x = (find_parent pid (bk_parents ops b), bk_can_emit ops b pid)" by auto
  show "R s1 (fst ((case x of (found, can) \<Rightarrow> case found of
         None \<Rightarrow> give None
       | Some p \<Rightarrow>
           if pv_side p \<noteq> ''SELL'' \<or> pid \<in> set attempted \<or> \<not> can then give None
           else seq (submit_parent_remainder ops pt now p
                  (if pv_children p = [] then Num 1 else fmax (cv_price (last (pv_children p))) (Num 1)) None)
                (\<lambda>sub. give (Some sub))) s1))"
  proof (cases "find_parent pid (bk_parents ops b)")
    case (Some p)
    then have p: "p \<in> set (bk_parents ops b)" by (auto simp: find_parent_def dest: find_SomeD)
    show ?thesis
    proof (cases "pv_side p \<noteq> ''SELL'' \<or> pid \<in> set attempted \<or> \<not> bk_can_emit ops b pid")
      case False
      have "R s1 (fst (seq (submit_parent_remainder ops pt now p y None) (\<lambda>sub. give (Some sub)) s1))" for y
        by (rule seq_at, rule submit_exit [OF b(2)]) (use p False in \<open>auto intro: moves_at\<close>)
      with Some False b show ?thesis by simp
    qed (use Some b in \<open>simp add: moves_at\<close>)
  qed (use b in \<open>simp add: moves_at\<close>)
qed

lemma moves_exits: "moves R (exits_phase ops pt now intents)"
  unfolding exits_phase_def by (intro moves_intros moves_exit_step moves_chase_step moves_reads)

lemma moves_harvest: "moves R (modify (\<lambda>s. s\<lparr>lx_canary := harvest_marks decisions intents (lx_canary s)\<rparr>))"
proof (rule moves_quiet)
  fix s :: "'b live"
  have o: "ca_tripped (observe_items v c) = ca_tripped c" for v c
  proof -
    have "ca_tripped (foldl (\<lambda>c (k, v). case positive v of None \<Rightarrow> c | Some x \<Rightarrow> observe_price k x c) c kvs) = ca_tripped c" for kvs
    proof (induction kvs arbitrary: c)
      case (Cons a kvs)
      show ?case by (cases a; cases "positive (snd a)") (simp_all add: Cons.IH)
    qed simp
    then show ?thesis by (simp add: observe_items_def split: json.splits)
  qed
  have i: "ca_tripped (observe_intent c i) = ca_tripped c" for c i
    by (cases "positive (dget i ''price'' JNull)") (simp_all add: observe_intent_def)
  have "ca_tripped (foldl observe_intent c intents) = ca_tripped c" for c
    by (induction intents arbitrary: c) (simp_all add: i del: fun_upd_apply)
  then show "same_but_book s (fst (modify (\<lambda>s. s\<lparr>lx_canary := harvest_marks decisions intents (lx_canary s)\<rparr>) s)) \<and>
      lx_book (fst (modify (\<lambda>s. s\<lparr>lx_canary := harvest_marks decisions intents (lx_canary s)\<rparr>) s)) = lx_book s"
    by (simp add: modify_def same_but_book_def harvest_marks_def o)
qed

lemma moves_budget:
  assumes "\<And>s c. R s (s\<lparr>lx_canary := c\<rparr>)" shows "moves R (evaluate_loss_budget ops)"
  unfolding moves_def
proof
  fix s :: "'b live"
  obtain c newly where e: "evaluate_budget (lx_canary s) = (c, newly)" by fastforce
  let ?s = "halt_unless_halted ops HALT_REASON_LOSS_BUDGET (s\<lparr>lx_canary := c\<rparr>)"
  have "R s ?s" by (rule trans [OF assms halt_at])
  moreover have "R ?s (add_events [Stamped ''loss_budget_trip'', Notified] ?s)"
    by (rule events) (auto simp: is_submit_def intro: wal_no_call)
  ultimately have "R s (add_events [Stamped ''loss_budget_trip'', Notified] ?s)" by (rule trans)
  with e assms show "R s (fst (evaluate_loss_budget ops s))"
    by (simp add: evaluate_loss_budget_def Let_def add_events_def)
qed

lemma persist_at: "R s (persist_book ops s)"
  by (rule quiet) (auto simp: persist_book_def same_but_book_def split: option.splits)

lemma moves_tick:
  assumes "moves R (evaluate_loss_budget ops)" and "\<And>i. moves R (entry_step ops pt now i)"
  shows "moves R (process_tick ops pt now decisions)"
  unfolding process_tick_def
proof (rule moves_seq [OF moves_reads(1)])
  fix b
  have "moves R (tick_body ops pt now decisions)"
    unfolding tick_body_def
    by (intro moves_intros moves_cancel_stale moves_sync moves_harvest moves_exits moves_reads assms)
  then show "moves R (\<lambda>s. case tick_body ops pt now decisions s of (s', r) \<Rightarrow> (persist_book ops s', r))"
    unfolding moves_def using trans persist_at by (auto split: prod.splits) (metis fst_conv)
qed

end

section \<open>The trace: journalled and allowlisted\<close>

fun allowlisted :: "string list \<Rightarrow> live_event \<Rightarrow> bool" where
  "allowlisted al (Called (SubmitOrder cid symb side q l)) \<longleftrightarrow> (side = ''BUY'' \<longrightarrow> py_upper symb \<in> py_upper ` set al)"
| "allowlisted al _ \<longleftrightarrow> True"

definition traced :: "'b live \<Rightarrow> 'b live \<Rightarrow> bool" where
  "traced s s' \<longleftrightarrow> lx_auth s' = lx_auth s \<and>
     (\<exists>new. lx_trace s' = lx_trace s @ new \<and> wal new \<and> list_all (allowlisted (au_allowlist (lx_auth s))) new)"

lemma traced_same: "lx_auth s' = lx_auth s \<Longrightarrow> lx_trace s' = lx_trace s \<Longrightarrow> traced s s'"
  by (simp add: traced_def)

lemma allowlisted_other: "\<not> is_submit e \<Longrightarrow> allowlisted al e"
  by (cases "(al, e)" rule: allowlisted.cases) (auto simp: is_submit_def)

lemma traced_events: "wal es \<Longrightarrow> list_all (allowlisted (au_allowlist (lx_auth s))) es \<Longrightarrow> traced s (add_events es s)"
  by (auto simp: traced_def add_events_def)

lemma traced_trans: "traced s t \<Longrightarrow> traced t u \<Longrightarrow> traced s u"
  unfolding traced_def using wal_append by fastforce

interpretation traced: live_steps traced ops for ops
proof
  show "traced s s" for s :: "'b live" by (rule traced_same) simp_all
  show "traced s u" if "traced s t" "traced t u" for s t u :: "'b live" by (rule traced_trans [OF that])
qed (auto intro!: traced_same traced_events simp: same_but_book_def list_all_iff allowlisted_other)

section \<open>The entry cap\<close>

definition notional :: "'b book_ops \<Rightarrow> 'b live \<Rightarrow> pyfloat" where
  "notional ops s = (case lx_book s of None \<Rightarrow> Num 0 | Some b \<Rightarrow> entry_notional ops b)"

definition capped :: "'b book_ops \<Rightarrow> 'b live \<Rightarrow> 'b live \<Rightarrow> bool" where
  "capped ops s s' \<longleftrightarrow> lx_auth s' = lx_auth s \<and>
     (book_laws ops \<longrightarrow> (\<forall>n c. notional ops s = Num n \<longrightarrow> au_cap (lx_auth s) = Num c \<longrightarrow>
        (\<exists>m. notional ops s' = Num m \<and> m \<le> max n (c + EPS))))"

lemma capped_same: "lx_auth s' = lx_auth s \<Longrightarrow> (book_laws ops \<Longrightarrow> notional ops s' = notional ops s) \<Longrightarrow> capped ops s s'"
  by (auto simp: capped_def)

lemma capped_trans:
  assumes "capped ops s t" and "capped ops t u" shows "capped ops s u"
  unfolding capped_def
proof (intro conjI impI allI)
  show "lx_auth u = lx_auth s" using assms by (simp add: capped_def)
next
  fix n c assume laws: "book_laws ops" and n: "notional ops s = Num n" and c: "au_cap (lx_auth s) = Num c"
  from assms(1) laws n c obtain m where m: "notional ops t = Num m" "m \<le> max n (c + EPS)" "lx_auth t = lx_auth s"
    by (auto simp: capped_def)
  with assms(2) laws c obtain m' where "notional ops u = Num m'" "m' \<le> max m (c + EPS)"
    by (auto simp: capped_def)
  with m(2) show "\<exists>m. notional ops u = Num m \<and> m \<le> max n (c + EPS)" by (intro exI [of _ m']) auto
qed

interpretation capped: live_steps "capped ops" ops for ops
proof
  show "capped ops s s" for s by (rule capped_same) simp_all
  show "capped ops s u" if "capped ops s t" "capped ops t u" for s t u by (rule capped_trans [OF that])
  show "capped ops s s'" if "same_but_book s s'" "lx_book s' = lx_book s" for s s'
    by (rule capped_same) (use that in \<open>simp_all add: same_but_book_def notional_def\<close>)
  show "capped ops s (s\<lparr>lx_book := Some b'\<rparr>)" if "lx_book s = Some b" "bookkeeping ops b b'" for s b b'
    by (rule capped_same) (use that book_lawsD(1) in \<open>auto simp: notional_def\<close>)
  show "capped ops s (add_events es s)" for s es by (rule capped_same) (simp_all add: add_events_def notional_def)
  then show "capped ops s (add_events [WroteAhead (SubmitOrder cid symb side q l) t, Called (SubmitOrder cid symb side q l)] s)"
    for s cid symb side q l t .
  show "capped ops s (s\<lparr>lx_book := Some (fst (bk_submit_child ops (pv_id p) q x now b))\<rparr>)"
    if b: "lx_book s = Some b" and p: "book_laws ops \<Longrightarrow> p \<in> set (bk_parents ops b) \<and> pv_side p = ''SELL''" for s b p q x now
  proof (rule capped_same)
    assume laws: "book_laws ops"
    obtain b' r where r: "bk_submit_child ops (pv_id p) q x now b = (b', r)" by fastforce
    from book_lawsD(5) [OF laws _ r] p [OF laws] b r
    show "notional ops (s\<lparr>lx_book := Some (fst (bk_submit_child ops (pv_id p) q x now b))\<rparr>) = notional ops s"
      by (auto simp: notional_def)
  qed simp
qed

section \<open>No entries\<close>

definition no_buy :: "live_event \<Rightarrow> bool" where
  "no_buy e \<longleftrightarrow> (\<forall>cid symb q l. e \<noteq> Called (SubmitOrder cid symb ''BUY'' q l))"

definition halted :: "'b book_ops \<Rightarrow> 'b live \<Rightarrow> bool" where
  "halted ops s \<longleftrightarrow> (\<exists>b. lx_book s = Some b \<and> bk_halted ops b)"

text \<open>A halt stays and no entry is sent under it; a tripped canary stays halted.\<close>

definition calm :: "'b book_ops \<Rightarrow> 'b live \<Rightarrow> 'b live \<Rightarrow> bool" where
  "calm ops s s' \<longleftrightarrow> (book_laws ops \<longrightarrow> halted ops s \<longrightarrow> halted ops s' \<and>
     (\<exists>new. lx_trace s' = lx_trace s @ new \<and> list_all no_buy new))"

definition held :: "'b book_ops \<Rightarrow> 'b live \<Rightarrow> bool" where
  "held ops s \<longleftrightarrow> (ca_tripped (lx_canary s) \<longrightarrow> (\<forall>b. lx_book s = Some b \<longrightarrow> bk_halted ops b))"

definition latched :: "'b book_ops \<Rightarrow> 'b live \<Rightarrow> 'b live \<Rightarrow> bool" where
  "latched ops s s' \<longleftrightarrow> (lx_book s \<noteq> None \<longrightarrow> lx_book s' \<noteq> None) \<and> (book_laws ops \<longrightarrow> held ops s \<longrightarrow> held ops s')"

lemma calm_trans: "calm ops s t \<Longrightarrow> calm ops t u \<Longrightarrow> calm ops s u"
  unfolding calm_def by fastforce

lemma calm_events:
  "(\<And>e. book_laws ops \<Longrightarrow> e \<in> set es \<Longrightarrow> no_buy e) \<Longrightarrow> calm ops s (add_events es s)"
  by (auto simp: calm_def add_events_def halted_def list_all_iff)

lemma halt_kept:
  assumes "lx_book s = Some b" and "book_laws ops \<Longrightarrow> bk_halted ops b \<Longrightarrow> bk_halted ops b'"
  shows "calm ops s (s\<lparr>lx_book := Some b'\<rparr>)" and "latched ops s (s\<lparr>lx_book := Some b'\<rparr>)"
  using assms by (auto simp: calm_def latched_def halted_def held_def)

lemma halt_kept_child:
  assumes laws: "book_laws ops" and p: "book_laws ops \<Longrightarrow> p \<in> set (bk_parents ops b) \<and> pv_side p = side"
    and h: "bk_halted ops b"
  shows "bk_halted ops (fst (bk_submit_child ops (pv_id p) q x now b))"
proof -
  obtain b' r where r: "bk_submit_child ops (pv_id p) q x now b = (b', r)" by fastforce
  from book_lawsD(5) [OF laws _ r] p [OF laws] r h show ?thesis by auto
qed

interpretation calm: live_steps "calm ops" ops for ops
proof
  show "calm ops s s" for s by (auto simp: calm_def)
  show "calm ops s u" if "calm ops s t" "calm ops t u" for s t u by (rule calm_trans [OF that])
  show "calm ops s s'" if "same_but_book s s'" "lx_book s' = lx_book s" for s s'
    using that by (auto simp: calm_def same_but_book_def halted_def)
  show "calm ops s (s\<lparr>lx_book := Some b'\<rparr>)" if "lx_book s = Some b" "bookkeeping ops b b'" for s b b'
    by (rule halt_kept(1) [OF that(1)]) (rule book_lawsD(2) [OF _ that(2)])
  show "calm ops s (add_events es s)" if "\<forall>e \<in> set es. \<not> is_submit e" for s es
    by (rule calm_events) (use that in \<open>auto simp: is_submit_def no_buy_def\<close>)
  show "calm ops s (add_events [WroteAhead (SubmitOrder cid symb side q l) t, Called (SubmitOrder cid symb side q l)] s)"
    if "book_laws ops \<Longrightarrow> side = ''SELL''" for s cid symb side q l t
    by (rule calm_events) (use that in \<open>auto simp: no_buy_def\<close>)
  show "calm ops s (s\<lparr>lx_book := Some (fst (bk_submit_child ops (pv_id p) q x now b))\<rparr>)"
    if b: "lx_book s = Some b" and p: "book_laws ops \<Longrightarrow> p \<in> set (bk_parents ops b) \<and> pv_side p = ''SELL''" for s b p q x now
    by (rule halt_kept(1) [OF b]) (rule halt_kept_child [OF _ p])
qed

interpretation latched: live_steps "latched ops" ops for ops
proof
  show "latched ops s s" for s by (auto simp: latched_def)
  show "latched ops s u" if "latched ops s t" "latched ops t u" for s t u using that by (auto simp: latched_def)
  show "latched ops s s'" if "same_but_book s s'" "lx_book s' = lx_book s" for s s'
    using that by (auto simp: latched_def same_but_book_def held_def)
  show "latched ops s (s\<lparr>lx_book := Some b'\<rparr>)" if "lx_book s = Some b" "bookkeeping ops b b'" for s b b'
    by (rule halt_kept(2) [OF that(1)]) (rule book_lawsD(2) [OF _ that(2)])
  show "latched ops s (add_events es s)" for s es by (auto simp: latched_def add_events_def held_def)
  then show "latched ops s (add_events [WroteAhead (SubmitOrder cid symb side q l) t, Called (SubmitOrder cid symb side q l)] s)"
    for s cid symb side q l t .
  show "latched ops s (s\<lparr>lx_book := Some (fst (bk_submit_child ops (pv_id p) q x now b))\<rparr>)"
    if b: "lx_book s = Some b" and p: "book_laws ops \<Longrightarrow> p \<in> set (bk_parents ops b) \<and> pv_side p = ''SELL''" for s b p q x now
    by (rule halt_kept(2) [OF b]) (rule halt_kept_child [OF _ p])
qed

section \<open>The entries\<close>

lemma assert_entry_cap_Inr:
  "assert_entry_cap ops x s = (s', Inr u) \<Longrightarrow> s' = s \<and> (\<exists>b. lx_book s = Some b \<and>
     \<not> cap_exceeded (lx_auth s) (fadd (entry_notional ops b) x))"
  by (auto simp: assert_entry_cap_def split: option.splits if_splits)

text \<open>An entry keeps the relation when the one submission it can reach does.\<close>

definition entry_permitted :: "('b live \<Rightarrow> 'b live \<Rightarrow> bool) \<Rightarrow> 'b book_ops \<Rightarrow> port \<Rightarrow> int \<Rightarrow> bool" where
  "entry_permitted R ops pt now \<longleftrightarrow> (\<forall>s b p x v. lx_book s = Some b \<longrightarrow> positive v = Some x \<longrightarrow>
      (book_laws ops \<longrightarrow> p \<in> set (bk_parents ops b) \<and> pv_side p = ''BUY'') \<longrightarrow>
      \<not> cap_exceeded (lx_auth s) (fadd (entry_notional ops b) (fmul (pv_remaining p) x)) \<longrightarrow>
      R s (fst (submit_parent_remainder ops pt now p x (Some x) s)))"

context live_steps
begin

lemma submit_entry_at:
  fixes s :: "'b live"
  assumes permitted: "entry_permitted R ops pt now" and price: "positive v = Some x" and b: "lx_book s = Some b"
    and p: "book_laws ops \<longrightarrow> p \<in> set (bk_parents ops b) \<and> pv_side p = ''BUY''"
  shows "R s (fst (submit_entry ops pt now i x p s))"
  unfolding submit_entry_def
proof (rule seq_at [OF moves_at [OF moves_reads(2)]])
  fix s1 can
  assume "look (\<lambda>b. bk_can_emit ops b (pv_id p)) s = (s1, Inr can)"
  with look_Inr have s1: "s1 = s" by metis
  let ?k = "\<lambda>r. case r of
           Inl (BookErr (EntryBlocked reason)) \<Rightarrow> give (Inl (skip i reason))
         | Inl e \<Rightarrow> fail e
         | Inr sub \<Rightarrow> seq (assert_entry_cap ops (Num 0)) (\<lambda>u. give (Inr sub))"
  have k: "moves R (?k r)" for r
  proof (cases r)
    case (Inl e)
    then show ?thesis by (auto split: live_error.splits book_error.splits)
  next
    case (Inr y)
    then show ?thesis by (auto intro!: moves_seq moves_reads)
  qed
  have "R s (fst (seq (assert_entry_cap ops (fmul (pv_remaining p) x)) (\<lambda>u.
      seq (attempt (submit_parent_remainder ops pt now p x (Some x))) ?k) s))"
  proof (rule seq_at [OF moves_at [OF moves_reads(5)]])
    fix s2 u
    assume "assert_entry_cap ops (fmul (pv_remaining p) x) s = (s2, Inr u)"
    from assert_entry_cap_Inr [OF this] b have s2: "s2 = s"
      and ok: "\<not> cap_exceeded (lx_auth s) (fadd (entry_notional ops b) (fmul (pv_remaining p) x))" by auto
    have sub: "R s (fst (submit_parent_remainder ops pt now p x (Some x) s))"
      using permitted b price p ok unfolding entry_permitted_def by blast
    show "R s2 (fst (seq (attempt (submit_parent_remainder ops pt now p x (Some x))) ?k s2))"
      unfolding s2
      by (rule seq_at) (use sub in \<open>simp add: attempt_def split_beta\<close>, rule moves_at [OF k])
  qed
  then show "R s1 (fst ((if \<not> can then give (Inl (skip i ''no_emittable_remainder''))
     else seq (assert_entry_cap ops (fmul (pv_remaining p) x)) (\<lambda>u.
       seq (attempt (submit_parent_remainder ops pt now p x (Some x))) ?k)) s1))"
    unfolding s1 by (simp add: moves_at)
qed

lemma moves_entry_step:
  assumes "entry_permitted R ops pt now" shows "moves R (entry_step ops pt now i)"
  unfolding moves_def
proof
  fix s :: "'b live"
  have reg: "R s (fst (seq (registration ops i ''BUY'') (\<lambda>r. case r of
               Inl t \<Rightarrow> give (Inl (skip i t)) | Inr p \<Rightarrow> submit_entry ops pt now i x p) s))"
    if "positive (dget i ''price'' JNull) = Some x" for x
  proof (rule seq_at [OF moves_at [OF moves_registration]])
    fix s1 r
    assume g: "registration ops i ''BUY'' s = (s1, Inr r)"
    show "R s1 (fst ((case r of Inl t \<Rightarrow> give (Inl (skip i t)) | Inr p \<Rightarrow> submit_entry ops pt now i x p) s1))"
    proof (cases r)
      case (Inr p)
      from registration_yields [OF g [unfolded Inr]] obtain b where "lx_book s1 = Some b"
        "book_laws ops \<longrightarrow> p \<in> set (bk_parents ops b) \<and> pv_side p = ''BUY''" by blast
      from submit_entry_at [OF assms that this] show ?thesis by (simp add: Inr)
    qed (simp add: moves_at)
  qed
  show "R s (fst (entry_step ops pt now i s))"
    unfolding entry_step_def using reg refl
    by (cases "lx_book s"; cases "positive (dget i ''price'' JNull)"; cases "positive (dget i ''quantity'' JNull)")
      (simp_all add: give_def)
qed

end

section \<open>Ticks keep the three relations\<close>

lemma traced_submit: "traced s (fst (submit_parent_remainder ops pt now p x l s))"
  by (rule traced.submit_at) (auto intro!: traced_same traced_events)

lemma traced_tick: "moves traced (process_tick ops pt now decisions)"
proof (rule traced.moves_tick [OF traced.moves_budget traced.moves_entry_step])
  show "entry_permitted traced ops pt now" unfolding entry_permitted_def using traced_submit by blast
qed (simp add: traced_same)

lemma positive_Num: "positive v = Some x \<Longrightarrow> \<exists>y. x = Num y"
  by (cases x) (auto simp: positive_def fle_def split: sum.splits if_splits)

lemma capped_submit:
  fixes s :: "'b live"
  assumes b: "lx_book s = Some b" and x: "positive v = Some x"
    and p: "book_laws ops \<longrightarrow> p \<in> set (bk_parents ops b) \<and> pv_side p = ''BUY''"
    and ok: "\<not> cap_exceeded (lx_auth s) (fadd (entry_notional ops b) (fmul (pv_remaining p) x))"
  shows "capped ops s (fst (submit_parent_remainder ops pt now p x l s))"
proof (rule capped.submit_at)
  fix b1 assume "lx_book s = Some b1"
  with b have b1: "b1 = b" by simp
  obtain b' r where r: "bk_submit_child ops (pv_id p) (pv_remaining p) x now b = (b', r)" by fastforce
  show "capped ops s (s\<lparr>lx_book := Some (fst (bk_submit_child ops (pv_id p) (pv_remaining p) x now b1))\<rparr>)"
    unfolding capped_def b1 r
  proof (intro conjI impI allI)
    fix n c assume laws: "book_laws ops" and n: "notional ops s = Num n" and c: "au_cap (lx_auth s) = Num c"
    from p laws have parent: "p \<in> set (bk_parents ops b)" by blast
    from positive_Num [OF x] obtain y where y: "x = Num y" ..
    from book_lawsD(6) [OF laws parent] obtain q where q: "pv_remaining p = Num q" by (cases "pv_remaining p") auto
    from n b have n': "entry_notional ops b = Num n" by (simp add: notional_def)
    from ok n' c y q have le: "n + q * y \<le> c + EPS" by (simp add: cap_exceeded_def)
    from book_lawsD(5) [OF laws parent r] n' y q
    have "entry_notional ops b' = Num n \<or> entry_notional ops b' = Num (n + q * y)" by auto
    then show "\<exists>m. notional ops (s\<lparr>lx_book := Some (fst (b', r))\<rparr>) = Num m \<and> m \<le> max n (c + EPS)"
      using le by (auto simp: notional_def)
  qed simp
qed (rule capped_same, simp_all add: add_events_def notional_def)

lemma capped_tick: "moves (capped ops) (process_tick ops pt now decisions)"
proof (rule capped.moves_tick [OF capped.moves_budget capped.moves_entry_step])
  show "entry_permitted (capped ops) ops pt now" unfolding entry_permitted_def
    by (intro allI impI, rule capped_submit)
  show "capped ops s (s\<lparr>lx_canary := c\<rparr>)" for s c by (rule capped_same) (simp_all add: notional_def)
qed

lemma calm_tick: "moves (calm ops) (process_tick ops pt now decisions)"
proof (rule calm.moves_tick [OF calm.moves_budget])
  show "calm ops s (s\<lparr>lx_canary := c\<rparr>)" for s c by (auto simp: calm_def halted_def)
  show "moves (calm ops) (entry_step ops pt now i)" for i
    by (auto simp: moves_def calm_def halted_def entry_step_def give_def)
qed

lemma halt_holds: "book_laws ops \<Longrightarrow> lx_book (halt_unless_halted ops reason s) = Some b \<Longrightarrow> bk_halted ops b"
  using book_lawsD(3) by (auto simp: halt_unless_halted_def split: option.splits if_splits)

lemma halt_book [simp]:
  "lx_book (halt_unless_halted ops r s) = None \<longleftrightarrow> lx_book s = None"
  "(\<exists>b. lx_book (halt_unless_halted ops r s) = Some b) \<longleftrightarrow> (\<exists>b. lx_book s = Some b)"
  by (simp_all add: halt_unless_halted_def split: option.split)

lemma latched_tick:
  fixes ops :: "'b book_ops"
  shows "moves (latched ops) (process_tick ops pt now decisions)"
proof (rule latched.moves_tick [OF _ latched.moves_entry_step])
  show "entry_permitted (latched ops) ops pt now"
    unfolding entry_permitted_def
  proof (intro allI impI)
    fix s :: "'b live" and b p x v
    assume b: "lx_book s = Some b" and p: "book_laws ops \<longrightarrow> p \<in> set (bk_parents ops b) \<and> pv_side p = ''BUY''"
    show "latched ops s (fst (submit_parent_remainder ops pt now p x (Some x) s))"
    proof (rule latched.submit_at)
      fix b1 assume "lx_book s = Some b1"
      with b p show "latched ops s (s\<lparr>lx_book := Some (fst (bk_submit_child ops (pv_id p) (pv_remaining p) x now b1))\<rparr>)"
        by (intro halt_kept(2) [of s b] halt_kept_child) auto
    qed (simp add: latched_def add_events_def held_def)
  qed
  show "moves (latched ops) (evaluate_loss_budget ops)"
    unfolding moves_def
  proof
    fix s :: "'b live"
    show "latched ops s (fst (evaluate_loss_budget ops s))"
      using halt_holds [of ops HALT_REASON_LOSS_BUDGET]
      by (auto simp: latched_def held_def evaluate_loss_budget_def evaluate_budget_def Let_def)
  qed
qed

section \<open>Begin and close\<close>

context live_steps
begin

lemma moves_close: "moves R (close_session ops pt)"
proof -
  have "moves R (modify (\<lambda>s. (persist_book ops s)\<lparr>lx_open := False\<rparr>))"
    by (rule moves_quiet) (auto simp: modify_def persist_book_def same_but_book_def split: option.splits)
  then show ?thesis unfolding close_session_def by (intro moves_intros base_moves moves_cancel_child moves_sync)
qed

end

lemma persist_book_sel [simp]: "lx_book (persist_book ops s) = lx_book s" "lx_canary (persist_book ops s) = lx_canary s"
  "lx_auth (persist_book ops s) = lx_auth s" "lx_trace (persist_book ops s) = lx_trace s"
  by (simp_all add: persist_book_def split: option.split)

lemma halt_sel [simp]: "lx_canary (halt_unless_halted ops r s) = lx_canary s"
  "lx_auth (halt_unless_halted ops r s) = lx_auth s" "lx_trace (halt_unless_halted ops r s) = lx_trace s"
  by (simp_all add: halt_unless_halted_def split: option.split)

lemma traced_quiet:
  "(\<And>s. lx_auth (fst (m s)) = lx_auth s \<and> lx_trace (fst (m s)) = lx_trace s) \<Longrightarrow> moves traced m"
  by (simp add: moves_def traced_same)

lemma traced_begin: "moves traced (begin_session ops)"
proof -
  have "moves traced (restore_book ops)"
    by (rule traced_quiet) (auto simp: restore_book_def split: json_file.splits json.splits sum.splits)
  moreover have "moves traced (reconcile_book ops)"
    by (rule traced_quiet) (auto simp: reconcile_book_def on_book_def split: option.splits prod.splits)
  moreover have "moves traced begin_canary"
    by (rule traced_quiet) (auto simp: begin_canary_def split: sum.splits)
  ultimately show ?thesis
    unfolding begin_session_def
    by (intro traced.moves_intros traced.moves_jot traced.moves_reads)
      (auto simp: modify_def split: option.splits intro!: traced_quiet)
qed

lemma report_begin_Inr: "report_begin ops m s = (s', Inr r) \<Longrightarrow> s' = s"
  by (simp add: report_begin_def split: option.splits)

lemma begin_held:
  assumes laws: "book_laws ops" and b: "begin_session ops s = (s', Inr ok)"
  shows "held ops s'"
proof -
  let ?halt = "\<lambda>s. if ca_tripped (lx_canary s) then halt_unless_halted ops HALT_REASON_LOSS_BUDGET s else s"
  from b obtain s1 where 1: "lx_book s' = lx_book (?halt s1)" "lx_canary s' = lx_canary (?halt s1)"
    unfolding begin_session_def
    by (auto dest!: seq_Inr report_begin_Inr simp: modify_def jot_def simp del: halt_sel)
  with halt_holds [OF laws, of HALT_REASON_LOSS_BUDGET s1] show ?thesis by (auto simp: held_def)
qed

lemma begin_book: "begin_session ops s = (s', Inr ok) \<Longrightarrow> lx_book s' \<noteq> None"
  unfolding begin_session_def
  by (auto dest!: seq_Inr report_begin_Inr simp: modify_def jot_def reconcile_book_def begin_canary_def on_book_def
      split: option.splits prod.splits sum.splits if_splits)

section \<open>A session\<close>

datatype session_call = Begin | Tick int "json dict" | Close

text \<open>The driver's calls, whatever each of them raises.\<close>

definition session_step :: "'b book_ops \<Rightarrow> port \<Rightarrow> 'b live \<Rightarrow> session_call \<Rightarrow> 'b live" where
  "session_step ops pt s call =
     (case call of
        Begin \<Rightarrow> fst (begin_session ops s)
      | Tick now decisions \<Rightarrow> fst (process_tick ops pt now decisions s)
      | Close \<Rightarrow> fst (close_session ops pt s))"

definition run_calls :: "'b book_ops \<Rightarrow> port \<Rightarrow> session_call list \<Rightarrow> 'b live \<Rightarrow> 'b live" where
  "run_calls ops pt calls s = foldl (session_step ops pt) s calls"

context live_steps
begin

lemma run_keeps:
  assumes "\<And>now decisions. moves R (process_tick ops pt now decisions)" and "Begin \<notin> set calls \<or> moves R (begin_session ops)"
  shows "R s (run_calls ops pt calls s)"
  using assms(2)
proof (induction calls arbitrary: s)
  case (Cons c calls)
  have "R s (session_step ops pt s c)"
    using assms(1) Cons.prems moves_close by (cases c) (auto simp: session_step_def moves_def)
  with Cons trans show ?case by (auto simp: run_calls_def)
qed (simp add: run_calls_def refl)

end

lemma new_live_sel:
  "new_live account day a state file = Inr s \<Longrightarrow> lx_trace s = [] \<and> lx_auth s = a"
  by (auto simp: new_live_def map_sum_def split: sum.splits)

section \<open>Properties\<close>

text \<open>A small book for the witnesses: one entry and one exit parent, the children of the entry parent, and the halt flag.\<close>

type_synonym demo_book = "child_view list \<times> bool"

definition demo_entry :: "demo_book \<Rightarrow> parent_view" where
  "demo_entry b = \<lparr>pv_id = ''E'', pv_symbol = ''NVDA'', pv_side = ''BUY'', pv_remaining = Num 2, pv_children = fst b\<rparr>"

definition demo_exit :: parent_view where
  "demo_exit = \<lparr>pv_id = ''X'', pv_symbol = ''MSFT'', pv_side = ''SELL'', pv_remaining = Num 1, pv_children = []\<rparr>"

definition demo_child :: "pyfloat \<Rightarrow> pyfloat \<Rightarrow> child_view" where
  "demo_child q x = \<lparr>cv_id = ''E-1'', cv_qty = q, cv_price = x, cv_filled = Num 0, cv_is_filled = False, cv_is_open = True\<rparr>"

definition demo_book_ops :: "demo_book book_ops" where
  "demo_book_ops =
     \<lparr>bk_new = \<lambda>account day. ([], False), bk_restore = \<lambda>p. Inl BookOther, bk_snapshot = \<lambda>b. JNull,
      bk_parents = \<lambda>b. [demo_entry b, demo_exit], bk_open_children = \<lambda>b. [], bk_can_emit = \<lambda>b pid. True,
      bk_halted = snd, bk_halt_reason = \<lambda>b. [], bk_halt = \<lambda>reason b. (fst b, True),
      bk_register = \<lambda>symb side v qty b.
        (b, if side = ''BUY'' then Inr (demo_entry b) else if side = ''SELL'' then Inr demo_exit else Inl BookOther),
      bk_submit_child = \<lambda>pid q x now b.
        if pid = ''X'' then (b, Inr (demo_child q x))
        else if snd b then (b, Inl (EntryBlocked ''halted''))
        else ((fst b @ [demo_child q x], snd b), Inr (demo_child q x)),
      bk_ack = \<lambda>cid b. (b, Inr ()), bk_reject = \<lambda>cid b. (b, Inr ()), bk_cancel = \<lambda>cid b. (b, Inr ()),
      bk_expire = \<lambda>cid b. (b, Inr ()), bk_fill = \<lambda>cid q b. (b, Inr ()), bk_mark_stale = \<lambda>now b. (b, Inr []),
      bk_reconcile = \<lambda>n b. (b, Inr True), bk_lifecycle = \<lambda>e. None\<rparr>"

lemma demo_notional: "entry_notional demo_book_ops b = foldl (\<lambda>t c. fadd t (fmul (cv_qty c) (cv_price c))) (Num 0) (fst b)"
  by (simp add: entry_notional_def demo_book_ops_def demo_entry_def demo_exit_def)

lemma demo_laws: "book_laws demo_book_ops"
  unfolding book_laws_def
proof (intro conjI allI impI)
  fix b b' assume "bookkeeping demo_book_ops b b'"
  then have "fst b' = fst b \<and> (snd b \<longrightarrow> snd b')" by (cases rule: bookkeeping.cases) (auto simp: demo_book_ops_def)
  then show "entry_notional demo_book_ops b' = entry_notional demo_book_ops b"
    and "bk_halted demo_book_ops b \<Longrightarrow> bk_halted demo_book_ops b'"
    by (simp_all add: demo_notional) (simp add: demo_book_ops_def)
next
  fix b p q x now b' r
  assume p: "p \<in> set (bk_parents demo_book_ops b)" and "bk_submit_child demo_book_ops (pv_id p) q x now b = (b', r)"
  then have r: "b' = b \<or> pv_side p = ''BUY'' \<and> b' = (fst b @ [demo_child q x], snd b)"
    by (auto simp: demo_book_ops_def demo_entry_def demo_exit_def split: if_splits)
  then show "entry_notional demo_book_ops b' = entry_notional demo_book_ops b \<or>
      pv_side p = ''BUY'' \<and> entry_notional demo_book_ops b' = fadd (entry_notional demo_book_ops b) (fmul q x)"
    by (elim disjE conjE) (simp_all add: demo_notional demo_child_def)
  show "bk_halted demo_book_ops b \<Longrightarrow> bk_halted demo_book_ops b'"
    using r by (auto simp: demo_book_ops_def)
next
  fix b b' p symb side v qty
  assume "bk_register demo_book_ops symb side v qty b = (b', Inr p)"
  then show "p \<in> set (bk_parents demo_book_ops b')" and "pv_side p = side"
    by (auto simp: demo_book_ops_def demo_entry_def demo_exit_def split: if_splits)
qed (auto simp: demo_book_ops_def demo_entry_def demo_exit_def)

definition demo_port :: port where
  "demo_port = \<lparr>pt_act = \<lambda>n a. Some [(''status'', JStr ''accepted'')], pt_status = \<lambda>n cid. None\<rparr>"

definition demo_row :: "string \<Rightarrow> rat \<Rightarrow> json" where
  "demo_row side price = JObj [(''symbol'', JStr ''NVDA''), (''side'', JStr side), (''quantity'', JFloat (Num 2)),
     (''price'', JFloat (Num price)), (''signal_version'', JStr ''v1'')]"

definition demo_call :: "int \<Rightarrow> string \<Rightarrow> rat \<Rightarrow> session_call" where
  "demo_call now side price = Tick now [(''intents'', JList [demo_row side price])]"

definition demo_live :: "demo_book live" where
  "demo_live = (case new_live ''acct'' ''2026-07-10'' demo_grant FileAbsent FileAbsent of Inr s \<Rightarrow> s)"

lemma demo_live_new: "new_live ''acct'' ''2026-07-10'' demo_grant FileAbsent FileAbsent = Inr demo_live"
  by (simp add: demo_live_def new_live_def new_canary_def load_state_payload_def)

text \<open>C1: in every sequence of calls of a session, whatever they raise and whatever the book and the
  broker answer, each broker call stands in the trace right after its own journal row, and each
  entry that is sent is for a symbol of the authorization's allowlist.\<close>

theorem live_calls_journalled:
  assumes "new_live account day a state file = Inr s"
    and "lx_trace (run_calls ops pt calls s) = before @ Called sent # after"
  shows "(\<exists>rows t. before = rows @ [WroteAhead sent t]) \<and>
    (\<forall>cid symb q l. sent = SubmitOrder cid symb ''BUY'' q l \<longrightarrow> py_upper symb \<in> py_upper ` set (au_allowlist a))"
proof -
  have "traced s (run_calls ops pt calls s)" by (rule traced.run_keeps) (simp_all add: traced_tick traced_begin)
  with new_live_sel [OF assms(1)] assms(2)
  have w: "wal (before @ Called sent # after)" "allowlisted (au_allowlist a) (Called sent)" by (auto simp: traced_def)
  then show ?thesis using walD [OF w(1) refl] by auto
qed

definition demo_orders :: "broker_action \<times> broker_action" where
  "demo_orders = (SubmitOrder ''E-1'' ''MSFT'' ''SELL'' (Num 1) None, SubmitOrder ''E-1'' ''NVDA'' ''BUY'' (Num 2) (Some (Num 100)))"

lemma demo_trace: "lx_trace (run_calls demo_book_ops demo_port [Begin, demo_call 1 ''BUY'' 100] demo_live) =
  [Stamped ''session_begin'', WroteAhead (fst demo_orders) ''market'', Called (fst demo_orders),
   Outcome (fst demo_orders) ''accepted'', WroteAhead (snd demo_orders) ''limit''] @
  Called (snd demo_orders) # [Outcome (snd demo_orders) ''accepted'']"
  by code_simp

theorem live_calls_journalled_witness:
  "py_upper ''NVDA'' \<in> py_upper ` set (au_allowlist demo_grant)"
  using live_calls_journalled [OF demo_live_new demo_trace] unfolding demo_orders_def by simp

text \<open>C2: from a state whose entry notional is \<open>n\<close>, no sequence of ticks and closes brings the notional
  of the submitted entries above the authorization's cap (or \<open>n\<close>, if that was higher), for every book
  that keeps its laws.\<close>

theorem entry_cap_holds:
  assumes "book_laws ops" and "notional ops s = Num n" and "au_cap (lx_auth s) = Num cap"
    and "Begin \<notin> set calls"
  shows "\<exists>m. notional ops (run_calls ops pt calls s) = Num m \<and> m \<le> max n (cap + EPS)"
proof -
  have "capped ops s (run_calls ops pt calls s)" by (rule capped.run_keeps) (simp_all add: capped_tick assms(4))
  with assms(1-3) show ?thesis by (auto simp: capped_def)
qed

definition demo_open :: "demo_book live" where
  "demo_open = run_calls demo_book_ops demo_port [Begin] demo_live"

lemma demo_open_sel: "notional demo_book_ops demo_open = Num 0 \<and> au_cap (lx_auth demo_open) = Num 500"
  by code_simp

lemma demo_spent: "notional demo_book_ops (run_calls demo_book_ops demo_port
  [demo_call 1 ''BUY'' 100, demo_call 2 ''BUY'' 140, demo_call 3 ''BUY'' 30] demo_open) = Num 480"
  by code_simp

theorem entry_cap_holds_witness: "(480 :: rat) \<le> max 0 (500 + EPS)"
  using entry_cap_holds [OF demo_laws conjunct1 [OF demo_open_sel] conjunct2 [OF demo_open_sel],
      of "[demo_call 1 ''BUY'' 100, demo_call 2 ''BUY'' 140, demo_call 3 ''BUY'' 30]" demo_port] demo_spent
  by (simp add: demo_call_def)

text \<open>C3: once a session began, no entry is sent after the book is halted or the canary's loss budget
  tripped, whatever ticks and closes follow; exits are not restrained.\<close>

theorem no_entry_after_halt:
  assumes laws: "book_laws ops" and began: "begin_session ops s = (s0, Inr ok)"
    and calls: "Begin \<notin> set calls1" "Begin \<notin> set calls2"
    and run: "s1 = run_calls ops pt calls1 s0"
    and stop: "halted ops s1 \<or> ca_tripped (lx_canary s1)"
  shows "\<exists>new. lx_trace (run_calls ops pt calls2 s1) = lx_trace s1 @ new \<and>
    (\<forall>cid symb q l. Called (SubmitOrder cid symb ''BUY'' q l) \<notin> set new)"
proof -
  have "latched ops s0 s1" unfolding run by (rule latched.run_keeps) (simp_all add: latched_tick calls)
  with begin_held [OF laws began] begin_book [OF began] laws
  have "held ops s1" "lx_book s1 \<noteq> None" by (simp_all add: latched_def)
  with stop have h: "halted ops s1" by (auto simp: held_def halted_def)
  have "calm ops s1 (run_calls ops pt calls2 s1)" by (rule calm.run_keeps) (simp_all add: calm_tick calls)
  with h laws obtain new where "lx_trace (run_calls ops pt calls2 s1) = lx_trace s1 @ new" "list_all no_buy new"
    by (auto simp: calm_def)
  then show ?thesis by (intro exI [of _ new]) (auto simp: list_all_iff no_buy_def)
qed

definition demo_fill_port :: port where
  "demo_fill_port = demo_port\<lparr>pt_act := \<lambda>n a. case a of
     SubmitOrder cid symb side q l \<Rightarrow> if side = ''BUY''
       then Some [(''status'', JStr ''filled''), (''filled_qty'', JFloat q), (''fill_price'', JFloat (Num 100))]
       else Some [(''status'', JStr ''accepted'')]
   | CancelOrder cid \<Rightarrow> None\<rparr>"

lemma demo_trips:
  "begin_session demo_book_ops demo_live = (demo_open, Inr \<lparr>br_restored = False, br_clean = True, br_halted = False,
     br_halt_reason = [], br_canary = lx_canary demo_open\<rparr>)"
  "ca_tripped (lx_canary (run_calls demo_book_ops demo_fill_port [demo_call 1 ''BUY'' 100, demo_call 2 ''BUY'' 20] demo_open))"
  by code_simp+

theorem no_entry_after_halt_witness:
  "\<exists>new. lx_trace (run_calls demo_book_ops demo_fill_port [demo_call 3 ''BUY'' 30, Close]
        (run_calls demo_book_ops demo_fill_port [demo_call 1 ''BUY'' 100, demo_call 2 ''BUY'' 20] demo_open)) =
      lx_trace (run_calls demo_book_ops demo_fill_port [demo_call 1 ''BUY'' 100, demo_call 2 ''BUY'' 20] demo_open) @ new \<and>
    (\<forall>cid symb q l. Called (SubmitOrder cid symb ''BUY'' q l) \<notin> set new)"
  by (rule no_entry_after_halt [OF demo_laws demo_trips(1) _ _ refl disjI2 [OF demo_trips(2)]])
    (simp_all add: demo_call_def)

end
