(* ===== verification/SoftwareStop.thy ===== *)
theory SoftwareStop
  imports PyNum Interfaces
begin

text \<open>
  \<open>software_stop.py\<close>: the per-position stops of a session. \<open>stop_config\<close>, \<open>stop_signal\<close>,
  \<open>pos_state\<close> and \<open>evaluator\<close> are the dataclasses; \<open>from_payload\<close>, \<open>load_positions\<close>,
  \<open>evaluate_tick\<close> and \<open>to_record\<close> their methods. \<open>evaluate_position\<close> is the body of
  \<open>evaluate_tick\<close>'s loop.
\<close>

record stop_config =
  hard_stop_pct :: pyfloat
  trailing_stop_pct :: pyfloat
  stop_enabled :: bool

definition DEFAULT_HARD_STOP_PCT :: pyfloat where "DEFAULT_HARD_STOP_PCT = Num (5/100)"
definition DEFAULT_TRAILING_STOP_PCT :: pyfloat where "DEFAULT_TRAILING_STOP_PCT = Num (3/100)"

definition default_stop_config :: stop_config where
  "default_stop_config = \<lparr>hard_stop_pct = DEFAULT_HARD_STOP_PCT,
     trailing_stop_pct = DEFAULT_TRAILING_STOP_PCT, stop_enabled = False\<rparr>"

definition from_payload :: "json dict option \<Rightarrow> py_error + stop_config" where
  "from_payload payload =
     (case payload of
        None \<Rightarrow> Inr default_stop_config
      | Some p \<Rightarrow>
          (case py_float (dget p ''hard_stop_pct'' (JFloat DEFAULT_HARD_STOP_PCT)) of
             Inl e \<Rightarrow> Inl e
           | Inr hard \<Rightarrow>
               (case py_float (dget p ''trailing_stop_pct'' (JFloat DEFAULT_TRAILING_STOP_PCT)) of
                  Inl e \<Rightarrow> Inl e
                | Inr trailing \<Rightarrow>
                    Inr \<lparr>hard_stop_pct = hard, trailing_stop_pct = trailing,
                         stop_enabled = truthy (dget p ''enabled'' (JBool False))\<rparr>)))"

datatype stop_type = HardStop | TrailingStop

record stop_signal =
  sg_symbol :: string
  sg_type :: stop_type
  sg_entry_price :: pyfloat
  sg_current_price :: pyfloat
  sg_session_hwm :: pyfloat
  sg_loss_pct :: pyfloat
  sg_threshold_pct :: pyfloat
  sg_timestamp :: int

record pos_state =
  ps_symbol :: string
  ps_entry_price :: pyfloat
  ps_session_hwm :: pyfloat
  ps_stopped :: bool
  ps_stop_type :: "stop_type option"

record evaluator =
  ev_config :: stop_config
  ev_positions :: "pos_state dict"
  ev_signals_emitted :: "stop_signal list"

definition new_evaluator :: "stop_config \<Rightarrow> evaluator" where
  "new_evaluator cfg = \<lparr>ev_config = cfg, ev_positions = [], ev_signals_emitted = []\<rparr>"

text \<open>\<open>load_positions\<close>: the state it leaves, and the exception that ended the loop, if one did.\<close>

fun load_positions :: "evaluator \<Rightarrow> json dict dict \<Rightarrow> evaluator \<times> py_error option" where
  "load_positions ev [] = (ev, None)"
| "load_positions ev ((symbol, info) # hs) =
     (let entry = py_or (dget info ''entry_price'' JNull) (dget info ''avg_entry_price'' JNull) in
      if entry = JNull then load_positions ev hs
      else (case py_float entry of
          Inl e \<Rightarrow> (ev, Some e)
        | Inr entry \<Rightarrow>
            if fle entry (Num 0) then load_positions ev hs
            else (let symb = py_upper symbol in
              if dhas (ev_positions ev) symb then load_positions ev hs
              else load_positions
                (ev\<lparr>ev_positions := dset (ev_positions ev) symb
                   \<lparr>ps_symbol = symb, ps_entry_price = entry, ps_session_hwm = entry,
                    ps_stopped = False, ps_stop_type = None\<rparr>\<rparr>) hs)))"

text \<open>One position against one usable quote.\<close>

definition evaluate_position ::
  "stop_config \<Rightarrow> int \<Rightarrow> string \<Rightarrow> pyfloat \<Rightarrow> pos_state \<Rightarrow> py_error + (pos_state \<times> stop_signal option)" where
  "evaluate_position cfg ts symb price pos =
     (let pos = (if flt (ps_session_hwm pos) price then pos\<lparr>ps_session_hwm := price\<rparr> else pos);
          signal = (\<lambda>ty loss thr. \<lparr>sg_symbol = symb, sg_type = ty,
            sg_entry_price = ps_entry_price pos, sg_current_price = price,
            sg_session_hwm = ps_session_hwm pos, sg_loss_pct = loss,
            sg_threshold_pct = thr, sg_timestamp = ts\<rparr>);
          stop = (\<lambda>ty. pos\<lparr>ps_stopped := True, ps_stop_type := Some ty\<rparr>) in
      case fdiv (fsub (ps_entry_price pos) price) (ps_entry_price pos) of
        Inl e \<Rightarrow> Inl e
      | Inr hard_loss \<Rightarrow>
          if fle (hard_stop_pct cfg) hard_loss
          then Inr (stop HardStop, Some (signal HardStop hard_loss (hard_stop_pct cfg)))
          else (case fdiv (fsub (ps_session_hwm pos) price) (ps_session_hwm pos) of
              Inl e \<Rightarrow> Inl e
            | Inr trailing_loss \<Rightarrow>
                if fle (trailing_stop_pct cfg) trailing_loss
                then Inr (stop TrailingStop, Some (signal TrailingStop trailing_loss (trailing_stop_pct cfg)))
                else Inr (pos, None)))"

text \<open>The quote a position is evaluated at: none when it is missing, not a number, or not positive.\<close>

definition usable_quote :: "json dict \<Rightarrow> string \<Rightarrow> pyfloat option" where
  "usable_quote quotes symb =
     (let raw = dget quotes symb JNull in
      if raw = JNull then None
      else (case py_float raw of
          Inl e \<Rightarrow> None
        | Inr price \<Rightarrow> if fle price (Num 0) then None else Some price))"

definition visit_position ::
  "stop_config \<Rightarrow> int \<Rightarrow> json dict \<Rightarrow> string \<Rightarrow> pos_state \<Rightarrow> py_error + (pos_state \<times> stop_signal option)" where
  "visit_position cfg ts quotes symb pos =
     (if ps_stopped pos then Inr (pos, None)
      else (case usable_quote quotes symb of
          None \<Rightarrow> Inr (pos, None)
        | Some price \<Rightarrow> evaluate_position cfg ts symb price pos))"

fun visit_positions ::
  "stop_config \<Rightarrow> int \<Rightarrow> json dict \<Rightarrow> pos_state dict \<Rightarrow> py_error + (pos_state dict \<times> stop_signal list)" where
  "visit_positions cfg ts quotes [] = Inr ([], [])"
| "visit_positions cfg ts quotes ((symb, pos) # ps) =
     (case visit_position cfg ts quotes symb pos of
        Inl e \<Rightarrow> Inl e
      | Inr (pos', sg) \<Rightarrow> (case visit_positions cfg ts quotes ps of
          Inl e \<Rightarrow> Inl e
        | Inr (ps', sgs) \<Rightarrow> Inr ((symb, pos') # ps', (case sg of None \<Rightarrow> sgs | Some x \<Rightarrow> x # sgs))))"

definition evaluate_tick ::
  "evaluator \<Rightarrow> json dict \<Rightarrow> int \<Rightarrow> py_error + (evaluator \<times> stop_signal list)" where
  "evaluate_tick ev quotes ts =
     (if \<not> stop_enabled (ev_config ev) then Inr (ev, [])
      else (case visit_positions (ev_config ev) ts quotes (ev_positions ev) of
          Inl e \<Rightarrow> Inl e
        | Inr (ps, sgs) \<Rightarrow>
            Inr (ev\<lparr>ev_positions := ps, ev_signals_emitted := ev_signals_emitted ev @ sgs\<rparr>, sgs)))"

text \<open>The counters of \<open>to_record\<close>: tracked, stopped, emitted.\<close>

definition stop_counts :: "evaluator \<Rightarrow> nat \<times> nat \<times> nat" where
  "stop_counts ev = (length (ev_positions ev),
     length (filter (\<lambda>(s, p). ps_stopped p) (ev_positions ev)), length (ev_signals_emitted ev))"

section \<open>The invariant\<close>

text \<open>
  The positions are keyed by their own symbol; an entry price and a high-water mark are never
  zero or negative (they may be NaN), so no division raises.
\<close>

definition pos_ok :: "string \<times> pos_state \<Rightarrow> bool" where
  "pos_ok kp \<longleftrightarrow> ps_symbol (snd kp) = fst kp \<and>
     \<not> fle (ps_entry_price (snd kp)) (Num 0) \<and> \<not> fle (ps_session_hwm (snd kp)) (Num 0)"

definition stops_ok :: "evaluator \<Rightarrow> bool" where
  "stops_ok ev \<longleftrightarrow> distinct (map fst (ev_positions ev)) \<and> (\<forall>kp \<in> set (ev_positions ev). pos_ok kp)"

definition stopped_symbols :: "evaluator \<Rightarrow> string set" where
  "stopped_symbols ev = {k. \<exists>p. (k, p) \<in> set (ev_positions ev) \<and> ps_stopped p}"

definition emitted_symbols :: "evaluator \<Rightarrow> string list" where
  "emitted_symbols ev = map sg_symbol (ev_signals_emitted ev)"

definition tick :: "evaluator \<Rightarrow> json dict \<times> int \<Rightarrow> py_error + evaluator" where
  "tick ev q = (case evaluate_tick ev (fst q) (snd q) of Inl e \<Rightarrow> Inl e | Inr (ev', _) \<Rightarrow> Inr ev')"

lemma not_fle_0_nonzero: "\<not> fle x (Num 0) \<Longrightarrow> x \<noteq> Num 0"
  by auto

lemma stops_ok_add:
  assumes "stops_ok ev" and "\<not> fle f (Num 0)" and "\<not> dhas (ev_positions ev) k"
  shows "stops_ok (ev\<lparr>ev_positions := dset (ev_positions ev) k
      \<lparr>ps_symbol = k, ps_entry_price = f, ps_session_hwm = f, ps_stopped = False, ps_stop_type = None\<rparr>\<rparr>)"
  using assms by (auto simp: stops_ok_def pos_ok_def dset_fresh dhas_iff)

lemma load_positions_ok: "stops_ok ev \<Longrightarrow> stops_ok (fst (load_positions ev hs))"
proof (induction ev hs rule: load_positions.induct)
  case (2 ev symbol info hs)
  let ?e = "py_or (dget info ''entry_price'' JNull) (dget info ''avg_entry_price'' JNull)"
  show ?case
  proof (cases "?e = JNull \<or> (\<exists>x. py_float ?e = Inl x)")
    case True
    with 2 show ?thesis by (auto simp: Let_def)
  next
    case False
    then obtain f where f: "?e \<noteq> JNull" "py_float ?e = Inr f" by (cases "py_float ?e") auto
    with 2 stops_ok_add [OF "2.prems"] show ?thesis
      by (cases "fle f (Num 0)"; cases "dhas (ev_positions ev) (py_upper symbol)")
        (simp_all add: Let_def)
  qed
qed simp

lemma load_positions_unstopped:
  "stopped_symbols ev = {} \<Longrightarrow> ev_signals_emitted ev = [] \<Longrightarrow>
   stopped_symbols (fst (load_positions ev hs)) = {} \<and> ev_signals_emitted (fst (load_positions ev hs)) = []"
proof (induction ev hs rule: load_positions.induct)
  case (2 ev symbol info hs)
  let ?e = "py_or (dget info ''entry_price'' JNull) (dget info ''avg_entry_price'' JNull)"
  have add: "\<not> dhas (ev_positions ev) k \<Longrightarrow> stopped_symbols (ev\<lparr>ev_positions := dset (ev_positions ev) k
      \<lparr>ps_symbol = k, ps_entry_price = f, ps_session_hwm = f, ps_stopped = False, ps_stop_type = None\<rparr>\<rparr>) = {}"
    for f k using "2.prems"(1) by (auto simp: stopped_symbols_def dset_fresh)
  show ?case
  proof (cases "?e = JNull \<or> (\<exists>x. py_float ?e = Inl x)")
    case True
    with 2 show ?thesis by (auto simp: Let_def)
  next
    case False
    then obtain f where f: "?e \<noteq> JNull" "py_float ?e = Inr f" by (cases "py_float ?e") auto
    with 2 add show ?thesis
      by (cases "fle f (Num 0)"; cases "dhas (ev_positions ev) (py_upper symbol)")
        (simp_all add: Let_def)
  qed
qed simp

lemma evaluate_position_ok:
  assumes "pos_ok (k, pos)" and "\<not> fle price (Num 0)"
  shows "\<exists>pos' sg. evaluate_position cfg ts k price pos = Inr (pos', sg) \<and> pos_ok (k, pos') \<and>
    (case sg of None \<Rightarrow> ps_stopped pos' = ps_stopped pos | Some x \<Rightarrow> ps_stopped pos' \<and> sg_symbol x = k)"
proof -
  let ?h = "if flt (ps_session_hwm pos) price then price else ps_session_hwm pos"
  have h: "\<not> fle ?h (Num 0)" "\<not> fle (ps_entry_price pos) (Num 0)" "ps_symbol pos = k"
    using assms by (auto simp: pos_ok_def)
  obtain a where "fdiv (fsub (ps_entry_price pos) price) (ps_entry_price pos) = Inr a"
    using fdiv_nonzero not_fle_0_nonzero [OF h(2)] by blast
  moreover obtain b where "fdiv (fsub ?h price) ?h = Inr b"
    using fdiv_nonzero not_fle_0_nonzero [OF h(1)] by blast
  ultimately show ?thesis
    using h by (auto simp: evaluate_position_def pos_ok_def Let_def)
qed

lemma visit_position_ok:
  assumes "pos_ok (k, pos)"
  shows "\<exists>pos' sg. visit_position cfg ts quotes k pos = Inr (pos', sg) \<and> pos_ok (k, pos') \<and>
    (case sg of None \<Rightarrow> ps_stopped pos' = ps_stopped pos
     | Some x \<Rightarrow> \<not> ps_stopped pos \<and> ps_stopped pos' \<and> sg_symbol x = k)"
proof (cases "ps_stopped pos \<or> usable_quote quotes k = None")
  case True
  with assms show ?thesis by (auto simp: visit_position_def)
next
  case False
  then obtain p where p: "\<not> ps_stopped pos" "usable_quote quotes k = Some p" by auto
  then have "\<not> fle p (Num 0)"
    by (auto simp: usable_quote_def Let_def split: if_splits sum.splits)
  from evaluate_position_ok [OF assms this, of cfg ts] p show ?thesis
    by (auto simp: visit_position_def split: option.splits)
qed

definition stopped_in :: "pos_state dict \<Rightarrow> string set" where
  "stopped_in ps = {k. \<exists>p. (k, p) \<in> set ps \<and> ps_stopped p}"

lemma stopped_in_simps [simp]:
  "stopped_in [] = {}"
  "stopped_in ((k, p) # ps) = (if ps_stopped p then insert k (stopped_in ps) else stopped_in ps)"
  by (auto simp: stopped_in_def)

lemma stopped_in_keys: "k \<in> stopped_in ps \<Longrightarrow> k \<in> fst ` set ps"
  by (force simp: stopped_in_def)

lemma stopped_symbols_eq: "stopped_symbols ev = stopped_in (ev_positions ev)"
  by (simp add: stopped_symbols_def stopped_in_def)

text \<open>The loop visits every position once: the keys stay, and the symbols of the signals are those
  of the positions that stopped in this pass, each once.\<close>

lemma visit_positions_ok:
  assumes "\<forall>kp \<in> set ps. pos_ok kp" and "distinct (map fst ps)"
  shows "\<exists>ps' sgs. visit_positions cfg ts quotes ps = Inr (ps', sgs) \<and> map fst ps' = map fst ps \<and>
    (\<forall>kp \<in> set ps'. pos_ok kp) \<and> distinct (map sg_symbol sgs) \<and>
    set (map sg_symbol sgs) \<inter> stopped_in ps = {} \<and> set (map sg_symbol sgs) \<subseteq> fst ` set ps \<and>
    stopped_in ps' = stopped_in ps \<union> set (map sg_symbol sgs)"
  using assms
proof (induction ps)
  case (Cons kp ps)
  obtain k p where kp: "kp = (k, p)" by (cases kp)
  from Cons.prems kp have "pos_ok (k, p)" by simp
  from visit_position_ok [OF this, of cfg ts quotes] obtain p' sg where
    1: "visit_position cfg ts quotes k p = Inr (p', sg)" "pos_ok (k, p')"
    "case sg of None \<Rightarrow> ps_stopped p' = ps_stopped p
       | Some x \<Rightarrow> \<not> ps_stopped p \<and> ps_stopped p' \<and> sg_symbol x = k" by blast
  from Cons obtain ps' sgs where
    2: "visit_positions cfg ts quotes ps = Inr (ps', sgs)" "map fst ps' = map fst ps"
    "\<forall>kp \<in> set ps'. pos_ok kp" "distinct (map sg_symbol sgs)"
    "set (map sg_symbol sgs) \<inter> stopped_in ps = {}" "set (map sg_symbol sgs) \<subseteq> fst ` set ps"
    "stopped_in ps' = stopped_in ps \<union> set (map sg_symbol sgs)" by auto
  have k: "k \<notin> fst ` set ps" "k \<notin> stopped_in ps" "k \<notin> sg_symbol ` set sgs"
    using Cons.prems(2) kp stopped_in_keys 2(6) by auto
  show ?case
  proof (cases sg)
    case None
    with 1 2 k kp show ?thesis by auto
  next
    case (Some x)
    with 1 2 k kp show ?thesis by auto
  qed
qed simp

section \<open>The stops as a sticky monitor\<close>

lemma tick_latch:
  assumes "stops_ok ev"
  shows "\<exists>ev'. tick ev q = Inr ev' \<and> stops_ok ev' \<and>
    (\<exists>ks. emitted_symbols ev' = emitted_symbols ev @ ks \<and> distinct ks \<and>
       set ks \<inter> stopped_symbols ev = {} \<and> stopped_symbols ev' = stopped_symbols ev \<union> set ks)"
proof (cases "stop_enabled (ev_config ev)")
  case False
  with assms show ?thesis by (auto simp: tick_def evaluate_tick_def)
next
  case True
  from assms have "\<forall>kp \<in> set (ev_positions ev). pos_ok kp" "distinct (map fst (ev_positions ev))"
    by (auto simp: stops_ok_def)
  from visit_positions_ok [OF this, of "ev_config ev" "snd q" "fst q"] True assms show ?thesis
    by (auto simp: tick_def evaluate_tick_def stops_ok_def emitted_symbols_def stopped_symbols_eq)
qed

interpretation stops: latch tick stops_ok stopped_symbols emitted_symbols
proof
  fix s t :: evaluator and e
  assume "stops_ok s"
  from tick_latch [OF this, of e] show "\<exists>t. tick s e = Inr t"
    and "tick s e = Inr t \<Longrightarrow> stops_ok t"
    and "tick s e = Inr t \<Longrightarrow> \<exists>ks. emitted_symbols t = emitted_symbols s @ ks \<and> distinct ks \<and>
           set ks \<inter> stopped_symbols s = {} \<and> stopped_symbols t = stopped_symbols s \<union> set ks"
    by auto
qed

section \<open>One position over a session\<close>

text \<open>The reference: which stop, if any, a position with entry \<open>e\<close> meets first, given its
  high-water mark so far and the usable quotes of the ticks to come.\<close>

fun first_stop :: "rat \<Rightarrow> rat \<Rightarrow> rat \<Rightarrow> rat \<Rightarrow> rat option list \<Rightarrow> stop_type option" where
  "first_stop H T e h [] = None"
| "first_stop H T e h (None # qs) = first_stop H T e h qs"
| "first_stop H T e h (Some p # qs) =
     (if p \<le> e * (1 - H) then Some HardStop
      else if p \<le> max h p * (1 - T) then Some TrailingStop
      else first_stop H T e (max h p) qs)"

text \<open>The usable quotes among those of a sequence of ticks.\<close>

fun usable :: "rat option list \<Rightarrow> rat list" where
  "usable [] = []"
| "usable (None # xs) = usable xs"
| "usable (Some p # xs) = p # usable xs"

lemma occurrence_Cons:
  "(\<exists>xs q ys. x # qs = xs @ Some q # ys \<and> P (usable xs) q) \<longleftrightarrow>
   (\<exists>q. x = Some q \<and> P [] q) \<or>
   (\<exists>xs q ys. qs = xs @ Some q # ys \<and> P (usable (x # xs)) q)" (is "?L \<longleftrightarrow> ?A \<or> ?B")
proof
  assume ?L
  then obtain xs q ys where *: "x # qs = xs @ Some q # ys" "P (usable xs) q" by blast
  show "?A \<or> ?B"
  proof (cases xs)
    case Nil
    with * show ?thesis by simp
  next
    case (Cons z zs)
    with * show ?thesis by auto
  qed
next
  assume "?A \<or> ?B"
  then show ?L
  proof
    assume ?A
    then obtain q where "x = Some q" "P [] q" by blast
    then have "x # qs = [] @ Some q # qs \<and> P (usable []) q" by simp
    then show ?L by blast
  next
    assume ?B
    then obtain xs q ys where "qs = xs @ Some q # ys" "P (usable (x # xs)) q" by blast
    then have "x # qs = (x # xs) @ Some q # ys \<and> P (usable (x # xs)) q" by simp
    then show ?L by blast
  qed
qed

lemma first_stop_iff:
  "first_stop H T e h qs \<noteq> None \<longleftrightarrow>
   (\<exists>xs p ys. qs = xs @ Some p # ys \<and>
      (p \<le> e * (1 - H) \<or> p \<le> foldl max h (usable xs @ [p]) * (1 - T)))"
proof (induction H T e h qs rule: first_stop.induct)
  case (2 H T e h qs)
  from 2 show ?case
    using occurrence_Cons [of None qs
        "\<lambda>xs p. p \<le> e * (1 - H) \<or> p \<le> foldl max h (xs @ [p]) * (1 - T)"]
    by simp
next
  case (3 H T e h p qs)
  from 3 show ?case
    using occurrence_Cons [of "Some p" qs
        "\<lambda>xs q. q \<le> e * (1 - H) \<or> q \<le> foldl max h (xs @ [q]) * (1 - T)"]
    by simp
qed simp

definition num_quote :: "json dict \<Rightarrow> string \<Rightarrow> bool" where
  "num_quote quotes k \<longleftrightarrow> (\<forall>p. usable_quote quotes k = Some p \<longrightarrow> is_num p)"

lemma evaluate_position_Num:
  assumes "ps_entry_price pos = Num e" "0 < e" "ps_session_hwm pos = Num h" "0 < h"
    and "hard_stop_pct cfg = Num H" "trailing_stop_pct cfg = Num T"
  shows "\<exists>pos' sg. evaluate_position cfg ts k (Num p) pos = Inr (pos', sg) \<and>
    ps_entry_price pos' = Num e \<and> ps_session_hwm pos' = Num (max h p) \<and>
    map_option sg_type sg = first_stop H T e h [Some p] \<and>
    (case sg of None \<Rightarrow> ps_stopped pos' = ps_stopped pos \<and> ps_stop_type pos' = ps_stop_type pos
     | Some x \<Rightarrow> ps_stopped pos' \<and> ps_stop_type pos' = Some (sg_type x))"
proof -
  have hard: "H \<le> (e - p) / e \<longleftrightarrow> p \<le> e * (1 - H)"
    using assms(2) by (simp add: pos_le_divide_eq algebra_simps)
  have trail: "T \<le> (max h p - p) / max h p \<longleftrightarrow> p \<le> max h p * (1 - T)"
    using assms(4) by (simp add: pos_le_divide_eq less_max_iff_disj algebra_simps)
  have m: "max h p \<noteq> 0" using assms(4) by (simp add: max_def)
  have hw: "(if flt (ps_session_hwm pos) (Num p) then pos\<lparr>ps_session_hwm := Num p\<rparr> else pos)
     = pos\<lparr>ps_session_hwm := Num (max h p)\<rparr>"
    using assms(3) by (cases pos) (auto simp: max_def)
  show ?thesis
    unfolding evaluate_position_def hw Let_def
    using assms m hard trail by auto
qed

lemma visit_positions_map_of:
  "visit_positions cfg ts quotes ps = Inr (ps', sgs) \<Longrightarrow> map_of ps k = Some p \<Longrightarrow>
   \<exists>p' sg. visit_position cfg ts quotes k p = Inr (p', sg) \<and> map_of ps' k = Some p'"
proof (induction ps arbitrary: ps' sgs)
  case (Cons jq ps)
  then show ?case by (cases jq) (auto split: if_splits sum.splits prod.splits option.splits)
qed simp

lemma tick_config: "tick ev q = Inr ev' \<Longrightarrow> ev_config ev' = ev_config ev"
  by (auto simp: tick_def evaluate_tick_def split: if_splits sum.splits)

lemma run_stopped_stays:
  assumes "run_until tick ev qs = Inr ev'" and "map_of (ev_positions ev) k = Some p" and "ps_stopped p"
  shows "map_of (ev_positions ev') k = Some p"
  using assms
proof (induction qs arbitrary: ev)
  case (Cons q qs)
  from Cons.prems(1) obtain ev1 where t: "tick ev q = Inr ev1" and r: "run_until tick ev1 qs = Inr ev'"
    by (auto split: sum.splits)
  from t Cons.prems(2,3) have "map_of (ev_positions ev1) k = Some p"
    by (auto simp: tick_def evaluate_tick_def visit_position_def split: if_splits sum.splits
        dest!: visit_positions_map_of)
  with Cons r show ?case by blast
qed simp

lemma run_first_stop:
  assumes "run_until tick ev qs = Inr ev'" and "stop_enabled (ev_config ev)"
    and "hard_stop_pct (ev_config ev) = Num H" "trailing_stop_pct (ev_config ev) = Num T"
    and "map_of (ev_positions ev) k = Some p" and "\<not> ps_stopped p" "ps_stop_type p = None"
    and "ps_entry_price p = Num e" "0 < e" "ps_session_hwm p = Num h" "0 < h"
    and "\<forall>q \<in> set qs. num_quote (fst q) k"
  shows "\<exists>p'. map_of (ev_positions ev') k = Some p' \<and>
    ps_stop_type p' = first_stop H T e h (map (\<lambda>q. map_option num_of (usable_quote (fst q) k)) qs) \<and>
    (ps_stopped p' \<longleftrightarrow> ps_stop_type p' \<noteq> None)"
  using assms
proof (induction qs arbitrary: ev p h)
  case (Cons q qs)
  from Cons.prems(1) obtain ev1 where t: "tick ev q = Inr ev1" and r: "run_until tick ev1 qs = Inr ev'"
    by (auto split: sum.splits)
  note cfg = tick_config [OF t]
  from t Cons.prems(2,5) obtain p1 sg where
    v: "visit_position (ev_config ev) (snd q) (fst q) k p = Inr (p1, sg)"
    and m: "map_of (ev_positions ev1) k = Some p1"
    by (auto simp: tick_def evaluate_tick_def split: sum.splits dest!: visit_positions_map_of)
  show ?case
  proof (cases "usable_quote (fst q) k")
    case None
    with v Cons.prems(6) have "p1 = p" by (simp add: visit_position_def)
    with Cons.IH [OF r, of p h] Cons.prems m cfg None show ?thesis by simp
  next
    case (Some x)
    with Cons.prems(12) obtain a where x: "x = Num a"
      by (auto simp: num_quote_def is_num_iff)
    from evaluate_position_Num [OF Cons.prems(8-11) Cons.prems(3,4), of "snd q" k a] v Some x Cons.prems(6)
    have p1: "ps_entry_price p1 = Num e" "ps_session_hwm p1 = Num (max h a)"
      "map_option sg_type sg = first_stop H T e h [Some a]"
      "case sg of None \<Rightarrow> ps_stopped p1 = ps_stopped p \<and> ps_stop_type p1 = ps_stop_type p
       | Some x \<Rightarrow> ps_stopped p1 \<and> ps_stop_type p1 = Some (sg_type x)"
      by (auto simp: visit_position_def)
    show ?thesis
    proof (cases sg)
      case None
      have "first_stop H T e h (Some a # zs) = first_stop H T e (max h a) zs" for zs
        using p1(3) None by (auto split: if_splits)
      moreover have "0 < max h a" using Cons.prems(11) by (simp add: less_max_iff_disj)
      ultimately show ?thesis
        using Cons.IH [OF r, of p1 "max h a"] Cons.prems m cfg p1 None Some x by simp
    next
      case (Some g)
      with p1 have s: "ps_stopped p1" "ps_stop_type p1 = Some (sg_type g)" by auto
      have "first_stop H T e h (Some a # zs) = Some (sg_type g)" for zs
        using p1(3) Some by (auto split: if_splits)
      with run_stopped_stays [OF r m s(1)] s \<open>usable_quote (fst q) k = Some x\<close> x show ?thesis by simp
    qed
  qed
qed simp

section \<open>Properties\<close>


text \<open>C37: a tracked position stops when, and only when, some tick quotes a price at or below the
  hard level \<open>entry * (1 - hard)\<close> or at or below \<open>hwm * (1 - trailing)\<close>, where \<open>hwm\<close> is the
  greatest of the session's high-water mark at the start and the usable quotes up to and
  including that tick; the recorded stop type is that of the first such tick, the hard stop
  taking precedence. Ticks with no usable quote change nothing.\<close>

theorem stop_triggers_iff:
  assumes "run_until tick ev qs = Inr ev'" and "stop_enabled (ev_config ev)"
    and "hard_stop_pct (ev_config ev) = Num H" "trailing_stop_pct (ev_config ev) = Num T"
    and "map_of (ev_positions ev) k = Some p" and "\<not> ps_stopped p" "ps_stop_type p = None"
    and "ps_entry_price p = Num e" "0 < e" "ps_session_hwm p = Num h" "0 < h"
    and "\<forall>q \<in> set qs. num_quote (fst q) k"
  shows "\<exists>p'. map_of (ev_positions ev') k = Some p' \<and>
    (let prices = map (\<lambda>q. map_option num_of (usable_quote (fst q) k)) qs in
     ps_stop_type p' = first_stop H T e h prices \<and>
     (ps_stopped p' \<longleftrightarrow> (\<exists>xs x ys. prices = xs @ Some x # ys \<and>
        (x \<le> e * (1 - H) \<or> x \<le> foldl max h (usable xs @ [x]) * (1 - T)))))"
  using run_first_stop [OF assms] unfolding Let_def first_stop_iff [symmetric] by metis

theorem stop_triggers_iff_witness:
  "let cfg = \<lparr>hard_stop_pct = Num (1/20), trailing_stop_pct = Num (3/100), stop_enabled = True\<rparr>;
       ev = fst (load_positions (new_evaluator cfg) [(''spy'', [(''entry_price'', JInt 100)])]);
       qs = [([(''SPY'', JInt 110)], 1), ([], 2), ([(''SPY'', JInt 106)], 3)]
   in \<exists>ev' p'. run_until tick ev qs = Inr ev' \<and> map_of (ev_positions ev') ''SPY'' = Some p' \<and>
        ps_stop_type p' = Some TrailingStop"
proof -
  let ?cfg = "\<lparr>hard_stop_pct = Num (1/20), trailing_stop_pct = Num (3/100), stop_enabled = True\<rparr>"
  let ?ev = "fst (load_positions (new_evaluator ?cfg) [(''spy'', [(''entry_price'', JInt 100)])])"
  let ?qs = "[([(''SPY'', JInt 110)], 1), ([], 2), ([(''SPY'', JInt 106)], 3)] :: (json dict \<times> int) list"
  let ?p = "\<lparr>ps_symbol = ''SPY'', ps_entry_price = Num 100, ps_session_hwm = Num 100,
    ps_stopped = False, ps_stop_type = None\<rparr>"
  let ?E = "\<lparr>ev_config = ?cfg, ev_positions = [(''SPY'', ?p)], ev_signals_emitted = []\<rparr>"
  have ev: "?ev = ?E" by code_simp
  have ok: "stops_ok ?E" by (simp add: stops_ok_def pos_ok_def)
  obtain ev' where r: "run_until tick ?E ?qs = Inr ev'" using stops.run_total [OF ok] by blast
  have q: "usable_quote [(''SPY'', JInt 110)] ''SPY'' = Some (Num 110)"
    "usable_quote [(''SPY'', JInt 106)] ''SPY'' = Some (Num 106)" "usable_quote [] ''SPY'' = None"
    by code_simp+
  have "\<exists>p'. map_of (ev_positions ev') ''SPY'' = Some p' \<and>
     (let prices = map (\<lambda>q. map_option num_of (usable_quote (fst q) ''SPY'')) ?qs in
      ps_stop_type p' = first_stop (1/20) (3/100) 100 100 prices \<and>
      (ps_stopped p' \<longleftrightarrow> (\<exists>xs x ys. prices = xs @ Some x # ys \<and>
        (x \<le> 100 * (1 - 1/20) \<or> x \<le> foldl max 100 (usable xs @ [x]) * (1 - 3/100)))))"
    by (rule stop_triggers_iff [OF r, where p = ?p]) (simp_all add: num_quote_def q)
  with r show ?thesis unfolding Let_def ev by (auto simp: q)
qed

text \<open>a disabled configuration, which is the default and what a missing payload yields,
  emits nothing and moves no position, whatever is quoted.\<close>

theorem disabled_stops_are_inert:
  "from_payload None = Inr default_stop_config \<and> \<not> stop_enabled default_stop_config \<and>
   (\<not> stop_enabled (ev_config ev) \<longrightarrow> evaluate_tick ev quotes ts = Inr (ev, []))"
  by (simp add: from_payload_def default_stop_config_def evaluate_tick_def)

theorem disabled_stops_are_inert_witness:
  "evaluate_tick (new_evaluator default_stop_config) [(''SPY'', JInt 1)] 0
   = Inr (new_evaluator default_stop_config, [])"
  using disabled_stops_are_inert [of "new_evaluator default_stop_config" "[(''SPY'', JInt 1)]" 0]
  by (simp add: new_evaluator_def)

text \<open>a position whose recorded entry price is NaN passes the positivity check of
  \<open>load_positions\<close>, is counted as tracked, and no quote whatsoever stops it.\<close>

theorem NaN_entry_is_never_stopped:
  "ev_positions (fst (load_positions (new_evaluator cfg) [(k, [(''entry_price'', JFloat NaN)])]))
     = [(py_upper k, \<lparr>ps_symbol = py_upper k, ps_entry_price = NaN, ps_session_hwm = NaN,
          ps_stopped = False, ps_stop_type = None\<rparr>)] \<and>
   evaluate_position cfg ts k price \<lparr>ps_symbol = k, ps_entry_price = NaN, ps_session_hwm = NaN,
       ps_stopped = False, ps_stop_type = None\<rparr>
     = Inr (\<lparr>ps_symbol = k, ps_entry_price = NaN, ps_session_hwm = NaN,
       ps_stopped = False, ps_stop_type = None\<rparr>, None)"
  by (simp add: new_evaluator_def py_or_def dget_def Let_def dhas_def evaluate_position_def fsub_def)

end
