(* ===== verification/SessionRunner.thy ===== *)
theory SessionRunner
  imports SessionScheduler LiveSafety SoftwareStop
begin

text \<open>
  \<open>intraday_session_runner.py\<close>: the driver that puts the arming gates, the economic authorization of
  section 9.4, the live executor, the software stops and the shadow scheduler together. The
  state files, the environment, the kill switch and the broker port are arguments, and each cycle
  of a live session reads an \<open>obs\<close> as in \<open>SessionScheduler\<close>. A port is given with the answer to
  \<open>isinstance(port, PaperBrokerPort)\<close>. The command line, the default paths and the manifest's texts
  are left out.
\<close>

section \<open>The economic authorization\<close>

definition PAPER_PREREG_ID :: string where "PAPER_PREREG_ID = ''rq105-paper-canary-prereg-v1''"

text \<open>Authorized, and on a paper account; every error reads as not authorized.\<close>

definition check_section_9_4_authorization :: "json_file \<Rightarrow> bool \<times> bool" where
  "check_section_9_4_authorization f =
     (case f of
        FileJson (JObj p) \<Rightarrow>
          if dget p ''authorized'' JNull \<noteq> JBool True then (False, False)
          else if \<not> truthy (dget p ''prereg_id'' JNull) then (False, False)
          else (True, dget p ''prereg_id'' JNull = JStr PAPER_PREREG_ID)
      | _ \<Rightarrow> (False, False))"

section \<open>Holdings and quotes\<close>

text \<open>\<open>k in m\<close> and \<open>m[k]\<close>.\<close>

definition py_contains :: "json \<Rightarrow> json \<Rightarrow> py_error + bool" where
  "py_contains m k =
     (case m of
        JObj kvs \<Rightarrow> (case k of JStr s \<Rightarrow> Inr (dhas kvs s) | JList xs \<Rightarrow> Inl TypeError | JObj ys \<Rightarrow> Inl TypeError | _ \<Rightarrow> Inr False)
      | JList xs \<Rightarrow> Inr (k \<in> set xs)
      | JStr s \<Rightarrow> (case k of JStr t \<Rightarrow> Inr (\<exists>n < Suc (length s). take (length t) (drop n s) = t) | _ \<Rightarrow> Inl TypeError)
      | _ \<Rightarrow> Inl TypeError)"

definition list_item :: "json list \<Rightarrow> int \<Rightarrow> py_error + json" where
  "list_item xs i =
     (let j = (if i < 0 then i + int (length xs) else i) in
      if 0 \<le> j \<and> j < int (length xs) then Inr (xs ! nat j) else Inl IndexError)"

definition py_index :: "json \<Rightarrow> json \<Rightarrow> py_error + json" where
  "py_index m k =
     (case (m, k) of
        (JObj kvs, JStr s) \<Rightarrow> (case map_of kvs s of None \<Rightarrow> Inl KeyError | Some v \<Rightarrow> Inr v)
      | (JList xs, JInt i) \<Rightarrow> list_item xs i
      | (JList xs, JBool b) \<Rightarrow> list_item xs (if b then 1 else 0)
      | _ \<Rightarrow> Inl TypeError)"

type_synonym holdings = "json dict dict"

definition add_holding :: "holdings \<Rightarrow> string \<Rightarrow> json \<Rightarrow> py_error + holdings" where
  "add_holding hs symb price =
     map_sum id (\<lambda>x. dset hs (py_upper symb) [(''entry_price'', JFloat x)]) (py_float price)"

fun position_holdings :: "json dict \<Rightarrow> holdings \<Rightarrow> py_error + holdings" where
  "position_holdings [] hs = Inr hs"
| "position_holdings ((symb, info) # kvs) hs =
     (case info of
        JObj d \<Rightarrow>
          (let entry = py_or (dget d ''entry_price'' JNull) (dget d ''avg_entry_price'' JNull) in
           if entry = JNull then position_holdings kvs hs
           else case add_holding hs symb entry of Inl x \<Rightarrow> Inl x | Inr hs' \<Rightarrow> position_holdings kvs hs')
      | _ \<Rightarrow> position_holdings kvs hs)"

fun hwm_holdings :: "json \<Rightarrow> json list \<Rightarrow> holdings \<Rightarrow> py_error + holdings" where
  "hwm_holdings hwm [] hs = Inr hs"
| "hwm_holdings hwm (t # ts) hs =
     (case py_contains hwm t of Inl x \<Rightarrow> Inl x | Inr there \<Rightarrow>
      if \<not> there then hwm_holdings hwm ts hs
      else case py_index hwm t of Inl x \<Rightarrow> Inl x | Inr v \<Rightarrow>
        if \<not> truthy v then hwm_holdings hwm ts hs
        else case add_holding hs (py_str t) v of Inl x \<Rightarrow> Inl x | Inr hs' \<Rightarrow> hwm_holdings hwm ts hs')"

definition extract_holdings :: "json dict \<Rightarrow> py_error + holdings" where
  "extract_holdings start =
     (let positions = py_or (py_or (dget start ''positions'' JNull) (dget start ''holdings'' JNull)) (JObj []) in
      case (case positions of JObj kvs \<Rightarrow> position_holdings kvs [] | _ \<Rightarrow> Inr []) of Inl x \<Rightarrow> Inl x | Inr hs \<Rightarrow>
      if hs \<noteq> [] then Inr hs
      else case iter_json (py_or (dget start ''entry_dates'' JNull) (JObj [])) of Inl x \<Rightarrow> Inl x | Inr ts \<Rightarrow>
        hwm_holdings (py_or (dget start ''position_hwm'' JNull) (JObj [])) ts [])"

definition add_quote :: "pyfloat dict \<Rightarrow> string \<times> json \<Rightarrow> pyfloat dict" where
  "add_quote qs kv =
     (case py_float (snd kv) of
        Inl x \<Rightarrow> qs
      | Inr price \<Rightarrow> if flt (Num 0) price then dset qs (py_upper (fst kv)) price else qs)"

definition add_quotes :: "json dict \<Rightarrow> pyfloat dict \<Rightarrow> string \<Rightarrow> pyfloat dict" where
  "add_quotes live qs key = (case dget live key JNull of JObj kvs \<Rightarrow> foldl add_quote qs kvs | _ \<Rightarrow> qs)"

definition extract_quotes :: "json dict \<Rightarrow> pyfloat dict" where
  "extract_quotes live = foldl (add_quotes live) [] [''prices'', ''marks'', ''quotes'']"

section \<open>Stop signals as intents\<close>

fun stop_type_name :: "stop_type \<Rightarrow> string" where
  "stop_type_name HardStop = ''hard_stop''"
| "stop_type_name TrailingStop = ''trailing_stop''"

definition stop_detail :: "env \<Rightarrow> stop_signal \<Rightarrow> json dict" where
  "stop_detail e sg =
     [(''symbol'', JStr (sg_symbol sg)), (''stop_type'', JStr (stop_type_name (sg_type sg))),
      (''entry_price'', JFloat (sg_entry_price sg)), (''current_price'', JFloat (sg_current_price sg)),
      (''session_hwm'', JFloat (sg_session_hwm sg)), (''loss_pct'', JFloat (sg_loss_pct sg)),
      (''threshold_pct'', JFloat (sg_threshold_pct sg)), (''timestamp'', JStr (iso_et e (sg_timestamp sg)))]"

definition to_intent :: "env \<Rightarrow> stop_signal \<Rightarrow> json dict" where
  "to_intent e sg =
     [(''symbol'', JStr (sg_symbol sg)), (''side'', JStr ''SELL''), (''kind'', JStr ''exit''),
      (''reason'', JStr (stop_type_name (sg_type sg))), (''price'', JFloat (sg_current_price sg)),
      (''stop_detail'', JObj (stop_detail e sg))]"

section \<open>One cycle of a live session\<close>

datatype runner_error = ArmRaised py_error | WriterRaised py_error | ShadowRaised session_error | PaperRequired
  | PortRaised py_error | ExecutorRaised canary_error | LiveRaised live_error | TickRaised session_error
  | SignalRaised class_a_error | PyRaised py_error | AssertionFailed

record 'b runner =
  rn_live :: "'b live"
  rn_stops :: evaluator
  rn_stop_log :: "stop_signal list"
  rn_writer :: tick_writer
  rn_start :: "json dict option"
  rn_index :: nat
  rn_cycles :: nat
  rn_calls :: "session_call list"

type_synonym ('b, 'a) runner_step = "('b runner, runner_error, 'a) step"

text \<open>The rendering of the executor's report is an argument of a live session.\<close>

record live_session =
  sv_date :: string
  sv_windows :: windows
  sv_signal :: "json dict"
  sv_max_cycles :: "nat option"
  sv_report :: "tick_report \<Rightarrow> json"

text \<open>A call of the executor; \<open>rn_calls\<close> records it.\<close>

definition on_live :: "session_call \<Rightarrow> ('b, 'a) live_step \<Rightarrow> ('b, 'a) runner_step" where
  "on_live call m r =
     (case m (rn_live r) of (s, x) \<Rightarrow> (r\<lparr>rn_live := s, rn_calls := rn_calls r @ [call]\<rparr>, map_sum LiveRaised id x))"

definition raise_py :: "py_error + 'a \<Rightarrow> ('b, 'a) runner_step" where
  "raise_py x = lift (map_sum PyRaised id x)"

definition raise_tick :: "session_error + 'a \<Rightarrow> ('b, 'a) runner_step" where
  "raise_tick x = lift (map_sum TickRaised id x)"

text \<open>The session-start inputs are read at the first tick; the stops track their holdings.\<close>

definition track_positions :: "holdings \<Rightarrow> ('b, unit) runner_step" where
  "track_positions hs r =
     (case load_positions (rn_stops r) hs of
        (ev, None) \<Rightarrow> (r\<lparr>rn_stops := ev\<rparr>, Inr ())
      | (ev, Some x) \<Rightarrow> (r\<lparr>rn_stops := ev\<rparr>, Inl (PyRaised x)))"

definition need_start :: "obs \<Rightarrow> ('b, json dict) runner_step" where
  "need_start ob r =
     (case rn_start r of
        Some start \<Rightarrow> (r, Inr start)
      | None \<Rightarrow>
          seq (raise_tick (ob_gates ob)) (\<lambda>start.
          seq (modify (\<lambda>r. r\<lparr>rn_start := Some start\<rparr>)) (\<lambda>u.
          seq (raise_py (extract_holdings start)) (\<lambda>hs.
          seq (track_positions hs) (\<lambda>u. give start)))) r)"

definition decide_live :: "live_session \<Rightarrow> obs \<Rightarrow> phase \<Rightarrow> json dict \<Rightarrow> json dict \<Rightarrow> session_error + json dict" where
  "decide_live sv ob ph start live =
     (case ob_runner ob \<lparr>rq_signal = sv_signal sv, rq_session_start = start, rq_live_state = live, rq_counters = [],
          rq_in_flight = [], rq_exit_orders = []\<rparr> of Inl x \<Rightarrow> Inl x | Inr raw \<Rightarrow>
      case normalize_tick_result raw of Inl x \<Rightarrow> Inl x | Inr d \<Rightarrow>
      map_sum PyError id (apply_entry_window_policy d ph []))"

definition stop_tick :: "pyfloat dict \<Rightarrow> int \<Rightarrow> ('b, stop_signal list) runner_step" where
  "stop_tick quotes now r =
     (case evaluate_tick (rn_stops r) (map (\<lambda>(k, x). (k, JFloat x)) quotes) now of
        Inl x \<Rightarrow> (r, Inl (PyRaised x))
      | Inr (ev, sgs) \<Rightarrow> (r\<lparr>rn_stops := ev\<rparr>, Inr sgs))"

text \<open>Each signal is logged and its intent is put behind the tick's intents.\<close>

fun fold_stops :: "env \<Rightarrow> stop_signal list \<Rightarrow> json dict \<Rightarrow> ('b, json dict) runner_step" where
  "fold_stops e [] d = give d"
| "fold_stops e (sg # sgs) d =
     seq (modify (\<lambda>r. r\<lparr>rn_stop_log := rn_stop_log r @ [sg]\<rparr>)) (\<lambda>u.
     seq (raise_py (iter_json (py_or (dget d ''intents'' JNull) (JList [])))) (\<lambda>is.
     fold_stops e sgs (dset d ''intents'' (JList (is @ [JObj (to_intent e sg)])))))"

definition LIVE_TICK_KIND :: string where "LIVE_TICK_KIND = ''live_tick''"

definition live_record ::
    "env \<Rightarrow> live_session \<Rightarrow> int \<Rightarrow> phase \<Rightarrow> nat \<Rightarrow> json dict \<Rightarrow> tick_report \<Rightarrow> stop_signal list \<Rightarrow> json dict" where
  "live_record e sv now ph idx d report sgs =
     [(''schema_version'', JStr ''rq105-session-runner-v1''), (''kind'', JStr LIVE_TICK_KIND),
      (''session_date'', JStr (sv_date sv)), (''tick_index'', JInt (int idx)), (''tick_at'', JStr (iso_et e now)),
      (''mode'', JStr MODE_LIVE), (''window_phase'', JStr (phase_name ph)), (''decisions'', JObj d),
      (''execution'', sv_report sv report), (''stop_signals'', JList (map (JObj \<circ> to_intent e) sgs))]"

definition write_tick :: "json dict \<Rightarrow> ('b, unit) runner_step" where
  "write_tick record r =
     (case append_live_tick record (rn_writer r) of
        Inl x \<Rightarrow> (r, Inl (PyRaised x))
      | Inr (w, b) \<Rightarrow> (r\<lparr>rn_writer := w, rn_index := rn_index r + 1\<rparr>, Inr ()))"

text \<open>The observer's exceptions are swallowed.\<close>

definition live_tick :: "env \<Rightarrow> 'b book_ops \<Rightarrow> port \<Rightarrow> live_session \<Rightarrow> obs \<Rightarrow> phase \<Rightarrow> ('b, unit) runner_step" where
  "live_tick e ops pt sv ob ph =
     seq (need_start ob) (\<lambda>start.
     seq (raise_tick (ob_live ob)) (\<lambda>live.
     seq (raise_tick (decide_live sv ob ph start live)) (\<lambda>d0.
     seq (stop_tick (extract_quotes live) (ob_now ob)) (\<lambda>sgs.
     seq (fold_stops e sgs d0) (\<lambda>d.
     seq (on_live (Tick (ob_now ob) d) (process_tick ops pt (ob_now ob) d)) (\<lambda>report.
     \<lambda>r. write_tick (live_record e sv (ob_now ob) ph (rn_index r) d report sgs) r))))))"

datatype loop_end = Ended string | Broke runner_error | Waiting

definition live_cycle ::
    "env \<Rightarrow> 'b book_ops \<Rightarrow> port \<Rightarrow> live_session \<Rightarrow> obs \<Rightarrow> 'b runner \<Rightarrow> 'b runner \<times> loop_end option" where
  "live_cycle e ops pt sv ob r =
     (if ob_kill ob then (r, Some (Ended ''halted_kill_switch''))
      else
        (let ph = phase_at (sv_windows sv) (ob_now ob);
             count = (\<lambda>r. let r1 = r\<lparr>rn_cycles := rn_cycles r + 1\<rparr> in
               (r1, case sv_max_cycles sv of
                      Some n \<Rightarrow> if n \<le> rn_cycles r1 then Some (Ended ''stopped_max_cycles'') else None
                    | None \<Rightarrow> None)) in
         if ph = PHASE_CLOSED then (r, Some (Ended ''completed''))
         else if ph = PHASE_ENTRIES_OPEN \<or> ph = PHASE_EXITS_ONLY then
           (case live_tick e ops pt sv ob ph r of
              (r1, Inl x) \<Rightarrow> (r1, Some (Broke x))
            | (r1, Inr u) \<Rightarrow> count r1)
         else count r))"

fun live_loop ::
    "env \<Rightarrow> 'b book_ops \<Rightarrow> port \<Rightarrow> live_session \<Rightarrow> obs list \<Rightarrow> 'b runner \<Rightarrow> 'b runner \<times> loop_end" where
  "live_loop e ops pt sv [] r = (r, Waiting)"
| "live_loop e ops pt sv (ob # obs) r =
     (case live_cycle e ops pt sv ob r of
        (r1, Some x) \<Rightarrow> (r1, x)
      | (r1, None) \<Rightarrow> live_loop e ops pt sv obs r1)"

section \<open>The live session\<close>

text \<open>What a run of the runner is given: the strategy configuration, the files, what the process and
  the calendar answer, and the port the factory builds (\<open>None\<close>: no factory).\<close>

record run_setup =
  ru_strategy :: "json dict"
  ru_section_9_4 :: json_file
  ru_authorization :: json_file
  ru_canary_state :: json_file
  ru_book_file :: json_file
  ru_shadow_log :: "json option list"
  ru_live_log :: "json option list"
  ru_stops :: stop_config
  ru_date :: string
  ru_kill :: bool
  ru_start :: session_start
  ru_port :: "(py_error + bool \<times> port) option"
  ru_hash :: "json dict \<Rightarrow> string"
  ru_report :: "tick_report \<Rightarrow> json"

datatype run_end = SessionResult string bool string | RunnerRaised runner_error | RunnerPending

text \<open>The outcome, with the parts the run left behind: the live session, if an executor was built,
  and the scheduler's state, if the run went to the shadow.\<close>

record 'b run_out =
  ro_end :: run_end
  ro_runner :: "'b runner option"
  ro_shadow :: "loop_state option"

definition run_shadow :: "env \<Rightarrow> run_setup \<Rightarrow> session_config \<Rightarrow> obs list \<Rightarrow> 'b run_out" where
  "run_shadow e ru cfg obs =
     (case new_writer RECORD_KIND_TICK (ru_shadow_log ru) of
        Inl x \<Rightarrow> \<lparr>ro_end = RunnerRaised (WriterRaised x), ro_runner = None, ro_shadow = None\<rparr>
      | Inr w \<Rightarrow>
          (case run_session e cfg (ru_start ru) w obs of
             (st, fin) \<Rightarrow>
               \<lparr>ro_end = (case fin of
                    Returned s \<Rightarrow> SessionResult MODE_SHADOW False (mf_status (ls_manifest st))
                  | Raised x \<Rightarrow> RunnerRaised (ShadowRaised x)
                  | Pending \<Rightarrow> RunnerPending),
                ro_runner = None, ro_shadow = Some st\<rparr>))"

definition start_runner :: "run_setup \<Rightarrow> 'b live \<Rightarrow> tick_writer \<Rightarrow> 'b runner" where
  "start_runner ru s w =
     \<lparr>rn_live = s, rn_stops = new_evaluator (ru_stops ru), rn_stop_log = [], rn_writer = w, rn_start = None,
      rn_index = 0, rn_cycles = 0, rn_calls = []\<rparr>"

definition live_out :: "'b runner \<Rightarrow> run_end \<Rightarrow> 'b run_out" where
  "live_out r fin = \<lparr>ro_end = fin, ro_runner = Some r, ro_shadow = None\<rparr>"

text \<open>After the loop the session is closed; an exception in the loop leaves without closing.\<close>

definition close_run :: "'b book_ops \<Rightarrow> port \<Rightarrow> 'b runner \<times> loop_end \<Rightarrow> 'b run_out" where
  "close_run ops pt x =
     (case x of
        (r, Waiting) \<Rightarrow> live_out r RunnerPending
      | (r, Broke err) \<Rightarrow> live_out r (RunnerRaised err)
      | (r, Ended status) \<Rightarrow>
          (case on_live Close (close_session ops pt) r of
             (r1, Inl err) \<Rightarrow> live_out r1 (RunnerRaised err)
           | (r1, Inr u) \<Rightarrow> live_out r1 (SessionResult MODE_LIVE True status)))"

definition drive_live ::
    "env \<Rightarrow> 'b book_ops \<Rightarrow> port \<Rightarrow> run_setup \<Rightarrow> session_config \<Rightarrow> 'b runner \<Rightarrow> obs list \<Rightarrow> 'b run_out" where
  "drive_live e ops pt ru cfg r0 obs =
     (case on_live Begin (begin_session ops) r0 of
        (r, Inl err) \<Rightarrow> live_out r (RunnerRaised err)
      | (r, Inr began) \<Rightarrow>
          (case ss_bounds (ru_start ru) of
             None \<Rightarrow> live_out r (SessionResult MODE_LIVE True ''non_session_day'')
           | Some bounds \<Rightarrow>
               (case windows_from_bounds bounds cfg of
                  Inl x \<Rightarrow> live_out r (RunnerRaised (PyRaised x))
                | Inr wins \<Rightarrow>
                    (case ss_signal (ru_start ru) of
                       Inl x \<Rightarrow> live_out r (RunnerRaised (SignalRaised x))
                     | Inr signal \<Rightarrow>
                         close_run ops pt (live_loop e ops pt
                           \<lparr>sv_date = ru_date ru, sv_windows = wins, sv_signal = signal,
                            sv_max_cycles = ss_max_cycles (ru_start ru), sv_report = ru_report ru\<rparr> obs r)))))"

definition run_live ::
    "env \<Rightarrow> 'b book_ops \<Rightarrow> run_setup \<Rightarrow> session_config \<Rightarrow> authorization \<Rightarrow> bool \<Rightarrow> obs list \<Rightarrow> 'b run_out" where
  "run_live e ops ru cfg a paper obs =
     (case ru_port ru of
        None \<Rightarrow> run_shadow e ru cfg obs
      | Some (Inl x) \<Rightarrow> \<lparr>ro_end = RunnerRaised (PortRaised x), ro_runner = None, ro_shadow = None\<rparr>
      | Some (Inr (is_paper_port, pt)) \<Rightarrow>
          if paper \<and> \<not> is_paper_port
          then \<lparr>ro_end = RunnerRaised PaperRequired, ro_runner = None, ro_shadow = None\<rparr>
          else (case new_live ''primary'' (ru_date ru) a (ru_canary_state ru) (ru_book_file ru) of
             Inl x \<Rightarrow> \<lparr>ro_end = RunnerRaised (ExecutorRaised x), ro_runner = None, ro_shadow = None\<rparr>
           | Inr s \<Rightarrow>
               (case new_live_writer (ru_live_log ru) of
                  Inl x \<Rightarrow> \<lparr>ro_end = RunnerRaised (WriterRaised x), ro_runner = None, ro_shadow = None\<rparr>
                | Inr w \<Rightarrow> drive_live e ops pt ru cfg (start_runner ru s w) obs)))"

text \<open>\<open>SessionRunner.run_session\<close>: section 9.4, then the paper flag, then the arming gates.\<close>

definition run_runner :: "env \<Rightarrow> 'b book_ops \<Rightarrow> run_setup \<Rightarrow> obs list \<Rightarrow> 'b run_out" where
  "run_runner e ops ru obs =
     (let cfg = load_intraday_config (ru_strategy ru);
          (authorized, paper) = check_section_9_4_authorization (ru_section_9_4 ru) in
      case resolve_stage2_arming (ru_hash ru) cfg (ru_authorization ru) (ru_canary_state ru) (ru_kill ru)
             (ss_environ (ru_start ru)) (ru_date ru) paper of
        Inl x \<Rightarrow> \<lparr>ro_end = RunnerRaised (ArmRaised x), ro_runner = None, ro_shadow = None\<rparr>
      | Inr d \<Rightarrow>
          if \<not> arm_armed d then run_shadow e ru cfg obs
          else if \<not> authorized then run_shadow e ru cfg obs
          else (case arm_authorization d of
              None \<Rightarrow> \<lparr>ro_end = RunnerRaised AssertionFailed, ro_runner = None, ro_shadow = None\<rparr>
            | Some a \<Rightarrow> run_live e ops ru cfg a paper obs))"

section \<open>The executor under the runner\<close>

definition is_tick_call :: "session_call \<Rightarrow> bool" where
  "is_tick_call c = (case c of Tick now d \<Rightarrow> True | _ \<Rightarrow> False)"

text \<open>Between two states the runner only called ticks of the executor, and recorded them.\<close>

definition drives :: "'b book_ops \<Rightarrow> port \<Rightarrow> 'b runner \<Rightarrow> 'b runner \<Rightarrow> bool" where
  "drives ops pt r r' \<longleftrightarrow> (\<exists>cs. rn_calls r' = rn_calls r @ cs \<and> list_all is_tick_call cs \<and>
     rn_live r' = run_calls ops pt cs (rn_live r))"

lemma run_calls_append: "run_calls ops pt (xs @ ys) s = run_calls ops pt ys (run_calls ops pt xs s)"
  by (simp add: run_calls_def)

interpretation drives: step_order "drives ops pt :: 'b runner \<Rightarrow> 'b runner \<Rightarrow> bool" for ops :: "'b book_ops" and pt
proof
  show "drives ops pt s s" for s :: "'b runner"
    unfolding drives_def by (rule exI [of _ "[]"]) (simp add: run_calls_def)
  show "drives ops pt s t \<Longrightarrow> drives ops pt t u \<Longrightarrow> drives ops pt s u" for s t u :: "'b runner"
    by (auto simp: drives_def) (metis append_assoc list_all_append run_calls_append)
qed

lemma drives_quiet: "rn_calls r' = rn_calls r \<Longrightarrow> rn_live r' = rn_live r \<Longrightarrow> drives ops pt r r'"
  unfolding drives_def by (rule exI [of _ "[]"]) (simp add: run_calls_def)

lemma drives_tick: "moves (drives ops pt) (on_live (Tick now d) (process_tick ops pt now d))"
  by (auto simp: moves_def on_live_def drives_def run_calls_def session_step_def is_tick_call_def split: prod.split)

lemma drives_parts [intro]:
  "moves (drives ops pt) (raise_py x)" "moves (drives ops pt) (raise_tick y)"
  "moves (drives ops pt) (track_positions hs)" "moves (drives ops pt) (stop_tick qs now)"
  "moves (drives ops pt) (write_tick record)"
  by (auto simp: raise_py_def raise_tick_def lift_def moves_def track_positions_def stop_tick_def write_tick_def
      intro: drives_quiet split: prod.split option.split sum.split)

lemma drives_start [intro]: "moves (drives ops pt) (need_start ob)"
proof -
  have "moves (drives ops pt) (seq (raise_tick (ob_gates ob)) (\<lambda>start.
          seq (modify (\<lambda>r. r\<lparr>rn_start := Some start\<rparr>)) (\<lambda>u.
          seq (raise_py (extract_holdings start)) (\<lambda>hs.
          seq (track_positions hs) (\<lambda>u. give start)))))"
    by (intro drives.moves_seq drives_parts drives.moves_give drives.moves_modify drives_quiet) simp_all
  then show ?thesis by (auto simp: moves_def need_start_def drives.refl split: option.split)
qed

lemma drives_stops [intro]: "moves (drives ops pt) (fold_stops e sgs d)"
  by (induction sgs arbitrary: d)
    (auto intro!: drives.moves_seq drives_parts drives.moves_give drives.moves_modify drives_quiet)

lemma drives_live_tick: "moves (drives ops pt) (live_tick e ops pt sv ob ph)"
  unfolding live_tick_def
  by (intro drives.moves_seq drives_start drives_parts drives_stops drives_tick)
    (auto simp: moves_def intro: drives_parts(5) [unfolded moves_def, rule_format])

lemma drives_cycle: "drives ops pt r (fst (live_cycle e ops pt sv ob r))"
proof -
  let ?ph = "phase_at (sv_windows sv) (ob_now ob)"
  obtain r1 x where t: "live_tick e ops pt sv ob ?ph r = (r1, x)" by fastforce
  have "drives ops pt r (fst (live_tick e ops pt sv ob ?ph r))" by (rule drives.moves_at [OF drives_live_tick])
  with t have r1: "drives ops pt r r1" by simp
  have "drives ops pt q (q\<lparr>rn_cycles := n\<rparr>)" for q n by (rule drives_quiet) simp_all
  moreover have "drives ops pt r r" by (rule drives.refl)
  ultimately show ?thesis using t r1 drives.trans [OF r1]
    by (cases x) (simp_all add: live_cycle_def Let_def)
qed

lemma drives_loop: "drives ops pt r (fst (live_loop e ops pt sv obs r))"
proof (induction obs arbitrary: r)
  case (Cons ob obs)
  obtain r1 x where c: "live_cycle e ops pt sv ob r = (r1, x)" by fastforce
  have "drives ops pt r (fst (live_cycle e ops pt sv ob r))" by (rule drives_cycle)
  with c have "drives ops pt r r1" by simp
  with Cons.IH [of r1] c show ?case by (auto split: option.split intro: drives.trans)
qed (simp add: drives.refl)

text \<open>The calls of a live run: the session is begun, ticks follow, and a run that ends closes it.\<close>

definition proper_calls :: "run_end \<Rightarrow> session_call list \<Rightarrow> bool" where
  "proper_calls fin cs \<longleftrightarrow> (\<exists>ticks. list_all is_tick_call ticks \<and> cs \<in> {Begin # ticks, Begin # ticks @ [Close]} \<and>
     (\<forall>mode armed status. fin = SessionResult mode armed status \<longrightarrow> mode = MODE_LIVE \<and> armed \<and>
        (cs = Begin # ticks @ [Close] \<or> status = ''non_session_day'' \<and> ticks = [])))"

lemma on_live_step: "on_live call m r = (r', x) \<Longrightarrow> fst (m (rn_live r)) = session_step ops pt (rn_live r) call \<Longrightarrow>
    rn_calls r' = rn_calls r @ [call] \<and> rn_live r' = session_step ops pt (rn_live r) call"
  by (auto simp: on_live_def split: prod.splits)

definition ran_as :: "'b book_ops \<Rightarrow> port \<Rightarrow> 'b live \<Rightarrow> 'b run_out \<Rightarrow> bool" where
  "ran_as ops pt s0 out \<longleftrightarrow> (\<exists>r. ro_runner out = Some r \<and> proper_calls (ro_end out) (rn_calls r) \<and>
     rn_live r = run_calls ops pt (rn_calls r) s0)"

lemma close_run_ran:
  assumes "rn_calls r = Begin # ticks" "list_all is_tick_call ticks" "rn_live r = run_calls ops pt (rn_calls r) s0"
  shows "ran_as ops pt s0 (close_run ops pt (r, fin))"
proof (cases fin)
  case (Ended status)
  obtain r1 x where c: "on_live Close (close_session ops pt) r = (r1, x)" by fastforce
  from on_live_step [OF c, of ops pt] have "rn_calls r1 = rn_calls r @ [Close]"
    "rn_live r1 = session_step ops pt (rn_live r) Close" by (simp_all add: session_step_def)
  with assms have r1: "rn_calls r1 = Begin # ticks @ [Close]" "rn_live r1 = run_calls ops pt (rn_calls r1) s0"
    by (simp_all add: run_calls_def)
  show ?thesis
  proof (cases x)
    case (Inl y)
    with c r1 Ended assms show ?thesis unfolding ran_as_def proper_calls_def
      by (auto simp: close_run_def live_out_def intro!: exI [of _ ticks])
  next
    case (Inr y)
    with c r1 Ended assms show ?thesis unfolding ran_as_def proper_calls_def
      by (auto simp: close_run_def live_out_def intro!: exI [of _ ticks])
  qed
qed (use assms in \<open>auto simp: close_run_def live_out_def ran_as_def proper_calls_def intro!: exI [of _ ticks]\<close>)

lemma drive_live_ran: "ran_as ops pt (rn_live r0) (drive_live e ops pt ru cfg r0 obs)" if "rn_calls r0 = []"
proof -
  obtain r x where b: "on_live Begin (begin_session ops) r0 = (r, x)" by fastforce
  from on_live_step [OF b, of ops pt] that
  have r: "rn_calls r = [Begin]" "rn_live r = run_calls ops pt (rn_calls r) (rn_live r0)"
    by (simp_all add: session_step_def run_calls_def)
  have plain: "ran_as ops pt (rn_live r0) (live_out r fin)"
    if "\<forall>mode armed status. fin = SessionResult mode armed status \<longrightarrow> mode = MODE_LIVE \<and> armed \<and> status = ''non_session_day''" for fin
    using r that unfolding ran_as_def proper_calls_def live_out_def by auto
  have loop: "ran_as ops pt (rn_live r0) (close_run ops pt (live_loop e ops pt sv obs r))" for sv
  proof -
    obtain r1 fin where l: "live_loop e ops pt sv obs r = (r1, fin)" by fastforce
    have "drives ops pt r (fst (live_loop e ops pt sv obs r))" by (rule drives_loop)
    then obtain ticks where t: "rn_calls r1 = rn_calls r @ ticks" "list_all is_tick_call ticks"
      "rn_live r1 = run_calls ops pt ticks (rn_live r)" unfolding l by (auto simp: drives_def)
    have "ran_as ops pt (rn_live r0) (close_run ops pt (r1, fin))"
      by (rule close_run_ran [of _ ticks]) (use t r in \<open>simp_all add: run_calls_def\<close>)
    with l show ?thesis by simp
  qed
  show ?thesis
  proof (cases x)
    case (Inl y)
    with b plain [of "RunnerRaised y"] show ?thesis by (simp add: drive_live_def)
  next
    case (Inr y)
    with b plain loop show ?thesis
      by (simp add: drive_live_def split: option.split sum.split)
  qed
qed

lemma run_shadow_no_runner [simp]: "ro_runner (run_shadow e ru cfg obs) = None"
  by (simp add: run_shadow_def split: sum.split prod.split)

lemma section_9_4_facts:
  "check_section_9_4_authorization f = (True, paper) \<Longrightarrow>
   \<exists>p. f = FileJson (JObj p) \<and> dget p ''authorized'' JNull = JBool True \<and> truthy (dget p ''prereg_id'' JNull) \<and>
     (paper \<longleftrightarrow> dget p ''prereg_id'' JNull = JStr PAPER_PREREG_ID)"
  by (auto simp: check_section_9_4_authorization_def split: json_file.splits json.splits if_splits)

lemma armed_authorization:
  assumes "resolve_stage2_arming h cfg auth_file state kill env today paper = Inr d"
  shows "arm_authorization d = granted (load_authorization h auth_file today paper)"
  using assms by (rule resolve_Inr) (auto simp: arm_verdict_def Let_def split_beta)

text \<open>The gates of a live run.\<close>

definition gates_open :: "run_setup \<Rightarrow> bool \<Rightarrow> authorization \<Rightarrow> port \<Rightarrow> bool" where
  "gates_open ru paper a pt \<longleftrightarrow>
     (\<exists>p is_paper_port. ru_section_9_4 ru = FileJson (JObj p) \<and> dget p ''authorized'' JNull = JBool True \<and>
        truthy (dget p ''prereg_id'' JNull) \<and> (paper \<longleftrightarrow> dget p ''prereg_id'' JNull = JStr PAPER_PREREG_ID) \<and>
        load_authorization (ru_hash ru) (ru_authorization ru) (ru_date ru) paper = Inr a \<and>
        may_arm (load_intraday_config (ru_strategy ru)) (Inr a) (ru_canary_state ru) (ru_kill ru) (ss_environ (ru_start ru)) \<and>
        ru_port ru = Some (Inr (is_paper_port, pt)) \<and> (paper \<longrightarrow> is_paper_port))"

lemma run_live_gates:
  assumes "ro_runner (run_live e ops ru cfg a paper obs) = Some r"
  obtains is_paper_port pt s0 where "ru_port ru = Some (Inr (is_paper_port, pt))" "paper \<longrightarrow> is_paper_port"
    "new_live ''primary'' (ru_date ru) a (ru_canary_state ru) (ru_book_file ru) = Inr s0"
    "ran_as ops pt s0 (run_live e ops ru cfg a paper obs)"
proof -
  from assms obtain b pt where p: "ru_port ru = Some (Inr (b, pt))" "\<not> (paper \<and> \<not> b)"
    by (auto simp: run_live_def split: option.splits sum.splits prod.splits if_splits)
  with assms obtain s0 where s0: "new_live ''primary'' (ru_date ru) a (ru_canary_state ru) (ru_book_file ru) = Inr (s0 :: 'a live)"
    by (cases "new_live ''primary'' (ru_date ru) a (ru_canary_state ru) (ru_book_file ru) :: canary_error + 'a live")
      (auto simp: run_live_def)
  with assms p obtain w where w: "new_live_writer (ru_live_log ru) = Inr w"
    by (cases "new_live_writer (ru_live_log ru)") (auto simp: run_live_def)
  have "ran_as ops pt s0 (drive_live e ops pt ru cfg (start_runner ru s0 w) obs)"
    using drive_live_ran [of "start_runner ru s0 w" ops pt e ru cfg obs] by (simp add: start_runner_def)
  moreover have "run_live e ops ru cfg a paper obs = drive_live e ops pt ru cfg (start_runner ru s0 w) obs"
    using p s0 w by (cases paper; cases b) (simp_all add: run_live_def)
  ultimately show ?thesis using p s0 by (intro that [of b pt s0]) simp_all
qed

lemma run_runner_live:
  assumes "ro_runner (run_runner e ops ru obs) = Some r"
  obtains paper a pt s0 where "gates_open ru paper a pt"
    "new_live ''primary'' (ru_date ru) a (ru_canary_state ru) (ru_book_file ru) = Inr s0"
    "ran_as ops pt s0 (run_runner e ops ru obs)"
proof -
  let ?cfg = "load_intraday_config (ru_strategy ru)"
  obtain ok paper where s94: "check_section_9_4_authorization (ru_section_9_4 ru) = (ok, paper)" by fastforce
  obtain d where d: "resolve_stage2_arming (ru_hash ru) ?cfg (ru_authorization ru) (ru_canary_state ru) (ru_kill ru)
      (ss_environ (ru_start ru)) (ru_date ru) paper = Inr d"
    using assms s94 by (auto simp: run_runner_def Let_def split: sum.splits)
  from assms s94 d obtain a where ok: "ok" "arm_armed d" "arm_authorization d = Some a"
    and out: "run_runner e ops ru obs = run_live e ops ru ?cfg a paper obs"
    by (auto simp: run_runner_def Let_def split: if_splits option.splits)
  from armed_authorization [OF d] ok(3)
  have load: "load_authorization (ru_hash ru) (ru_authorization ru) (ru_date ru) paper = Inr a"
    by (auto simp: granted_def split: sum.splits)
  from arming_iff [OF d] ok(2) load
  have arm: "may_arm ?cfg (Inr a) (ru_canary_state ru) (ru_kill ru) (ss_environ (ru_start ru))" by simp
  from section_9_4_facts s94 ok(1) obtain p where
    p: "ru_section_9_4 ru = FileJson (JObj p)" "dget p ''authorized'' JNull = JBool True" "truthy (dget p ''prereg_id'' JNull)"
      "paper \<longleftrightarrow> dget p ''prereg_id'' JNull = JStr PAPER_PREREG_ID" by metis
  from assms out have "ro_runner (run_live e ops ru ?cfg a paper obs) = Some r" by simp
  then obtain b pt s0 where q: "ru_port ru = Some (Inr (b, pt))" "paper \<longrightarrow> b"
    "new_live ''primary'' (ru_date ru) a (ru_canary_state ru) (ru_book_file ru) = Inr s0"
    "ran_as ops pt s0 (run_live e ops ru ?cfg a paper obs)" by (rule run_live_gates)
  have "gates_open ru paper a pt" unfolding gates_open_def using p q(1,2) load arm by blast
  with q(3,4) out that show ?thesis by simp
qed

section \<open>The stops under the runner\<close>

definition stops_good :: "evaluator \<Rightarrow> bool" where
  "stops_good ev \<longleftrightarrow> stops_ok ev \<and> set (emitted_symbols ev) = stopped_symbols ev \<and> distinct (emitted_symbols ev)"

text \<open>A signal whose intent was handed to the executor.\<close>

definition handed :: "env \<Rightarrow> session_call list \<Rightarrow> stop_signal \<Rightarrow> bool" where
  "handed e cs sg \<longleftrightarrow> (\<exists>now d is. Tick now d \<in> set cs \<and> dget d ''intents'' JNull = JList is \<and> JObj (to_intent e sg) \<in> set is)"

text \<open>The log is a prefix of what the evaluator emitted, and what it holds was handed over or is about to be.\<close>

definition stop_state :: "env \<Rightarrow> stop_signal list \<Rightarrow> stop_signal set \<Rightarrow> 'b runner \<Rightarrow> bool" where
  "stop_state e sgs pend r \<longleftrightarrow> stops_good (rn_stops r) \<and> rn_stop_log r @ sgs = ev_signals_emitted (rn_stops r) \<and>
     (\<forall>sg \<in> set (rn_stop_log r). sg \<in> pend \<or> handed e (rn_calls r) sg) \<and>
     (rn_start r = None \<longrightarrow> ev_positions (rn_stops r) = [] \<and> ev_signals_emitted (rn_stops r) = [])"

lemma stop_state_cong:
  "rn_stops r' = rn_stops r \<Longrightarrow> rn_stop_log r' = rn_stop_log r \<Longrightarrow> rn_calls r' = rn_calls r \<Longrightarrow>
   rn_start r' = rn_start r \<Longrightarrow> stop_state e sgs pend r' = stop_state e sgs pend r"
  by (simp add: stop_state_def)

lemma stops_good_tick:
  assumes "stops_good ev" and "evaluate_tick ev qs now = Inr (ev', sgs)"
  shows "stops_good ev' \<and> ev_signals_emitted ev' = ev_signals_emitted ev @ sgs"
proof -
  from assms have "stops_ok ev" "tick ev (qs, now) = Inr ev'" by (auto simp: stops_good_def tick_def)
  from tick_latch [OF this(1), of "(qs, now)"] this(2) assms(1) have "stops_good ev'"
    by (auto simp: stops_good_def)
  with assms(2) show ?thesis by (auto simp: evaluate_tick_def split: if_splits sum.splits prod.splits)
qed

lemma fold_stops_runs:
  "stop_state e sgs pend r \<Longrightarrow> dget d ''intents'' JNull = JList is \<Longrightarrow> \<forall>sg \<in> pend. JObj (to_intent e sg) \<in> set is \<Longrightarrow>
   rn_start r \<noteq> None \<Longrightarrow>
   \<exists>r' d' is'. fold_stops e sgs d r = (r', Inr d') \<and> stop_state e [] (pend \<union> set sgs) r' \<and> rn_start r' \<noteq> None \<and>
     dget d' ''intents'' JNull = JList is' \<and> (\<forall>sg \<in> pend \<union> set sgs. JObj (to_intent e sg) \<in> set is')"
proof (induction sgs arbitrary: pend r d "is")
  case Nil
  then show ?case by (auto simp: give_def)
next
  case (Cons sg sgs)
  let ?r = "r\<lparr>rn_stop_log := rn_stop_log r @ [sg]\<rparr>" and ?d = "dset d ''intents'' (JList (is @ [JObj (to_intent e sg)]))"
  have "stop_state e sgs (insert sg pend) ?r"
    using Cons.prems(1,4) by (auto simp: stop_state_def)
  from Cons.IH [OF this, of ?d "is @ [JObj (to_intent e sg)]"] Cons.prems(3,4) obtain r' d' is' where
    *: "fold_stops e sgs ?d ?r = (r', Inr d')" "stop_state e [] (insert sg pend \<union> set sgs) r'" "rn_start r' \<noteq> None"
      "dget d' ''intents'' JNull = JList is'" "\<forall>x \<in> insert sg pend \<union> set sgs. JObj (to_intent e x) \<in> set is'"
    by (auto simp: dget_def)
  have "iter_json (py_or (dget d ''intents'' JNull) (JList [])) = Inr is" using Cons.prems(2) by (simp add: py_or_def)
  with *(1) have "fold_stops e (sg # sgs) d r = (r', Inr d')" by (simp add: seq_def modify_def raise_py_def lift_def)
  with * show ?case by (intro exI [of _ r'] exI [of _ d'] exI [of _ is']) auto
qed

lemma decided_intents: "decide_live sv ob ph start live = Inr d \<Longrightarrow> \<exists>is. dget d ''intents'' JNull = JList is"
  by (auto simp: decide_live_def normalize_tick_result_def apply_entry_window_policy_def map_sum_def Let_def
      split: sum.splits json.splits if_splits prod.splits)

text \<open>Each symbol is logged once, and each logged signal was handed over.\<close>

definition stops_once :: "env \<Rightarrow> 'b runner \<Rightarrow> bool" where
  "stops_once e r \<longleftrightarrow> distinct (map sg_symbol (rn_stop_log r)) \<and> (\<forall>sg \<in> set (rn_stop_log r). handed e (rn_calls r) sg)"

lemma stops_once_state: "stop_state e sgs {} r \<Longrightarrow> stops_once e r"
proof -
  assume "stop_state e sgs {} r"
  then have "distinct (map sg_symbol (rn_stop_log r @ sgs))" "\<forall>sg \<in> set (rn_stop_log r). handed e (rn_calls r) sg"
    by (auto simp: stop_state_def stops_good_def emitted_symbols_def)
  then show ?thesis by (simp add: stops_once_def)
qed

lemma stops_once_cong: "rn_stop_log r' = rn_stop_log r \<Longrightarrow> rn_calls r' = rn_calls r \<Longrightarrow> stops_once e r' = stops_once e r"
  by (simp add: stops_once_def)

lemma load_positions_good:
  assumes "ev_positions ev = []" "ev_signals_emitted ev = []"
  shows "stops_good (fst (load_positions ev hs)) \<and> ev_signals_emitted (fst (load_positions ev hs)) = []"
proof -
  have "stops_ok ev" "stopped_symbols ev = {}" using assms by (simp_all add: stops_ok_def stopped_symbols_def)
  with assms load_positions_ok [of ev hs] load_positions_unstopped [of ev hs] show ?thesis
    by (simp add: stops_good_def emitted_symbols_def)
qed

lemma need_start_stops:
  assumes "stop_state e [] {} r" and "need_start ob r = (r', x)"
  shows "stops_once e r' \<and> (\<forall>y. x = Inr y \<longrightarrow> stop_state e [] {} r' \<and> rn_start r' \<noteq> None)"
proof (cases "rn_start r")
  case (Some start)
  with assms show ?thesis by (auto simp: need_start_def intro: stops_once_state)
next
  case None
  with assms(1) have empty: "ev_positions (rn_stops r) = []" "ev_signals_emitted (rn_stops r) = []" "rn_stop_log r = []"
    by (auto simp: stop_state_def)
  have log: "rn_stop_log r' = []"
    using assms(2) None empty(3)
    by (auto simp: need_start_def seq_def raise_tick_def raise_py_def lift_def modify_def track_positions_def give_def
        split: sum.splits prod.splits option.splits)
  have "stop_state e [] {} r' \<and> rn_start r' \<noteq> None" if "x = Inr y" for y
  proof -
    from assms(2) None that obtain start hs where
      r': "load_positions (rn_stops r) hs = (rn_stops r', None)" "rn_start r' = Some start"
      by (auto simp: need_start_def seq_def raise_tick_def raise_py_def lift_def modify_def track_positions_def give_def
          split: sum.splits prod.splits option.splits)
    with load_positions_good [OF empty(1,2), of hs] log show ?thesis by (simp add: stop_state_def)
  qed
  with log show ?thesis by (simp add: stops_once_def)
qed

lemma handed_mono: "handed e cs sg \<Longrightarrow> handed e (cs @ cs') sg"
  by (auto simp: handed_def)

lemma tick_handed:
  assumes "stop_state e [] pend r" "rn_start r \<noteq> None" "dget d ''intents'' JNull = JList is"
    and "\<forall>sg \<in> pend. JObj (to_intent e sg) \<in> set is" and "on_live (Tick now d) m r = (r', x)"
  shows "stop_state e [] {} r'"
proof -
  have r': "rn_stops r' = rn_stops r" "rn_stop_log r' = rn_stop_log r" "rn_start r' = rn_start r" "rn_calls r' = rn_calls r @ [Tick now d]"
    using assms(5) by (auto simp: on_live_def split: prod.splits)
  have "handed e (rn_calls r') sg" if "sg \<in> set (rn_stop_log r')" for sg
  proof (cases "sg \<in> pend")
    case True
    with assms(3,4) show ?thesis unfolding r' handed_def by auto
  next
    case False
    with assms(1) that r' show ?thesis by (auto simp: stop_state_def intro: handed_mono)
  qed
  with assms(1,2) r' show ?thesis by (auto simp: stop_state_def)
qed

lemma write_tick_sel:
  "write_tick record r = (r', x) \<Longrightarrow> rn_stops r' = rn_stops r \<and> rn_stop_log r' = rn_stop_log r \<and>
     rn_calls r' = rn_calls r \<and> rn_start r' = rn_start r"
  by (cases "append_live_tick record (rn_writer r)") (auto simp: write_tick_def split: prod.splits)

lemma seq_raise_tick: "seq (raise_tick (Inr v)) k r = k v r"
  by (simp add: seq_def raise_tick_def lift_def)

lemma live_tick_stops:
  assumes "stop_state e [] {} r" and "live_tick e ops pt sv ob ph r = (r', x)"
  shows "stops_once e r' \<and> (x = Inr () \<longrightarrow> stop_state e [] {} r')"
proof -
  obtain r1 x1 where n: "need_start ob r = (r1, x1)" by fastforce
  note 1 = need_start_stops [OF assms(1) n]
  consider (stopped) "r' = r1" "x \<noteq> Inr ()"
    | (decided) start live d where "x1 = Inr start" "ob_live ob = Inr live" "decide_live sv ob ph start live = Inr d"
    using assms(2) n
    by (cases x1; cases "ob_live ob"; cases "decide_live sv ob ph (projr x1) (projr (ob_live ob))")
      (auto simp: live_tick_def seq_def raise_tick_def lift_def)
  then show ?thesis
  proof cases
    case (decided start live d)
    with 1 have s1: "stop_state e [] {} r1" "rn_start r1 \<noteq> None" by auto
    let ?qs = "map (\<lambda>(k, x). (k, JFloat x)) (extract_quotes live)"
    have step: "seq (stop_tick (extract_quotes live) (ob_now ob)) (\<lambda>sgs.
         seq (fold_stops e sgs d) (\<lambda>d.
         seq (on_live (Tick (ob_now ob) d) (process_tick ops pt (ob_now ob) d)) (\<lambda>report.
         \<lambda>r. write_tick (live_record e sv (ob_now ob) ph (rn_index r) d report sgs) r))) r1 = (r', x)"
      using assms(2) unfolding live_tick_def seq_runs [of "need_start ob", OF n [unfolded decided(1)]] decided(2)
        seq_raise_tick decided(3) .
    show ?thesis
    proof (cases "evaluate_tick (rn_stops r1) ?qs (ob_now ob)")
      case (Inl y)
      with step have "r' = r1" "x \<noteq> Inr ()" by (auto simp: seq_def stop_tick_def)
      with s1 stops_once_state show ?thesis by blast
    next
      case (Inr y)
      then obtain ev sgs where ev: "evaluate_tick (rn_stops r1) ?qs (ob_now ob) = Inr (ev, sgs)" by (cases y) auto
      let ?r2 = "r1\<lparr>rn_stops := ev\<rparr>"
      from stops_good_tick [OF _ ev] s1 have st: "stop_state e sgs {} ?r2" by (auto simp: stop_state_def)
      obtain is0 where i: "dget d ''intents'' JNull = JList is0" using decided_intents [OF decided(3)] by blast
      have ne: "rn_start ?r2 \<noteq> None" using s1(2) by simp
      obtain r3 d3 is3 where
        f: "fold_stops e sgs d ?r2 = (r3, Inr d3)" "stop_state e [] ({} \<union> set sgs) r3" "rn_start r3 \<noteq> None"
          "dget d3 ''intents'' JNull = JList is3" "\<forall>sg \<in> {} \<union> set sgs. JObj (to_intent e sg) \<in> set is3"
        using fold_stops_runs [OF st i _ ne] by blast
      obtain r4 x4 where o: "on_live (Tick (ob_now ob) d3) (process_tick ops pt (ob_now ob) d3) r3 = (r4, x4)" by fastforce
      from tick_handed [OF f(2-5) o] have s4: "stop_state e [] {} r4" .
      have "r' = r4 \<or> (\<exists>record. write_tick record r4 = (r', x))"
        using step ev f(1) o by (cases x4) (auto simp: seq_def stop_tick_def)
      then have "rn_stops r' = rn_stops r4 \<and> rn_stop_log r' = rn_stop_log r4 \<and> rn_calls r' = rn_calls r4 \<and> rn_start r' = rn_start r4"
        by (auto dest: write_tick_sel)
      with s4 have "stop_state e [] {} r'" by (simp add: stop_state_cong [of r' r4])
      with stops_once_state show ?thesis by blast
    qed
  qed (use 1 in auto)
qed

lemma live_loop_stops:
  "stop_state e [] {} r \<Longrightarrow> stops_once e (fst (live_loop e ops pt sv obs r))"
proof (induction obs arbitrary: r)
  case Nil
  then show ?case by (simp add: stops_once_state)
next
  case (Cons ob obs)
  let ?ph = "phase_at (sv_windows sv) (ob_now ob)"
  obtain r1 x where t: "live_tick e ops pt sv ob ?ph r = (r1, x)" by fastforce
  note 1 = live_tick_stops [OF Cons.prems t]
  have count: "stop_state e [] {} (q\<lparr>rn_cycles := n\<rparr>) = stop_state e [] {} q" for q n by (rule stop_state_cong) simp_all
  have once: "stops_once e (q\<lparr>rn_cycles := n\<rparr>) = stops_once e q" for q n by (rule stops_once_cong) simp_all
  from 1 t Cons stops_once_state [OF Cons.prems] show ?case
    by (cases x) (auto simp: live_cycle_def Let_def count once stops_once_state split: option.split)
qed

lemma run_live_stops: "ro_runner (drive_live e ops pt ru cfg (start_runner ru s w) obs) = Some r \<Longrightarrow> stops_once e r"
proof -
  let ?r0 = "start_runner ru s w"
  assume out: "ro_runner (drive_live e ops pt ru cfg ?r0 obs) = Some r"
  obtain r1 x where b: "on_live Begin (begin_session ops) ?r0 = (r1, x)" by fastforce
  then have r1: "rn_stops r1 = new_evaluator (ru_stops ru)" "rn_stop_log r1 = []"
    by (auto simp: on_live_def start_runner_def split: prod.splits)
  then have s1: "stop_state e [] {} r1"
    by (simp add: stop_state_def stops_good_def new_evaluator_def stops_ok_def emitted_symbols_def stopped_symbols_def)
  have close: "stops_once e q" if "ro_runner (close_run ops pt (r2, fin)) = Some q" "stops_once e r2" for q r2 fin
  proof -
    have "rn_stop_log q = rn_stop_log r2 \<and> (rn_calls q = rn_calls r2 \<or> rn_calls q = rn_calls r2 @ [Close])"
      using that(1) by (auto simp: close_run_def live_out_def on_live_def split: loop_end.splits prod.splits sum.splits)
    with that(2) show ?thesis by (auto simp: stops_once_def handed_mono)
  qed
  have "ro_runner (close_run ops pt (live_loop e ops pt sv obs r1)) = Some q \<Longrightarrow> stops_once e q" for q sv
    using close [of "fst (live_loop e ops pt sv obs r1)" "snd (live_loop e ops pt sv obs r1)"] live_loop_stops [OF s1] by simp
  with out b stops_once_state [OF s1] show ?thesis
    by (auto simp: drive_live_def live_out_def split: sum.splits option.splits)
qed

section \<open>Properties\<close>

text \<open>C4: The runner sends an order only behind every gate: whatever the environment does, a broker call
  means that the section 9.4 file grants a named pre-registration, that the five arming gates hold
  with the evidence floor of that pre-registration, that a paper pre-registration runs on a paper
  port, and that the call was journalled first and, for an entry, is allowlisted.\<close>

theorem runner_orders_behind_gates:
  assumes "ro_runner (run_runner e ops ru obs) = Some r" and "lx_trace (rn_live r) = before @ Called sent # after"
  shows "\<exists>paper a pt. gates_open ru paper a pt \<and> (\<exists>rows t. before = rows @ [WroteAhead sent t]) \<and>
    (\<forall>cid symb q l. sent = SubmitOrder cid symb ''BUY'' q l \<longrightarrow> py_upper symb \<in> py_upper ` set (au_allowlist a))"
proof -
  obtain paper a pt s0 where g: "gates_open ru paper a pt"
    "new_live ''primary'' (ru_date ru) a (ru_canary_state ru) (ru_book_file ru) = Inr s0"
    "ran_as ops pt s0 (run_runner e ops ru obs)" using assms(1) by (rule run_runner_live)
  then have live: "rn_live r = run_calls ops pt (rn_calls r) s0" using assms(1) by (auto simp: ran_as_def)
  have "traced s0 (rn_live r)" unfolding live
    by (rule traced.run_keeps) (simp_all add: traced_tick traced_begin)
  with new_live_sel [OF g(2)] assms(2)
  have w: "wal (before @ Called sent # after)" "allowlisted (au_allowlist a) (Called sent)" by (auto simp: traced_def)
  have "\<exists>rows t. before = rows @ [WroteAhead sent t]" by (rule walD [OF w(1) refl])
  moreover have "\<forall>cid symb q l. sent = SubmitOrder cid symb ''BUY'' q l \<longrightarrow> py_upper symb \<in> py_upper ` set (au_allowlist a)"
    using w(2) by auto
  ultimately show ?thesis using g(1) by blast
qed

text \<open>C5: The runner drives the executor as its protocol says: the executor's state is that of a
  session that is begun, then given ticks, then closed. A run that returns a live result has closed
  it, unless the day has no session.\<close>

theorem runner_refines_session:
  assumes "ro_runner (run_runner e ops ru obs) = Some r"
  shows "\<exists>paper a pt s0. gates_open ru paper a pt \<and>
    new_live ''primary'' (ru_date ru) a (ru_canary_state ru) (ru_book_file ru) = Inr s0 \<and>
    rn_live r = run_calls ops pt (rn_calls r) s0 \<and> proper_calls (ro_end (run_runner e ops ru obs)) (rn_calls r)"
proof -
  obtain paper a pt s0 where g: "gates_open ru paper a pt"
    "new_live ''primary'' (ru_date ru) a (ru_canary_state ru) (ru_book_file ru) = Inr s0"
    "ran_as ops pt s0 (run_runner e ops ru obs)" using assms by (rule run_runner_live)
  moreover from g(3) assms have "rn_live r = run_calls ops pt (rn_calls r) s0"
    "proper_calls (ro_end (run_runner e ops ru obs)) (rn_calls r)" by (auto simp: ran_as_def)
  ultimately show ?thesis by blast
qed

text \<open>C6: With a gate closed the runner is the shadow scheduler: without the section 9.4 grant, without
  arming, or without a port factory, the run is exactly the scheduler's session, reported as shadow
  and not armed, and no executor is built.\<close>

theorem runner_falls_back_to_shadow:
  assumes "check_section_9_4_authorization (ru_section_9_4 ru) = (authorized, paper)"
    and "resolve_stage2_arming (ru_hash ru) (load_intraday_config (ru_strategy ru)) (ru_authorization ru)
      (ru_canary_state ru) (ru_kill ru) (ss_environ (ru_start ru)) (ru_date ru) paper = Inr d"
    and "\<not> arm_armed d \<or> \<not> authorized \<or> ru_port ru = None"
    and "new_writer RECORD_KIND_TICK (ru_shadow_log ru) = Inr w"
  shows "ro_runner (run_runner e ops ru obs) = None \<and>
    (\<exists>st fin. run_session e (load_intraday_config (ru_strategy ru)) (ru_start ru) w obs = (st, fin) \<and>
       ro_shadow (run_runner e ops ru obs) = Some st \<and>
       ro_end (run_runner e ops ru obs) = (case fin of Returned s \<Rightarrow> SessionResult MODE_SHADOW False (mf_status (ls_manifest st))
         | Raised x \<Rightarrow> RunnerRaised (ShadowRaised x) | Pending \<Rightarrow> RunnerPending))"
proof -
  let ?cfg = "load_intraday_config (ru_strategy ru)"
  obtain st fin where run: "run_session e ?cfg (ru_start ru) w obs = (st, fin)" by fastforce
  have "arm_authorization d \<noteq> None" if "arm_armed d"
    using armed_authorization [OF assms(2)] arming_iff [OF assms(2)] that by (auto simp: may_arm_def granted_def)
  with assms(1-3) have "run_runner e ops ru obs = run_shadow e ru ?cfg obs"
    by (auto simp: run_runner_def run_live_def Let_def)
  with run assms(4) show ?thesis by (simp add: run_shadow_def)
qed

text \<open>A live session logs at most one stop signal per symbol, and every logged signal was handed to
  the executor as an exit intent of that symbol in some tick.\<close>

theorem runner_stops_handed_once:
  assumes "ro_runner (run_runner e ops ru obs) = Some r"
  shows "distinct (map sg_symbol (rn_stop_log r)) \<and>
    (\<forall>sg \<in> set (rn_stop_log r). \<exists>now d is. Tick now d \<in> set (rn_calls r) \<and>
       dget d ''intents'' JNull = JList is \<and> JObj (to_intent e sg) \<in> set is)"
proof -
  obtain pt cfg s w where "ro_runner (drive_live e ops pt ru cfg (start_runner ru s w) obs) = Some r"
    using assms by (auto simp: run_runner_def run_live_def Let_def split: prod.splits sum.splits if_splits option.splits)
  from run_live_stops [OF this] show ?thesis by (simp add: stops_once_def handed_def)
qed

section \<open>A live run\<close>

definition demo_strategy :: "json dict" where
  "demo_strategy = [(''intraday_decisioning'', JObj [(''enabled'', JBool True), (''mode'', JStr ''live''),
     (''canary_allowlist'', JList [JStr ''NVDA'', JStr ''AAPL''])])]"

definition demo_runner_env :: env where
  "demo_runner_env = \<lparr>hash_json = \<lambda>j. ''h'', iso_et = \<lambda>t. ''t'', calendar_id = ''XNYS'', strategy_fingerprint = ''f''\<rparr>"

text \<open>A session from second 0 to hour 10; the first tick is in it, the second after it. MSFT is held at
  100 and quoted at 90.\<close>

definition demo_cycle :: "int \<Rightarrow> obs" where
  "demo_cycle now = \<lparr>ob_now = now, ob_kill = False,
     ob_gates = Inr [(''positions'', JObj [(''msft'', JObj [(''entry_price'', JFloat (Num 100))])])],
     ob_live = Inr [(''prices'', JObj [(''msft'', JFloat (Num 90))])], ob_exits = Inr [],
     ob_runner = \<lambda>rq. Inr (JObj [(''intents'', JList [demo_row ''BUY'' 100])]), ob_observer_raises = False\<rparr>"

definition demo_setup :: "(py_error + bool \<times> port) option \<Rightarrow> (int \<times> int) option \<Rightarrow> run_setup" where
  "demo_setup pt bounds = \<lparr>ru_strategy = demo_strategy,
     ru_section_9_4 = FileJson (JObj [(''authorized'', JBool True), (''prereg_id'', JStr ''rq105-live-v1'')]),
     ru_authorization = FileJson (JObj demo_authorization), ru_canary_state = FileAbsent, ru_book_file = FileAbsent,
     ru_shadow_log = [], ru_live_log = [], ru_stops = default_stop_config\<lparr>stop_enabled := True\<rparr>,
     ru_date = ''2026-07-10'', ru_kill = False,
     ru_start = \<lparr>ss_date = ''2026-07-10'', ss_environ = [(''RENQUANT_INTRADAY_LIVE'', ''1'')], ss_kill = False,
       ss_bounds = bounds, ss_signal = Inr [], ss_max_cycles = None\<rparr>,
     ru_port = pt, ru_hash = \<lambda>p. ''sha'', ru_report = \<lambda>t. JNull\<rparr>"

definition demo_run :: "demo_book run_out" where
  "demo_run = run_runner demo_runner_env demo_book_ops (demo_setup (Some (Inr (False, demo_port))) (Some (0, 36000000000)))
     [demo_cycle 1800000000, demo_cycle 36000000000]"

definition demo_calls :: "live_event list" where
  "demo_calls = (let sell = SubmitOrder ''E-1'' ''MSFT'' ''SELL'' (Num 1) (Some (Num 90));
       buy = SubmitOrder ''E-1'' ''NVDA'' ''BUY'' (Num 2) (Some (Num 100)) in
     [Stamped ''session_begin'', WroteAhead sell ''market'', Called sell, Outcome sell ''accepted'',
      WroteAhead buy ''limit'', Called buy, Outcome buy ''accepted''])"

lemma demo_run_result:
  "(ro_end demo_run, map_option (\<lambda>r. (map sg_symbol (rn_stop_log r), lx_trace (rn_live r))) (ro_runner demo_run)) =
   (SessionResult ''live'' True ''completed'', Some ([''MSFT''], demo_calls))"
  by code_simp

lemma demo_runner:
  obtains r where "ro_runner demo_run = Some r" "lx_trace (rn_live r) = demo_calls" "map sg_symbol (rn_stop_log r) = [''MSFT'']"
    "ro_end demo_run = SessionResult ''live'' True ''completed''"
  using demo_run_result by (cases "ro_runner demo_run") auto

theorem runner_orders_behind_gates_witness:
  "\<exists>paper a pt. gates_open (demo_setup (Some (Inr (False, demo_port))) (Some (0, 36000000000))) paper a pt \<and>
     py_upper ''NVDA'' \<in> py_upper ` set (au_allowlist a)"
proof -
  obtain r where r: "ro_runner demo_run = Some r" "lx_trace (rn_live r) = demo_calls" by (rule demo_runner)
  from r(2) have "lx_trace (rn_live r) = take 5 demo_calls @ Called (SubmitOrder ''E-1'' ''NVDA'' ''BUY'' (Num 2) (Some (Num 100))) # drop 6 demo_calls"
    by (simp add: demo_calls_def Let_def)
  from runner_orders_behind_gates [OF r(1) [unfolded demo_run_def] this] show ?thesis by blast
qed

theorem runner_refines_session_witness: "\<exists>cs. proper_calls (ro_end demo_run) cs"
proof -
  obtain r where "ro_runner demo_run = Some r" by (rule demo_runner)
  from runner_refines_session [OF this [unfolded demo_run_def]] show ?thesis unfolding demo_run_def by blast
qed

theorem runner_stops_handed_once_witness:
  "\<exists>r sg. ro_runner demo_run = Some r \<and> sg \<in> set (rn_stop_log r) \<and> (\<exists>now d. Tick now d \<in> set (rn_calls r))"
proof -
  obtain r where r: "ro_runner demo_run = Some r" "map sg_symbol (rn_stop_log r) = [''MSFT'']" by (rule demo_runner)
  then obtain sg where "sg \<in> set (rn_stop_log r)" by (cases "rn_stop_log r") auto
  with runner_stops_handed_once [OF r(1) [unfolded demo_run_def]] r(1) show ?thesis by blast
qed

text \<open>The same configuration without a port factory.\<close>

lemma demo_arms:
  "map_sum id arm_armed (resolve_stage2_arming (ru_hash (demo_setup None None)) (load_intraday_config (ru_strategy (demo_setup None None)))
     (ru_authorization (demo_setup None None)) (ru_canary_state (demo_setup None None)) (ru_kill (demo_setup None None))
     (ss_environ (ru_start (demo_setup None None))) (ru_date (demo_setup None None)) False) = Inr True"
  by code_simp

theorem runner_falls_back_to_shadow_witness:
  "ro_runner (run_runner demo_runner_env demo_book_ops (demo_setup None None) []) = None"
proof -
  let ?ru = "demo_setup None None"
  obtain d where d: "resolve_stage2_arming (ru_hash ?ru) (load_intraday_config (ru_strategy ?ru)) (ru_authorization ?ru)
      (ru_canary_state ?ru) (ru_kill ?ru) (ss_environ (ru_start ?ru)) (ru_date ?ru) False = Inr d"
    using demo_arms by (auto simp: map_sum_def split: sum.splits)
  have "check_section_9_4_authorization (ru_section_9_4 ?ru) = (True, False)"
    by (simp add: demo_setup_def check_section_9_4_authorization_def dget_def PAPER_PREREG_ID_def)
  moreover have "new_writer RECORD_KIND_TICK (ru_shadow_log ?ru) = Inr \<lparr>log_lines = [], seen_keys = []\<rparr>"
    by (simp add: demo_setup_def new_writer_def)
  moreover have "ru_port ?ru = None" by (simp add: demo_setup_def)
  ultimately show ?thesis
    using runner_falls_back_to_shadow [of ?ru True False d _ demo_runner_env demo_book_ops "[]"] d by blast
qed

section \<open>What the runner gets wrong\<close>

text \<open>A stop signal's intent names no quantity, so the executor registers an exit of zero shares.\<close>

lemma stop_exit_registers_zero:
  "register_intent ops (to_intent e sg) side =
   seq require_open (\<lambda>b. seq (on_book (bk_register ops (sg_symbol sg) side [] (Num 0))) give)"
  by (simp add: register_intent_def to_intent_def dget_def lift_def seq_def fun_eq_iff py_or_def Let_def
      split: prod.split sum.split)

text \<open>The records of a live session are not of the kind that the live log's reader looks for: reopening
  the log forgets their keys.\<close>

lemma live_log_forgets:
  "load_keys RECORD_KIND_LIVE_TICK (ls @ [Some (JObj (live_record e sv now ph idx d report sgs))]) [] =
   load_keys RECORD_KIND_LIVE_TICK ls []"
  by (simp add: load_keys_append live_record_def dget_def RECORD_KIND_LIVE_TICK_def LIVE_TICK_KIND_def split: sum.split)

text \<open>On a day without a session the run still begins a live session, which uses up one of the
  authorization's canary sessions.\<close>

lemma closed_day_uses_a_session:
  "map_option (\<lambda>r. ca_sessions (lx_canary (rn_live r)))
     (ro_runner (run_runner demo_runner_env demo_book_ops (demo_setup (Some (Inr (False, demo_port))) None) [])) =
   Some [''2026-07-10'']"
  by code_simp

end
