(* ===== verification/CryptoSession.thy ===== *)
theory CryptoSession
  imports PyTime Effects
begin

text \<open>
  \<open>crypto_session.py\<close>: the entry gates of the crypto session. A file is missing, unreadable, not
  UTF-8, not JSON, or the value it holds; an instant is in microseconds since 1970, a day in days.
  The file system, the environment, the hash of a JSON text and the ISO renderings are arguments,
  and so is the pipeline of \<open>renquant_common\<close> that runs the gates: \<open>keeps_order\<close> states what the
  code relies on of it. Texts of reasons are left out.
\<close>

section \<open>Files and configuration\<close>

record crypto_env =
  ce_file :: "string \<Rightarrow> sidecar"
  ce_environ :: "string dict"
  ce_hash :: "json \<Rightarrow> string"
  ce_stamp :: "datetime \<Rightarrow> string"
  ce_day :: "int \<Rightarrow> string"

definition file_exists :: "crypto_env \<Rightarrow> string \<Rightarrow> bool" where
  "file_exists e p \<longleftrightarrow> ce_file e p \<noteq> Missing"

definition CRYPTO_KILL_SWITCH_RELPATH :: string where
  "CRYPTO_KILL_SWITCH_RELPATH = ''data/crypto/kill_switch''"

definition DEFAULT_TICK_CADENCE_SECONDS :: int where "DEFAULT_TICK_CADENCE_SECONDS = 900"

definition DEFAULT_QUIET_INTERVAL_MINUTES :: int where "DEFAULT_QUIET_INTERVAL_MINUTES = 15"

record crypto_config =
  cc_enabled :: bool
  cc_cadence :: int
  cc_mode :: string
  cc_kill_path :: "string option"
  cc_topic :: string
  cc_budget :: pyfloat
  cc_drawdown :: pyfloat
  cc_quiet :: int
  cc_live_path :: "string option"

text \<open>\<open>Path(x) if x else None\<close>\<close>

definition path_field :: "json dict \<Rightarrow> string \<Rightarrow> py_error + string option" where
  "path_field d k =
     (let v = dget d k JNull in
      if \<not> truthy v then Inr None else case v of JStr s \<Rightarrow> Inr (Some s) | _ \<Rightarrow> Inl TypeError)"

definition crypto_config_from_dict :: "json dict \<Rightarrow> py_error + crypto_config" where
  "crypto_config_from_dict d =
     (case as_mapping (dget d ''crypto_trading'' (JObj [])) of Inl x \<Rightarrow> Inl x | Inr c \<Rightarrow>
      case py_int (dget c ''tick_cadence_seconds'' (JInt DEFAULT_TICK_CADENCE_SECONDS)) of Inl x \<Rightarrow> Inl x | Inr cadence \<Rightarrow>
      case path_field c ''kill_switch_path'' of Inl x \<Rightarrow> Inl x | Inr kill \<Rightarrow>
      case py_float (dget c ''sleeve_budget_usd'' (JFloat (Num 0))) of Inl x \<Rightarrow> Inl x | Inr budget \<Rightarrow>
      case py_float (dget c ''max_drawdown_pct'' (JFloat (Num 10))) of Inl x \<Rightarrow> Inl x | Inr drawdown \<Rightarrow>
      case py_int (dget c ''quiet_interval_minutes'' (JInt DEFAULT_QUIET_INTERVAL_MINUTES)) of Inl x \<Rightarrow> Inl x | Inr quiet \<Rightarrow>
      case path_field c ''live_authorization_path'' of Inl x \<Rightarrow> Inl x | Inr live \<Rightarrow>
      Inr \<lparr>cc_enabled = truthy (dget c ''enabled'' (JBool False)), cc_cadence = cadence,
        cc_mode = py_str (dget c ''mode'' (JStr ''shadow'')), cc_kill_path = kill,
        cc_topic = py_str (dget c ''ntfy_topic'' (JStr ''renquant-crypto'')), cc_budget = budget,
        cc_drawdown = drawdown, cc_quiet = quiet, cc_live_path = live\<rparr>)"

section \<open>The session window and the signal\<close>

definition DAY_US :: int where "DAY_US = 86400 * 1000000"

record session_window =
  sw_date :: int
  sw_open :: int
  sw_close :: int
  sw_quiet_end :: int

definition window_for_date :: "int \<Rightarrow> int \<Rightarrow> session_window" where
  "window_for_date day quiet =
     \<lparr>sw_date = day, sw_open = day * DAY_US, sw_close = day * DAY_US + DAY_US,
      sw_quiet_end = day * DAY_US + quiet * 60 * 1000000\<rparr>"

definition in_quiet_interval :: "session_window \<Rightarrow> int \<Rightarrow> bool" where
  "in_quiet_interval w now \<longleftrightarrow> sw_open w \<le> now \<and> now < sw_quiet_end w"

definition is_active :: "session_window \<Rightarrow> int \<Rightarrow> bool" where
  "is_active w now \<longleftrightarrow> sw_open w \<le> now \<and> now < sw_close w"

definition current_session_date :: "int \<Rightarrow> int" where
  "current_session_date now = now div DAY_US"

record snapshot =
  sn_date :: int
  sn_watermark :: datetime
  sn_universe :: json
  sn_model :: json
  sn_calibrator :: json

definition snapshot_digest :: "crypto_env \<Rightarrow> snapshot \<Rightarrow> string" where
  "snapshot_digest e s = ce_hash e (JObj
     [(''bar_watermark_utc'', JStr (ce_stamp e (sn_watermark s))),
      (''calibrator_content_sha256'', sn_calibrator s), (''model_content_sha256'', sn_model s),
      (''session_date'', JStr (ce_day e (sn_date s))), (''universe_hash'', sn_universe s)])"

definition MAX_WATERMARK_STALENESS_DAYS :: int where "MAX_WATERMARK_STALENESS_DAYS = 2"

definition PLACEHOLDERS :: "string list" where
  "PLACEHOLDERS = [''missing'', ''unknown'', ''todo'', ''tbd'', ''n/a'', ''na'', ''none'', ''null'', ''nil'',
     ''fixme'', ''changeme'', ''placeholder'', ''xxx'', ''<unset>'', ''unset'']"

definition is_valid_fingerprint :: "json \<Rightarrow> bool" where
  "is_valid_fingerprint v =
     (case v of JStr s \<Rightarrow> py_strip s \<noteq> [] \<and> py_lower (py_strip s) \<notin> set PLACEHOLDERS | _ \<Rightarrow> False)"

definition is_hex :: "char \<Rightarrow> bool" where
  "is_hex c \<longleftrightarrow> c \<in> set ''0123456789abcdefABCDEF''"

definition looks_like_sha256_hex :: "string \<Rightarrow> bool" where
  "looks_like_sha256_hex s \<longleftrightarrow> length s = 64 \<and> list_all is_hex s"

section \<open>The reasons\<close>

datatype ref_reason = RefMissing | RefUnreadable | RefNotJson | RefNotObject | RefSchema json
  | RefProducer json | RefDigest json | RefPath json | RefDangling string

datatype coverage_reason = CovMissing | CovUnreadable | CovNotJson | CovNotObject | CovSchema json
  | CovTimestamp json | CovNaive json | CovEnvironment json | CovAccount json | CovPositions json
  | CovViolations json | CovSource json

datatype live_reason = LiveNoPath | LiveMissing | LiveUnreadable | LiveNotJson | LiveNotObject
  | LiveSchema json | LiveNotGranted json | LiveBadStart json | LiveBadEnd json | LiveNotYet | LiveExpired

datatype crypto_reason = ConfigDisabled | EnvFlagOff | KillSwitchPresent | ModeBlocked string
  | LiveBlocked live_reason | QuietInterval | NoSnapshot | SnapshotDate | WatermarkNaive
  | WatermarkFuture | WatermarkStale | BadFingerprint string | NoArtifactRef | BadArtifactRef ref_reason
  | DigestMismatch | NoStopCoverage | BadStopCoverage coverage_reason | CoverageEnvironment string
  | CoverageStale | CoverageViolations int | NoTrustAnchor

text \<open>A loader refuses with a reason, or an exception it does not expect leaves it.\<close>

datatype 'r load_error = Refused 'r | Escaped py_error

text \<open>\<open>v == n\<close> for a small integer \<open>n\<close>: a boolean and a float compare as numbers.\<close>

definition equals_int :: "json \<Rightarrow> int \<Rightarrow> bool" where
  "equals_int v n = (case v of JInt i \<Rightarrow> i = n | JBool b \<Rightarrow> (if b then 1 else 0) = n
     | JFloat x \<Rightarrow> x = Num (of_int n) | _ \<Rightarrow> False)"

section \<open>The artifact reference\<close>

definition ARTIFACT_REF_SCHEMA_VERSION :: int where "ARTIFACT_REF_SCHEMA_VERSION = 1"

record artifact_ref =
  ar_digest :: string
  ar_path :: string
  ar_schema :: json
  ar_producer :: string

text \<open>\<open>__post_init__\<close> of a reference whose other fields the loader has checked.\<close>

definition check_ref_fields :: "artifact_ref \<Rightarrow> py_error option" where
  "check_ref_fields r =
     (if py_strip (ar_digest r) = [] then Some ValueError
      else if py_strip (ar_path r) = [] then Some ValueError
      else if py_strip (ar_producer r) = [] then Some ValueError
      else None)"

definition validate_ref :: "crypto_env \<Rightarrow> artifact_ref \<Rightarrow> ref_reason option" where
  "validate_ref e r =
     (if \<not> file_exists e (ar_path r) then Some (RefDangling (ar_path r))
      else if \<not> equals_int (ar_schema r) ARTIFACT_REF_SCHEMA_VERSION then Some (RefSchema (ar_schema r))
      else None)"

definition ref_path :: "string \<Rightarrow> json \<Rightarrow> string option" where
  "ref_path own v = (case v of JNull \<Rightarrow> Some own | JStr s \<Rightarrow> Some s | _ \<Rightarrow> None)"

definition ref_from_dict :: "crypto_env \<Rightarrow> string \<Rightarrow> json dict \<Rightarrow> ref_reason load_error + artifact_ref" where
  "ref_from_dict e own raw =
     (let schema = dget raw ''schema_version'' JNull; producer = dget raw ''producer_run_id'' JNull;
          digest = dget raw ''expected_digest'' JNull; path = dget raw ''artifact_path'' JNull in
      if \<not> equals_int schema ARTIFACT_REF_SCHEMA_VERSION then Inl (Refused (RefSchema schema))
      else if \<not> is_valid_fingerprint producer then Inl (Refused (RefProducer producer))
      else (case digest of
          JStr h \<Rightarrow>
            if \<not> looks_like_sha256_hex h then Inl (Refused (RefDigest digest))
            else (case ref_path own path of
                None \<Rightarrow> Inl (Refused (RefPath path))
              | Some p \<Rightarrow>
                  (let r = \<lparr>ar_digest = py_lower h, ar_path = p, ar_schema = schema, ar_producer = py_str producer\<rparr> in
                   case check_ref_fields r of
                     Some x \<Rightarrow> Inl (Escaped x)
                   | None \<Rightarrow> (case validate_ref e r of Some why \<Rightarrow> Inl (Refused why) | None \<Rightarrow> Inr r)))
        | _ \<Rightarrow> Inl (Refused (RefDigest digest))))"

definition load_signal_artifact_ref :: "crypto_env \<Rightarrow> string \<Rightarrow> ref_reason load_error + artifact_ref" where
  "load_signal_artifact_ref e path =
     (case ce_file e path of
        Missing \<Rightarrow> Inl (Refused RefMissing)
      | Unreadable \<Rightarrow> Inl (Refused RefUnreadable)
      | NotUtf8 \<Rightarrow> Inl (Escaped ValueError)
      | NotJson \<Rightarrow> Inl (Refused RefNotJson)
      | Holds (JObj raw) \<Rightarrow> ref_from_dict e path raw
      | Holds _ \<Rightarrow> Inl (Refused RefNotObject))"

section \<open>Stop coverage\<close>

definition STOP_COVERAGE_SCHEMA_VERSION :: int where "STOP_COVERAGE_SCHEMA_VERSION = 1"

record coverage =
  co_time :: int
  co_environment :: string
  co_account :: string
  co_positions :: int
  co_violations :: int
  co_source :: string

definition is_fresh :: "coverage \<Rightarrow> int \<Rightarrow> bool" where
  "is_fresh r now \<longleftrightarrow> 0 \<le> now - co_time r \<and> now - co_time r \<le> 300 * 1000000"

text \<open>\<open>x in {'live', 'paper'}\<close>: a list or a mapping is not hashable.\<close>

definition known_environment :: "json \<Rightarrow> coverage_reason load_error + string" where
  "known_environment v =
     (case v of
        JStr s \<Rightarrow> if s \<in> {''live'', ''paper''} then Inr s else Inl (Refused (CovEnvironment v))
      | JList xs \<Rightarrow> Inl (Escaped TypeError)
      | JObj kvs \<Rightarrow> Inl (Escaped TypeError)
      | _ \<Rightarrow> Inl (Refused (CovEnvironment v)))"

definition count_field :: "(json \<Rightarrow> coverage_reason) \<Rightarrow> json \<Rightarrow> coverage_reason load_error + int" where
  "count_field why v = (case v of JInt i \<Rightarrow> if i < 0 then Inl (Refused (why v)) else Inr i | _ \<Rightarrow> Inl (Refused (why v)))"

definition coverage_time :: "json \<Rightarrow> coverage_reason load_error + int" where
  "coverage_time v =
     (case from_isoformat (py_str v) of
        None \<Rightarrow> Inl (Refused (CovTimestamp v))
      | Some t \<Rightarrow> if utc_offset t = None then Inl (Refused (CovNaive v)) else Inr (utc_instant t))"

definition coverage_from_dict :: "json dict \<Rightarrow> coverage_reason load_error + coverage" where
  "coverage_from_dict raw =
     (let schema = dget raw ''schema_version'' JNull; account = dget raw ''account_id'' JNull;
          source = dget raw ''source_version'' JNull in
      if \<not> equals_int schema STOP_COVERAGE_SCHEMA_VERSION then Inl (Refused (CovSchema schema))
      else case coverage_time (dget raw ''timestamp_utc'' JNull) of Inl x \<Rightarrow> Inl x | Inr time \<Rightarrow>
      case known_environment (dget raw ''environment'' JNull) of Inl x \<Rightarrow> Inl x | Inr environment \<Rightarrow>
      if \<not> is_valid_fingerprint account then Inl (Refused (CovAccount account))
      else case count_field CovPositions (dget raw ''positions_covered'' JNull) of Inl x \<Rightarrow> Inl x | Inr positions \<Rightarrow>
      case count_field CovViolations (dget raw ''violations'' JNull) of Inl x \<Rightarrow> Inl x | Inr violations \<Rightarrow>
      if \<not> is_valid_fingerprint source then Inl (Refused (CovSource source))
      else Inr \<lparr>co_time = time, co_environment = environment, co_account = py_str account,
             co_positions = positions, co_violations = violations, co_source = py_str source\<rparr>)"

definition load_stop_coverage_report :: "crypto_env \<Rightarrow> string \<Rightarrow> coverage_reason load_error + coverage" where
  "load_stop_coverage_report e path =
     (case ce_file e path of
        Missing \<Rightarrow> Inl (Refused CovMissing)
      | Unreadable \<Rightarrow> Inl (Refused CovUnreadable)
      | NotUtf8 \<Rightarrow> Inl (Escaped ValueError)
      | NotJson \<Rightarrow> Inl (Refused CovNotJson)
      | Holds (JObj raw) \<Rightarrow> coverage_from_dict raw
      | Holds _ \<Rightarrow> Inl (Refused CovNotObject))"

section \<open>Live authorization\<close>

definition LIVE_AUTHORIZATION_SCHEMA_VERSION :: int where "LIVE_AUTHORIZATION_SCHEMA_VERSION = 1"

text \<open>\<open>_parse_utc_datetime_or_none\<close>: a missing offset is read as UTC.\<close>

definition parse_utc_or_none :: "json \<Rightarrow> int option" where
  "parse_utc_or_none v = map_option utc_instant (from_isoformat (py_str v))"

definition live_grant :: "json dict \<Rightarrow> int \<Rightarrow> live_reason option" where
  "live_grant raw now =
     (let schema = dget raw ''schema_version'' JNull; granted = dget raw ''authorized'' JNull;
          start = dget raw ''authorized_at'' JNull; stop = dget raw ''expires_at'' JNull in
      if \<not> equals_int schema LIVE_AUTHORIZATION_SCHEMA_VERSION then Some (LiveSchema schema)
      else if granted \<noteq> JBool True then Some (LiveNotGranted granted)
      else case parse_utc_or_none start of None \<Rightarrow> Some (LiveBadStart start) | Some a \<Rightarrow>
      case parse_utc_or_none stop of None \<Rightarrow> Some (LiveBadEnd stop) | Some b \<Rightarrow>
      if now < a then Some LiveNotYet else if b \<le> now then Some LiveExpired else None)"

definition check_live_authorization :: "crypto_env \<Rightarrow> string option \<Rightarrow> int \<Rightarrow> py_error + live_reason option" where
  "check_live_authorization e path now =
     (case path of
        None \<Rightarrow> Inr (Some LiveNoPath)
      | Some p \<Rightarrow>
          (case ce_file e p of
             Missing \<Rightarrow> Inr (Some LiveMissing)
           | Unreadable \<Rightarrow> Inr (Some LiveUnreadable)
           | NotUtf8 \<Rightarrow> Inl ValueError
           | NotJson \<Rightarrow> Inr (Some LiveNotJson)
           | Holds (JObj raw) \<Rightarrow> Inr (live_grant raw now)
           | Holds _ \<Rightarrow> Inr (Some LiveNotObject)))"

section \<open>The gates\<close>

record tick_ctx =
  tc_config :: crypto_config
  tc_now :: int
  tc_snapshot :: "snapshot option"
  tc_ref_path :: "string option"
  tc_coverage_path :: "string option"
  tc_date :: int
  tc_window :: session_window
  tc_allowed :: bool
  tc_reason :: "crypto_reason option"
  tc_quiet :: bool
  tc_killed :: bool
  tc_digest :: "string option"
  tc_blocked :: bool

definition new_tick_ctx ::
    "crypto_config \<Rightarrow> int \<Rightarrow> snapshot option \<Rightarrow> string option \<Rightarrow> string option \<Rightarrow> tick_ctx" where
  "new_tick_ctx cfg now snap ref coverage =
     (let day = current_session_date now in
      \<lparr>tc_config = cfg, tc_now = now, tc_snapshot = snap, tc_ref_path = ref, tc_coverage_path = coverage,
       tc_date = day, tc_window = window_for_date day (cc_quiet cfg), tc_allowed = True, tc_reason = None,
       tc_quiet = False, tc_killed = False, tc_digest = None, tc_blocked = False\<rparr>)"

text \<open>The first reason wins.\<close>

definition block :: "crypto_reason \<Rightarrow> tick_ctx \<Rightarrow> tick_ctx" where
  "block why c = (if tc_blocked c then c else c\<lparr>tc_blocked := True, tc_allowed := False, tc_reason := Some why\<rparr>)"

type_synonym gate = "(tick_ctx, py_error, bool) step"

text \<open>A gate that blocks returns \<open>False\<close>.\<close>

definition refuse_tick :: "crypto_reason \<Rightarrow> gate" where
  "refuse_tick why c = (block why c, Inr False)"

definition judge :: "crypto_reason option \<Rightarrow> gate" where
  "judge verdict = (case verdict of None \<Rightarrow> give True | Some why \<Rightarrow> refuse_tick why)"

definition crypto_env_flag :: "crypto_env \<Rightarrow> bool" where
  "crypto_env_flag e \<longleftrightarrow>
     py_lower (py_strip (dget (ce_environ e) ''RENQUANT_CRYPTO_TRADING'' [])) \<in> {''1'', ''true'', ''yes'', ''on''}"

definition kill_switch_active :: "crypto_env \<Rightarrow> crypto_config \<Rightarrow> bool" where
  "kill_switch_active e cfg =
     file_exists e (case cc_kill_path cfg of Some p \<Rightarrow> p | None \<Rightarrow> CRYPTO_KILL_SWITCH_RELPATH)"

definition check_triple_gate :: "crypto_env \<Rightarrow> crypto_config \<Rightarrow> crypto_reason option" where
  "check_triple_gate e cfg =
     (if \<not> cc_enabled cfg then Some ConfigDisabled
      else if \<not> crypto_env_flag e then Some EnvFlagOff
      else if kill_switch_active e cfg then Some KillSwitchPresent
      else None)"

definition triple_gate :: "crypto_env \<Rightarrow> gate" where
  "triple_gate e c = judge (check_triple_gate e (tc_config c)) (c\<lparr>tc_killed := kill_switch_active e (tc_config c)\<rparr>)"

definition mode_verdict :: "crypto_config \<Rightarrow> crypto_reason option" where
  "mode_verdict cfg = (if cc_mode cfg \<in> {''live'', ''paper''} then None else Some (ModeBlocked (cc_mode cfg)))"

definition mode_gate :: "crypto_env \<Rightarrow> gate" where
  "mode_gate e c =
     judge (mode_verdict (tc_config c))
       (case tc_snapshot c of None \<Rightarrow> c | Some s \<Rightarrow> c\<lparr>tc_digest := Some (snapshot_digest e s)\<rparr>)"

definition live_authorization_gate :: "crypto_env \<Rightarrow> gate" where
  "live_authorization_gate e c =
     (if cc_mode (tc_config c) \<noteq> ''live'' then give True c
      else (case check_live_authorization e (cc_live_path (tc_config c)) (tc_now c) of
          Inl x \<Rightarrow> fail x c
        | Inr verdict \<Rightarrow> judge (map_option LiveBlocked verdict) c))"

definition quiet_gate :: gate where
  "quiet_gate c =
     (if in_quiet_interval (tc_window c) (tc_now c) then refuse_tick QuietInterval (c\<lparr>tc_quiet := True\<rparr>)
      else give True c)"

definition snapshot_verdict :: "snapshot option \<Rightarrow> int \<Rightarrow> crypto_reason option" where
  "snapshot_verdict snap day =
     (case snap of None \<Rightarrow> Some NoSnapshot | Some s \<Rightarrow> if sn_date s \<noteq> day then Some SnapshotDate else None)"

definition snapshot_gate :: gate where
  "snapshot_gate c = judge (snapshot_verdict (tc_snapshot c) (tc_date c)) c"

definition watermark_for_session :: "int \<Rightarrow> int" where
  "watermark_for_session day = day * DAY_US"

definition validate_watermark :: "snapshot \<Rightarrow> int \<Rightarrow> crypto_reason option" where
  "validate_watermark s day =
     (let w = utc_instant (sn_watermark s); latest = watermark_for_session day in
      if utc_offset (sn_watermark s) = None then Some WatermarkNaive
      else if latest < w then Some WatermarkFuture
      else if w < latest - MAX_WATERMARK_STALENESS_DAYS * DAY_US then Some WatermarkStale
      else None)"

definition validate_signal_contract :: "snapshot \<Rightarrow> crypto_reason option" where
  "validate_signal_contract s =
     (if \<not> is_valid_fingerprint (sn_universe s) then Some (BadFingerprint ''universe_hash'')
      else if \<not> is_valid_fingerprint (sn_model s) then Some (BadFingerprint ''model_content_sha256'')
      else if \<not> is_valid_fingerprint (sn_calibrator s) then Some (BadFingerprint ''calibrator_content_sha256'')
      else None)"

text \<open>The gates after the snapshot gate read a snapshot that is there.\<close>

definition watermark_gate :: gate where
  "watermark_gate c =
     (case tc_snapshot c of None \<Rightarrow> fail AttributeError c | Some s \<Rightarrow> judge (validate_watermark s (tc_date c)) c)"

definition fingerprint_gate :: gate where
  "fingerprint_gate c =
     (case tc_snapshot c of None \<Rightarrow> fail AttributeError c | Some s \<Rightarrow> judge (validate_signal_contract s) c)"

definition digest_gate :: "crypto_env \<Rightarrow> gate" where
  "digest_gate e c =
     (case tc_ref_path c of
        None \<Rightarrow> refuse_tick NoArtifactRef c
      | Some p \<Rightarrow>
          (case load_signal_artifact_ref e p of
             Inl (Refused why) \<Rightarrow> refuse_tick (BadArtifactRef why) c
           | Inl (Escaped x) \<Rightarrow> fail x c
           | Inr r \<Rightarrow>
               (case tc_snapshot c of
                  None \<Rightarrow> fail AttributeError c
                | Some s \<Rightarrow> judge (if snapshot_digest e s \<noteq> ar_digest r then Some DigestMismatch else None) c)))"

definition coverage_verdict :: "crypto_config \<Rightarrow> int \<Rightarrow> coverage \<Rightarrow> crypto_reason option" where
  "coverage_verdict cfg now r =
     (if co_environment r \<noteq> cc_mode cfg then Some (CoverageEnvironment (co_environment r))
      else if \<not> is_fresh r now then Some CoverageStale
      else if 0 < co_violations r then Some (CoverageViolations (co_violations r))
      else None)"

definition coverage_gate :: "crypto_env \<Rightarrow> gate" where
  "coverage_gate e c =
     (case tc_coverage_path c of
        None \<Rightarrow> refuse_tick NoStopCoverage c
      | Some p \<Rightarrow>
          (case load_stop_coverage_report e p of
             Inl (Refused why) \<Rightarrow> refuse_tick (BadStopCoverage why) c
           | Inl (Escaped x) \<Rightarrow> fail x c
           | Inr r \<Rightarrow> judge (coverage_verdict (tc_config c) (tc_now c) r) c))"

definition ENTRY_AUTHORIZATION_TRUST_ANCHOR_READY :: bool where
  "ENTRY_AUTHORIZATION_TRUST_ANCHOR_READY = False"

definition trust_anchor_gate :: gate where
  "trust_anchor_gate = (if ENTRY_AUTHORIZATION_TRUST_ANCHOR_READY then give True else refuse_tick NoTrustAnchor)"

section \<open>The pipeline and a tick\<close>

record gate_job =
  gj_name :: string
  gj_skip :: "tick_ctx \<Rightarrow> bool"
  gj_task :: gate

definition gate_of :: "string \<Rightarrow> gate \<Rightarrow> gate_job" where
  "gate_of name task = \<lparr>gj_name = name, gj_skip = tc_blocked, gj_task = task\<rparr>"

definition gate_jobs :: "crypto_env \<Rightarrow> gate_job list" where
  "gate_jobs e =
     [gate_of ''TripleGateJob'' (triple_gate e), gate_of ''ModeGateJob'' (mode_gate e),
      gate_of ''LiveAuthorizationGateJob'' (live_authorization_gate e), gate_of ''QuietIntervalGateJob'' quiet_gate,
      gate_of ''SnapshotPresenceGateJob'' snapshot_gate, gate_of ''WatermarkGateJob'' watermark_gate,
      gate_of ''FingerprintValidationGateJob'' fingerprint_gate, gate_of ''DigestVerificationGateJob'' (digest_gate e),
      gate_of ''StopCoverageGateJob'' (coverage_gate e), gate_of ''TrustAnchorGateJob'' trust_anchor_gate]"

text \<open>A pipeline runs jobs over a context; its record holds, per job, the name and whether it was skipped.\<close>

type_synonym pipeline = "gate_job list \<Rightarrow> (tick_ctx, py_error, (string \<times> bool) list) step"

fun in_order :: pipeline where
  "in_order [] = give []"
| "in_order (j # js) = (\<lambda>c.
     if gj_skip j c then seq (in_order js) (\<lambda>steps. give ((gj_name j, True) # steps)) c
     else seq (gj_task j) (\<lambda>b. seq (in_order js) (\<lambda>steps. give ((gj_name j, False) # steps))) c)"

text \<open>What the code relies on: the jobs run in order, each unless its own test skips it, and a task
  that returns \<open>False\<close> ends its job only.\<close>

definition keeps_order :: "pipeline \<Rightarrow> bool" where
  "keeps_order run \<longleftrightarrow> (\<forall>jobs c. run jobs c = in_order jobs c)"

record tick_result =
  tr_date :: int
  tr_now :: int
  tr_entries :: bool
  tr_exits :: bool
  tr_reason :: "crypto_reason option"
  tr_digest :: "string option"
  tr_quiet :: bool
  tr_killed :: bool
  tr_steps :: "(string \<times> bool) list"

definition evaluate_crypto_tick ::
    "crypto_env \<Rightarrow> pipeline \<Rightarrow> crypto_config \<Rightarrow> int \<Rightarrow> snapshot option \<Rightarrow> string option \<Rightarrow> string option \<Rightarrow>
     py_error + tick_result" where
  "evaluate_crypto_tick e run cfg now snap ref coverage =
     (case run (gate_jobs e) (new_tick_ctx cfg now snap ref coverage) of
        (c, Inl x) \<Rightarrow> Inl x
      | (c, Inr steps) \<Rightarrow> Inr \<lparr>tr_date = tc_date c, tr_now = now, tr_entries = tc_allowed c, tr_exits = True,
          tr_reason = tc_reason c, tr_digest = tc_digest c, tr_quiet = tc_quiet c, tr_killed = tc_killed c,
          tr_steps = steps\<rparr>)"

section \<open>The session bundle\<close>

record gate_stats =
  gs_ran :: nat
  gs_skipped :: nat

definition count_step :: "gate_stats dict \<Rightarrow> string \<times> bool \<Rightarrow> gate_stats dict" where
  "count_step d step =
     (let b = dget d (fst step) \<lparr>gs_ran = 0, gs_skipped = 0\<rparr> in
      dset d (fst step) (if snd step then b\<lparr>gs_skipped := gs_skipped b + 1\<rparr> else b\<lparr>gs_ran := gs_ran b + 1\<rparr>))"

definition aggregate_gate_stats :: "tick_result list \<Rightarrow> gate_stats dict" where
  "aggregate_gate_stats ticks = foldl (\<lambda>d t. foldl count_step d (tr_steps t)) [] ticks"

record session_bundle =
  bn_date :: int
  bn_mode :: string
  bn_cadence :: int
  bn_quiet :: int
  bn_budget :: pyfloat
  bn_ticks :: nat
  bn_allowed :: nat
  bn_blocked :: nat
  bn_digest :: "string option"
  bn_ref :: "artifact_ref option"
  bn_coverage :: "coverage option"
  bn_audit :: "gate_stats dict"
  bn_results :: "tick_result list"

definition build_session_bundle ::
    "crypto_env \<Rightarrow> crypto_config \<Rightarrow> int \<Rightarrow> tick_result list \<Rightarrow> snapshot option \<Rightarrow> artifact_ref option \<Rightarrow>
     coverage option \<Rightarrow> session_bundle" where
  "build_session_bundle e cfg day ticks snap ref coverage =
     \<lparr>bn_date = day, bn_mode = cc_mode cfg, bn_cadence = cc_cadence cfg, bn_quiet = cc_quiet cfg,
      bn_budget = cc_budget cfg, bn_ticks = length ticks, bn_allowed = length (filter tr_entries ticks),
      bn_blocked = length (filter (\<lambda>t. \<not> tr_entries t) ticks),
      bn_digest = map_option (snapshot_digest e) snap, bn_ref = ref, bn_coverage = coverage,
      bn_audit = aggregate_gate_stats ticks, bn_results = ticks\<rparr>"

section \<open>The gates as a list of verdicts\<close>

definition same_inputs :: "tick_ctx \<Rightarrow> tick_ctx \<Rightarrow> bool" where
  "same_inputs c c' \<longleftrightarrow> tc_config c' = tc_config c \<and> tc_now c' = tc_now c \<and> tc_snapshot c' = tc_snapshot c \<and>
     tc_ref_path c' = tc_ref_path c \<and> tc_coverage_path c' = tc_coverage_path c \<and> tc_date c' = tc_date c \<and>
     tc_window c' = tc_window c"

definition undecided :: "tick_ctx \<Rightarrow> bool" where
  "undecided c \<longleftrightarrow> \<not> tc_blocked c \<and> tc_allowed c \<and> tc_reason c = None"

text \<open>The verdict of each gate on the inputs of a tick.\<close>

type_synonym tick_verdict = "tick_ctx \<Rightarrow> py_error + crypto_reason option"

definition live_verdict :: "crypto_env \<Rightarrow> tick_verdict" where
  "live_verdict e c =
     (if cc_mode (tc_config c) \<noteq> ''live'' then Inr None
      else map_sum id (map_option LiveBlocked) (check_live_authorization e (cc_live_path (tc_config c)) (tc_now c)))"

definition with_snapshot :: "(snapshot \<Rightarrow> py_error + crypto_reason option) \<Rightarrow> tick_verdict" where
  "with_snapshot f c = (case tc_snapshot c of None \<Rightarrow> Inl AttributeError | Some s \<Rightarrow> f s)"

definition digest_verdict :: "crypto_env \<Rightarrow> tick_verdict" where
  "digest_verdict e c =
     (case tc_ref_path c of
        None \<Rightarrow> Inr (Some NoArtifactRef)
      | Some p \<Rightarrow>
          (case load_signal_artifact_ref e p of
             Inl (Refused why) \<Rightarrow> Inr (Some (BadArtifactRef why))
           | Inl (Escaped x) \<Rightarrow> Inl x
           | Inr r \<Rightarrow> with_snapshot (\<lambda>s. Inr (if snapshot_digest e s \<noteq> ar_digest r then Some DigestMismatch else None)) c))"

definition coverage_report_verdict :: "crypto_env \<Rightarrow> tick_verdict" where
  "coverage_report_verdict e c =
     (case tc_coverage_path c of
        None \<Rightarrow> Inr (Some NoStopCoverage)
      | Some p \<Rightarrow>
          (case load_stop_coverage_report e p of
             Inl (Refused why) \<Rightarrow> Inr (Some (BadStopCoverage why))
           | Inl (Escaped x) \<Rightarrow> Inl x
           | Inr r \<Rightarrow> Inr (coverage_verdict (tc_config c) (tc_now c) r)))"

definition verdicts :: "crypto_env \<Rightarrow> (string \<times> tick_verdict) list" where
  "verdicts e =
     [(''TripleGateJob'', \<lambda>c. Inr (check_triple_gate e (tc_config c))),
      (''ModeGateJob'', \<lambda>c. Inr (mode_verdict (tc_config c))),
      (''LiveAuthorizationGateJob'', live_verdict e),
      (''QuietIntervalGateJob'', \<lambda>c. Inr (if in_quiet_interval (tc_window c) (tc_now c) then Some QuietInterval else None)),
      (''SnapshotPresenceGateJob'', \<lambda>c. Inr (snapshot_verdict (tc_snapshot c) (tc_date c))),
      (''WatermarkGateJob'', \<lambda>c. with_snapshot (\<lambda>s. Inr (validate_watermark s (tc_date c))) c),
      (''FingerprintValidationGateJob'', with_snapshot (\<lambda>s. Inr (validate_signal_contract s))),
      (''DigestVerificationGateJob'', digest_verdict e),
      (''StopCoverageGateJob'', coverage_report_verdict e),
      (''TrustAnchorGateJob'', \<lambda>c. Inr (if ENTRY_AUTHORIZATION_TRUST_ANCHOR_READY then None else Some NoTrustAnchor))]"

text \<open>The first verdict that is not \<open>Inr None\<close> settles a tick; the gates after it are skipped.\<close>

fun settle :: "(string \<times> (py_error + crypto_reason option)) list \<Rightarrow> py_error + crypto_reason option \<times> (string \<times> bool) list" where
  "settle [] = Inr (None, [])"
| "settle ((n, Inl x) # vs) = Inl x"
| "settle ((n, Inr (Some why)) # vs) = Inr (Some why, (n, False) # map (\<lambda>v. (fst v, True)) vs)"
| "settle ((n, Inr None) # vs) = map_sum id (\<lambda>(r, steps). (r, (n, False) # steps)) (settle vs)"

text \<open>A gate follows a verdict.\<close>

definition follows :: "gate \<Rightarrow> tick_verdict \<Rightarrow> bool" where
  "follows g v \<longleftrightarrow> (\<forall>c c'. same_inputs c c' \<longrightarrow> v c' = v c) \<and>
     (\<forall>c. undecided c \<longrightarrow>
        (case v c of
           Inl x \<Rightarrow> snd (g c) = Inl x
         | Inr None \<Rightarrow> snd (g c) = Inr True \<and> same_inputs c (fst (g c)) \<and> undecided (fst (g c))
         | Inr (Some why) \<Rightarrow> snd (g c) = Inr False \<and> same_inputs c (fst (g c)) \<and> tc_blocked (fst (g c)) \<and>
             \<not> tc_allowed (fst (g c)) \<and> tc_reason (fst (g c)) = Some why))"

lemma same_inputs_trans: "same_inputs a b \<Longrightarrow> same_inputs b c \<Longrightarrow> same_inputs a c"
  by (simp add: same_inputs_def)

lemmas gate_simps = same_inputs_def undecided_def give_def fail_def refuse_tick_def block_def judge_def

lemma gates_follow:
  "follows (triple_gate e) (\<lambda>c. Inr (check_triple_gate e (tc_config c)))"
  "follows (mode_gate e) (\<lambda>c. Inr (mode_verdict (tc_config c)))"
  "follows (live_authorization_gate e) (live_verdict e)"
  "follows quiet_gate (\<lambda>c. Inr (if in_quiet_interval (tc_window c) (tc_now c) then Some QuietInterval else None))"
  "follows snapshot_gate (\<lambda>c. Inr (snapshot_verdict (tc_snapshot c) (tc_date c)))"
  "follows watermark_gate (\<lambda>c. with_snapshot (\<lambda>s. Inr (validate_watermark s (tc_date c))) c)"
  "follows fingerprint_gate (with_snapshot (\<lambda>s. Inr (validate_signal_contract s)))"
  "follows (digest_gate e) (digest_verdict e)"
  "follows (coverage_gate e) (coverage_report_verdict e)"
  "follows trust_anchor_gate (\<lambda>c. Inr (if ENTRY_AUTHORIZATION_TRUST_ANCHOR_READY then None else Some NoTrustAnchor))"
           apply (auto simp: follows_def triple_gate_def gate_simps split: option.split) [1]
          apply (auto simp: follows_def mode_gate_def gate_simps split: option.split) [1]
         apply (auto simp: follows_def live_authorization_gate_def live_verdict_def gate_simps split: option.split sum.split) [1]
        apply (auto simp: follows_def quiet_gate_def gate_simps) [1]
       apply (auto simp: follows_def snapshot_gate_def gate_simps split: option.split) [1]
      apply (auto simp: follows_def watermark_gate_def with_snapshot_def gate_simps split: option.split) [1]
     apply (auto simp: follows_def fingerprint_gate_def with_snapshot_def gate_simps split: option.split) [1]
    apply (auto simp: follows_def digest_gate_def digest_verdict_def with_snapshot_def gate_simps
      split: option.split sum.split load_error.split) [1]
   apply (auto simp: follows_def coverage_gate_def coverage_report_verdict_def gate_simps
      split: option.split sum.split load_error.split) [1]
  apply (auto simp: follows_def trust_anchor_gate_def gate_simps) [1]
  done

lemma in_order_skips:
  "list_all (\<lambda>j. gj_skip j = tc_blocked) js \<Longrightarrow> tc_blocked c \<Longrightarrow>
   in_order js c = (c, Inr (map (\<lambda>j. (gj_name j, True)) js))"
  by (induction js) (auto simp: seq_def give_def)

lemma in_order_settles:
  assumes "list_all2 (\<lambda>j v. gj_name j = fst v \<and> gj_skip j = tc_blocked \<and> follows (gj_task j) (snd v)) js vs"
    and "undecided c"
  shows "case settle (map (\<lambda>v. (fst v, snd v c)) vs) of
      Inl x \<Rightarrow> snd (in_order js c) = Inl x
    | Inr (r, steps) \<Rightarrow> snd (in_order js c) = Inr steps \<and> same_inputs c (fst (in_order js c)) \<and>
        tc_reason (fst (in_order js c)) = r \<and> (tc_allowed (fst (in_order js c)) \<longleftrightarrow> r = None)"
  using assms
proof (induction arbitrary: c rule: list_all2_induct)
  case Nil
  then show ?case by (simp add: give_def same_inputs_def undecided_def)
next
  case (Cons j js v vs)
  have skip: "gj_skip j c = False" using Cons by (simp add: undecided_def)
  have names: "map (\<lambda>j. (gj_name j, True)) js = map (\<lambda>v. (fst v, True)) vs" "list_all (\<lambda>j. gj_skip j = tc_blocked) js"
    using Cons.hyps(2) by (induction rule: list_all2_induct) auto
  obtain c1 r where g: "gj_task j c = (c1, r)" by fastforce
  have fol: "follows (gj_task j) (snd v)" and name: "gj_name j = fst v" using Cons.hyps(1) by auto
  show ?case
  proof (cases "snd v c")
    case (Inl x)
    with fol Cons.prems g have "r = Inl x" by (auto simp: follows_def)
    with skip g Inl show ?thesis by (simp add: seq_def)
  next
    case (Inr verdict)
    show ?thesis
    proof (cases verdict)
      case (Some why)
      with Inr fol Cons.prems g have "r = Inr False" "same_inputs c c1" "tc_blocked c1" "\<not> tc_allowed c1" "tc_reason c1 = Some why"
        by (auto simp: follows_def)
      with skip g Inr Some name names show ?thesis by (simp add: seq_def give_def in_order_skips comp_def)
    next
      case None
      with Inr fol Cons.prems g have c1: "r = Inr True" "same_inputs c c1" "undecided c1"
        by (auto simp: follows_def)
      have "snd w c1 = snd w c" if "w \<in> set vs" for w
      proof -
        from that obtain i where "i < length vs" "w = vs ! i" by (auto simp: in_set_conv_nth)
        with Cons.hyps(2) have "follows (gj_task (js ! i)) (snd w)" by (auto simp: list_all2_conv_all_nth)
        with c1(2) show ?thesis by (simp add: follows_def)
      qed
      then have m: "map (\<lambda>v. (fst v, snd v c1)) vs = map (\<lambda>v. (fst v, snd v c)) vs" by simp
      obtain c2 s where o: "in_order js c1 = (c2, s)" by fastforce
      from Cons.IH [OF c1(3)] o m c1 skip g Inr None name show ?thesis
        by (cases "settle (map (\<lambda>v. (fst v, snd v c)) vs)") (auto simp: seq_def give_def intro: same_inputs_trans)
    qed
  qed
qed

lemma gate_jobs_follow:
  "list_all2 (\<lambda>j v. gj_name j = fst v \<and> gj_skip j = tc_blocked \<and> follows (gj_task j) (snd v)) (gate_jobs e) (verdicts e)"
  by (simp add: gate_jobs_def verdicts_def gate_of_def gates_follow)

lemma settle_names: "settle vs = Inr (r, steps) \<Longrightarrow> map fst steps = map fst vs"
proof (induction vs arbitrary: r steps rule: settle.induct)
  case (4 n vs)
  then show ?case by (cases "settle vs") auto
qed (auto simp: comp_def)

lemma settle_last:
  assumes "settle (vs @ [(n, Inr (Some w))]) = Inr (r, steps)" and "\<forall>v \<in> set vs. snd v \<noteq> Inr (Some w)"
  shows "r \<noteq> None \<and> (r = Some w \<longleftrightarrow> (\<forall>v \<in> set vs. snd v = Inr None)) \<and> (snd (List.last steps) = False \<longleftrightarrow> r = Some w)"
  using assms
proof (induction vs arbitrary: steps)
  case Nil
  then show ?case by auto
next
  case (Cons v vs)
  obtain k x where v: "v = (k, x)" by fastforce
  show ?case
  proof (cases x)
    case (Inl y)
    with Cons.prems v show ?thesis by simp
  next
    case (Inr y)
    show ?thesis
    proof (cases y)
      case (Some z)
      with Inr v Cons.prems show ?thesis by auto
    next
      case None
      with Inr v Cons.prems(1) obtain st where st: "settle (vs @ [(n, Inr (Some w))]) = Inr (r, st)" "steps = (k, False) # st"
        by (cases "settle (vs @ [(n, Inr (Some w))])") auto
      with settle_names [OF st(1)] have "st \<noteq> []" by auto
      with Cons.IH [OF st(1)] Cons.prems(2) st None Inr v show ?thesis by simp
    qed
  qed
qed

definition gate_verdicts :: "crypto_env \<Rightarrow> tick_ctx \<Rightarrow> (string \<times> (py_error + crypto_reason option)) list" where
  "gate_verdicts e c = map (\<lambda>v. (fst v, snd v c)) (verdicts e)"

lemma tick_settles:
  assumes "keeps_order run"
  shows "map_sum id (\<lambda>t. (tr_reason t, tr_steps t)) (evaluate_crypto_tick e run cfg now snap ref coverage) =
      settle (gate_verdicts e (new_tick_ctx cfg now snap ref coverage))"
    and "evaluate_crypto_tick e run cfg now snap ref coverage = Inr t \<Longrightarrow> (tr_entries t \<longleftrightarrow> tr_reason t = None) \<and> tr_exits t"
proof -
  let ?c = "new_tick_ctx cfg now snap ref coverage"
  have u: "undecided ?c" by (simp add: undecided_def new_tick_ctx_def Let_def)
  obtain c r where run: "in_order (gate_jobs e) ?c = (c, r)" by fastforce
  note all = in_order_settles [OF gate_jobs_follow [of e] u, folded gate_verdicts_def, unfolded run]
  show "map_sum id (\<lambda>t. (tr_reason t, tr_steps t)) (evaluate_crypto_tick e run cfg now snap ref coverage) =
      settle (gate_verdicts e ?c)"
    using all assms run by (cases "settle (gate_verdicts e ?c)") (auto simp: evaluate_crypto_tick_def keeps_order_def)
  show "(tr_entries t \<longleftrightarrow> tr_reason t = None) \<and> tr_exits t"
    if "evaluate_crypto_tick e run cfg now snap ref coverage = Inr t"
    using all assms run that
    by (cases "settle (gate_verdicts e ?c)") (auto simp: evaluate_crypto_tick_def keeps_order_def split: sum.splits)
qed

section \<open>What a tick may do\<close>

text \<open>A live authorization that grants the instant.\<close>

definition live_granted :: "crypto_env \<Rightarrow> string option \<Rightarrow> int \<Rightarrow> bool" where
  "live_granted e path now \<longleftrightarrow>
     (\<exists>p raw a b. path = Some p \<and> ce_file e p = Holds (JObj raw) \<and>
        equals_int (dget raw ''schema_version'' JNull) 1 \<and> dget raw ''authorized'' JNull = JBool True \<and>
        parse_utc_or_none (dget raw ''authorized_at'' JNull) = Some a \<and>
        parse_utc_or_none (dget raw ''expires_at'' JNull) = Some b \<and> a \<le> now \<and> now < b)"

text \<open>The conditions of an entry, apart from the trust anchor.\<close>

definition may_trade :: "crypto_env \<Rightarrow> crypto_config \<Rightarrow> int \<Rightarrow> bool" where
  "may_trade e cfg now \<longleftrightarrow>
     cc_enabled cfg \<and> crypto_env_flag e \<and> \<not> kill_switch_active e cfg \<and>
     (cc_mode cfg = ''paper'' \<or> cc_mode cfg = ''live'' \<and> live_granted e (cc_live_path cfg) now) \<and>
     cc_quiet cfg * 60000000 \<le> now mod DAY_US"

definition signal_ok :: "crypto_env \<Rightarrow> snapshot \<Rightarrow> string option \<Rightarrow> int \<Rightarrow> bool" where
  "signal_ok e s ref day \<longleftrightarrow>
     sn_date s = day \<and> utc_offset (sn_watermark s) \<noteq> None \<and>
     utc_instant (sn_watermark s) \<in> {(day - 2) * DAY_US .. day * DAY_US} \<and>
     is_valid_fingerprint (sn_universe s) \<and> is_valid_fingerprint (sn_model s) \<and> is_valid_fingerprint (sn_calibrator s) \<and>
     (\<exists>p r. ref = Some p \<and> load_signal_artifact_ref e p = Inr r \<and> ar_digest r = snapshot_digest e s)"

definition coverage_ok :: "crypto_env \<Rightarrow> string option \<Rightarrow> string \<Rightarrow> int \<Rightarrow> bool" where
  "coverage_ok e path mode now \<longleftrightarrow>
     (\<exists>p r. path = Some p \<and> load_stop_coverage_report e p = Inr r \<and> co_environment r = mode \<and>
        now - co_time r \<in> {0 .. 300000000} \<and> co_violations r = 0)"

definition crypto_ready ::
    "crypto_env \<Rightarrow> crypto_config \<Rightarrow> int \<Rightarrow> snapshot option \<Rightarrow> string option \<Rightarrow> string option \<Rightarrow> bool" where
  "crypto_ready e cfg now snap ref coverage \<longleftrightarrow>
     may_trade e cfg now \<and> (\<exists>s. snap = Some s \<and> signal_ok e s ref (now div DAY_US)) \<and>
     coverage_ok e coverage (cc_mode cfg) now"

lemma live_granted_iff: "check_live_authorization e path now = Inr None \<longleftrightarrow> live_granted e path now"
  by (auto simp: check_live_authorization_def live_granted_def live_grant_def Let_def LIVE_AUTHORIZATION_SCHEMA_VERSION_def
      split: option.splits sidecar.splits json.splits if_splits)

lemma count_field_nonneg: "count_field why v = Inr i \<Longrightarrow> 0 \<le> i"
  by (auto simp: count_field_def split: json.splits if_splits)

lemma coverage_counts: "coverage_from_dict raw = Inr r \<Longrightarrow> 0 \<le> co_violations r \<and> 0 \<le> co_positions r"
  by (auto simp: coverage_from_dict_def Let_def dest: count_field_nonneg split: if_splits sum.splits)

lemma loaded_counts: "load_stop_coverage_report e p = Inr r \<Longrightarrow> 0 \<le> co_violations r"
  by (auto simp: load_stop_coverage_report_def dest: coverage_counts split: sidecar.splits json.splits)

lemma quiet_iff: "in_quiet_interval (window_for_date (now div DAY_US) q) now \<longleftrightarrow> \<not> q * 60000000 \<le> now mod DAY_US"
proof -
  define d m where "d = now div DAY_US" and "m = now mod DAY_US"
  have "now = d * DAY_US + m" "0 \<le> m" by (simp_all add: d_def m_def DAY_US_def)
  then show ?thesis unfolding in_quiet_interval_def window_for_date_def d_def [symmetric] m_def [symmetric] by auto
qed

lemma verdicts_ready:
  assumes "c = new_tick_ctx cfg now snap ref coverage"
  shows "(\<forall>v \<in> set (butlast (gate_verdicts e c)). snd v = Inr None) \<longleftrightarrow> crypto_ready e cfg now snap ref coverage"
proof -
  have c: "tc_config c = cfg" "tc_now c = now" "tc_snapshot c = snap" "tc_ref_path c = ref" "tc_coverage_path c = coverage"
    "tc_date c = now div DAY_US" "tc_window c = window_for_date (now div DAY_US) (cc_quiet cfg)"
    by (simp_all add: assms new_tick_ctx_def current_session_date_def Let_def)
  have m: "check_triple_gate e cfg = None \<and> mode_verdict cfg = None \<and> live_verdict e c = Inr None \<and>
      \<not> in_quiet_interval (tc_window c) (tc_now c) \<longleftrightarrow> may_trade e cfg now"
    unfolding may_trade_def live_granted_iff [symmetric] c quiet_iff
    by (auto simp: check_triple_gate_def mode_verdict_def live_verdict_def c map_sum_def split: sum.splits)
  have s: "snapshot_verdict snap (now div DAY_US) = None \<and> with_snapshot (\<lambda>s. Inr (validate_watermark s (now div DAY_US))) c = Inr None \<and>
      with_snapshot (\<lambda>s. Inr (validate_signal_contract s)) c = Inr None \<and> digest_verdict e c = Inr None
      \<longleftrightarrow> (\<exists>s. snap = Some s \<and> signal_ok e s ref (now div DAY_US))"
    by (auto simp: snapshot_verdict_def with_snapshot_def validate_watermark_def validate_signal_contract_def digest_verdict_def
        signal_ok_def c Let_def watermark_for_session_def MAX_WATERMARK_STALENESS_DAYS_def algebra_simps
        split: option.splits if_splits sum.splits load_error.splits)
  have v: "coverage_report_verdict e c = Inr None \<longleftrightarrow> coverage_ok e coverage (cc_mode cfg) now"
    by (auto simp: coverage_report_verdict_def coverage_verdict_def coverage_ok_def is_fresh_def c dest: loaded_counts
        split: option.splits sum.splits load_error.splits if_splits)
  from m s v c show ?thesis by (auto simp: gate_verdicts_def verdicts_def crypto_ready_def)
qed

text \<open>C23: The gates of a crypto tick settle it in their order, whatever pipeline runs them that keeps
  the order of its jobs: the first gate that raises is what the tick raises; otherwise the first gate
  that refuses gives the reason, the gates up to it are recorded as run and those after it as
  skipped, entries are allowed exactly when no gate refused, and exits always.\<close>

theorem crypto_tick_settles:
  assumes "keeps_order run"
  shows "map_sum id (\<lambda>t. (tr_reason t, tr_steps t, tr_entries t, tr_exits t)) (evaluate_crypto_tick e run cfg now snap ref coverage) =
    map_sum id (\<lambda>(r, steps). (r, steps, r = None, True)) (settle (gate_verdicts e (new_tick_ctx cfg now snap ref coverage)))"
  using tick_settles [OF assms, of e cfg now snap ref coverage]
  by (cases "evaluate_crypto_tick e run cfg now snap ref coverage";
      cases "settle (gate_verdicts e (new_tick_ctx cfg now snap ref coverage))") auto

lemma trust_anchor_last:
  "gate_verdicts e c = butlast (gate_verdicts e c) @ [(''TrustAnchorGateJob'', Inr (Some NoTrustAnchor))]"
  by (simp add: gate_verdicts_def verdicts_def ENTRY_AUTHORIZATION_TRUST_ANCHOR_READY_def)

lemma anchor_is_last:
  "check_triple_gate e cfg \<noteq> Some NoTrustAnchor" "mode_verdict cfg \<noteq> Some NoTrustAnchor"
  "live_verdict e c \<noteq> Inr (Some NoTrustAnchor)" "snapshot_verdict snap day \<noteq> Some NoTrustAnchor"
  "with_snapshot (\<lambda>s. Inr (validate_watermark s day)) c \<noteq> Inr (Some NoTrustAnchor)"
  "with_snapshot (\<lambda>s. Inr (validate_signal_contract s)) c \<noteq> Inr (Some NoTrustAnchor)"
  "digest_verdict e c \<noteq> Inr (Some NoTrustAnchor)" "coverage_report_verdict e c \<noteq> Inr (Some NoTrustAnchor)"
         apply (simp add: check_triple_gate_def)
        apply (simp add: mode_verdict_def)
       apply (simp add: live_verdict_def map_sum_def split: sum.split)
      apply (simp add: snapshot_verdict_def split: option.split)
     apply (simp add: with_snapshot_def validate_watermark_def Let_def split: option.split)
    apply (simp add: with_snapshot_def validate_signal_contract_def split: option.split)
   apply (simp add: digest_verdict_def with_snapshot_def split: option.split sum.split load_error.split)
  apply (simp add: coverage_report_verdict_def coverage_verdict_def split: option.split sum.split load_error.split)
  done

lemma others_keep_anchor: "\<forall>v \<in> set (butlast (gate_verdicts e c)). snd v \<noteq> Inr (Some NoTrustAnchor)"
  by (simp add: gate_verdicts_def verdicts_def anchor_is_last)

lemma tick_reasons:
  assumes "keeps_order run" and "evaluate_crypto_tick e run cfg now snap ref coverage = Inr t"
  shows "tr_reason t \<noteq> None \<and> (tr_reason t = Some NoTrustAnchor \<longleftrightarrow> crypto_ready e cfg now snap ref coverage) \<and>
    (snd (List.last (tr_steps t)) = False \<longleftrightarrow> tr_reason t = Some NoTrustAnchor)"
proof -
  let ?c = "new_tick_ctx cfg now snap ref coverage"
  have "settle (gate_verdicts e ?c) = Inr (tr_reason t, tr_steps t)"
    using tick_settles(1) [OF assms(1), of e cfg now snap ref coverage] assms(2) by simp
  then have "settle (butlast (gate_verdicts e ?c) @ [(''TrustAnchorGateJob'', Inr (Some NoTrustAnchor))]) = Inr (tr_reason t, tr_steps t)"
    using trust_anchor_last by metis
  with settle_last [OF this others_keep_anchor] verdicts_ready [of ?c cfg now snap ref coverage e] show ?thesis
    by blast
qed

text \<open>C24: No crypto tick allows an entry while the entry authorization's trust anchor is missing,
  whatever the configuration, the files and the signal; it always leaves exits open. Its reason is
  the missing trust anchor exactly when everything else is in order: enabled three times over, in
  paper mode or in live mode under an authorization that covers the instant, past the quiet
  interval, with a snapshot of the day whose watermark, fingerprints and referenced digest check,
  and a fresh stop coverage report of the same environment without violations.\<close>

theorem crypto_entries_wait_for_anchor:
  assumes "keeps_order run" and "evaluate_crypto_tick e run cfg now snap ref coverage = Inr t"
  shows "\<not> tr_entries t \<and> tr_exits t \<and> (tr_reason t = Some NoTrustAnchor \<longleftrightarrow> crypto_ready e cfg now snap ref coverage)"
  using tick_reasons [OF assms] tick_settles(2) [OF assms] by simp

section \<open>The audit of a session\<close>

definition no_stats :: gate_stats where "no_stats = \<lparr>gs_ran = 0, gs_skipped = 0\<rparr>"

lemma stats_empty: "gs_ran (dget [] n no_stats) = 0" "gs_skipped (dget [] n no_stats) = 0"
  by (simp_all add: dget_def no_stats_def)

lemma count_steps:
  "gs_ran (dget (foldl count_step d steps) n no_stats) = gs_ran (dget d n no_stats) + count_list steps (n, False)"
  "gs_skipped (dget (foldl count_step d steps) n no_stats) = gs_skipped (dget d n no_stats) + count_list steps (n, True)"
  by (induction steps arbitrary: d) (auto simp: count_step_def Let_def no_stats_def)

lemma count_ticks:
  "gs_ran (dget (foldl (\<lambda>d t. foldl count_step d (tr_steps t)) d ticks) n no_stats) =
     gs_ran (dget d n no_stats) + (\<Sum>t\<leftarrow>ticks. count_list (tr_steps t) (n, False))"
  "gs_skipped (dget (foldl (\<lambda>d t. foldl count_step d (tr_steps t)) d ticks) n no_stats) =
     gs_skipped (dget d n no_stats) + (\<Sum>t\<leftarrow>ticks. count_list (tr_steps t) (n, True))"
  by (induction ticks arbitrary: d) (simp_all add: count_steps)

lemma count_list_split: "count_list steps (n, False) + count_list steps (n, True) = count_list (map fst steps) n"
  by (induction steps) auto

lemma count_list_last:
  assumes "distinct (map fst steps)" and "steps \<noteq> []"
  shows "count_list steps (fst (List.last steps), False) = (if snd (List.last steps) then 0 else 1)"
proof -
  obtain xs n b where steps: "steps = xs @ [(n, b)]" using assms(2) by (metis rev_exhaust surj_pair)
  with assms(1) have "(n, False) \<notin> set xs" by force
  then show ?thesis by (simp add: steps count_list_0_iff)
qed

lemma count_list_distinct: "distinct xs \<Longrightarrow> x \<in> set xs \<Longrightarrow> count_list xs x = 1"
  by (induction xs) (auto simp: count_list_0_iff)

definition gate_names :: "string list" where
  "gate_names = map gj_name (gate_jobs \<lparr>ce_file = \<lambda>p. Missing, ce_environ = [], ce_hash = py_repr, ce_stamp = \<lambda>t. [], ce_day = \<lambda>d. []\<rparr>)"

text \<open>A result some tick gave.\<close>

definition crypto_tick_gave :: "pipeline \<Rightarrow> tick_result \<Rightarrow> bool" where
  "crypto_tick_gave run t \<longleftrightarrow> (\<exists>e cfg now snap ref coverage. evaluate_crypto_tick e run cfg now snap ref coverage = Inr t)"

lemma names_of_verdicts: "map fst (gate_verdicts e c) = gate_names"
  by (simp add: gate_verdicts_def verdicts_def gate_names_def gate_jobs_def gate_of_def)

lemma gate_names_distinct: "distinct gate_names \<and> gate_names \<noteq> [] \<and> List.last gate_names = ''TrustAnchorGateJob''"
  by (simp add: gate_names_def gate_jobs_def gate_of_def)

lemma tick_steps:
  assumes "keeps_order run" and "crypto_tick_gave run t"
  shows "map fst (tr_steps t) = gate_names" and "\<not> tr_entries t"
    and "count_list (tr_steps t) (''TrustAnchorGateJob'', False) = (if tr_reason t = Some NoTrustAnchor then 1 else 0)"
proof -
  obtain e cfg now snap ref coverage where t: "evaluate_crypto_tick e run cfg now snap ref coverage = Inr t"
    using assms(2) by (auto simp: crypto_tick_gave_def)
  let ?c = "new_tick_ctx cfg now snap ref coverage"
  from tick_settles(1) [OF assms(1), of e cfg now snap ref coverage] t
  have "settle (gate_verdicts e ?c) = Inr (tr_reason t, tr_steps t)" by simp
  from settle_names [OF this] show names: "map fst (tr_steps t) = gate_names" by (simp add: names_of_verdicts)
  from tick_reasons [OF assms(1) t] tick_settles(2) [OF assms(1) t] show "\<not> tr_entries t" by simp
  have ne: "tr_steps t \<noteq> []" using names gate_names_distinct by auto
  then have "fst (List.last (tr_steps t)) = ''TrustAnchorGateJob''"
    using names gate_names_distinct by (metis last_map)
  then show "count_list (tr_steps t) (''TrustAnchorGateJob'', False) = (if tr_reason t = Some NoTrustAnchor then 1 else 0)"
    using count_list_last [of "tr_steps t"] ne names gate_names_distinct tick_reasons [OF assms(1) t] by auto
qed

text \<open>The audit in a session's bundle accounts for every tick: each gate ran or was skipped
  once per tick, no tick counts as allowed, and the trust anchor's gate ran exactly in the ticks
  that only the missing trust anchor blocked.\<close>

theorem crypto_audit_accounts:
  assumes "keeps_order run" and "\<forall>t \<in> set ticks. crypto_tick_gave run t"
  shows "let b = build_session_bundle e cfg day ticks snap ref coverage; stats = (\<lambda>n. dget (bn_audit b) n no_stats) in
    (\<forall>n \<in> set gate_names. gs_ran (stats n) + gs_skipped (stats n) = bn_ticks b) \<and>
    bn_allowed b = 0 \<and> bn_blocked b = bn_ticks b \<and>
    gs_ran (stats ''TrustAnchorGateJob'') = length (filter (\<lambda>t. tr_reason t = Some NoTrustAnchor) ticks)"
proof -
  have per: "(\<Sum>t\<leftarrow>ticks. count_list (tr_steps t) (n, False)) + (\<Sum>t\<leftarrow>ticks. count_list (tr_steps t) (n, True)) = length ticks"
    if "n \<in> set gate_names" for n
  proof -
    have "count_list (map fst (tr_steps t)) n = 1" if "t \<in> set ticks" for t
      using assms that \<open>n \<in> set gate_names\<close> tick_steps(1) [OF assms(1)] gate_names_distinct
      by (simp add: count_list_distinct)
    then have "(\<Sum>t\<leftarrow>ticks. count_list (tr_steps t) (n, False) + count_list (tr_steps t) (n, True)) = length ticks"
      unfolding count_list_split by (induction ticks) auto
    then show ?thesis by (simp add: sum_list_addf)
  qed
  have allowed: "\<forall>t \<in> set ticks. \<not> tr_entries t" using assms tick_steps(2) by blast
  have "(\<Sum>t\<leftarrow>ticks. count_list (tr_steps t) (''TrustAnchorGateJob'', False)) =
      length (filter (\<lambda>t. tr_reason t = Some NoTrustAnchor) ticks)"
    using assms(2) by (induction ticks) (simp_all add: tick_steps(3) [OF assms(1)])
  with per allowed show ?thesis
    by (simp add: build_session_bundle_def aggregate_gate_stats_def count_ticks stats_empty filter_empty_conv)
qed

section \<open>What a tick may raise\<close>

lemma settle_raises:
  "settle vs = Inl x \<Longrightarrow> \<exists>v \<in> set (takeWhile (\<lambda>v. \<nexists>why. snd v = Inr (Some why)) vs). snd v = Inl x"
proof (induction vs rule: settle.induct)
  case (4 n vs)
  then show ?case by (cases "settle vs") auto
qed auto

lemma py_strip_Nil: "py_strip s = [] \<longleftrightarrow> (\<forall>c \<in> set s. is_space c)"
proof -
  have "py_strip s = [] \<longleftrightarrow> (\<forall>c \<in> set (dropWhile is_space s). is_space c)"
    by (simp add: py_strip_def dropWhile_eq_Nil_conv)
  also have "\<dots> \<longleftrightarrow> (\<forall>c \<in> set s. is_space c)"
    by (metis dropWhile_eq_Nil_conv hd_dropWhile hd_in_set set_dropWhileD)
  finally show ?thesis .
qed

lemma sha256_nonblank: "looks_like_sha256_hex h \<Longrightarrow> py_strip (py_lower h) \<noteq> []"
proof -
  assume h: "looks_like_sha256_hex h"
  then obtain c where "c \<in> set h" "is_hex c"
    by (cases h) (auto simp: looks_like_sha256_hex_def)
  have "list_all (\<lambda>c. 48 \<le> (of_char c :: nat)) ''0123456789abcdefABCDEF''" by simp
  from this [unfolded list_all_iff, THEN bspec, OF \<open>is_hex c\<close> [unfolded is_hex_def]]
  have "\<not> is_space (lower_char c)" by (auto simp: is_space_def lower_char_def Let_def)
  with \<open>c \<in> set h\<close> show ?thesis unfolding py_strip_Nil py_lower_def by auto
qed

lemma fingerprint_nonblank: "is_valid_fingerprint v \<Longrightarrow> py_strip (py_str v) \<noteq> []"
  by (auto simp: is_valid_fingerprint_def split: json.splits)

lemma check_ref_raises:
  "check_ref_fields r = Some x \<Longrightarrow> py_strip (ar_digest r) \<noteq> [] \<Longrightarrow> py_strip (ar_producer r) \<noteq> [] \<Longrightarrow>
   x = ValueError \<and> py_strip (ar_path r) = []"
  by (simp add: check_ref_fields_def split: if_splits)

lemma ref_from_dict_escapes:
  assumes "ref_from_dict e own raw = Inl (Escaped x)"
  shows "x = ValueError \<and> (\<exists>s. ref_path own (dget raw ''artifact_path'' JNull) = Some s \<and> py_strip s = [])"
proof -
  let ?producer = "dget raw ''producer_run_id'' JNull"
  from assms have ok: "is_valid_fingerprint ?producer"
    by (auto simp: ref_from_dict_def Let_def split: if_splits)
  from assms obtain h where h: "dget raw ''expected_digest'' JNull = JStr h" "looks_like_sha256_hex h"
    by (auto simp: ref_from_dict_def Let_def split: if_splits json.splits)
  from assms ok h obtain s where s: "ref_path own (dget raw ''artifact_path'' JNull) = Some s"
    by (auto simp: ref_from_dict_def Let_def split: if_splits option.splits)
  from assms ok h s have "check_ref_fields \<lparr>ar_digest = py_lower h, ar_path = s,
      ar_schema = dget raw ''schema_version'' JNull, ar_producer = py_str ?producer\<rparr> = Some x"
    by (simp add: ref_from_dict_def Let_def split: if_splits option.splits)
  from check_ref_raises [OF this] sha256_nonblank [OF h(2)] fingerprint_nonblank [OF ok] s show ?thesis by simp
qed

lemma ref_escapes:
  "load_signal_artifact_ref e p = Inl (Escaped x) \<Longrightarrow>
   x = ValueError \<and> (ce_file e p = NotUtf8 \<or> (\<exists>raw s. ce_file e p = Holds (JObj raw) \<and>
     ref_path p (dget raw ''artifact_path'' JNull) = Some s \<and> py_strip s = []))"
  by (auto simp: load_signal_artifact_ref_def dest: ref_from_dict_escapes split: sidecar.splits json.splits)

lemma coverage_escapes:
  "load_stop_coverage_report e p = Inl (Escaped x) \<Longrightarrow>
   x = ValueError \<and> ce_file e p = NotUtf8 \<or>
   x = TypeError \<and> (\<exists>raw xs kvs. ce_file e p = Holds (JObj raw) \<and> dget raw ''environment'' JNull \<in> {JList xs, JObj kvs})"
  by (auto simp: load_stop_coverage_report_def coverage_from_dict_def coverage_time_def known_environment_def count_field_def Let_def
      split: sidecar.splits json.splits if_splits option.splits sum.splits)

lemma live_raises: "check_live_authorization e path now = Inl x \<Longrightarrow> x = ValueError \<and> (\<exists>p. path = Some p \<and> ce_file e p = NotUtf8)"
  by (auto simp: check_live_authorization_def split: option.splits sidecar.splits json.splits)

text \<open>The sidecar contents that a loader lets an exception through for.\<close>

definition bad_sidecar :: "crypto_env \<Rightarrow> string \<Rightarrow> bool" where
  "bad_sidecar e p \<longleftrightarrow>
     (case ce_file e p of
        NotUtf8 \<Rightarrow> True
      | Holds (JObj raw) \<Rightarrow>
          (case dget raw ''environment'' JNull of JList xs \<Rightarrow> True | JObj kvs \<Rightarrow> True | _ \<Rightarrow> False) \<or>
          (case ref_path p (dget raw ''artifact_path'' JNull) of Some s \<Rightarrow> py_strip s = [] | None \<Rightarrow> False)
      | _ \<Rightarrow> False)"

lemma verdict_raises:
  assumes "v \<in> set (takeWhile (\<lambda>v. \<nexists>why. snd v = Inr (Some why)) (gate_verdicts e c))" and "snd v = Inl x"
  shows "(x = ValueError \<or> x = TypeError) \<and>
    (\<exists>p. Some p \<in> {tc_ref_path c, tc_coverage_path c, cc_live_path (tc_config c)} \<and> bad_sidecar e p)"
proof -
  have mem: "v \<in> set (gate_verdicts e c)" using assms(1) by (rule set_takeWhileD [THEN conjunct1])
  have "v \<in> set (take 4 (gate_verdicts e c))" if "tc_snapshot c = None"
    using assms(1) that
    by (auto simp: gate_verdicts_def verdicts_def snapshot_verdict_def split: if_splits)
  with mem assms(2) have "live_verdict e c = Inl x \<or> tc_snapshot c \<noteq> None \<and> (digest_verdict e c = Inl x \<or> coverage_report_verdict e c = Inl x)"
    by (cases "tc_snapshot c") (auto simp: gate_verdicts_def verdicts_def with_snapshot_def)
  then show ?thesis
  proof (elim disjE conjE)
    assume "live_verdict e c = Inl x"
    then have "check_live_authorization e (cc_live_path (tc_config c)) (tc_now c) = Inl x"
      by (auto simp: live_verdict_def map_sum_def split: if_splits sum.splits)
    from live_raises [OF this] show ?thesis by (auto simp: bad_sidecar_def)
  next
    assume "tc_snapshot c \<noteq> None" "digest_verdict e c = Inl x"
    then obtain p where p: "tc_ref_path c = Some p" "load_signal_artifact_ref e p = Inl (Escaped x)"
      by (auto simp: digest_verdict_def with_snapshot_def split: option.splits sum.splits load_error.splits)
    from ref_escapes [OF p(2)] p(1) show ?thesis by (auto simp: bad_sidecar_def)
  next
    assume "tc_snapshot c \<noteq> None" "coverage_report_verdict e c = Inl x"
    then obtain p where p: "tc_coverage_path c = Some p" "load_stop_coverage_report e p = Inl (Escaped x)"
      by (auto simp: coverage_report_verdict_def split: option.splits sum.splits load_error.splits)
    from coverage_escapes [OF p(2)] p(1) show ?thesis by (auto simp: bad_sidecar_def)
  qed
qed


section \<open>Witnesses\<close>

definition demo_hash :: string where "demo_hash = replicate 64 CHR ''a''"

definition demo_files :: "string \<Rightarrow> sidecar" where
  "demo_files p =
     (if p = ''ref.json'' then Holds (JObj [(''schema_version'', JInt 1), (''producer_run_id'', JStr ''run-7''),
        (''expected_digest'', JStr demo_hash)])
      else if p = ''coverage.json'' then Holds (JObj [(''schema_version'', JInt 1),
        (''timestamp_utc'', JStr ''2026-06-30T13:29:00+00:00''), (''environment'', JStr ''paper''),
        (''account_id'', JStr ''acct''), (''positions_covered'', JInt 2), (''violations'', JInt 0),
        (''source_version'', JStr ''v1'')])
      else Missing)"

definition crypto_demo_env :: crypto_env where
  "crypto_demo_env = \<lparr>ce_file = demo_files, ce_environ = [(''RENQUANT_CRYPTO_TRADING'', ''on'')],
     ce_hash = \<lambda>j. demo_hash, ce_stamp = \<lambda>t. [], ce_day = \<lambda>d. []\<rparr>"

definition demo_config :: crypto_config where
  "demo_config = \<lparr>cc_enabled = True, cc_cadence = 900, cc_mode = ''paper'', cc_kill_path = None, cc_topic = ''t'',
     cc_budget = Num 1000, cc_drawdown = Num 10, cc_quiet = 15, cc_live_path = None\<rparr>"

definition demo_snapshot :: snapshot where
  "demo_snapshot = \<lparr>sn_date = 20634, sn_watermark = \<lparr>wall = 1782777600000000, utc_offset = Some 0\<rparr>,
     sn_universe = JStr ''u1'', sn_model = JStr ''m1'', sn_calibrator = JStr ''c1''\<rparr>"

definition crypto_demo_tick :: "py_error + tick_result" where
  "crypto_demo_tick = evaluate_crypto_tick crypto_demo_env in_order demo_config 1782826200000000 (Some demo_snapshot) (Some ''ref.json'') (Some ''coverage.json'')"

lemma in_order_keeps_order: "keeps_order in_order"
  by (simp add: keeps_order_def)

lemma crypto_demo_gives:
  "crypto_demo_tick = Inr \<lparr>tr_date = 20634, tr_now = 1782826200000000, tr_entries = False, tr_exits = True,
     tr_reason = Some NoTrustAnchor, tr_digest = Some demo_hash, tr_quiet = False, tr_killed = False,
     tr_steps = map (\<lambda>n. (n, False)) gate_names\<rparr>"
  by code_simp

text \<open>The demo tick with a stop coverage report whose environment is a list.\<close>

definition crypto_bad_env :: crypto_env where
  "crypto_bad_env = crypto_demo_env\<lparr>ce_file := \<lambda>p. if p = ''coverage.json'' then Holds (JObj [(''schema_version'', JInt 1),
        (''timestamp_utc'', JStr ''2026-06-30T13:29:00+00:00''), (''environment'', JList [])]) else demo_files p\<rparr>"

definition crypto_bad_tick :: "py_error + tick_result" where
  "crypto_bad_tick = evaluate_crypto_tick crypto_bad_env in_order demo_config 1782826200000000 (Some demo_snapshot) (Some ''ref.json'') (Some ''coverage.json'')"

lemma crypto_bad_tick_raises: "crypto_bad_tick = Inl TypeError"
  by code_simp

theorem crypto_tick_settles_witness:
  "keeps_order in_order \<and>
   map_sum id (\<lambda>t. (tr_reason t, tr_steps t, tr_entries t, tr_exits t)) crypto_demo_tick =
   map_sum id (\<lambda>(r, steps). (r, steps, r = None, True))
     (settle (gate_verdicts crypto_demo_env (new_tick_ctx demo_config 1782826200000000 (Some demo_snapshot) (Some ''ref.json'') (Some ''coverage.json''))))"
  unfolding crypto_demo_tick_def using crypto_tick_settles [OF in_order_keeps_order] in_order_keeps_order by blast

theorem crypto_entries_wait_for_anchor_witness:
  "crypto_ready crypto_demo_env demo_config 1782826200000000 (Some demo_snapshot) (Some ''ref.json'') (Some ''coverage.json'')"
  using crypto_entries_wait_for_anchor [OF in_order_keeps_order crypto_demo_gives [unfolded crypto_demo_tick_def]] by simp


theorem crypto_audit_accounts_witness:
  "let b = build_session_bundle crypto_demo_env demo_config 20634 [projr crypto_demo_tick] None None None in
   bn_ticks b = 1 \<and> bn_allowed b = 0 \<and> gs_ran (dget (bn_audit b) ''TrustAnchorGateJob'' no_stats) = 1"
proof -
  have "crypto_tick_gave in_order (projr crypto_demo_tick)"
    unfolding crypto_tick_gave_def using crypto_demo_gives crypto_demo_tick_def by (metis sum.sel(2))
  then have "\<forall>t \<in> set [projr crypto_demo_tick]. crypto_tick_gave in_order t" by simp
  from crypto_audit_accounts [OF in_order_keeps_order this, of crypto_demo_env demo_config 20634 None None None] show ?thesis
    by (simp add: Let_def crypto_demo_gives build_session_bundle_def)
qed

end
