(* ===== verification/EntryDecision.thy ===== *)
theory EntryDecision
  imports PyTime "HOL-Library.Product_Lexorder"
begin

text \<open>
  \<open>intraday_entry_decision.py\<close>: which names the intraday loop may enter, under the day's guardrails.
  Fields that the code checks the type of are JSON values; a time of day is microseconds since
  midnight (\<open>None\<close>: not a time), an instant a \<open>datetime\<close> (\<open>None\<close>: not a datetime), and the reading
  of an instant as New York wall clock is an argument. A mapping keyed by tickers is keyed by
  their JSON values; what is not hashable cannot be a key.
\<close>

section \<open>Checks of the inputs\<close>

datatype entry_error = InvalidDecisionInput | PyError py_error

definition HALT_ENV :: string where "HALT_ENV = ''RENQUANT_RQ105_HALT''"

definition is_finite :: "json \<Rightarrow> bool" where
  "is_finite v = (case v of JInt i \<Rightarrow> True | JFloat x \<Rightarrow> is_num x | _ \<Rightarrow> False)"

text \<open>The value of a finite number, and of an integer.\<close>

definition val :: "json \<Rightarrow> rat" where
  "val v = (case v of JInt i \<Rightarrow> of_int i | JFloat x \<Rightarrow> num_of x | _ \<Rightarrow> 0)"

definition int_val :: "json \<Rightarrow> int" where
  "int_val v = (case v of JInt i \<Rightarrow> i | _ \<Rightarrow> 0)"

definition count_ok :: "json \<Rightarrow> bool" where
  "count_ok v = (case v of JInt i \<Rightarrow> 0 \<le> i | _ \<Rightarrow> False)"

record guardrails =
  gr_max_entries :: json
  gr_max_notional :: json
  gr_first :: json
  gr_last :: json
  gr_positions :: json
  gr_open :: "int option"
  gr_close :: "int option"

definition MINUTE_US :: int where "MINUTE_US = 60 * 1000000"

definition default_guardrails :: guardrails where
  "default_guardrails =
     \<lparr>gr_max_entries = JInt 2, gr_max_notional = JFloat (Num 1500), gr_first = JInt 15, gr_last = JInt 15,
      gr_positions = JInt 8, gr_open = Some ((9 * 60 + 30) * MINUTE_US), gr_close = Some (16 * 60 * MINUTE_US)\<rparr>"

text \<open>\<open>t.hour * 60 + t.minute\<close>\<close>

definition minute_of :: "int \<Rightarrow> int" where
  "minute_of t = t div MINUTE_US"

definition validate_guardrails :: "guardrails \<Rightarrow> entry_error option" where
  "validate_guardrails g =
     (if \<not> count_ok (gr_max_entries g) then Some InvalidDecisionInput
      else if \<not> count_ok (gr_positions g) then Some InvalidDecisionInput
      else if \<not> is_finite (gr_max_notional g) \<or> val (gr_max_notional g) < 0 then Some InvalidDecisionInput
      else if \<not> count_ok (gr_first g) then Some InvalidDecisionInput
      else if \<not> count_ok (gr_last g) then Some InvalidDecisionInput
      else (case (gr_open g, gr_close g) of
          (Some a, Some b) \<Rightarrow>
            if b \<le> a then Some InvalidDecisionInput
            else if minute_of b - minute_of a \<le> int_val (gr_first g) + int_val (gr_last g) then Some InvalidDecisionInput
            else None
        | _ \<Rightarrow> Some InvalidDecisionInput))"

record day_state =
  ds_entries :: json
  ds_notional :: json
  ds_held :: json
  ds_size :: json

definition validate_state :: "day_state \<Rightarrow> entry_error option" where
  "validate_state d =
     (if \<not> count_ok (ds_entries d) then Some InvalidDecisionInput
      else if \<not> count_ok (ds_held d) then Some InvalidDecisionInput
      else if \<not> is_finite (ds_notional d) \<or> val (ds_notional d) < 0 then Some InvalidDecisionInput
      else if \<not> is_finite (ds_size d) \<or> val (ds_size d) \<le> 0 then Some InvalidDecisionInput
      else None)"

text \<open>The wall clock in New York, for an aware datetime.\<close>

definition as_et :: "(datetime \<Rightarrow> int) \<Rightarrow> datetime option \<Rightarrow> entry_error + int" where
  "as_et et now =
     (case now of
        None \<Rightarrow> Inl InvalidDecisionInput
      | Some t \<Rightarrow> if utc_offset t = None then Inl InvalidDecisionInput else Inr (et t))"

section \<open>The session's block\<close>

datatype rejection = Halted | OutsideWindow | EntryBudget | NotionalBudget | PositionCap
  | BlankTicker | DuplicateTicker | NotBatchAdmitted | QuoteCensored | IntradayVeto | ScoreNotFinite
  | NoUsableMid | MidNotFinite | ReturnNotFinite

text \<open>\<open>time(m // 60, m % 60)\<close>: an hour out of range raises.\<close>

definition time_of_minutes :: "int \<Rightarrow> entry_error + int" where
  "time_of_minutes m = (if 0 \<le> m \<and> m < 24 * 60 then Inr (m * MINUTE_US) else Inl (PyError ValueError))"

definition plus_minutes :: "int \<Rightarrow> int \<Rightarrow> entry_error + int" where
  "plus_minutes t minutes = time_of_minutes (minute_of t + minutes)"

definition minus_minutes :: "int \<Rightarrow> int \<Rightarrow> entry_error + int" where
  "minus_minutes t minutes = time_of_minutes (minute_of t - minutes)"

definition time_of_day :: "int \<Rightarrow> int" where
  "time_of_day now = now mod (24 * 60 * MINUTE_US)"

text \<open>\<open>or\<close> evaluates the second bound only when the first does not hold.\<close>

definition outside_window :: "int \<Rightarrow> guardrails \<Rightarrow> entry_error + bool" where
  "outside_window now g =
     (case plus_minutes (the (gr_open g)) (int_val (gr_first g)) of Inl x \<Rightarrow> Inl x | Inr a \<Rightarrow>
      if time_of_day now < a then Inr True else
      case minus_minutes (the (gr_close g)) (int_val (gr_last g)) of Inl x \<Rightarrow> Inl x | Inr b \<Rightarrow>
      Inr (b \<le> time_of_day now))"

definition session_block :: "int \<Rightarrow> guardrails \<Rightarrow> day_state \<Rightarrow> string dict \<Rightarrow> entry_error + rejection option" where
  "session_block now g d env =
     (if map_of env HALT_ENV = Some ''1'' then Inr (Some Halted)
      else case outside_window now g of Inl x \<Rightarrow> Inl x | Inr outside \<Rightarrow>
        if outside then Inr (Some OutsideWindow)
        else if int_val (gr_max_entries g) \<le> int_val (ds_entries d) then Inr (Some EntryBudget)
        else if val (gr_max_notional g) \<le> val (ds_notional d) then Inr (Some NotionalBudget)
        else if int_val (gr_positions g) \<le> int_val (ds_held d) then Inr (Some PositionCap)
        else Inr None)"

section \<open>Admission\<close>

record candidate =
  ec_ticker :: json
  ec_batch_admitted :: json
  ec_return :: json
  ec_score :: json
  ec_quote :: json
  ec_mid :: json

definition name_key :: "candidate \<Rightarrow> string" where
  "name_key c = (case ec_ticker c of JStr s \<Rightarrow> py_strip s | _ \<Rightarrow> [])"

definition seen :: "candidate list \<Rightarrow> string \<Rightarrow> nat" where
  "seen cs k = count_list (map name_key cs) k"

text \<open>The first failing check names the rejection.\<close>

definition admission :: "candidate list \<Rightarrow> candidate \<Rightarrow> rejection option" where
  "admission cs c =
     (if name_key c = [] then Some BlankTicker
      else if 1 < seen cs (name_key c) then Some DuplicateTicker
      else if \<not> truthy (ec_batch_admitted c) then Some NotBatchAdmitted
      else if ec_quote c \<noteq> JStr ''fresh'' then Some QuoteCensored
      else if ec_score c = JNull then Some IntradayVeto
      else if \<not> is_finite (ec_score c) then Some ScoreNotFinite
      else if val (ec_score c) \<le> 0 then Some IntradayVeto
      else if ec_mid c = JNull then Some NoUsableMid
      else if \<not> is_finite (ec_mid c) then Some MidNotFinite
      else if val (ec_mid c) \<le> 0 then Some NoUsableMid
      else if ec_return c \<noteq> JNull \<and> \<not> is_finite (ec_return c) then Some ReturnNotFinite
      else None)"

text \<open>The key a rejection is filed under.\<close>

definition rejection_key :: "candidate \<Rightarrow> json" where
  "rejection_key c = (case ec_ticker c of JStr s \<Rightarrow> JStr s | _ \<Rightarrow> JStr [])"

type_synonym rejections = "(json \<times> rejection) list"

definition screen :: "candidate list \<Rightarrow> candidate \<Rightarrow> candidate list \<times> rejections \<Rightarrow> candidate list \<times> rejections" where
  "screen cs c s =
     (case admission cs c of
        Some why \<Rightarrow> (fst s, AList.update (rejection_key c) why (snd s))
      | None \<Rightarrow> (fst s @ [c], snd s))"

text \<open>\<open>key=lambda c: (-(c.intraday_score or 0.0), c.ticker)\<close>\<close>

definition ticker_text :: "candidate \<Rightarrow> string" where
  "ticker_text c = (case ec_ticker c of JStr s \<Rightarrow> s | _ \<Rightarrow> [])"

definition rank_key :: "candidate \<Rightarrow> rat \<times> string" where
  "rank_key c = (- val (py_or (ec_score c) (JFloat (Num 0))), ticker_text c)"

section \<open>The plan\<close>

record intent =
  in_ticker :: json
  in_limit :: json
  in_budget :: json
  in_score :: json
  in_return :: json

definition intent_of :: "json \<Rightarrow> candidate \<Rightarrow> intent" where
  "intent_of per c = \<lparr>in_ticker = ec_ticker c, in_limit = ec_mid c, in_budget = per, in_score = ec_score c,
     in_return = ec_return c\<rparr>"

record entry_plan =
  pl_intents :: "intent list"
  pl_rejections :: rejections
  pl_block :: "rejection option"
  pl_guardrails :: guardrails

record room =
  rm_entries :: int
  rm_notional :: rat
  rm_slots :: int
  rm_intents :: "intent list"
  rm_rejections :: rejections

definition budget_check :: "guardrails \<Rightarrow> json \<Rightarrow> room \<Rightarrow> rejection option" where
  "budget_check g per r =
     (if int_val (gr_max_entries g) \<le> rm_entries r then Some EntryBudget
      else if val (gr_max_notional g) < rm_notional r + val per then Some NotionalBudget
      else if int_val (gr_positions g) \<le> rm_slots r then Some PositionCap
      else None)"

definition allocate :: "guardrails \<Rightarrow> json \<Rightarrow> room \<Rightarrow> candidate \<Rightarrow> room" where
  "allocate g per r c =
     (case budget_check g per r of
        Some why \<Rightarrow> r\<lparr>rm_rejections := AList.update (ec_ticker c) why (rm_rejections r)\<rparr>
      | None \<Rightarrow> \<lparr>rm_entries = rm_entries r + 1, rm_notional = rm_notional r + val per, rm_slots = rm_slots r + 1,
          rm_intents = rm_intents r @ [intent_of per c], rm_rejections = rm_rejections r\<rparr>)"

definition hashable :: "json \<Rightarrow> bool" where
  "hashable v = (case v of JList xs \<Rightarrow> False | JObj kvs \<Rightarrow> False | _ \<Rightarrow> True)"

definition block_all :: "guardrails \<Rightarrow> rejection \<Rightarrow> candidate list \<Rightarrow> entry_error + entry_plan" where
  "block_all g why cs =
     (if list_all (\<lambda>c. hashable (ec_ticker c)) cs
      then Inr \<lparr>pl_intents = [], pl_rejections = foldl (\<lambda>d c. AList.update (ec_ticker c) why d) [] cs,
        pl_block = Some why, pl_guardrails = g\<rparr>
      else Inl (PyError TypeError))"

definition plan_names :: "guardrails \<Rightarrow> day_state \<Rightarrow> candidate list \<Rightarrow> entry_plan" where
  "plan_names g d cs =
     (let (admitted, rejected) = fold (screen cs) cs ([], []);
          r = foldl (allocate g (ds_size d))
            \<lparr>rm_entries = int_val (ds_entries d), rm_notional = val (ds_notional d), rm_slots = int_val (ds_held d),
             rm_intents = [], rm_rejections = rejected\<rparr> (sort_key rank_key admitted) in
      \<lparr>pl_intents = rm_intents r, pl_rejections = rm_rejections r, pl_block = None, pl_guardrails = g\<rparr>)"

definition decide_entries ::
    "(datetime \<Rightarrow> int) \<Rightarrow> string dict \<Rightarrow> candidate list \<Rightarrow> datetime option \<Rightarrow> day_state \<Rightarrow> guardrails option \<Rightarrow>
     string dict option \<Rightarrow> entry_error + entry_plan" where
  "decide_entries et environ cs now d guardrails env =
     (let g = case guardrails of Some g \<Rightarrow> g | None \<Rightarrow> default_guardrails;
          e = case env of Some e \<Rightarrow> e | None \<Rightarrow> environ in
      case validate_guardrails g of Some x \<Rightarrow> Inl x | None \<Rightarrow>
      case validate_state d of Some x \<Rightarrow> Inl x | None \<Rightarrow>
      case as_et et now of Inl x \<Rightarrow> Inl x | Inr t \<Rightarrow>
      case session_block t g d e of Inl x \<Rightarrow> Inl x | Inr blocked \<Rightarrow>
      (case blocked of Some why \<Rightarrow> block_all g why cs | None \<Rightarrow> Inr (plan_names g d cs)))"

section \<open>Admission names one outcome\<close>

definition update_all :: "('c \<Rightarrow> json) \<Rightarrow> ('c \<Rightarrow> rejection) \<Rightarrow> rejections \<Rightarrow> 'c list \<Rightarrow> rejections" where
  "update_all f g = foldl (\<lambda>d c. AList.update (f c) (g c) d)"

lemma update_all_simps [simp]:
  "update_all f g d [] = d" "update_all f g d (cs @ [c]) = AList.update (f c) (g c) (update_all f g d cs)"
  by (simp_all add: update_all_def)

lemma update_all_other: "k \<notin> f ` set cs \<Longrightarrow> map_of (update_all f g d cs) k = map_of d k"
  by (induction cs rule: rev_induct) (auto simp: update_conv)

lemma update_all_hit:
  "k \<in> f ` set cs \<Longrightarrow> \<forall>c \<in> set cs. f c = k \<longrightarrow> g c = w \<Longrightarrow> map_of (update_all f g d cs) k = Some w"
  by (induction cs rule: rev_induct) (auto simp: update_conv)

lemma update_all_cong: "\<forall>c \<in> set cs. g c = g' c \<Longrightarrow> update_all f g d cs = update_all f g' d cs"
  by (induction cs rule: rev_induct) auto

lemma screened:
  "fold (screen cs) xs (as, d) =
   (as @ filter (\<lambda>c. admission cs c = None) xs,
    update_all rejection_key (\<lambda>c. the (admission cs c)) d (filter (\<lambda>c. admission cs c \<noteq> None) xs))"
proof (induction xs arbitrary: as d)
  case (Cons c xs)
  then show ?case by (cases "admission cs c") (simp_all add: screen_def update_all_def)
qed simp

lemma name_of_key: "rejection_key c = rejection_key c' \<Longrightarrow> name_key c = name_key c'"
  by (auto simp: rejection_key_def name_key_def py_strip_def split: json.splits)

lemma seen_twice:
  assumes "c \<in> set cs" "c' \<in> set cs" "c \<noteq> c'" "name_key c = name_key c'"
  shows "1 < seen cs (name_key c)"
proof -
  have "card {c, c'} \<le> card (set (filter (\<lambda>x. name_key x = name_key c) cs))"
    using assms by (intro card_mono) auto
  also have "\<dots> \<le> length (filter (\<lambda>x. name_key x = name_key c) cs)" by (rule card_length)
  also have "\<dots> = seen cs (name_key c)"
    by (induction cs) (auto simp: seen_def)
  finally show ?thesis using assms(3) by simp
qed

lemma key_determines:
  assumes "c \<in> set cs" "c' \<in> set cs" "rejection_key c = rejection_key c'"
  shows "admission cs c = admission cs c'"
proof (cases "c = c'")
  case False
  from name_of_key [OF assms(3)] have "name_key c = name_key c'" .
  with seen_twice [OF assms(1,2) False this] show ?thesis by (simp add: admission_def)
qed simp

lemma admitted_unique:
  "c \<in> set cs \<Longrightarrow> c' \<in> set cs \<Longrightarrow> admission cs c = None \<Longrightarrow> name_key c' = name_key c \<Longrightarrow> c' = c"
  using seen_twice by (fastforce simp: admission_def split: if_splits)

lemma admitted_ticker: "admission cs c = None \<Longrightarrow> \<exists>s. ec_ticker c = JStr s \<and> py_strip s \<noteq> []"
  by (auto simp: admission_def name_key_def split: if_splits json.splits)

lemma admitted_key: "admission cs c = None \<Longrightarrow> rejection_key c = ec_ticker c"
  using admitted_ticker [of cs c] by (auto simp: rejection_key_def)

lemma count_filter_map: "count_list (filter P xs) c \<le> count_list (map f xs) (f c)"
  by (induction xs) auto

lemma distinct_if_counts: "(\<And>c. count_list xs c \<le> 1) \<Longrightarrow> distinct xs"
proof (induction xs)
  case (Cons x xs)
  from Cons.prems [of x] have "x \<notin> set xs" by (auto simp: count_list_0_iff)
  moreover have "count_list xs c \<le> 1" for c using Cons.prems [of c] by (auto split: if_splits)
  ultimately show ?case using Cons.IH by simp
qed simp

lemma admitted_distinct: "distinct (filter (\<lambda>c. admission cs c = None) cs)"
proof -
  have "count_list (filter (\<lambda>c. admission cs c = None) cs) c \<le> 1" for c
  proof (cases "admission cs c = None")
    case True
    then have "count_list (map name_key cs) (name_key c) \<le> 1" by (simp add: admission_def seen_def split: if_splits)
    then show ?thesis using count_filter_map [of "\<lambda>c. admission cs c = None" cs c name_key] by simp
  qed (auto simp: count_list_0_iff)
  then show ?thesis by (rule distinct_if_counts)
qed

section \<open>The allocation\<close>

text \<open>How many more entries of one size fit.\<close>

definition capacity :: "guardrails \<Rightarrow> json \<Rightarrow> int \<Rightarrow> rat \<Rightarrow> int \<Rightarrow> nat" where
  "capacity g per entries notional slots =
     nat (min (int_val (gr_max_entries g) - entries)
       (min \<lfloor>(val (gr_max_notional g) - notional) / val per\<rfloor> (int_val (gr_positions g) - slots)))"

abbreviation fits :: "guardrails \<Rightarrow> json \<Rightarrow> room \<Rightarrow> nat" where
  "fits g per r \<equiv> capacity g per (rm_entries r) (rm_notional r) (rm_slots r)"

lemma budget_check_None:
  assumes "0 < val per"
  shows "budget_check g per r = None \<longleftrightarrow> 0 < fits g per r"
proof -
  have "1 \<le> \<lfloor>(val (gr_max_notional g) - rm_notional r) / val per\<rfloor> \<longleftrightarrow> rm_notional r + val per \<le> val (gr_max_notional g)"
    using assms by (simp add: le_floor_iff le_divide_eq algebra_simps)
  then show ?thesis by (auto simp: budget_check_def capacity_def)
qed

lemma capacity_step:
  assumes "0 < val per"
  shows "capacity g per (e + 1) (n + val per) (s + 1) = capacity g per e n s - 1"
proof -
  have "(val (gr_max_notional g) - (n + val per)) / val per = (val (gr_max_notional g) - n) / val per - 1"
    using assms by (simp add: field_simps)
  then have "\<lfloor>(val (gr_max_notional g) - (n + val per)) / val per\<rfloor> = \<lfloor>(val (gr_max_notional g) - n) / val per\<rfloor> - 1"
    by simp
  then show ?thesis by (simp add: capacity_def)
qed

lemma budget_check_rejections [simp]: "budget_check g per (r\<lparr>rm_rejections := d\<rparr>) = budget_check g per r"
  by (simp add: budget_check_def)

lemma allocation_full:
  assumes "budget_check g per r = Some why"
  shows "foldl (allocate g per) r cs = r\<lparr>rm_rejections := update_all ec_ticker (\<lambda>c. why) (rm_rejections r) cs\<rparr>"
proof (induction cs rule: rev_induct)
  case (snoc c cs)
  then show ?case by (simp add: allocate_def assms)
qed simp

text \<open>The first \<open>k\<close> fit; the others are rejected by the budget that is then exhausted.\<close>

lemma allocation:
  assumes "0 < val per"
  shows "\<exists>why. rm_intents (foldl (allocate g per) r cs) = rm_intents r @ map (intent_of per) (take (fits g per r) cs) \<and>
     rm_rejections (foldl (allocate g per) r cs) = update_all ec_ticker (\<lambda>c. why) (rm_rejections r) (drop (fits g per r) cs) \<and>
     why \<in> {EntryBudget, NotionalBudget, PositionCap}"
proof (induction cs arbitrary: r)
  case Nil
  then show ?case by auto
next
  case (Cons c cs)
  show ?case
  proof (cases "budget_check g per r")
    case (Some why)
    then have "why \<in> {EntryBudget, NotionalBudget, PositionCap}" by (auto simp: budget_check_def split: if_splits)
    moreover have "fits g per r = 0" using Some budget_check_None [OF assms, of g r] by auto
    ultimately show ?thesis unfolding allocation_full [OF Some] by auto
  next
    case None
    then obtain k where k: "fits g per r = Suc k"
      using budget_check_None [OF assms, of g r] by (metis gr0_implies_Suc)
    from k Cons.IH [of "allocate g per r c"] show ?thesis
      by (simp add: allocate_def None capacity_step [OF assms])
  qed
qed

lemma capacity_bounds:
  assumes "0 < val per" and "0 < m" and "m \<le> capacity g per e n s"
  shows "e + int m \<le> int_val (gr_max_entries g) \<and> n + of_nat m * val per \<le> val (gr_max_notional g) \<and>
     s + int m \<le> int_val (gr_positions g)"
proof -
  from assms(2,3) have m: "int m \<le> int_val (gr_max_entries g) - e" "int m \<le> \<lfloor>(val (gr_max_notional g) - n) / val per\<rfloor>"
    "int m \<le> int_val (gr_positions g) - s" by (auto simp: capacity_def)
  from m(2) have "of_int (int m) \<le> (val (gr_max_notional g) - n) / val per" by (simp only: le_floor_iff)
  with assms(1) have "of_nat m * val per \<le> val (gr_max_notional g) - n" by (simp add: le_divide_eq)
  with m show ?thesis by simp
qed

section \<open>The decision\<close>

text \<open>The admitted candidates by falling score, then by ticker.\<close>

definition ranked :: "candidate list \<Rightarrow> candidate list" where
  "ranked cs = sort_key rank_key (filter (\<lambda>c. admission cs c = None) cs)"

definition room_for :: "guardrails \<Rightarrow> day_state \<Rightarrow> nat" where
  "room_for g d = capacity g (ds_size d) (int_val (ds_entries d)) (val (ds_notional d)) (int_val (ds_held d))"

lemma set_ranked [simp]: "set (ranked cs) = {c \<in> set cs. admission cs c = None}"
  by (auto simp: ranked_def)

lemma plan_of_names:
  assumes "0 < val (ds_size d)"
  shows "pl_intents (plan_names g d cs) = map (intent_of (ds_size d)) (take (room_for g d) (ranked cs)) \<and>
    pl_block (plan_names g d cs) = None \<and> pl_guardrails (plan_names g d cs) = g \<and>
    (\<exists>why. why \<in> {EntryBudget, NotionalBudget, PositionCap} \<and> pl_rejections (plan_names g d cs) =
      update_all ec_ticker (\<lambda>c. why)
        (update_all rejection_key (\<lambda>c. the (admission cs c)) [] (filter (\<lambda>c. admission cs c \<noteq> None) cs))
        (drop (room_for g d) (ranked cs)))"
proof -
  define r where "r = \<lparr>rm_entries = int_val (ds_entries d), rm_notional = val (ds_notional d), rm_slots = int_val (ds_held d),
      rm_intents = [], rm_rejections = update_all rejection_key (\<lambda>c. the (admission cs c)) [] (filter (\<lambda>c. admission cs c \<noteq> None) cs)\<rparr>"
  have p: "plan_names g d cs = \<lparr>pl_intents = rm_intents (foldl (allocate g (ds_size d)) r (ranked cs)),
      pl_rejections = rm_rejections (foldl (allocate g (ds_size d)) r (ranked cs)), pl_block = None, pl_guardrails = g\<rparr>"
    by (simp add: plan_names_def screened r_def ranked_def Let_def)
  have "fits g (ds_size d) r = room_for g d" by (simp add: r_def room_for_def)
  with allocation [OF assms, of g r "ranked cs"] show ?thesis unfolding p by (auto simp: r_def)
qed

text \<open>What the plan says of a candidate: the check it fails, or the budget that leaves it out.\<close>

definition outcome :: "guardrails \<Rightarrow> day_state \<Rightarrow> candidate list \<Rightarrow> rejection \<Rightarrow> candidate \<Rightarrow> rejection option" where
  "outcome g d cs budget c =
     (case admission cs c of
        Some why \<Rightarrow> Some why
      | None \<Rightarrow> if c \<in> set (take (room_for g d) (ranked cs)) then None else Some budget)"

lemma in_take_iff: "distinct xs \<Longrightarrow> c \<in> set xs \<Longrightarrow> c \<in> set (take n xs) \<longleftrightarrow> c \<notin> set (drop n xs)"
  using set_take_disj_set_drop_if_distinct [of xs n n] by (metis Un_iff append_take_drop_id disjoint_iff order_refl set_append)

lemma plan_outcomes:
  assumes "0 < val (ds_size d)"
  shows "\<exists>budget \<in> {EntryBudget, NotionalBudget, PositionCap}.
    (\<forall>c \<in> set cs. map_of (pl_rejections (plan_names g d cs)) (rejection_key c) = outcome g d cs budget c) \<and>
    (\<forall>k. k \<notin> rejection_key ` set cs \<longrightarrow> map_of (pl_rejections (plan_names g d cs)) k = None)"
proof -
  let ?bad = "filter (\<lambda>c. admission cs c \<noteq> None) cs" and ?left = "drop (room_for g d) (ranked cs)"
  obtain why where why: "why \<in> {EntryBudget, NotionalBudget, PositionCap}"
    and rej: "pl_rejections (plan_names g d cs) =
      update_all ec_ticker (\<lambda>c. why) (update_all rejection_key (\<lambda>c. the (admission cs c)) [] ?bad) ?left"
    using plan_of_names [OF assms] by blast
  have left: "ec_ticker x = rejection_key x \<and> x \<in> set cs \<and> admission cs x = None" if "x \<in> set ?left" for x
    using in_set_dropD [OF that] admitted_key [of cs x] by simp
  have same: "x = c" if "c \<in> set cs" "x \<in> set cs" "admission cs x = None" "rejection_key x = rejection_key c" for c x
    using that admitted_unique [of x cs c] name_of_key [OF that(4)] by auto
  have "map_of (pl_rejections (plan_names g d cs)) (rejection_key c) = outcome g d cs why c" if c: "c \<in> set cs" for c
  proof (cases "admission cs c")
    case (Some w)
    have "rejection_key c \<notin> ec_ticker ` set ?left"
      using left key_determines [of c cs] c Some by fastforce
    moreover have "map_of (update_all rejection_key (\<lambda>c. the (admission cs c)) [] ?bad) (rejection_key c) = Some w"
    proof (rule update_all_hit)
      show "rejection_key c \<in> rejection_key ` set ?bad" using Some c by simp
      show "\<forall>x \<in> set ?bad. rejection_key x = rejection_key c \<longrightarrow> the (admission cs x) = w"
        using Some c by (auto dest: key_determines [OF _ c])
    qed
    ultimately show ?thesis unfolding rej by (simp add: update_all_other outcome_def Some)
  next
    case None
    have bad: "rejection_key c \<notin> rejection_key ` set ?bad"
      using key_determines [of c cs] c None by fastforce
    have c': "c \<in> set (ranked cs)" using c None by simp
    have "distinct (ranked cs)" using admitted_distinct by (simp add: ranked_def)
    from in_take_iff [OF this c'] have split: "c \<in> set (take (room_for g d) (ranked cs)) \<longleftrightarrow> c \<notin> set ?left" .
    show ?thesis
    proof (cases "c \<in> set ?left")
      case True
      with left have "rejection_key c \<in> ec_ticker ` set ?left" by force
      from update_all_hit [OF this, of "\<lambda>c. why" why] split True show ?thesis unfolding rej by (simp add: outcome_def None)
    next
      case False
      have "rejection_key c \<notin> ec_ticker ` set ?left"
        using left same [OF c] False by fastforce
      with bad split False show ?thesis unfolding rej by (simp add: update_all_other outcome_def None)
    qed
  qed
  moreover have "map_of (pl_rejections (plan_names g d cs)) k = None" if "k \<notin> rejection_key ` set cs" for k
  proof -
    have "k \<notin> ec_ticker ` set ?left" "k \<notin> rejection_key ` set ?bad" using left that by (auto simp: image_iff)
    then show ?thesis unfolding rej by (simp add: update_all_other)
  qed
  ultimately show ?thesis using why by blast
qed

section \<open>What a decision keeps to\<close>

text \<open>A time of day lies within a day.\<close>

definition clock_ok :: "guardrails \<Rightarrow> bool" where
  "clock_ok g \<longleftrightarrow> (\<forall>t. Some t \<in> {gr_open g, gr_close g} \<longrightarrow> 0 \<le> t \<and> t < 24 * 60 * MINUTE_US)"

definition guardrails_of :: "guardrails option \<Rightarrow> guardrails" where
  "guardrails_of g = (case g of Some g \<Rightarrow> g | None \<Rightarrow> default_guardrails)"

definition env_of :: "string dict \<Rightarrow> string dict option \<Rightarrow> string dict" where
  "env_of environ env = (case env of Some e \<Rightarrow> e | None \<Rightarrow> environ)"

definition inputs_ok :: "guardrails \<Rightarrow> day_state \<Rightarrow> datetime option \<Rightarrow> bool" where
  "inputs_ok g d now \<longleftrightarrow> validate_guardrails g = None \<and> validate_state d = None \<and>
     (case now of Some t \<Rightarrow> utc_offset t \<noteq> None | None \<Rightarrow> False)"

text \<open>The entry window and the budgets, as one condition.\<close>

definition entries_open :: "guardrails \<Rightarrow> day_state \<Rightarrow> string dict \<Rightarrow> int \<Rightarrow> bool" where
  "entries_open g d env now \<longleftrightarrow>
     map_of env HALT_ENV \<noteq> Some ''1'' \<and>
     (minute_of (the (gr_open g)) + int_val (gr_first g)) * MINUTE_US \<le> time_of_day now \<and>
     time_of_day now < (minute_of (the (gr_close g)) - int_val (gr_last g)) * MINUTE_US \<and>
     int_val (ds_entries d) < int_val (gr_max_entries g) \<and> val (ds_notional d) < val (gr_max_notional g) \<and>
     int_val (ds_held d) < int_val (gr_positions g)"

lemma count_ok_nonneg: "count_ok v \<Longrightarrow> 0 \<le> int_val v"
  by (auto simp: count_ok_def int_val_def split: json.splits)

lemma valid_guardrails:
  assumes "validate_guardrails g = None" and "clock_ok g"
  obtains a b where "gr_open g = Some a" "gr_close g = Some b" "0 \<le> minute_of a" "minute_of b < 24 * 60"
    "0 \<le> int_val (gr_first g)" "0 \<le> int_val (gr_last g)" "int_val (gr_first g) + int_val (gr_last g) < minute_of b - minute_of a"
proof -
  from assms(1) obtain a b where ab: "gr_open g = Some a" "gr_close g = Some b"
      "int_val (gr_first g) + int_val (gr_last g) < minute_of b - minute_of a" and ok: "count_ok (gr_first g)" "count_ok (gr_last g)"
    by (auto simp: validate_guardrails_def split: if_splits option.splits)
  from assms(2) ab have "0 \<le> a" "b < 24 * 60 * MINUTE_US" by (auto simp: clock_ok_def)
  then have "0 \<le> minute_of a" "minute_of b < 24 * 60" by (simp_all add: minute_of_def MINUTE_US_def)
  with ab ok show ?thesis by (intro that [of a b]) (auto dest: count_ok_nonneg)
qed

lemma session_block_total:
  assumes "validate_guardrails g = None" and "clock_ok g"
  shows "\<exists>why. session_block now g d env = Inr why \<and> (why = None \<longleftrightarrow> entries_open g d env now)"
proof -
  obtain a b where ab: "gr_open g = Some a" "gr_close g = Some b" "0 \<le> minute_of a" "minute_of b < 24 * 60"
    "0 \<le> int_val (gr_first g)" "0 \<le> int_val (gr_last g)" "int_val (gr_first g) + int_val (gr_last g) < minute_of b - minute_of a"
    using assms by (rule valid_guardrails)
  then have "plus_minutes a (int_val (gr_first g)) = Inr ((minute_of a + int_val (gr_first g)) * MINUTE_US)"
    "minus_minutes b (int_val (gr_last g)) = Inr ((minute_of b - int_val (gr_last g)) * MINUTE_US)"
    by (auto simp: plus_minutes_def minus_minutes_def time_of_minutes_def)
  then have "outside_window now g = Inr (\<not> ((minute_of a + int_val (gr_first g)) * MINUTE_US \<le> time_of_day now \<and>
      time_of_day now < (minute_of b - int_val (gr_last g)) * MINUTE_US))"
    using ab by (auto simp: outside_window_def)
  with ab show ?thesis by (auto simp: session_block_def entries_open_def)
qed

lemma decide_unfold:
  assumes "clock_ok (guardrails_of gs)"
  shows "decide_entries et environ cs now d gs env =
    (if \<not> inputs_ok (guardrails_of gs) d now then Inl InvalidDecisionInput
     else if entries_open (guardrails_of gs) d (env_of environ env) (et (the now)) then Inr (plan_names (guardrails_of gs) d cs)
     else block_all (guardrails_of gs) (the (projr (session_block (et (the now)) (guardrails_of gs) d (env_of environ env)))) cs)"
proof -
  have inv: "validate_guardrails g = Some x \<Longrightarrow> x = InvalidDecisionInput" "validate_state d = Some x \<Longrightarrow> x = InvalidDecisionInput" for g x
    by (auto simp: validate_guardrails_def validate_state_def split: if_splits option.splits)
  show ?thesis
  proof (cases "inputs_ok (guardrails_of gs) d now")
    case False
    then show ?thesis
      by (auto simp: inputs_ok_def decide_entries_def guardrails_of_def [symmetric] env_of_def [symmetric] as_et_def Let_def
          dest: inv split: option.splits)
  next
    case True
    then obtain t where t: "now = Some t" "utc_offset t \<noteq> None" "validate_guardrails (guardrails_of gs) = None" "validate_state d = None"
      by (auto simp: inputs_ok_def split: option.splits)
    from session_block_total [OF t(3) assms, of "et t" d "env_of environ env"] t True show ?thesis
      by (auto simp: decide_entries_def guardrails_of_def [symmetric] env_of_def [symmetric] as_et_def Let_def split: option.splits)
  qed
qed

lemma valid_size: "validate_state d = None \<Longrightarrow> 0 < val (ds_size d)"
  by (simp add: validate_state_def not_le split: if_splits)

lemma block_all_Inr: "block_all g why cs = Inr p \<Longrightarrow> pl_intents p = [] \<and> pl_block p = Some why"
  by (auto simp: block_all_def split: if_splits)

text \<open>C26: A plan with an entry keeps to every guardrail: no halt is set, the New York time is within
  the entry window, and the entries, the notional and the positions stay within their limits when
  every intent of the plan is filled at its budget. Each intent names a different admitted
  candidate, carries its price and its score, both positive, and the configured size.\<close>

theorem entry_plan_within_guardrails:
  assumes "decide_entries et environ cs (Some now) d gs env = Inr p" and "pl_intents p \<noteq> []" and "clock_ok (guardrails_of gs)"
  shows "let g = guardrails_of gs; n = length (pl_intents p) in
    entries_open g d (env_of environ env) (et now) \<and>
    int_val (ds_entries d) + int n \<le> int_val (gr_max_entries g) \<and>
    val (ds_notional d) + of_nat n * val (ds_size d) \<le> val (gr_max_notional g) \<and>
    int_val (ds_held d) + int n \<le> int_val (gr_positions g) \<and>
    distinct (map in_ticker (pl_intents p)) \<and>
    (\<forall>i \<in> set (pl_intents p). in_budget i = ds_size d \<and> 0 < val (in_limit i) \<and> 0 < val (in_score i) \<and>
       (\<exists>c \<in> set cs. i = intent_of (ds_size d) c \<and> truthy (ec_batch_admitted c) \<and> ec_quote c = JStr ''fresh''))"
proof -
  let ?g = "guardrails_of gs" and ?k = "room_for (guardrails_of gs) d"
  from assms(1) have ok: "inputs_ok ?g d (Some now)" unfolding decide_unfold [OF assms(3)] by (auto split: if_splits)
  from assms(1,2) ok have op: "entries_open ?g d (env_of environ env) (et now)" and p: "p = plan_names ?g d cs"
    unfolding decide_unfold [OF assms(3)] by (auto split: if_splits dest: block_all_Inr)
  from ok have size: "0 < val (ds_size d)" by (intro valid_size) (simp add: inputs_ok_def)
  have intents: "pl_intents p = map (intent_of (ds_size d)) (take ?k (ranked cs))"
    using plan_of_names [OF size] p by blast
  let ?n = "length (pl_intents p)"
  have n: "0 < ?n" "?n \<le> ?k" using assms(2) by (simp_all add: intents)
  from capacity_bounds [OF size n(1) n(2) [unfolded room_for_def]]
  have caps: "int_val (ds_entries d) + int ?n \<le> int_val (gr_max_entries ?g)"
    "val (ds_notional d) + of_nat ?n * val (ds_size d) \<le> val (gr_max_notional ?g)"
    "int_val (ds_held d) + int ?n \<le> int_val (gr_positions ?g)" by auto
  have mem: "c \<in> set cs \<and> admission cs c = None" if "c \<in> set (take ?k (ranked cs))" for c
    using in_set_takeD [OF that] by simp
  have "inj_on ec_ticker (set (take ?k (ranked cs)))"
  proof (rule inj_onI)
    fix x y assume xy: "x \<in> set (take ?k (ranked cs))" "y \<in> set (take ?k (ranked cs))" "ec_ticker x = ec_ticker y"
    then have "name_key x = name_key y" by (simp add: name_key_def)
    with mem [OF xy(1)] mem [OF xy(2)] admitted_unique show "x = y" by blast
  qed
  moreover have "distinct (take ?k (ranked cs))" using admitted_distinct by (simp add: ranked_def)
  ultimately have dist: "distinct (map in_ticker (pl_intents p))"
    by (simp add: intents distinct_map comp_def intent_of_def)
  have "0 < val (ec_mid c) \<and> 0 < val (ec_score c) \<and> truthy (ec_batch_admitted c) \<and> ec_quote c = JStr ''fresh''"
    if "admission cs c = None" for c
    using that by (auto simp: admission_def not_le split: if_splits)
  with mem have "\<forall>i \<in> set (pl_intents p). in_budget i = ds_size d \<and> 0 < val (in_limit i) \<and> 0 < val (in_score i) \<and>
       (\<exists>c \<in> set cs. i = intent_of (ds_size d) c \<and> truthy (ec_batch_admitted c) \<and> ec_quote c = JStr ''fresh'')"
    unfolding intents by (fastforce simp: intent_of_def)
  with op caps dist show ?thesis by (simp add: Let_def)
qed


text \<open>A decision raises exactly for inputs the module documents as invalid, and, when the session
  blocks every name, for a ticker that cannot be a key. With times of day in range it never
  raises from the arithmetic on its window: validated guardrails always leave one.\<close>

theorem entry_decision_raises_iff:
  assumes "clock_ok (guardrails_of gs)"
  shows "decide_entries et environ cs now d gs env = Inl x \<longleftrightarrow>
    (if \<not> inputs_ok (guardrails_of gs) d now then x = InvalidDecisionInput
     else x = PyError TypeError \<and> \<not> entries_open (guardrails_of gs) d (env_of environ env) (et (the now)) \<and>
       (\<exists>c \<in> set cs. \<not> hashable (ec_ticker c)))"
  unfolding decide_unfold [OF assms] by (auto simp: block_all_def list_all_iff)

section \<open>Witnesses\<close>

text \<open>Three good candidates and a stale one, with room for two; the wall clock is UTC minus four hours.\<close>

definition demo_candidate :: "string \<Rightarrow> rat \<Rightarrow> string \<Rightarrow> candidate" where
  "demo_candidate t score quote = \<lparr>ec_ticker = JStr t, ec_batch_admitted = JBool True, ec_return = JNull,
     ec_score = JFloat (Num score), ec_quote = JStr quote, ec_mid = JFloat (Num 20)\<rparr>"

definition demo_candidates :: "candidate list" where
  "demo_candidates = [demo_candidate ''C'' 1 ''fresh'', demo_candidate ''B'' 3 ''fresh'',
     demo_candidate ''A'' 3 ''fresh'', demo_candidate ''D'' 9 ''stale'']"

definition demo_day :: day_state where
  "demo_day = \<lparr>ds_entries = JInt 0, ds_notional = JFloat (Num 0), ds_held = JInt 1, ds_size = JInt 700\<rparr>"

definition demo_now :: datetime where
  "demo_now = \<lparr>wall = 1782829800000000, utc_offset = Some 0\<rparr>"

definition demo_et :: "datetime \<Rightarrow> int" where
  "demo_et t = utc_instant t - 4 * 3600 * 1000000"

definition demo_plan :: entry_plan where
  "demo_plan = \<lparr>pl_intents = map (intent_of (JInt 700)) [demo_candidate ''A'' 3 ''fresh'', demo_candidate ''B'' 3 ''fresh''],
     pl_rejections = [(JStr ''D'', QuoteCensored), (JStr ''C'', EntryBudget)], pl_block = None,
     pl_guardrails = default_guardrails\<rparr>"

lemma demo_plan_decided:
  "decide_entries demo_et [] demo_candidates (Some demo_now) demo_day None None = Inr demo_plan"
  by code_simp

lemma default_clock: "clock_ok (guardrails_of None)"
  by (simp add: clock_ok_def guardrails_of_def default_guardrails_def MINUTE_US_def)

theorem entry_plan_within_guardrails_witness:
  "val (ds_notional demo_day) + 2 * val (ds_size demo_day) \<le> val (gr_max_notional default_guardrails) \<and>
   distinct (map in_ticker (pl_intents demo_plan))"
  using entry_plan_within_guardrails [OF demo_plan_decided _ default_clock]
  by (simp add: Let_def guardrails_of_def demo_plan_def)


theorem entry_decision_raises_iff_witness:
  "decide_entries demo_et [] [] None demo_day None None = Inl InvalidDecisionInput"
  using entry_decision_raises_iff [OF default_clock, of demo_et "[]" "[]" None demo_day None InvalidDecisionInput]
  by (simp add: inputs_ok_def)

text \<open>The seconds of the session's open are dropped: with an open of 09:30:30 and no first minutes
  left out, a name is entered at 09:30:10, before the open.\<close>

lemma entry_before_open:
  "\<exists>p. decide_entries demo_et [] [demo_candidate ''A'' 3 ''fresh''] (Some (demo_now\<lparr>wall := 1782826210000000\<rparr>)) demo_day
     (Some (default_guardrails\<lparr>gr_open := Some ((9 * 60 + 30) * MINUTE_US + 30000000), gr_first := JInt 0\<rparr>)) None = Inr p \<and>
     pl_intents p = [intent_of (JInt 700) (demo_candidate ''A'' 3 ''fresh'')]"
proof -
  have "case decide_entries demo_et [] [demo_candidate ''A'' 3 ''fresh''] (Some (demo_now\<lparr>wall := 1782826210000000\<rparr>)) demo_day
     (Some (default_guardrails\<lparr>gr_open := Some ((9 * 60 + 30) * MINUTE_US + 30000000), gr_first := JInt 0\<rparr>)) None of
     Inr p \<Rightarrow> pl_intents p = [intent_of (JInt 700) (demo_candidate ''A'' 3 ''fresh'')] | Inl x \<Rightarrow> False"
    by code_simp
  then show ?thesis by (auto split: sum.splits)
qed

end
