(* ===== verification/DeployManifest.thy ===== *)
theory DeployManifest
  imports PyTime
begin

text \<open>
  \<open>deployment_manifest.py\<close>, part 1: the schema of the deployment manifest. A problem is a value of
  \<open>manifest_problem\<close> instead of a text; the keys of a mapping are distinct, as \<open>json.loads\<close> leaves
  them. A check that raises is the left of its result.
\<close>

section \<open>Strings and paths\<close>

text \<open>\<open>re.compile("^[0-9a-f]{n}$").match\<close>: the end anchor also matches before a final newline.\<close>

definition is_lower_hex :: "char \<Rightarrow> bool" where
  "is_lower_hex c \<longleftrightarrow> c \<in> set ''0123456789abcdef''"

definition NEWLINE :: char where "NEWLINE = CHR 0x0A"

definition match_hex :: "nat \<Rightarrow> string \<Rightarrow> bool" where
  "match_hex n s \<longleftrightarrow> n \<le> length s \<and> list_all is_lower_hex (take n s) \<and> drop n s \<in> {[], [NEWLINE]}"

definition FULL_SHA_RE :: "string \<Rightarrow> bool" where "FULL_SHA_RE = match_hex 40"

definition SHA256_RE :: "string \<Rightarrow> bool" where "SHA256_RE = match_hex 64"

definition starts_with :: "string \<Rightarrow> string \<Rightarrow> bool" where
  "starts_with s p \<longleftrightarrow> take (length p) s = p"

fun split_slash :: "string \<Rightarrow> string list" where
  "split_slash [] = [[]]"
| "split_slash (c # s) =
     (case split_slash s of
        [] \<Rightarrow> [[c]]
      | w # ws \<Rightarrow> if c = CHR ''/'' then [] # w # ws else (c # w) # ws)"

text \<open>\<open>".." in Path(s).parts\<close> and \<open>Path(s).is_absolute()\<close>.\<close>

definition has_parent_part :: "string \<Rightarrow> bool" where
  "has_parent_part s \<longleftrightarrow> ''..'' \<in> set (split_slash s)"

definition is_absolute :: "string \<Rightarrow> bool" where
  "is_absolute s \<longleftrightarrow> starts_with s ''/''"

definition is_letter :: "char \<Rightarrow> bool" where
  "is_letter c \<longleftrightarrow> (let n = (of_char c :: nat) in (65 \<le> n \<and> n \<le> 90) \<or> (97 \<le> n \<and> n \<le> 122))"

definition WINDOWS_PATH_RE :: "string \<Rightarrow> bool" where
  "WINDOWS_PATH_RE s \<longleftrightarrow> (case s of a # b # c # r \<Rightarrow> is_letter a \<and> b = CHR '':'' \<and> c \<in> {CHR 0x5C, CHR ''/''} | _ \<Rightarrow> False)"

text \<open>\<open>value.replace("Z", "+00:00")\<close>\<close>

definition zulu_offset :: "string \<Rightarrow> string" where
  "zulu_offset s = concat (map (\<lambda>c. if c = CHR ''Z'' then ''+00:00'' else [c]) s)"

section \<open>Keys\<close>

definition REPO_IDENTITY_KEYS :: "string list" where
  "REPO_IDENTITY_KEYS = [''remote'', ''branch'', ''commit'', ''role'', ''status'']"

definition TOP_LEVEL_KEYS :: "string list" where
  "TOP_LEVEL_KEYS = [''schema_version'', ''kind'', ''generation'', ''generated_at'', ''repos'', ''artifact_store'', ''deployment'']"

definition DEPLOYMENT_KEYS :: "string list" where
  "DEPLOYMENT_KEYS = [''deployed_at'', ''deployed_by'', ''verify'', ''state'', ''supersedes_sha256'']"

definition VERIFY_KEYS :: "string list" where
  "VERIFY_KEYS = [''profile'', ''args'', ''exit'', ''evidence_ref'', ''evidence_repo_commit'']"

definition DEPLOYMENT_STATES :: "string list" where "DEPLOYMENT_STATES = [''deployed'', ''captured'']"

definition EVIDENCE_REF_PREFIX :: string where "EVIDENCE_REF_PREFIX = ''store://''"

definition unknown_keys :: "json dict \<Rightarrow> string list \<Rightarrow> string list" where
  "unknown_keys d keys = sort (remdups (filter (\<lambda>k. k \<notin> set keys) (map fst d)))"

section \<open>Problems\<close>

datatype manifest_problem = NotAnObject | UnknownTopKeys "string list" | BadSchemaVersion json | BadKind json
  | BadGeneration json | BadTimestamp string json | NoRepos | RepoNotObject string
  | RepoUnknownKeys string "string list" | RepoField string string | RepoCommit string string | NoStore
  | StoreNotBinding | StoreUnknownRepo json | StorePath string | StoreUnknownKeys "string list"
  | DeploymentNotObject | DeploymentUnknownKeys "string list" | NoDeployedBy | BadState json
  | VerifyNotObject | VerifyUnknownKeys "string list" | BadProfile json | ArgsNotObject
  | ArgsUnknownKeys "string list" | BadMinAdmits json | BadExit | EvidenceRequired json
  | CommitWithoutEvidence | BadEvidenceRef json | EmptyEvidenceRef string | BadEvidenceCommit json
  | SupersedesNull int | BadSupersedes json | HostPath string string

definition flag :: "bool \<Rightarrow> manifest_problem \<Rightarrow> manifest_problem list" where
  "flag b p = (if b then [p] else [])"

definition flag_keys :: "(string list \<Rightarrow> manifest_problem) \<Rightarrow> json dict \<Rightarrow> string list \<Rightarrow> manifest_problem list" where
  "flag_keys p d keys = (let unknown = unknown_keys d keys in flag (unknown \<noteq> []) (p unknown))"

definition int_at_least :: "json \<Rightarrow> int \<Rightarrow> bool" where
  "int_at_least v n = (case v of JInt i \<Rightarrow> n \<le> i | _ \<Rightarrow> False)"

definition is_int :: "json \<Rightarrow> bool" where
  "is_int v = (case v of JInt i \<Rightarrow> True | _ \<Rightarrow> False)"

definition nonempty_string :: "json \<Rightarrow> bool" where
  "nonempty_string v = (case v of JStr s \<Rightarrow> s \<noteq> [] | _ \<Rightarrow> False)"

definition iso8601_ok :: "json \<Rightarrow> bool" where
  "iso8601_ok v = (case v of JStr s \<Rightarrow> s \<noteq> [] \<and> from_isoformat (zulu_offset s) \<noteq> None | _ \<Rightarrow> False)"

definition iso8601_problem :: "json \<Rightarrow> string \<Rightarrow> manifest_problem list" where
  "iso8601_problem v field = flag (\<not> iso8601_ok v) (BadTimestamp field v)"

section \<open>Repositories and the artifact store\<close>

definition repo_entry_problems :: "string \<Rightarrow> json \<Rightarrow> manifest_problem list" where
  "repo_entry_problems name entry =
     (case entry of
        JObj d \<Rightarrow>
          flag_keys (RepoUnknownKeys name) d REPO_IDENTITY_KEYS @
          concat (map (\<lambda>k. flag (\<not> nonempty_string (dget d k JNull)) (RepoField name k)) REPO_IDENTITY_KEYS) @
          (case dget d ''commit'' JNull of
             JStr c \<Rightarrow> flag (c \<noteq> [] \<and> \<not> FULL_SHA_RE c) (RepoCommit name c)
           | _ \<Rightarrow> [])
      | _ \<Rightarrow> [RepoNotObject name])"

text \<open>\<open>store["repo"] not in repo_names\<close> raises for a value that is not hashable, \<open>Path(x)\<close> for one that
  is not a string.\<close>

definition store_repo_problems :: "json \<Rightarrow> string list \<Rightarrow> py_error + manifest_problem list" where
  "store_repo_problems repo names =
     (case repo of
        JList xs \<Rightarrow> Inl TypeError
      | JObj kvs \<Rightarrow> Inl TypeError
      | JStr s \<Rightarrow> Inr (flag (s \<notin> set names) (StoreUnknownRepo repo))
      | _ \<Rightarrow> Inr [StoreUnknownRepo repo])"

definition store_path_problems :: "json \<Rightarrow> py_error + manifest_problem list" where
  "store_path_problems path =
     (case py_or path (JStr []) of
        JStr s \<Rightarrow> Inr (flag (is_absolute s \<or> has_parent_part s) (StorePath s))
      | _ \<Rightarrow> Inl TypeError)"

definition artifact_store_schema_problems :: "json \<Rightarrow> string list \<Rightarrow> py_error + manifest_problem list" where
  "artifact_store_schema_problems store names =
     (case store of
        JObj d \<Rightarrow>
          if \<not> truthy (dget d ''repo'' JNull) then Inr [StoreNotBinding]
          else case store_repo_problems (dget d ''repo'' JNull) names of Inl x \<Rightarrow> Inl x | Inr ps \<Rightarrow>
            map_sum id (\<lambda>qs. ps @ qs) (store_path_problems (dget d ''path'' JNull))
      | _ \<Rightarrow> Inr [StoreNotBinding])"

section \<open>Verification and evidence\<close>

definition readonly_e2e_args_problems :: "json \<Rightarrow> manifest_problem list" where
  "readonly_e2e_args_problems args =
     (case args of
        JObj d \<Rightarrow>
          flag_keys ArgsUnknownKeys d [''min_admits''] @
          flag (dhas d ''min_admits'' \<and> \<not> int_at_least (dget d ''min_admits'' JNull) 0) (BadMinAdmits (dget d ''min_admits'' JNull))
      | _ \<Rightarrow> [ArgsNotObject])"

definition READONLY_E2E_PROFILE :: string where "READONLY_E2E_PROFILE = ''readonly-e2e''"

definition VERIFY_PROFILE_ALLOWLIST :: "(string \<times> (json \<Rightarrow> manifest_problem list)) list" where
  "VERIFY_PROFILE_ALLOWLIST = [(READONLY_E2E_PROFILE, readonly_e2e_args_problems)]"

definition profile_validator :: "json \<Rightarrow> (json \<Rightarrow> manifest_problem list) option" where
  "profile_validator v = (case v of JStr s \<Rightarrow> map_of VERIFY_PROFILE_ALLOWLIST s | _ \<Rightarrow> None)"

definition verify_block_problems :: "json \<Rightarrow> manifest_problem list" where
  "verify_block_problems verify =
     (case verify of
        JObj d \<Rightarrow>
          flag_keys VerifyUnknownKeys d VERIFY_KEYS @
          (case profile_validator (dget d ''profile'' JNull) of
             None \<Rightarrow> [BadProfile (dget d ''profile'' JNull)]
           | Some validator \<Rightarrow> validator (dget d ''args'' JNull)) @
          flag (\<not> is_int (dget d ''exit'' JNull)) BadExit
      | _ \<Rightarrow> [VerifyNotObject])"

definition evidence_path_ok :: "string \<Rightarrow> bool" where
  "evidence_path_ok s \<longleftrightarrow> s \<noteq> [] \<and> \<not> is_absolute s \<and> \<not> has_parent_part s"

definition evidence_ref_problem :: "json \<Rightarrow> manifest_problem list" where
  "evidence_ref_problem v =
     (case v of
        JStr s \<Rightarrow>
          if \<not> starts_with s EVIDENCE_REF_PREFIX then [BadEvidenceRef v]
          else flag (\<not> evidence_path_ok (drop (length EVIDENCE_REF_PREFIX) s)) (EmptyEvidenceRef s)
      | _ \<Rightarrow> [BadEvidenceRef v])"

definition sha_json :: "(string \<Rightarrow> bool) \<Rightarrow> json \<Rightarrow> bool" where
  "sha_json re v = (case v of JStr s \<Rightarrow> re s | _ \<Rightarrow> False)"

definition evidence_ref_problems :: "json \<Rightarrow> json \<Rightarrow> json \<Rightarrow> manifest_problem list" where
  "evidence_ref_problems evidence commit state =
     (if evidence = JNull then
        flag (state \<noteq> JStr ''captured'') (EvidenceRequired state) @ flag (commit \<noteq> JNull) CommitWithoutEvidence
      else evidence_ref_problem evidence @ flag (\<not> sha_json FULL_SHA_RE commit) (BadEvidenceCommit commit))"

definition supersedes_problems :: "json \<Rightarrow> json \<Rightarrow> manifest_problem list" where
  "supersedes_problems supersedes generation =
     (if supersedes = JNull then (case generation of JInt g \<Rightarrow> flag (g \<noteq> 1) (SupersedesNull g) | _ \<Rightarrow> [])
      else flag (\<not> sha_json SHA256_RE supersedes) (BadSupersedes supersedes))"

definition deployment_state_ok :: "json \<Rightarrow> bool" where
  "deployment_state_ok v = (case v of JStr s \<Rightarrow> s \<in> set DEPLOYMENT_STATES | _ \<Rightarrow> False)"

definition deployment_block_problems :: "json \<Rightarrow> json \<Rightarrow> manifest_problem list" where
  "deployment_block_problems deployment generation =
     (case deployment of
        JObj d \<Rightarrow>
          (let verify = dget d ''verify'' JNull; state = dget d ''state'' JNull in
           flag_keys DeploymentUnknownKeys d DEPLOYMENT_KEYS @
           iso8601_problem (dget d ''deployed_at'' JNull) ''deployment.deployed_at'' @
           flag (\<not> nonempty_string (dget d ''deployed_by'' JNull)) NoDeployedBy @
           flag (\<not> deployment_state_ok state) (BadState state) @
           verify_block_problems verify @
           (case verify of
              JObj v \<Rightarrow> evidence_ref_problems (dget v ''evidence_ref'' JNull) (dget v ''evidence_repo_commit'' JNull) state
            | _ \<Rightarrow> []) @
           supersedes_problems (dget d ''supersedes_sha256'' JNull) generation)
      | _ \<Rightarrow> [DeploymentNotObject])"

section \<open>Portability\<close>

definition is_host_path :: "string \<Rightarrow> bool" where
  "is_host_path s \<longleftrightarrow> starts_with s ''/'' \<or> s = ''~'' \<or> starts_with s ''~/'' \<or> WINDOWS_PATH_RE s"

text \<open>The strings of a document, with their paths in it; the fields of a mapping in the order of their keys.\<close>

fun portability_problems :: "json \<Rightarrow> string \<Rightarrow> manifest_problem list"
  and field_problems :: "json dict \<Rightarrow> string \<Rightarrow> (string \<times> manifest_problem list) list"
  and item_problems :: "json list \<Rightarrow> nat \<Rightarrow> string \<Rightarrow> manifest_problem list" where
  "portability_problems (JStr s) crumb = flag (is_host_path s) (HostPath crumb s)"
| "portability_problems (JObj kvs) crumb = concat (map snd (sort_key fst (field_problems kvs crumb)))"
| "portability_problems (JList xs) crumb = item_problems xs 0 crumb"
| "portability_problems _ crumb = []"
| "field_problems [] crumb = []"
| "field_problems ((k, v) # kvs) crumb = (k, portability_problems v (crumb @ ''.'' @ k)) # field_problems kvs crumb"
| "item_problems [] i crumb = []"
| "item_problems (x # xs) i crumb =
     portability_problems x (crumb @ ''['' @ str_of_nat i @ '']'') @ item_problems xs (Suc i) crumb"

section \<open>The manifest\<close>

definition DEPLOYMENT_MANIFEST_SCHEMA_VERSION :: int where "DEPLOYMENT_MANIFEST_SCHEMA_VERSION = 1"

definition DEPLOYMENT_MANIFEST_KIND :: string where "DEPLOYMENT_MANIFEST_KIND = ''deployment-manifest''"

definition repos_problems :: "json \<Rightarrow> manifest_problem list" where
  "repos_problems repos =
     (case repos of
        JObj kvs \<Rightarrow>
          if kvs = [] then [NoRepos]
          else concat (map (\<lambda>(name, entry). repo_entry_problems name entry) (sort_key fst kvs))
      | _ \<Rightarrow> [NoRepos])"

definition repo_names :: "json \<Rightarrow> string list" where
  "repo_names repos = (case repos of JObj kvs \<Rightarrow> map fst kvs | _ \<Rightarrow> [])"

definition store_problems :: "json \<Rightarrow> json \<Rightarrow> py_error + manifest_problem list" where
  "store_problems store repos =
     (if store = JNull then Inr [NoStore]
      else case artifact_store_schema_problems store (repo_names repos) of Inl x \<Rightarrow> Inl x | Inr ps \<Rightarrow>
        Inr (ps @ (case store of JObj d \<Rightarrow> flag_keys StoreUnknownKeys d [''repo'', ''path''] | _ \<Rightarrow> [])))"

definition deployment_manifest_problems :: "json \<Rightarrow> py_error + manifest_problem list" where
  "deployment_manifest_problems payload =
     (case payload of
        JObj p \<Rightarrow>
          (let schema = dget p ''schema_version'' JNull; kind = dget p ''kind'' JNull;
               generation = dget p ''generation'' JNull; repos = dget p ''repos'' JNull in
           case store_problems (dget p ''artifact_store'' JNull) repos of Inl x \<Rightarrow> Inl x | Inr store \<Rightarrow>
           Inr (flag_keys UnknownTopKeys p TOP_LEVEL_KEYS @
             flag (schema \<noteq> JInt DEPLOYMENT_MANIFEST_SCHEMA_VERSION) (BadSchemaVersion schema) @
             flag (kind \<noteq> JStr DEPLOYMENT_MANIFEST_KIND) (BadKind kind) @
             flag (\<not> int_at_least generation 1) (BadGeneration generation) @
             iso8601_problem (dget p ''generated_at'' JNull) ''generated_at'' @
             repos_problems repos @ store @
             deployment_block_problems (dget p ''deployment'' JNull) generation @
             portability_problems payload ''$''))
      | _ \<Rightarrow> Inr [NotAnObject])"

datatype load_manifest_error = ManifestInvalid "manifest_problem list" | ManifestUnreadable | ManifestRaised py_error

definition validate_deployment_manifest :: "json \<Rightarrow> load_manifest_error + json dict" where
  "validate_deployment_manifest payload =
     (case deployment_manifest_problems payload of
        Inl x \<Rightarrow> Inl (ManifestRaised x)
      | Inr (p # ps) \<Rightarrow> Inl (ManifestInvalid (p # ps))
      | Inr [] \<Rightarrow> (case payload of JObj d \<Rightarrow> Inr d | _ \<Rightarrow> Inl (ManifestInvalid [])))"

definition load_deployment_manifest :: "sidecar \<Rightarrow> load_manifest_error + json dict" where
  "load_deployment_manifest f =
     (case f of
        Holds payload \<Rightarrow> validate_deployment_manifest payload
      | NotUtf8 \<Rightarrow> Inl (ManifestRaised ValueError)
      | _ \<Rightarrow> Inl ManifestUnreadable)"

section \<open>What the schema says\<close>

fun portable :: "json \<Rightarrow> bool" where
  "portable (JStr s) = (\<not> is_host_path s)"
| "portable (JObj kvs) = (\<forall>kv \<in> set kvs. portable (snd kv))"
| "portable (JList xs) = (\<forall>x \<in> set xs. portable x)"
| "portable _ = True"

definition keys_within :: "json dict \<Rightarrow> string list \<Rightarrow> bool" where
  "keys_within d keys \<longleftrightarrow> fst ` set d \<subseteq> set keys"

definition wf_repo :: "json \<Rightarrow> bool" where
  "wf_repo entry \<longleftrightarrow> (\<exists>d. entry = JObj d \<and> keys_within d REPO_IDENTITY_KEYS \<and>
     (\<forall>k \<in> set REPO_IDENTITY_KEYS. nonempty_string (dget d k JNull)) \<and> sha_json FULL_SHA_RE (dget d ''commit'' JNull))"

definition wf_store :: "json \<Rightarrow> string set \<Rightarrow> bool" where
  "wf_store store names \<longleftrightarrow> (\<exists>d r s. store = JObj d \<and> keys_within d [''repo'', ''path''] \<and>
     dget d ''repo'' JNull = JStr r \<and> r \<noteq> [] \<and> r \<in> names \<and>
     py_or (dget d ''path'' JNull) (JStr []) = JStr s \<and> \<not> is_absolute s \<and> \<not> has_parent_part s)"

text \<open>Sealed evidence is a relative store reference with the commit it was read at; without it the
  record is a capture.\<close>

definition wf_evidence :: "json \<Rightarrow> json \<Rightarrow> json \<Rightarrow> bool" where
  "wf_evidence evidence commit state \<longleftrightarrow>
     evidence = JNull \<and> commit = JNull \<and> state = JStr ''captured'' \<or>
     (\<exists>s. evidence = JStr (EVIDENCE_REF_PREFIX @ s) \<and> evidence_path_ok s) \<and> sha_json FULL_SHA_RE commit"

definition wf_verify :: "json \<Rightarrow> json \<Rightarrow> bool" where
  "wf_verify verify state \<longleftrightarrow> (\<exists>v a. verify = JObj v \<and> keys_within v VERIFY_KEYS \<and>
     dget v ''profile'' JNull = JStr READONLY_E2E_PROFILE \<and> dget v ''args'' JNull = JObj a \<and> keys_within a [''min_admits''] \<and>
     (dhas a ''min_admits'' \<longrightarrow> int_at_least (dget a ''min_admits'' JNull) 0) \<and> is_int (dget v ''exit'' JNull) \<and>
     wf_evidence (dget v ''evidence_ref'' JNull) (dget v ''evidence_repo_commit'' JNull) state)"

definition wf_deployment :: "json \<Rightarrow> int \<Rightarrow> bool" where
  "wf_deployment deployment generation \<longleftrightarrow> (\<exists>d. deployment = JObj d \<and> keys_within d DEPLOYMENT_KEYS \<and>
     iso8601_ok (dget d ''deployed_at'' JNull) \<and> nonempty_string (dget d ''deployed_by'' JNull) \<and>
     dget d ''state'' JNull \<in> {JStr ''deployed'', JStr ''captured''} \<and> wf_verify (dget d ''verify'' JNull) (dget d ''state'' JNull) \<and>
     (if dget d ''supersedes_sha256'' JNull = JNull then generation = 1 else sha_json SHA256_RE (dget d ''supersedes_sha256'' JNull)))"

definition wf_manifest :: "json dict \<Rightarrow> bool" where
  "wf_manifest p \<longleftrightarrow> (\<exists>g repos. keys_within p TOP_LEVEL_KEYS \<and> dget p ''schema_version'' JNull = JInt 1 \<and>
     dget p ''kind'' JNull = JStr DEPLOYMENT_MANIFEST_KIND \<and> dget p ''generation'' JNull = JInt g \<and> 1 \<le> g \<and>
     iso8601_ok (dget p ''generated_at'' JNull) \<and> dget p ''repos'' JNull = JObj repos \<and> repos \<noteq> [] \<and>
     (\<forall>kv \<in> set repos. wf_repo (snd kv)) \<and> wf_store (dget p ''artifact_store'' JNull) (fst ` set repos) \<and>
     wf_deployment (dget p ''deployment'' JNull) g \<and> portable (JObj p))"

lemma flag_Nil [simp]: "flag b p = [] \<longleftrightarrow> \<not> b"
  by (simp add: flag_def)

lemma flag_keys_Nil [simp]: "flag_keys p d keys = [] \<longleftrightarrow> keys_within d keys"
proof -
  have "sort xs = [] \<longleftrightarrow> xs = []" for xs :: "string list" by (metis length_0_conv length_sort)
  then show ?thesis by (auto simp: flag_keys_def unknown_keys_def keys_within_def Let_def filter_empty_conv)
qed

lemma iso8601_Nil [simp]: "iso8601_problem v field = [] \<longleftrightarrow> iso8601_ok v"
  by (simp add: iso8601_problem_def)

lemma portability_Nil:
  "portability_problems j c = [] \<longleftrightarrow> portable j"
  "(\<forall>kv \<in> set (field_problems kvs c). snd kv = []) \<longleftrightarrow> (\<forall>kv \<in> set kvs. portable (snd kv))"
  "item_problems xs i c = [] \<longleftrightarrow> (\<forall>x \<in> set xs. portable x)"
  by (induction j c and kvs c and xs i c rule: portability_problems_field_problems_item_problems.induct) simp_all

lemma sha_nonempty: "FULL_SHA_RE s \<Longrightarrow> s \<noteq> []"
  by (auto simp: FULL_SHA_RE_def match_hex_def)

lemma repo_entry_Nil: "repo_entry_problems name entry = [] \<longleftrightarrow> wf_repo entry"
  by (cases entry) (auto simp: repo_entry_problems_def wf_repo_def REPO_IDENTITY_KEYS_def nonempty_string_def sha_json_def
      split: json.splits)

lemma repos_Nil: "repos_problems repos = [] \<longleftrightarrow> (\<exists>kvs. repos = JObj kvs \<and> kvs \<noteq> [] \<and> (\<forall>kv \<in> set kvs. wf_repo (snd kv)))"
  by (auto simp: repos_problems_def repo_entry_Nil split: json.splits prod.splits)

lemma store_Nil: "store_problems store repos = Inr [] \<longleftrightarrow> wf_store store (set (repo_names repos))"
proof -
  have path: "store_path_problems path = Inr ps \<longleftrightarrow> (\<exists>s. py_or path (JStr []) = JStr s \<and> ps = flag (is_absolute s \<or> has_parent_part s) (StorePath s))"
    for path ps by (auto simp: store_path_problems_def split: json.splits)
  have raises: "store_path_problems path = Inl x \<longleftrightarrow> x = TypeError \<and> (\<forall>s. py_or path (JStr []) \<noteq> JStr s)" for path x
    by (auto simp: store_path_problems_def split: json.splits)
  show ?thesis
    by (auto simp: store_problems_def artifact_store_schema_problems_def wf_store_def store_repo_problems_def path raises map_sum_def
        split: json.splits if_splits sum.splits)
qed

lemma evidence_Nil: "evidence_ref_problems evidence commit state = [] \<longleftrightarrow> wf_evidence evidence commit state"
proof -
  have "evidence_ref_problem evidence = [] \<longleftrightarrow> (\<exists>s. evidence = JStr (EVIDENCE_REF_PREFIX @ s) \<and> evidence_path_ok s)"
    by (cases evidence) (auto simp: evidence_ref_problem_def starts_with_def; metis append_take_drop_id)+
  then show ?thesis by (auto simp: evidence_ref_problems_def wf_evidence_def)
qed

lemma verify_Nil:
  "verify_block_problems verify @ (case verify of
      JObj v \<Rightarrow> evidence_ref_problems (dget v ''evidence_ref'' JNull) (dget v ''evidence_repo_commit'' JNull) state | _ \<Rightarrow> []) = []
   \<longleftrightarrow> wf_verify verify state"
proof (cases verify)
  case (JObj v)
  have "profile_validator q = (if q = JStr READONLY_E2E_PROFILE then Some readonly_e2e_args_problems else None)" for q
    by (auto simp: profile_validator_def VERIFY_PROFILE_ALLOWLIST_def split: json.splits if_splits)
  moreover have "readonly_e2e_args_problems a = [] \<longleftrightarrow> (\<exists>d. a = JObj d \<and> keys_within d [''min_admits''] \<and>
      (dhas d ''min_admits'' \<longrightarrow> int_at_least (dget d ''min_admits'' JNull) 0))" for a
    by (cases a) (auto simp: readonly_e2e_args_problems_def)
  ultimately show ?thesis unfolding JObj
    by (auto simp: verify_block_problems_def wf_verify_def evidence_Nil split: option.splits)
qed (auto simp: verify_block_problems_def wf_verify_def)

lemma deployment_Nil:
  "deployment_block_problems deployment (JInt g) = [] \<longleftrightarrow> wf_deployment deployment g"
proof (cases deployment)
  case (JObj d)
  have "deployment_state_ok v \<longleftrightarrow> v \<in> {JStr ''deployed'', JStr ''captured''}" for v
    by (auto simp: deployment_state_ok_def DEPLOYMENT_STATES_def split: json.splits)
  then show ?thesis unfolding JObj deployment_block_problems_def wf_deployment_def
    using verify_Nil [of "dget d ''verify'' JNull" "dget d ''state'' JNull"]
    by (auto simp: Let_def supersedes_problems_def)
qed (auto simp: deployment_block_problems_def wf_deployment_def)

lemma int_at_least_iff: "int_at_least v n \<longleftrightarrow> (\<exists>i. v = JInt i \<and> n \<le> i)"
  by (auto simp: int_at_least_def split: json.splits)

lemma manifest_Nil: "deployment_manifest_problems (JObj p) = Inr [] \<longleftrightarrow> wf_manifest p"
proof (cases "\<exists>g. dget p ''generation'' JNull = JInt g \<and> 1 \<le> g")
  case True
  then obtain g where g: "dget p ''generation'' JNull = JInt g" "1 \<le> g" by blast
  have port: "portability_problems (JObj p) ''$'' = [] \<longleftrightarrow> portable (JObj p)" by (rule portability_Nil)
  show ?thesis
  proof (cases "dget p ''repos'' JNull")
    case (JObj kvs)
    with g port show ?thesis
      using store_Nil [of "dget p ''artifact_store'' JNull" "JObj kvs"]
      by (cases "store_problems (dget p ''artifact_store'' JNull) (JObj kvs)")
        (auto simp: deployment_manifest_problems_def Let_def wf_manifest_def repos_Nil deployment_Nil repo_names_def
          DEPLOYMENT_MANIFEST_SCHEMA_VERSION_def int_at_least_def simp del: portability_problems.simps portable.simps)
  qed (auto simp: deployment_manifest_problems_def Let_def wf_manifest_def repos_Nil split: sum.splits)
next
  case False
  then show ?thesis
    by (auto simp: deployment_manifest_problems_def Let_def wf_manifest_def int_at_least_iff split: sum.splits)
qed

section \<open>The digest of the repositories\<close>

text \<open>\<open>str(entry[key])\<close>; the hash of the canonical text of a JSON value is an argument.\<close>

definition entry_text :: "json dict \<Rightarrow> string \<Rightarrow> py_error + string" where
  "entry_text entry k = (case map_of entry k of None \<Rightarrow> Inl KeyError | Some v \<Rightarrow> Inr (py_str v))"

definition identity_fields :: "json dict \<Rightarrow> py_error + json dict" where
  "identity_fields entry =
     collect_all (\<lambda>k. map_sum id (\<lambda>s. [(k, JStr s)]) (entry_text entry k)) REPO_IDENTITY_KEYS"

definition identity_row :: "json dict \<Rightarrow> py_error + (string \<times> json) list" where
  "identity_row entry =
     (case entry_text entry ''name'' of Inl x \<Rightarrow> Inl x | Inr name \<Rightarrow>
      map_sum id (\<lambda>fields. (''name'', JStr name) # fields) (identity_fields entry))"

definition row_name :: "json dict \<Rightarrow> string" where
  "row_name row = py_str (dget row ''name'' JNull)"

definition repo_identity_digest :: "(json \<Rightarrow> string) \<Rightarrow> json dict list \<Rightarrow> py_error + string" where
  "repo_identity_digest hash entries =
     map_sum id (\<lambda>rows. hash (JList (map JObj (sort_key row_name rows))))
       (collect_all (\<lambda>e. map_sum id (\<lambda>r. [r]) (identity_row e)) entries)"

definition named_entry :: "string \<times> json \<Rightarrow> py_error + json dict" where
  "named_entry kv =
     (case snd kv of
        JObj d \<Rightarrow> map_sum id (\<lambda>fields. (''name'', JStr (fst kv)) # fields) (identity_fields d)
      | _ \<Rightarrow> Inl TypeError)"

definition manifest_repo_identity_entries :: "json dict \<Rightarrow> py_error + json dict list" where
  "manifest_repo_identity_entries manifest =
     (case as_mapping (py_or (dget manifest ''repos'' JNull) (JObj [])) of Inl x \<Rightarrow> Inl x | Inr repos \<Rightarrow>
      collect_all (\<lambda>kv. map_sum id (\<lambda>r. [r]) (named_entry kv)) (sort_key fst repos))"

lemma collect_singles: "\<forall>x \<in> set xs. f x = Inr (g x) \<Longrightarrow> collect_all (\<lambda>x. map_sum id (\<lambda>r. [r]) (f x)) xs = Inr (map g xs)"
  by (induction xs) auto

lemma sort_key_mset:
  assumes "mset xs = mset ys" and "inj_on f (set xs)"
  shows "sort_key f xs = sort_key f ys"
  by (rule sort_key_inj_key_eq) (use assms in auto)

text \<open>The digest of a list of repository rows with distinct names does not depend on their order, so the
  lock file, the inventory and the manifest can be compared by it: two lists with the same rows
  have the same digest.\<close>

theorem identity_digest_order_free:
  assumes "mset entries = mset entries'" and "\<forall>e \<in> set entries. identity_row e = Inr (row e)"
    and "distinct (map (\<lambda>e. row_name (row e)) entries)"
  shows "repo_identity_digest hash entries = repo_identity_digest hash entries' \<and>
    (\<exists>s. repo_identity_digest hash entries = Inr s)"
proof -
  have same: "set entries' = set entries" using assms(1) by (metis set_mset_mset)
  have "mset (map row entries) = mset (map row entries')" using assms(1) by simp
  moreover have "inj_on row_name (set (map row entries))"
  proof (rule inj_onI)
    fix x y assume xy: "x \<in> set (map row entries)" "y \<in> set (map row entries)" "row_name x = row_name y"
    then obtain a b where "x = row a" "y = row b" "a \<in> set entries" "b \<in> set entries" by auto
    with xy(3) assms(3) show "x = y" by (auto simp: distinct_map inj_on_def)
  qed
  ultimately have "sort_key row_name (map row entries) = sort_key row_name (map row entries')"
    by (rule sort_key_mset)
  moreover have "collect_all (\<lambda>e. map_sum id (\<lambda>r. [r]) (identity_row e)) entries = Inr (map row entries)"
    by (rule collect_singles) (use assms(2) in blast)
  moreover have "collect_all (\<lambda>e. map_sum id (\<lambda>r. [r]) (identity_row e)) entries' = Inr (map row entries')"
    by (rule collect_singles) (use assms(2) same in blast)
  ultimately show ?thesis by (simp add: repo_identity_digest_def)
qed

section \<open>Acceptance\<close>


text \<open>An accepted manifest, and what the checks let through besides: a commit with a final newline.\<close>

definition demo_sha :: string where "demo_sha = replicate 40 CHR ''a''"

definition demo_identity :: "string \<Rightarrow> json dict" where
  "demo_identity commit = [(''remote'', JStr ''r''), (''branch'', JStr ''main''), (''commit'', JStr commit),
     (''role'', JStr ''code''), (''status'', JStr ''active'')]"

definition demo_manifest :: "string \<Rightarrow> json dict" where
  "demo_manifest commit = [(''schema_version'', JInt 1), (''kind'', JStr DEPLOYMENT_MANIFEST_KIND), (''generation'', JInt 1),
     (''generated_at'', JStr ''2026-07-10T00:00:00Z''), (''repos'', JObj [(''renquant'', JObj (demo_identity commit))]),
     (''artifact_store'', JObj [(''repo'', JStr ''renquant''), (''path'', JStr ''store'')]),
     (''deployment'', JObj [(''deployed_at'', JStr ''2026-07-10T00:00:00Z''), (''deployed_by'', JStr ''op''),
        (''verify'', JObj [(''profile'', JStr READONLY_E2E_PROFILE), (''args'', JObj [(''min_admits'', JInt 1)]),
           (''exit'', JInt 0), (''evidence_ref'', JStr ''store://evidence/e1''), (''evidence_repo_commit'', JStr commit)]),
        (''state'', JStr ''deployed''), (''supersedes_sha256'', JNull)])]"

lemma demo_manifest_accepted: "validate_deployment_manifest (JObj (demo_manifest demo_sha)) = Inr (demo_manifest demo_sha)"
  by code_simp

lemma newline_commit_accepted: "wf_manifest (demo_manifest (demo_sha @ [NEWLINE]))"
proof -
  have "validate_deployment_manifest (JObj (demo_manifest (demo_sha @ [NEWLINE]))) = Inr (demo_manifest (demo_sha @ [NEWLINE]))"
    by code_simp
  with manifest_Nil [of "demo_manifest (demo_sha @ [NEWLINE])"] show ?thesis
    by (auto simp: validate_deployment_manifest_def split: sum.splits list.splits)
qed

text \<open>A store whose repository is a list makes the checks raise instead of reporting a problem.\<close>

lemma unhashable_store_raises:
  "load_deployment_manifest (Holds (JObj [(''artifact_store'', JObj [(''repo'', JList [JNull])])])) = Inl (ManifestRaised TypeError)"
  by code_simp

theorem identity_digest_order_free_witness:
  "repo_identity_digest py_repr [(''name'', JStr ''b'') # demo_identity ''x'', (''name'', JStr ''a'') # demo_identity ''y''] =
   repo_identity_digest py_repr [(''name'', JStr ''a'') # demo_identity ''y'', (''name'', JStr ''b'') # demo_identity ''x'']"
proof -
  let ?row = "\<lambda>e. projr (identity_row e)"
  let ?es = "[(''name'', JStr ''b'') # demo_identity ''x'', (''name'', JStr ''a'') # demo_identity ''y'']"
  have "\<forall>e \<in> set ?es. identity_row e = Inr (?row e)"
    by (simp add: identity_row_def entry_text_def identity_fields_def demo_identity_def REPO_IDENTITY_KEYS_def)
  moreover have "distinct (map (\<lambda>e. row_name (?row e)) ?es)"
    by (simp add: identity_row_def entry_text_def identity_fields_def demo_identity_def REPO_IDENTITY_KEYS_def row_name_def dget_def)
  ultimately show ?thesis
    using identity_digest_order_free [of ?es "rev ?es" ?row py_repr] by simp
qed

end
