(* ===== verification/DeployState.thy ===== *)
theory DeployState
  imports DeployManifest
begin

text \<open>
  \<open>deployment_manifest.py\<close>, part 2: checkouts and the runtime inventory, the forward-only record of the
  expected generation, and the predicates of an epoch transition. What git answers for a checkout
  is an argument, \<open>None\<close> for a command that fails; a file is a \<open>sidecar\<close>, and writing a payload and
  reading it back gives the same value.
\<close>

section \<open>Checkouts\<close>

record checkout =
  ck_is_dir :: bool
  ck_head :: "string option"
  ck_status :: "string option"

datatype checkout_problem = PathMissing | NotACheckout | HeadDiffers string | StatusFailed | DirtyTree

definition head_matches :: "string \<Rightarrow> string \<Rightarrow> bool" where
  "head_matches actual expected \<longleftrightarrow> actual = expected \<or> 12 \<le> length expected \<and> starts_with actual expected"

definition check_checkout_state :: "checkout \<Rightarrow> string \<Rightarrow> bool \<Rightarrow> checkout_problem + string" where
  "check_checkout_state ck commit require_clean =
     (if \<not> ck_is_dir ck then Inl PathMissing
      else case ck_head ck of
        None \<Rightarrow> Inl NotACheckout
      | Some out \<Rightarrow>
          (let expected = py_strip commit; actual = py_strip out in
           if \<not> head_matches actual expected then Inl (HeadDiffers actual)
           else if \<not> require_clean then Inr actual
           else case ck_status ck of
               None \<Rightarrow> Inl StatusFailed
             | Some s \<Rightarrow> if py_strip s \<noteq> [] then Inl DirtyTree else Inr actual))"

text \<open>A resolved path is the list of its parts; resolving follows links and is an argument.\<close>

definition resolve_contained_subdir :: "(string \<Rightarrow> string list) \<Rightarrow> string \<Rightarrow> string \<Rightarrow> string list option" where
  "resolve_contained_subdir resolve repo subdir =
     (let root = resolve repo;
          store = resolve (if subdir = [] then repo else if is_absolute subdir then subdir else repo @ ''/'' @ subdir) in
      if take (length root) store = root then Some store else None)"

section \<open>The runtime inventory\<close>

definition RUNTIME_INVENTORY_KIND :: string where "RUNTIME_INVENTORY_KIND = ''runtime-inventory''"

datatype inventory_problem = InventoryNotObject | InventorySchema | InventoryKind | InventoryNoRepos
  | InventoryNoPath string | InventoryRelative string

definition inventory_entry_problems :: "string \<Rightarrow> json \<Rightarrow> inventory_problem list" where
  "inventory_entry_problems name entry =
     (case entry of
        JObj d \<Rightarrow>
          (case dget d ''path'' JNull of
             JStr s \<Rightarrow> if is_absolute s then [] else [InventoryRelative name]
           | _ \<Rightarrow> [InventoryNoPath name])
      | _ \<Rightarrow> [InventoryNoPath name])"

text \<open>\<open>v == 1\<close>: a boolean and a float compare as numbers.\<close>

definition equals_one :: "json \<Rightarrow> bool" where
  "equals_one v \<longleftrightarrow> v \<in> {JInt 1, JBool True, JFloat (Num 1)}"

definition runtime_inventory_problems :: "json \<Rightarrow> inventory_problem list" where
  "runtime_inventory_problems payload =
     (case payload of
        JObj p \<Rightarrow>
          (if equals_one (dget p ''schema_version'' JNull) then [] else [InventorySchema]) @
          (if dget p ''kind'' JNull = JStr RUNTIME_INVENTORY_KIND then [] else [InventoryKind]) @
          (case dget p ''repos'' JNull of
             JObj kvs \<Rightarrow>
               if kvs = [] then [InventoryNoRepos]
               else concat (map (\<lambda>(name, entry). inventory_entry_problems name entry) (sort_key fst kvs))
           | _ \<Rightarrow> [InventoryNoRepos])
      | _ \<Rightarrow> [InventoryNotObject])"

datatype inventory_error = InventoryUnreadable | InventoryInvalid "inventory_problem list" | InventoryRaised py_error

definition load_runtime_inventory :: "sidecar \<Rightarrow> inventory_error + json" where
  "load_runtime_inventory f =
     (case f of
        Holds payload \<Rightarrow>
          (let ps = runtime_inventory_problems payload in if ps = [] then Inr payload else Inl (InventoryInvalid ps))
      | NotUtf8 \<Rightarrow> Inl (InventoryRaised ValueError)
      | _ \<Rightarrow> Inl InventoryUnreadable)"

definition build_runtime_inventory :: "string \<Rightarrow> string \<Rightarrow> (string \<times> string) list \<Rightarrow> json dict" where
  "build_runtime_inventory generated_at host paths =
     [(''schema_version'', JInt 1), (''kind'', JStr RUNTIME_INVENTORY_KIND), (''generated_at'', JStr generated_at),
      (''host'', JStr host), (''repos'', JObj (map (\<lambda>(name, path). (name, JObj [(''path'', JStr path)])) (sort_key fst paths)))]"

section \<open>Verifying the checkouts\<close>

datatype verify_problem = NotInInventory string | BadCheckout string checkout_problem

datatype verify_error = CheckoutsDiffer "verify_problem list" | VerifyRaised py_error

text \<open>\<open>str(entry["commit"])\<close>\<close>

definition entry_commit :: "json \<Rightarrow> py_error + string" where
  "entry_commit entry = (case entry of JObj d \<Rightarrow> entry_text d ''commit'' | _ \<Rightarrow> Inl TypeError)"

definition inspect_repo ::
    "(string \<Rightarrow> checkout) \<Rightarrow> bool \<Rightarrow> json \<Rightarrow> string \<times> json \<Rightarrow> py_error + (verify_problem + string \<times> string)" where
  "inspect_repo probe require_clean inventory_repos kv =
     (case as_mapping inventory_repos of Inl x \<Rightarrow> Inl x | Inr listed \<Rightarrow>
      let name = fst kv; path = (case dget listed name JNull of JObj d \<Rightarrow> dget d ''path'' JNull | _ \<Rightarrow> JNull) in
      if \<not> truthy path then Inr (Inl (NotInInventory name))
      else case path of
          JStr s \<Rightarrow>
            (case entry_commit (snd kv) of
               Inl x \<Rightarrow> Inl x
             | Inr commit \<Rightarrow> Inr (map_sum (BadCheckout name) (Pair name) (check_checkout_state (probe s) commit require_clean)))
        | _ \<Rightarrow> Inl TypeError)"

definition verify_runtime_inventory ::
    "(string \<Rightarrow> checkout) \<Rightarrow> bool \<Rightarrow> json dict \<Rightarrow> json dict \<Rightarrow> verify_error + (string \<times> string) list" where
  "verify_runtime_inventory probe require_clean manifest inventory =
     (case as_mapping (py_or (dget manifest ''repos'' JNull) (JObj [])) of Inl x \<Rightarrow> Inl (VerifyRaised x) | Inr repos \<Rightarrow>
      let inventory_repos = py_or (dget inventory ''repos'' JNull) (JObj []) in
      case collect_all (\<lambda>kv. map_sum id (\<lambda>r. [r]) (inspect_repo probe require_clean inventory_repos kv)) (sort_key fst repos) of
        Inl x \<Rightarrow> Inl (VerifyRaised x)
      | Inr rs \<Rightarrow>
          (let problems = [p. Inl p \<leftarrow> rs] in
           if problems \<noteq> [] then Inl (CheckoutsDiffer problems) else Inr [q. Inr q \<leftarrow> rs]))"

section \<open>The expected generation\<close>

definition EXPECTED_GENERATION_KIND :: string where "EXPECTED_GENERATION_KIND = ''expected-generation''"

datatype record_error = RecordUnreadable | RecordMalformed | RecordRaised py_error | BadRequest
  | Decrease int int | Rewrite int

definition record_ok :: "json dict \<Rightarrow> bool" where
  "record_ok p \<longleftrightarrow> dget p ''kind'' JNull = JStr EXPECTED_GENERATION_KIND \<and> int_at_least (dget p ''generation'' JNull) 1 \<and>
     sha_json SHA256_RE (dget p ''manifest_sha256'' JNull)"

definition read_expected_generation :: "sidecar \<Rightarrow> record_error + json dict option" where
  "read_expected_generation f =
     (case f of
        Missing \<Rightarrow> Inr None
      | NotUtf8 \<Rightarrow> Inl (RecordRaised ValueError)
      | Holds (JObj p) \<Rightarrow> if record_ok p then Inr (Some p) else Inl RecordMalformed
      | Holds _ \<Rightarrow> Inl RecordMalformed
      | _ \<Rightarrow> Inl RecordUnreadable)"

definition epoch_of :: "json dict \<Rightarrow> int \<times> string" where
  "epoch_of p = (case dget p ''generation'' JNull of JInt g \<Rightarrow> g | _ \<Rightarrow> 0,
     case dget p ''manifest_sha256'' JNull of JStr s \<Rightarrow> s | _ \<Rightarrow> [])"

definition generation_payload :: "int \<Rightarrow> string \<Rightarrow> string \<Rightarrow> json dict" where
  "generation_payload g sha recorded_at =
     [(''schema_version'', JInt 1), (''kind'', JStr EXPECTED_GENERATION_KIND), (''generation'', JInt g),
      (''manifest_sha256'', JStr sha), (''recorded_at'', JStr recorded_at)]"

text \<open>The file it leaves, and the error.\<close>

definition record_expected_generation :: "string \<Rightarrow> json \<Rightarrow> json \<Rightarrow> sidecar \<Rightarrow> sidecar \<times> record_error option" where
  "record_expected_generation now generation sha f =
     (case (generation, sha) of
        (JInt g, JStr s) \<Rightarrow>
          if g < 1 \<or> \<not> SHA256_RE s then (f, Some BadRequest)
          else (case read_expected_generation f of
              Inl x \<Rightarrow> (f, Some x)
            | Inr None \<Rightarrow> (Holds (JObj (generation_payload g s now)), None)
            | Inr (Some p) \<Rightarrow>
                (let (g0, s0) = epoch_of p in
                 if g < g0 then (f, Some (Decrease g0 g))
                 else if g = g0 then (if s = s0 then (f, None) else (f, Some (Rewrite g)))
                 else (Holds (JObj (generation_payload g s now)), None)))
      | _ \<Rightarrow> (f, Some BadRequest))"

datatype generation_class = GENERATION_OK | GENERATION_STALE_OR_REPLAYED | GENERATION_TORN_APPLY

definition classify_generation :: "int \<Rightarrow> int \<Rightarrow> generation_class" where
  "classify_generation manifest expected =
     (if manifest = expected then GENERATION_OK
      else if manifest < expected then GENERATION_STALE_OR_REPLAYED
      else GENERATION_TORN_APPLY)"

section \<open>Epoch transitions\<close>

datatype violation = GenerationDivergence | ContentDivergence | GenerationSkip | NotAnExtension
  | PredecessorMismatch | ForkedEpoch violation | CandidateGeneration | CandidatePredecessor

definition steady_state_violations :: "int \<Rightarrow> string \<Rightarrow> int \<Rightarrow> string \<Rightarrow> violation list" where
  "steady_state_violations local_gen local_sha main_gen main_sha =
     (if main_gen \<noteq> local_gen then [GenerationDivergence] else []) @
     (if main_sha \<noteq> local_sha then [ContentDivergence] else [])"

definition normal_apply_violations :: "int \<Rightarrow> string \<Rightarrow> int \<Rightarrow> string option \<Rightarrow> violation list" where
  "normal_apply_violations local_gen local_sha main_gen main_supersedes =
     (if main_gen \<noteq> local_gen + 1
      then [if local_gen + 1 < main_gen then GenerationSkip else NotAnExtension] else []) @
     (if main_supersedes \<noteq> Some local_sha then [PredecessorMismatch] else [])"

definition emergency_apply_violations ::
    "int \<Rightarrow> string \<Rightarrow> int \<Rightarrow> string \<Rightarrow> int \<Rightarrow> string option \<Rightarrow> violation list" where
  "emergency_apply_violations local_gen local_sha main_gen main_sha cand_gen cand_supersedes =
     map ForkedEpoch (steady_state_violations local_gen local_sha main_gen main_sha) @
     (if cand_gen \<noteq> local_gen + 1 then [CandidateGeneration] else []) @
     (if cand_supersedes \<noteq> Some local_sha then [CandidatePredecessor] else [])"


section \<open>The recorded epoch\<close>

definition recorded :: "sidecar \<Rightarrow> (int \<times> string) option" where
  "recorded f = (case read_expected_generation f of Inr (Some p) \<Rightarrow> Some (epoch_of p) | _ \<Rightarrow> None)"

text \<open>\<open>advances e e'\<close>: the same epoch, or a later one.\<close>

definition advances :: "int \<times> string \<Rightarrow> int \<times> string \<Rightarrow> bool" where
  "advances e e' \<longleftrightarrow> e' = e \<or> fst e < fst e'"

fun record_calls :: "(string \<times> json \<times> json) list \<Rightarrow> sidecar \<Rightarrow> sidecar" where
  "record_calls [] f = f"
| "record_calls ((now, generation, sha) # cs) f = record_calls cs (fst (record_expected_generation now generation sha f))"

lemma advances_trans: "advances e e' \<Longrightarrow> advances e' e'' \<Longrightarrow> advances e e''"
  by (auto simp: advances_def)

lemma dget_payload:
  "dget (generation_payload g s now) ''kind'' JNull = JStr EXPECTED_GENERATION_KIND"
  "dget (generation_payload g s now) ''generation'' JNull = JInt g"
  "dget (generation_payload g s now) ''manifest_sha256'' JNull = JStr s"
  by (simp_all add: generation_payload_def dget_def)

lemma recorded_payload:
  assumes "1 \<le> g" and "SHA256_RE s"
  shows "recorded (Holds (JObj (generation_payload g s now))) = Some (g, s)"
  using assms by (simp add: recorded_def read_expected_generation_def record_ok_def dget_payload int_at_least_def
      sha_json_def epoch_of_def)

lemma record_cases:
  obtains (kept) x where "record_expected_generation now generation sha f = (f, Some x)"
  | (again) g s where "generation = JInt g" "sha = JStr s" "recorded f = Some (g, s)"
      "record_expected_generation now generation sha f = (f, None)"
  | (written) g s where "generation = JInt g" "sha = JStr s" "1 \<le> g" "SHA256_RE s"
      "\<forall>e. recorded f = Some e \<longrightarrow> fst e < g"
      "record_expected_generation now generation sha f = (Holds (JObj (generation_payload g s now)), None)"
proof -
  show ?thesis
  proof (cases "\<exists>g s. generation = JInt g \<and> sha = JStr s \<and> 1 \<le> g \<and> SHA256_RE s")
    case False
    then have "record_expected_generation now generation sha f = (f, Some BadRequest)"
      by (auto simp: record_expected_generation_def not_less split: json.splits if_splits)
    then show ?thesis by (rule kept)
  next
    case True
    then obtain g s where gs: "generation = JInt g" "sha = JStr s" "1 \<le> g" "SHA256_RE s" by blast
    show ?thesis
    proof (cases "read_expected_generation f")
      case (Inl x)
      with gs have "record_expected_generation now generation sha f = (f, Some x)"
        by (simp add: record_expected_generation_def)
      then show ?thesis by (rule kept)
    next
      case (Inr r)
      show ?thesis
      proof (cases r)
        case None
        with Inr gs show ?thesis by (intro written) (simp_all add: record_expected_generation_def recorded_def)
      next
        case (Some p)
        obtain g0 s0 where p: "epoch_of p = (g0, s0)" by (cases "epoch_of p")
        consider "g < g0" | "g = g0" "s = s0" | "g = g0" "s \<noteq> s0" | "g0 < g" by linarith
        then show ?thesis
        proof cases
          case 1
          with Inr Some gs p have "record_expected_generation now generation sha f = (f, Some (Decrease g0 g))"
            by (simp add: record_expected_generation_def)
          then show ?thesis by (rule kept)
        next
          case 2
          with Inr Some gs p show ?thesis by (intro again) (simp_all add: record_expected_generation_def recorded_def)
        next
          case 3
          with Inr Some gs p have "record_expected_generation now generation sha f = (f, Some (Rewrite g))"
            by (simp add: record_expected_generation_def)
          then show ?thesis by (rule kept)
        next
          case 4
          with Inr Some gs p show ?thesis by (intro written) (simp_all add: record_expected_generation_def recorded_def)
        qed
      qed
    qed
  qed
qed

lemma record_advances:
  assumes "recorded f = Some e"
  shows "\<exists>e'. recorded (fst (record_expected_generation now generation sha f)) = Some e' \<and> advances e e'"
proof (cases rule: record_cases [of now generation sha f])
  case (written g s)
  with assms show ?thesis using recorded_payload [of g s now] by (auto simp: advances_def)
qed (use assms in \<open>auto simp: advances_def\<close>)

text \<open>C28: The recorded epoch only moves forward: over any sequence of writes, accepted or refused, whatever
  the values asked for, the record stays readable and its generation never decreases, and a
  generation keeps the content it was recorded with.\<close>

theorem recorded_epoch_forward_only:
  assumes "recorded f = Some (g, s)"
  shows "\<exists>g' s'. recorded (record_calls cs f) = Some (g', s') \<and> g \<le> g' \<and> (g' = g \<longrightarrow> s' = s)"
proof -
  have "recorded f = Some e \<Longrightarrow> \<exists>e'. recorded (record_calls cs f) = Some e' \<and> advances e e'" for e
  proof (induction cs arbitrary: f e)
    case (Cons c cs)
    obtain now generation sha where c: "c = (now, generation, sha)" by (cases c)
    from record_advances [OF Cons.prems] obtain e1
      where e1: "recorded (fst (record_expected_generation now generation sha f)) = Some e1" "advances e e1" by blast
    from Cons.IH [OF e1(1)] e1(2) c show ?case by (auto intro: advances_trans)
  qed (simp add: advances_def)
  from this [OF assms] show ?thesis by (auto simp: advances_def)
qed

text \<open>A write that succeeds is what the next read answers, and a write that is refused leaves the file as it
  was, so the record is never torn by a refusal.\<close>

theorem record_read_back:
  assumes "record_expected_generation now generation sha f = (f', err)"
  shows "(err = None \<longrightarrow> (\<exists>g s. generation = JInt g \<and> sha = JStr s \<and> recorded f' = Some (g, s))) \<and> (err \<noteq> None \<longrightarrow> f' = f)"
  using assms by (cases rule: record_cases [of now generation sha f]) (auto simp: recorded_payload)

section \<open>One epoch after another\<close>

lemma steady_state_Nil: "steady_state_violations lg ls mg ms = [] \<longleftrightarrow> mg = lg \<and> ms = ls"
  by (auto simp: steady_state_violations_def)

lemma normal_apply_Nil: "normal_apply_violations lg ls mg pre = [] \<longleftrightarrow> mg = lg + 1 \<and> pre = Some ls"
  by (auto simp: normal_apply_violations_def)

lemma emergency_apply_Nil:
  "emergency_apply_violations lg ls mg ms cg pre = [] \<longleftrightarrow> mg = lg \<and> ms = ls \<and> cg = lg + 1 \<and> pre = Some ls"
  by (auto simp: emergency_apply_violations_def steady_state_Nil)

lemma record_next:
  assumes "recorded f = Some (g, s)" and "g < g'" and "SHA256_RE s'" and "1 \<le> g'"
  shows "record_expected_generation now (JInt g') (JStr s') f = (Holds (JObj (generation_payload g' s' now)), None)"
proof -
  from assms(1) obtain p where "read_expected_generation f = Inr (Some p)" "epoch_of p = (g, s)"
    by (auto simp: recorded_def split: sum.splits option.splits)
  with assms(2-4) show ?thesis by (simp add: record_expected_generation_def)
qed

lemma recorded_positive: "recorded f = Some (g, s) \<Longrightarrow> 1 \<le> g \<and> SHA256_RE s"
  by (auto simp: recorded_def read_expected_generation_def record_ok_def epoch_of_def int_at_least_def sha_json_def
      split: sidecar.splits json.splits if_splits)

text \<open>C29: One apply. From a machine whose record agrees with its manifest, a manifest that the normal or the
  emergency lane lets through is the next generation and supersedes exactly what the machine runs.
  Until it is recorded the pair reads as a torn apply; recording it succeeds, after which the pair
  reads as sound, the old pair as a replay, and writing the old epoch back is refused. After an
  emergency apply neither lane lets a further one through against the main branch it left behind.\<close>

theorem apply_advances_epoch:
  assumes "recorded f = Some (g, s)" and "SHA256_RE s'"
    and "normal_apply_violations g s g' pre = [] \<or> emergency_apply_violations g s mg ms g' pre = []"
  shows "g' = g + 1 \<and> pre = Some s \<and> classify_generation g' g = GENERATION_TORN_APPLY \<and>
    (\<exists>f'. record_expected_generation now (JInt g') (JStr s') f = (f', None) \<and> recorded f' = Some (g', s') \<and>
       classify_generation g' g' = GENERATION_OK \<and> classify_generation g g' = GENERATION_STALE_OR_REPLAYED \<and>
       record_expected_generation now' (JInt g) (JStr s) f' = (f', Some (Decrease g' g)) \<and>
       emergency_apply_violations g' s' g s g'' pre'' \<noteq> [] \<and> normal_apply_violations g' s' g pre'' \<noteq> [])"
proof -
  from assms(3) have next_epoch: "g' = g + 1" "pre = Some s"
    by (auto simp: normal_apply_Nil emergency_apply_Nil)
  from recorded_positive [OF assms(1)] have old: "1 \<le> g" "SHA256_RE s" by blast+
  let ?f = "Holds (JObj (generation_payload g' s' now))"
  have "record_expected_generation now (JInt g') (JStr s') f = (?f, None)"
    by (rule record_next [OF assms(1)]) (use next_epoch old assms(2) in auto)
  moreover have now': "recorded ?f = Some (g', s')"
    by (rule recorded_payload) (use next_epoch old assms(2) in auto)
  moreover have "record_expected_generation now' (JInt g) (JStr s) ?f = (?f, Some (Decrease g' g))"
    using old assms(2) next_epoch
    by (simp add: record_expected_generation_def read_expected_generation_def record_ok_def dget_payload epoch_of_def
        int_at_least_def sha_json_def)
  ultimately show ?thesis using next_epoch
    by (auto simp: classify_generation_def normal_apply_Nil emergency_apply_Nil)
qed


section \<open>The checkouts that are verified\<close>

text \<open>A repository is pinned when the inventory names its checkout, git answers the commit of the manifest for
  its HEAD and, where a clean tree is asked for, reports no change.\<close>

definition pinned :: "(string \<Rightarrow> checkout) \<Rightarrow> bool \<Rightarrow> json dict \<Rightarrow> string \<Rightarrow> string \<Rightarrow> bool" where
  "pinned probe require_clean listed name commit \<longleftrightarrow>
     (\<exists>d s out. map_of listed name = Some (JObj d) \<and> map_of d ''path'' = Some (JStr s) \<and> ck_is_dir (probe s) \<and>
        ck_head (probe s) = Some out \<and> py_strip out = py_strip commit \<and>
        (require_clean \<longrightarrow> (\<exists>st. ck_status (probe s) = Some st \<and> py_strip st = [])))"

text \<open>Git answers a commit of forty characters.\<close>

definition full_heads :: "(string \<Rightarrow> checkout) \<Rightarrow> bool" where
  "full_heads probe \<longleftrightarrow> (\<forall>p out. ck_head (probe p) = Some out \<longrightarrow> length (py_strip out) = 40)"

definition commits_of :: "json dict \<Rightarrow> (string \<times> string) list" where
  "commits_of repos = map (\<lambda>kv. (fst kv, case entry_commit (snd kv) of Inr c \<Rightarrow> c | Inl x \<Rightarrow> [])) repos"

lemma hex_not_space: "is_lower_hex c \<Longrightarrow> \<not> is_space c"
  unfolding is_lower_hex_def by (auto simp: is_space_def)

lemma dropWhile_none: "\<forall>x \<in> set xs. \<not> P x \<Longrightarrow> xs \<noteq> [] \<Longrightarrow> dropWhile P (xs @ ys) = xs @ ys"
  by (cases xs) auto

lemma strip_full_sha: "FULL_SHA_RE s \<Longrightarrow> length (py_strip s) = 40"
proof -
  assume "FULL_SHA_RE s"
  then obtain t where s: "s = t \<or> s = t @ [NEWLINE]" and t: "length t = 40" "\<forall>c \<in> set t. \<not> is_space c"
    unfolding FULL_SHA_RE_def match_hex_def list_all_iff
    by (metis append_take_drop_id append_Nil2 hex_not_space insertE length_take min.absorb2 singletonD)
  have "t \<noteq> []" using t(1) by auto
  with t(2) dropWhile_none [of "rev t" is_space "[]"] dropWhile_none [of t is_space]
  have "dropWhile is_space (rev t) = rev t" "dropWhile is_space (t @ r) = t @ r" for r by auto
  moreover from this(2) [of "[]"] have "dropWhile is_space t = t" by simp
  moreover have "is_space NEWLINE" by (simp add: is_space_def NEWLINE_def)
  ultimately have "py_strip s = t" using s by (auto simp: py_strip_def)
  with t(1) show ?thesis by simp
qed

lemma head_matches_full:
  "length actual = 40 \<Longrightarrow> length expected = 40 \<Longrightarrow> head_matches actual expected \<longleftrightarrow> actual = expected"
  by (auto simp: head_matches_def starts_with_def)

lemma checkout_verified:
  assumes "full_heads probe" and "FULL_SHA_RE commit"
  shows "check_checkout_state (probe s) commit rc = Inr r \<longleftrightarrow>
    ck_is_dir (probe s) \<and> (\<exists>out. ck_head (probe s) = Some out \<and> py_strip out = py_strip commit) \<and> r = py_strip commit \<and>
    (rc \<longrightarrow> (\<exists>st. ck_status (probe s) = Some st \<and> py_strip st = []))"
proof (cases "ck_head (probe s)")
  case (Some out)
  with assms have "head_matches (py_strip out) (py_strip commit) \<longleftrightarrow> py_strip out = py_strip commit"
    by (intro head_matches_full) (auto simp: full_heads_def strip_full_sha)
  with Some show ?thesis by (auto simp: check_checkout_state_def Let_def split: option.splits)
qed (auto simp: check_checkout_state_def)


lemma rights_map:
  "[p. Inl p \<leftarrow> map (\<lambda>x. Inr (h x)) xs] = []"
  "[q. Inr q \<leftarrow> map (\<lambda>x. Inr (h x)) xs] = map h xs"
  by (induction xs) simp_all

lemma accepted_repo:
  assumes "validate_deployment_manifest (JObj m) = Inr m" and "dget m ''repos'' JNull = JObj repos" and "kv \<in> set repos"
  obtains commit where "entry_commit (snd kv) = Inr commit" and "FULL_SHA_RE commit"
proof -
  have "wf_manifest m" using assms(1) manifest_Nil [of m]
    by (auto simp: validate_deployment_manifest_def split: sum.splits list.splits)
  with assms(2,3) have "wf_repo (snd kv)" by (auto simp: wf_manifest_def)
  then obtain d where d: "snd kv = JObj d" "sha_json FULL_SHA_RE (dget d ''commit'' JNull)" by (auto simp: wf_repo_def)
  from d(2) obtain commit where c: "map_of d ''commit'' = Some (JStr commit)" "FULL_SHA_RE commit"
    by (auto simp: sha_json_def dget_def split: json.splits option.splits)
  with d(1) show thesis by (intro that [of commit]) (simp_all add: entry_commit_def entry_text_def)
qed

lemma accepted_inventory:
  assumes "load_runtime_inventory (Holds (JObj v)) = Inr w"
  obtains listed where "dget v ''repos'' JNull = JObj listed" and "listed \<noteq> []"
    and "\<forall>(name, e) \<in> set listed. \<exists>d s. e = JObj d \<and> map_of d ''path'' = Some (JStr s) \<and> s \<noteq> []"
proof -
  have none: "runtime_inventory_problems (JObj v) = []"
    using assms by (auto simp: load_runtime_inventory_def Let_def split: if_splits)
  show thesis
  proof (cases "dget v ''repos'' JNull")
    case (JObj listed)
    with none have l: "listed \<noteq> []" "\<forall>(name, e) \<in> set listed. inventory_entry_problems name e = []"
      by (auto simp: runtime_inventory_problems_def split: if_splits)
    have "inventory_entry_problems name e = [] \<Longrightarrow> \<exists>d s. e = JObj d \<and> map_of d ''path'' = Some (JStr s) \<and> s \<noteq> []" for name e
      by (auto simp: inventory_entry_problems_def dget_def is_absolute_def starts_with_def split: json.splits option.splits if_splits)
    with l JObj show ?thesis by (intro that [of listed]) auto
  qed (use none in \<open>auto simp: runtime_inventory_problems_def split: if_splits\<close>)
qed

lemma inspect_accepted:
  assumes "entry_commit (snd kv) = Inr commit" and "FULL_SHA_RE commit" and "full_heads probe"
    and "\<forall>(name, e) \<in> set listed. \<exists>d s. e = JObj d \<and> map_of d ''path'' = Some (JStr s) \<and> s \<noteq> []"
  shows "if pinned probe rc listed (fst kv) commit
    then inspect_repo probe rc (JObj listed) kv = Inr (Inr (fst kv, py_strip commit))
    else \<exists>p. inspect_repo probe rc (JObj listed) kv = Inr (Inl p)"
proof (cases "map_of listed (fst kv)")
  case None
  then show ?thesis by (simp add: pinned_def inspect_repo_def dget_def)
next
  case (Some e)
  then have "(fst kv, e) \<in> set listed" by (rule map_of_SomeD)
  with assms(4) obtain d s where e: "e = JObj d" "map_of d ''path'' = Some (JStr s)" "s \<noteq> []" by blast
  have "inspect_repo probe rc (JObj listed) kv
      = Inr (map_sum (BadCheckout (fst kv)) (Pair (fst kv)) (check_checkout_state (probe s) commit rc))"
    using Some e assms(1) by (simp add: inspect_repo_def dget_def Let_def)
  moreover have "pinned probe rc listed (fst kv) commit \<longleftrightarrow> check_checkout_state (probe s) commit rc = Inr (py_strip commit)"
    using Some e checkout_verified [OF assms(3,2), of s rc "py_strip commit"] by (auto simp: pinned_def)
  moreover have "check_checkout_state (probe s) commit rc = Inr r \<Longrightarrow> r = py_strip commit" for r
    using checkout_verified [OF assms(3,2)] by blast
  ultimately show ?thesis by (cases "check_checkout_state (probe s) commit rc") auto
qed

text \<open>C30: For an accepted manifest and a valid inventory the verification never raises: it answers the commits of
  the manifest exactly when every repository is pinned, and otherwise reports the ones that are not.
  Git is assumed to answer full commits.\<close>

theorem verified_iff_pinned:
  assumes "validate_deployment_manifest (JObj m) = Inr m" and "dget m ''repos'' JNull = JObj repos"
    and "load_runtime_inventory (Holds (JObj v)) = Inr w" and "dget v ''repos'' JNull = JObj listed"
    and "full_heads probe"
  shows "if \<forall>(name, commit) \<in> set (commits_of repos). pinned probe rc listed name commit
    then verify_runtime_inventory probe rc m v = Inr (map (\<lambda>(name, commit). (name, py_strip commit)) (commits_of (sort_key fst repos)))
    else \<exists>p ps. verify_runtime_inventory probe rc m v = Inl (CheckoutsDiffer (p # ps))"
proof -
  let ?c = "\<lambda>kv. case entry_commit (snd kv) of Inr c \<Rightarrow> c | Inl x \<Rightarrow> []"
  let ?g = "\<lambda>kv. projr (inspect_repo probe rc (JObj listed) kv)"
  have listed: "listed \<noteq> []" "\<forall>(name, e) \<in> set listed. \<exists>d s. e = JObj d \<and> map_of d ''path'' = Some (JStr s) \<and> s \<noteq> []"
    using accepted_inventory [OF assms(3)] assms(4) by auto
  have one: "if pinned probe rc listed (fst kv) (?c kv) then inspect_repo probe rc (JObj listed) kv = Inr (Inr (fst kv, py_strip (?c kv)))
      else \<exists>p. inspect_repo probe rc (JObj listed) kv = Inr (Inl p)" if kv: "kv \<in> set repos" for kv
  proof -
    obtain commit where "entry_commit (snd kv) = Inr commit" "FULL_SHA_RE commit"
      by (rule accepted_repo [OF assms(1,2) kv])
    with inspect_accepted [of kv commit probe listed rc] assms(5) listed(2) show ?thesis by simp
  qed
  then have g: "\<forall>kv \<in> set (sort_key fst repos). inspect_repo probe rc (JObj listed) kv = Inr (?g kv)"
    by (metis set_sort sum.sel(2))
  have repos: "as_mapping (py_or (dget m ''repos'' JNull) (JObj [])) = Inr repos"
    "py_or (dget v ''repos'' JNull) (JObj []) = JObj listed" using assms(2,4) listed(1) by (cases repos; simp add: py_or_def)+
  let ?rs = "map ?g (sort_key fst repos)"
  have run: "verify_runtime_inventory probe rc m v
      = (if [p. Inl p \<leftarrow> ?rs] \<noteq> [] then Inl (CheckoutsDiffer [p. Inl p \<leftarrow> ?rs]) else Inr [q. Inr q \<leftarrow> ?rs])"
    by (simp add: verify_runtime_inventory_def repos Let_def collect_singles [OF g])
  show ?thesis
  proof (cases "\<forall>kv \<in> set repos. pinned probe rc listed (fst kv) (?c kv)")
    case True
    with one have "?rs = map (\<lambda>kv. Inr (fst kv, py_strip (?c kv))) (sort_key fst repos)" by simp
    then have "[p. Inl p \<leftarrow> ?rs] = []" "[q. Inr q \<leftarrow> ?rs] = map (\<lambda>kv. (fst kv, py_strip (?c kv))) (sort_key fst repos)"
      by (simp_all only: rights_map)
    with run True show ?thesis by (auto simp: commits_of_def)
  next
    case False
    then obtain kv where kv: "kv \<in> set repos" "\<not> pinned probe rc listed (fst kv) (?c kv)" by blast
    with one [of kv] obtain p where "?g kv = Inl p" by auto
    with kv(1) have "p \<in> set [p. Inl p \<leftarrow> ?rs]" by force
    then have "[p. Inl p \<leftarrow> ?rs] \<noteq> []" by (metis empty_iff list.set(1))
    then obtain q qs where some: "[p. Inl p \<leftarrow> ?rs] = q # qs" by (meson neq_Nil_conv)
    have "verify_runtime_inventory probe rc m v = Inl (CheckoutsDiffer (q # qs))" unfolding run some by simp
    moreover have "\<not> (\<forall>(name, commit) \<in> set (commits_of repos). pinned probe rc listed name commit)"
      using kv by (auto simp: commits_of_def)
    ultimately show ?thesis by auto
  qed
qed


section \<open>At concrete inputs\<close>

definition demo_epoch_sha :: "char \<Rightarrow> string" where "demo_epoch_sha c = replicate 64 c"

definition demo_epoch_record :: sidecar where
  "demo_epoch_record = Holds (JObj (generation_payload 3 (demo_epoch_sha CHR ''a'') ''t''))"

definition demo_inventory :: "json dict" where
  "demo_inventory = build_runtime_inventory ''t'' ''h'' [(''renquant'', ''/src/renquant'')]"

definition demo_probe :: "string \<Rightarrow> string \<Rightarrow> checkout" where
  "demo_probe head p = \<lparr>ck_is_dir = True, ck_head = Some (head @ [NEWLINE]), ck_status = Some []\<rparr>"

lemma demo_epoch_recorded: "recorded demo_epoch_record = Some (3, demo_epoch_sha CHR ''a'')"
  by code_simp

lemma demo_epoch_next: "SHA256_RE (demo_epoch_sha CHR ''b'')"
  by code_simp

theorem recorded_epoch_forward_only_witness:
  "\<exists>g' s'. recorded (record_calls [(''t'', JInt 2, JStr (demo_epoch_sha CHR ''b'')), (''t'', JInt 5, JStr (demo_epoch_sha CHR ''b'')),
     (''t'', JInt 3, JStr (demo_epoch_sha CHR ''a''))] demo_epoch_record) = Some (g', s') \<and> 3 \<le> g' \<and>
     (g' = 3 \<longrightarrow> s' = demo_epoch_sha CHR ''a'')"
  by (rule recorded_epoch_forward_only [OF demo_epoch_recorded])

lemma demo_epoch_write:
  "record_expected_generation ''t'' (JInt 4) (JStr (demo_epoch_sha CHR ''b'')) demo_epoch_record =
   (Holds (JObj (generation_payload 4 (demo_epoch_sha CHR ''b'') ''t'')), None)"
  by code_simp

theorem record_read_back_witness:
  "recorded (Holds (JObj (generation_payload 4 (demo_epoch_sha CHR ''b'') ''t''))) = Some (4, demo_epoch_sha CHR ''b'')"
  using record_read_back [OF demo_epoch_write] by auto

theorem apply_advances_epoch_witness:
  "\<exists>f'. record_expected_generation ''t'' (JInt 4) (JStr (demo_epoch_sha CHR ''b'')) demo_epoch_record = (f', None) \<and>
     recorded f' = Some (4, demo_epoch_sha CHR ''b'')"
proof -
  have "normal_apply_violations 3 (demo_epoch_sha CHR ''a'') 4 (Some (demo_epoch_sha CHR ''a'')) = [] \<or>
      emergency_apply_violations 3 (demo_epoch_sha CHR ''a'') 3 [] 4 (Some (demo_epoch_sha CHR ''a'')) = []"
    by (simp add: normal_apply_Nil)
  from apply_advances_epoch [OF demo_epoch_recorded demo_epoch_next this, of "''t''" "''t''"]
  show ?thesis by blast
qed

lemma demo_inventory_loads: "load_runtime_inventory (Holds (JObj demo_inventory)) = Inr (JObj demo_inventory)"
  by code_simp

lemma demo_repos:
  "dget (demo_manifest c) ''repos'' JNull = JObj [(''renquant'', JObj (demo_identity c))]"
  "dget demo_inventory ''repos'' JNull = JObj [(''renquant'', JObj [(''path'', JStr ''/src/renquant'')])]"
  by (simp_all add: demo_manifest_def demo_inventory_def build_runtime_inventory_def dget_def)

lemma demo_full_heads: "full_heads (demo_probe demo_sha)"
proof -
  have "length (py_strip (demo_sha @ [NEWLINE])) = 40" by code_simp
  then show ?thesis by (simp add: full_heads_def demo_probe_def)
qed

theorem verified_iff_pinned_witness:
  "verify_runtime_inventory (demo_probe demo_sha) True (demo_manifest demo_sha) demo_inventory = Inr [(''renquant'', demo_sha)]"
proof -
  have strip: "py_strip (demo_sha @ [NEWLINE]) = demo_sha" "py_strip demo_sha = demo_sha" by code_simp+
  have commits: "commits_of [(''renquant'', JObj (demo_identity demo_sha))] = [(''renquant'', demo_sha)]"
    by (simp add: commits_of_def entry_commit_def entry_text_def demo_identity_def)
  have "pinned (demo_probe demo_sha) True [(''renquant'', JObj [(''path'', JStr ''/src/renquant'')])] ''renquant'' demo_sha"
    by (simp add: pinned_def demo_probe_def strip) (simp add: py_strip_def)
  with verified_iff_pinned [OF demo_manifest_accepted demo_repos(1) demo_inventory_loads demo_repos(2) demo_full_heads, of True]
  show ?thesis by (simp add: commits strip)
qed

end
