(* ===== verification/RunManifest.thy ===== *)
theory RunManifest
  imports DeployState
begin

text \<open>
  The frozen world of a run: the run manifest of \<open>shadow_ab_runner.py\<close>, the artifact references of a
  strategy configuration (\<open>native_live_context.py\<close>) and the resolution of an artifact
  (\<open>artifact_resolver.py\<close>). Resolving a path, its existence, git and the fingerprint of an artifact
  are arguments; a resolved path is the list of its parts.
\<close>

section \<open>The run manifest\<close>

definition EXPERIMENT_PIN_REPOS :: "string list" where
  "EXPERIMENT_PIN_REPOS = [''renquant-strategy-104'', ''renquant-pipeline'', ''renquant-execution'']"

datatype run_problem = NoReposMap | NeedsPathCommit string | MissingRepos "string list" | BadStore manifest_problem
  | CheckoutProblems "(string \<times> checkout_problem) list" | StoreEscapes | StoreNotDirectory | NoPinnedStrategy
  | NoModelDeclared | PinNotFound string | MissingPins "string list" | InputNotObject | PlansDiffer

text \<open>\<open>ShadowABContractError\<close>, \<open>OSError\<close> and the other exceptions.\<close>

datatype run_error = ContractViolated run_problem | RunOsError | RunRaised py_error

definition has_path_commit :: "json \<Rightarrow> bool" where
  "has_path_commit entry \<longleftrightarrow>
     (case entry of JObj d \<Rightarrow> truthy (dget d ''path'' JNull) \<and> truthy (dget d ''commit'' JNull) | _ \<Rightarrow> False)"

definition check_run_store :: "json dict \<Rightarrow> json dict \<Rightarrow> run_error + json dict" where
  "check_run_store p repos =
     (if dget p ''artifact_store'' JNull = JNull then Inr p
      else case artifact_store_schema_problems (dget p ''artifact_store'' JNull) (map fst repos) of
          Inl x \<Rightarrow> Inl (RunRaised x)
        | Inr (q # qs) \<Rightarrow> Inl (ContractViolated (BadStore q))
        | Inr [] \<Rightarrow> Inr p)"

definition check_run_repos :: "json dict \<Rightarrow> json dict \<Rightarrow> run_error + json dict" where
  "check_run_repos p repos =
     (case find (\<lambda>kv. \<not> has_path_commit (snd kv)) repos of
        Some kv \<Rightarrow> Inl (ContractViolated (NeedsPathCommit (fst kv)))
      | None \<Rightarrow>
          (let missing = filter (\<lambda>n. \<not> dhas repos n) EXPERIMENT_PIN_REPOS in
           if missing \<noteq> [] then Inl (ContractViolated (MissingRepos missing))
           else check_run_store p repos))"

definition load_run_manifest :: "sidecar \<Rightarrow> run_error + json dict" where
  "load_run_manifest f =
     (case f of
        Holds (JObj p) \<Rightarrow>
          (case dget p ''repos'' JNull of
             JObj repos \<Rightarrow> if repos = [] then Inl (ContractViolated NoReposMap) else check_run_repos p repos
           | _ \<Rightarrow> Inl (ContractViolated NoReposMap))
      | Holds v \<Rightarrow> Inl (RunRaised AttributeError)
      | NotUtf8 \<Rightarrow> Inl (RunRaised ValueError)
      | NotJson \<Rightarrow> Inl (RunRaised ValueError)
      | _ \<Rightarrow> Inl RunOsError)"

text \<open>\<open>entry[k]\<close>\<close>

definition entry_item :: "json \<Rightarrow> string \<Rightarrow> py_error + json" where
  "entry_item entry k =
     (case entry of
        JObj d \<Rightarrow> (case map_of d k of None \<Rightarrow> Inl KeyError | Some v \<Rightarrow> Inr v)
      | _ \<Rightarrow> Inl TypeError)"

definition run_checkout ::
    "(string \<Rightarrow> checkout) \<Rightarrow> string \<times> json \<Rightarrow> py_error + ((string \<times> checkout_problem) + string \<times> string)" where
  "run_checkout probe kv =
     (case entry_item (snd kv) ''path'' of
        Inl x \<Rightarrow> Inl x
      | Inr (JStr s) \<Rightarrow>
          (case entry_item (snd kv) ''commit'' of
             Inl x \<Rightarrow> Inl x
           | Inr c \<Rightarrow> Inr (map_sum (Pair (fst kv)) (Pair (fst kv)) (check_checkout_state (probe s) (py_str c) True)))
      | Inr v \<Rightarrow> Inl TypeError)"

definition verify_run_manifest :: "(string \<Rightarrow> checkout) \<Rightarrow> json dict \<Rightarrow> run_error + (string \<times> string) list" where
  "verify_run_manifest probe manifest =
     (case as_mapping (py_or (dget manifest ''repos'' JNull) (JObj [])) of Inl x \<Rightarrow> Inl (RunRaised x) | Inr repos \<Rightarrow>
      case collect_all (\<lambda>kv. map_sum id (\<lambda>r. [r]) (run_checkout probe kv)) (sort_key fst repos) of
        Inl x \<Rightarrow> Inl (RunRaised x)
      | Inr rs \<Rightarrow>
          (let problems = [p. Inl p \<leftarrow> rs] in
           if problems \<noteq> [] then Inl (ContractViolated (CheckoutProblems problems)) else Inr [q. Inr q \<leftarrow> rs]))"

text \<open>The store's root inside its repository; the name is a text in every manifest that was loaded.\<close>

definition resolve_manifest_artifact_store ::
    "(string \<Rightarrow> string list) \<Rightarrow> json dict \<Rightarrow> run_error + string list option" where
  "resolve_manifest_artifact_store resolve manifest =
     (case dget manifest ''artifact_store'' JNull of
        JNull \<Rightarrow> Inr None
      | store \<Rightarrow>
          (case entry_item (JObj manifest) ''repos'' of Inl x \<Rightarrow> Inl (RunRaised x) | Inr repos \<Rightarrow>
           case entry_item store ''repo'' of Inl x \<Rightarrow> Inl (RunRaised x) | Inr name \<Rightarrow>
           case entry_item repos (py_str name) of Inl x \<Rightarrow> Inl (RunRaised x) | Inr entry \<Rightarrow>
           case (entry_item entry ''path'', py_or (dget (case store of JObj d \<Rightarrow> d | _ \<Rightarrow> []) ''path'' JNull) (JStr [])) of
             (Inl x, _) \<Rightarrow> Inl (RunRaised x)
           | (Inr (JStr repo), JStr subdir) \<Rightarrow>
               (case resolve_contained_subdir resolve repo subdir of
                  None \<Rightarrow> Inl (ContractViolated StoreEscapes)
                | Some base \<Rightarrow> Inr (Some base))
           | _ \<Rightarrow> Inl (RunRaised TypeError)))"

section \<open>Artifacts\<close>

text \<open>What is relied on of the file system.\<close>

record disk =
  dk_resolve :: "string \<Rightarrow> string list"
  dk_exists :: "string list \<Rightarrow> bool"

definition join_path :: "string \<Rightarrow> string \<Rightarrow> string" where
  "join_path a b = (if is_absolute b then b else a @ ''/'' @ b)"

definition path_parts :: "string \<Rightarrow> string list" where
  "path_parts s = filter (\<lambda>p. p \<noteq> [] \<and> p \<noteq> ''.'') (split_slash s)"

definition store_relative_ref :: "string \<Rightarrow> string option" where
  "store_relative_ref ref =
     (if is_absolute ref then None
      else (let rest = dropWhile (\<lambda>p. p = ''..'') (path_parts ref) in
        case rest of
          a # b # cs \<Rightarrow> if a \<noteq> ''artifacts'' \<or> ''..'' \<in> set rest then None else Some (join_with ''/'' (b # cs))
        | _ \<Rightarrow> None))"

datatype artifact_source = FromAbsolute | FromStore | FromStrategyDir | FromRepoRoot

definition artifact_candidates :: "string \<Rightarrow> string \<Rightarrow> string \<Rightarrow> string option \<Rightarrow> (string \<times> artifact_source) list" where
  "artifact_candidates ref strategy_dir repo_root store =
     (if is_absolute ref then [(ref, FromAbsolute)]
      else case (store, store_relative_ref ref) of
          (Some base, Some rel) \<Rightarrow> [(join_path base rel, FromStore)]
        | _ \<Rightarrow> [(join_path strategy_dir ref, FromStrategyDir), (join_path repo_root ref, FromRepoRoot)])"

fun first_artifact :: "disk \<Rightarrow> string list \<Rightarrow> (string \<times> artifact_source) list \<Rightarrow> (string list \<times> artifact_source) option" where
  "first_artifact dk base [] = None"
| "first_artifact dk base ((cand, source) # cs) =
     (let p = dk_resolve dk cand in
      if \<not> dk_exists dk p then first_artifact dk base cs
      else if source = FromStore \<and> take (length base) p \<noteq> base then None
      else Some (p, source))"

text \<open>\<open>None\<close> is \<open>FileNotFoundError\<close>.\<close>

definition resolve_artifact :: "disk \<Rightarrow> string \<Rightarrow> string \<Rightarrow> string \<Rightarrow> string option \<Rightarrow> (string list \<times> artifact_source) option" where
  "resolve_artifact dk ref strategy_dir repo_root store =
     first_artifact dk (case store of None \<Rightarrow> [] | Some s \<Rightarrow> dk_resolve dk s) (artifact_candidates ref strategy_dir repo_root store)"

text \<open>The references of a configuration: the model's as a text, the calibrator's as it stands.\<close>

definition panel_section :: "json dict \<Rightarrow> py_error + json dict" where
  "panel_section config =
     (case as_mapping (py_or (dget config ''ranking'' JNull) (JObj [])) of Inl x \<Rightarrow> Inl x | Inr ranking \<Rightarrow>
      as_mapping (py_or (dget ranking ''panel_scoring'' JNull) (py_or (dget config ''panel_ltr'' JNull) (JObj []))))"

definition panel_artifact_refs :: "json dict \<Rightarrow> py_error + string \<times> json option" where
  "panel_artifact_refs config =
     (case panel_section config of Inl x \<Rightarrow> Inl x | Inr panel \<Rightarrow>
      if \<not> truthy (dget panel ''artifact_path'' JNull) then Inl ValueError
      else case as_mapping (py_or (dget panel ''global_calibration'' JNull) (JObj [])) of Inl x \<Rightarrow> Inl x | Inr calibration \<Rightarrow>
        if \<not> truthy (dget calibration ''enabled'' JNull) then Inr (py_str (dget panel ''artifact_path'' JNull), None)
        else if \<not> truthy (dget calibration ''artifact_path'' JNull) then Inl ValueError
        else Inr (py_str (dget panel ''artifact_path'' JNull), Some (dget calibration ''artifact_path'' JNull)))"

datatype artifact_problem = NoArtifactRef | ModelUnresolvable | ModelShaDiffers string | CalibratorNotDeclared
  | CalibratorNotFrozen | CalibratorUnresolvable | CalibratorShaDiffers string

text \<open>\<open>DecisionSnapshotMismatchError\<close> and the other exceptions.\<close>

datatype artifact_error = ArtifactMismatch artifact_problem | ArtifactRaised py_error

record anchors =
  an_strategy_dir :: string
  an_repo_root :: string
  an_store :: "string option"

type_synonym fingerprint = "string list \<Rightarrow> py_error + string"

definition resolved_sha :: "disk \<Rightarrow> fingerprint \<Rightarrow> anchors \<Rightarrow> json \<Rightarrow> artifact_problem \<Rightarrow> artifact_error + string" where
  "resolved_sha dk fp an ref unresolvable =
     (case ref of
        JStr r \<Rightarrow>
          (case resolve_artifact dk r (an_strategy_dir an) (an_repo_root an) (an_store an) of
             None \<Rightarrow> Inl (ArtifactMismatch unresolvable)
           | Some (p, source) \<Rightarrow> (case fp p of Inl x \<Rightarrow> Inl (ArtifactRaised x) | Inr sha \<Rightarrow> Inr sha))
      | _ \<Rightarrow> Inl (ArtifactRaised TypeError))"

definition check_calibrator ::
    "disk \<Rightarrow> fingerprint \<Rightarrow> anchors \<Rightarrow> json option \<Rightarrow> string option \<Rightarrow> artifact_error + string option" where
  "check_calibrator dk fp an ref frozen =
     (case (ref, frozen) of
        (None, None) \<Rightarrow> Inr None
      | (None, Some sha) \<Rightarrow> Inl (ArtifactMismatch CalibratorNotDeclared)
      | (Some r, None) \<Rightarrow> Inl (ArtifactMismatch CalibratorNotFrozen)
      | (Some r, Some sha) \<Rightarrow>
          (case resolved_sha dk fp an r CalibratorUnresolvable of Inl x \<Rightarrow> Inl x | Inr actual \<Rightarrow>
           if actual \<noteq> sha then Inl (ArtifactMismatch (CalibratorShaDiffers actual)) else Inr (Some actual)))"

definition verify_config_artifact_shas ::
    "disk \<Rightarrow> fingerprint \<Rightarrow> anchors \<Rightarrow> json dict \<Rightarrow> string \<Rightarrow> string option \<Rightarrow> artifact_error + string \<times> string option" where
  "verify_config_artifact_shas dk fp an config model_sha calibrator_sha =
     (case panel_artifact_refs config of
        Inl ValueError \<Rightarrow> Inl (ArtifactMismatch NoArtifactRef)
      | Inl x \<Rightarrow> Inl (ArtifactRaised x)
      | Inr (model_ref, calibrator_ref) \<Rightarrow>
          (case resolved_sha dk fp an (JStr model_ref) ModelUnresolvable of Inl x \<Rightarrow> Inl x | Inr actual \<Rightarrow>
           if actual \<noteq> model_sha then Inl (ArtifactMismatch (ModelShaDiffers actual))
           else map_sum id (Pair actual) (check_calibrator dk fp an calibrator_ref calibrator_sha)))"

end
