(* ===== verification/PersistenceGuard.thy ===== *)
theory PersistenceGuard
  imports RunManifest
begin

text \<open>
  \<open>native_persistence_guard.py\<close>: the checks that stand before a live mutation, and the signed incident
  token that alone may override them. The answer of \<open>ssh-keygen -Y verify\<close> for a principal and a
  namespace is an argument, as are the files. A message is the value of a problem.
\<close>

section \<open>Tokens\<close>

definition INCIDENT_TOKEN_KIND :: string where "INCIDENT_TOKEN_KIND = ''persistence_guard_incident_token''"

definition MAX_INCIDENT_TOKEN_TTL :: int where "MAX_INCIDENT_TOKEN_TTL = 24 * 3600 * 1000000"

definition SIGNATURE_NAMESPACE :: string where "SIGNATURE_NAMESPACE = ''renquant-persistence-guard''"

definition CHECK_RUN_MANIFEST :: string where "CHECK_RUN_MANIFEST = ''run_manifest''"
definition CHECK_ARTIFACT_SHA :: string where "CHECK_ARTIFACT_SHA = ''artifact_sha''"
definition CHECK_DECISION_SNAPSHOT :: string where "CHECK_DECISION_SNAPSHOT = ''decision_snapshot''"

definition OVERRIDABLE_CHECKS :: "string list" where
  "OVERRIDABLE_CHECKS = [CHECK_RUN_MANIFEST, CHECK_ARTIFACT_SHA, CHECK_DECISION_SNAPSHOT]"

datatype token_problem = TokenKind | TokenSchema | TokenField string | TimeNotText string | TimeUnreadable string
  | TimeNaive string | ScopeMissing | ScopeRunId | OtherRun string | ScopeChecks | ScopeModel | OtherModel string
  | ScopeConfig | OtherConfig string | WindowEmpty | WindowTooLong | NotYetValid | Expired

definition blank_text :: "json \<Rightarrow> bool" where
  "blank_text v \<longleftrightarrow> (case v of JStr s \<Rightarrow> py_strip s = [] | _ \<Rightarrow> True)"

definition text_of :: "json \<Rightarrow> string" where
  "text_of v = (case v of JStr s \<Rightarrow> s | _ \<Rightarrow> [])"

definition parse_utc :: "json \<Rightarrow> string \<Rightarrow> token_problem + int" where
  "parse_utc value field =
     (if blank_text value then Inl (TimeNotText field)
      else (let raw = py_strip (text_of value) in
        case from_isoformat (if last raw = CHR ''Z'' then butlast raw @ ''+00:00'' else raw) of
          None \<Rightarrow> Inl (TimeUnreadable field)
        | Some d \<Rightarrow> (case utc_offset d of None \<Rightarrow> Inl (TimeNaive field) | Some off \<Rightarrow> Inr (wall d - off))))"

definition problem_of :: "'p + 'a \<Rightarrow> 'p list" where
  "problem_of r = (case r of Inl p \<Rightarrow> [p] | Inr v \<Rightarrow> [])"

definition run_id_problems :: "json \<Rightarrow> string option \<Rightarrow> token_problem list" where
  "run_id_problems v run_id =
     (if blank_text v then [ScopeRunId] else if run_id \<noteq> Some (text_of v) then [OtherRun (text_of v)] else [])"

definition checks_of :: "json \<Rightarrow> string list option" where
  "checks_of v =
     (case v of
        JList xs \<Rightarrow>
          if xs \<noteq> [] \<and> (\<forall>x \<in> set xs. \<exists>c \<in> set OVERRIDABLE_CHECKS. x = JStr c)
          then Some (sort (remdups (map text_of xs))) else None
      | _ \<Rightarrow> None)"

definition identity_problems :: "json \<Rightarrow> string \<Rightarrow> token_problem \<Rightarrow> (string \<Rightarrow> token_problem) \<Rightarrow> token_problem list" where
  "identity_problems v expected missing other =
     (if blank_text v then [missing] else if text_of v \<noteq> expected then [other (text_of v)] else [])"

definition scope_problems :: "json \<Rightarrow> string option \<Rightarrow> string \<Rightarrow> string \<Rightarrow> token_problem list" where
  "scope_problems scope run_id model_sha config_sha =
     (case scope of
        JObj s \<Rightarrow>
          run_id_problems (dget s ''run_id'' JNull) run_id @
          (if checks_of (dget s ''checks'' JNull) = None then [ScopeChecks] else []) @
          identity_problems (dget s ''model_content_sha256'' JNull) model_sha ScopeModel OtherModel @
          identity_problems (dget s ''strategy_config_sha256'' JNull) config_sha ScopeConfig OtherConfig
      | _ \<Rightarrow> [ScopeMissing])"

definition window_problems :: "token_problem + int \<Rightarrow> token_problem + int \<Rightarrow> int \<Rightarrow> token_problem list" where
  "window_problems issued expires now =
     (case (issued, expires) of
        (Inr i, Inr x) \<Rightarrow>
          (if x \<le> i then [WindowEmpty] else if MAX_INCIDENT_TOKEN_TTL < x - i then [WindowTooLong] else []) @
          (if now < i then [NotYetValid] else [])
      | _ \<Rightarrow> []) @
     (case expires of Inr x \<Rightarrow> if x \<le> now then [Expired] else [] | Inl p \<Rightarrow> [])"

record token_record =
  tk_incident :: string
  tk_operator :: string
  tk_reason :: string
  tk_issued :: int
  tk_expires :: int
  tk_run_id :: "string option"
  tk_checks :: "string list"
  tk_model :: string
  tk_config :: string

datatype guard_error = ManifestInvalid run_problem | GuardUnreadable | NoToken "string list" | TokenUnreadable
  | NoOperator | Unsigned | NoRegistry | CannotVerify | SignatureFailed | TokenRejected "token_problem list"
  | ScopeTooNarrow "string list" | GuardOsError | GuardRaised py_error

definition token_problems :: "json dict \<Rightarrow> string option \<Rightarrow> string \<Rightarrow> string \<Rightarrow> int \<Rightarrow> token_problem list" where
  "token_problems token run_id model_sha config_sha now =
     (let issued = parse_utc (dget token ''issued_at'' JNull) ''issued_at'';
          expires = parse_utc (dget token ''expires_at'' JNull) ''expires_at'' in
      (if dget token ''kind'' JNull = JStr INCIDENT_TOKEN_KIND then [] else [TokenKind]) @
      (if equals_one (dget token ''schema_version'' JNull) then [] else [TokenSchema]) @
      concat (map (\<lambda>f. if blank_text (dget token f JNull) then [TokenField f] else []) [''incident'', ''operator'', ''reason'']) @
      problem_of issued @ problem_of expires @
      scope_problems (dget token ''scope'' JNull) run_id model_sha config_sha @
      window_problems issued expires now)"

definition time_of :: "json dict \<Rightarrow> string \<Rightarrow> int" where
  "time_of token k = (case parse_utc (dget token k JNull) k of Inr t \<Rightarrow> t | Inl p \<Rightarrow> 0)"

definition scope_checks :: "json dict \<Rightarrow> string list" where
  "scope_checks token =
     (case dget token ''scope'' JNull of
        JObj s \<Rightarrow> (case checks_of (dget s ''checks'' JNull) of Some cs \<Rightarrow> cs | None \<Rightarrow> [])
      | _ \<Rightarrow> [])"

definition validate_incident_token ::
    "json dict \<Rightarrow> string option \<Rightarrow> string \<Rightarrow> string \<Rightarrow> int \<Rightarrow> guard_error + token_record" where
  "validate_incident_token token run_id model_sha config_sha now =
     (let problems = token_problems token run_id model_sha config_sha now;
          field = (\<lambda>f. py_strip (text_of (dget token f JNull))) in
      if problems \<noteq> [] then Inl (TokenRejected problems)
      else Inr \<lparr>tk_incident = field ''incident'', tk_operator = field ''operator'', tk_reason = field ''reason'',
        tk_issued = time_of token ''issued_at'', tk_expires = time_of token ''expires_at'', tk_run_id = run_id,
        tk_checks = scope_checks token, tk_model = model_sha, tk_config = config_sha\<rparr>)"

section \<open>The signature\<close>

text \<open>The files beside a token and the verdict of the verification; \<open>None\<close> when the tool cannot be run.\<close>

record signing =
  sg_token :: sidecar
  sg_has_signature :: bool
  sg_has_registry :: bool
  sg_verify :: "string \<Rightarrow> string \<Rightarrow> bool option"

definition load_incident_token :: "sidecar \<Rightarrow> guard_error + json dict" where
  "load_incident_token f = (case f of Holds (JObj p) \<Rightarrow> Inr p | _ \<Rightarrow> Inl TokenUnreadable)"

definition verify_incident_token_signature :: "signing \<Rightarrow> string \<Rightarrow> string \<Rightarrow> guard_error + unit" where
  "verify_incident_token_signature sg operator namespace =
     (if \<not> sg_has_signature sg then Inl Unsigned
      else if \<not> sg_has_registry sg then Inl NoRegistry
      else case sg_verify sg operator namespace of
          None \<Rightarrow> Inl CannotVerify
        | Some False \<Rightarrow> Inl SignatureFailed
        | Some True \<Rightarrow> Inr ())"

section \<open>The guard\<close>

record guard_inputs =
  gi_manifest :: sidecar
  gi_config :: sidecar
  gi_model_sha :: string
  gi_calibrator_sha :: "string option"
  gi_snapshot_digest :: "string option"
  gi_metadata :: "json dict"
  gi_run_id :: "string option"
  gi_token :: "signing option"
  gi_enforce :: bool

text \<open>Git, the file system, the fingerprint, the anchors and the hash of a JSON value.\<close>

record guard_env =
  ge_probe :: "string \<Rightarrow> checkout"
  ge_disk :: disk
  ge_fingerprint :: fingerprint
  ge_anchors :: anchors
  ge_hash :: "json \<Rightarrow> string"

record guard_override =
  ov_token :: token_record
  ov_principal :: string
  ov_checks :: "string list"

record guard_result =
  gr_enforced :: bool
  gr_verified :: bool
  gr_checked_at :: int
  gr_run_id :: "string option"
  gr_repos :: "(string \<times> string) list option"
  gr_config_sha :: string
  gr_artifacts_verified :: bool
  gr_failures :: "string list"
  gr_override :: "guard_override option"
  gr_would_have_blocked :: bool
  gr_token_unused :: bool

definition load_guard_manifest :: "sidecar \<Rightarrow> guard_error + json dict" where
  "load_guard_manifest f =
     (case load_run_manifest f of
        Inr m \<Rightarrow> Inr m
      | Inl (ContractViolated p) \<Rightarrow> Inl (ManifestInvalid p)
      | Inl RunOsError \<Rightarrow> Inl GuardUnreadable
      | Inl (RunRaised ValueError) \<Rightarrow> Inl GuardUnreadable
      | Inl (RunRaised x) \<Rightarrow> Inl (GuardRaised x))"

definition load_guard_config :: "sidecar \<Rightarrow> guard_error + json dict" where
  "load_guard_config f = (case f of Holds (JObj c) \<Rightarrow> Inr c | _ \<Rightarrow> Inl GuardUnreadable)"

definition run_manifest_check :: "guard_env \<Rightarrow> json dict \<Rightarrow> guard_error + (string \<times> string) list option" where
  "run_manifest_check e manifest =
     (case verify_run_manifest (ge_probe e) manifest of
        Inr repos \<Rightarrow> Inr (Some repos)
      | Inl (ContractViolated p) \<Rightarrow> Inr None
      | Inl RunOsError \<Rightarrow> Inl GuardOsError
      | Inl (RunRaised x) \<Rightarrow> Inl (GuardRaised x))"

text \<open>The guard hands no artifact store on.\<close>

definition artifact_check :: "guard_env \<Rightarrow> guard_inputs \<Rightarrow> json dict \<Rightarrow> guard_error + bool" where
  "artifact_check e g config =
     (case verify_config_artifact_shas (ge_disk e) (ge_fingerprint e) ((ge_anchors e)\<lparr>an_store := None\<rparr>) config (gi_model_sha g) (gi_calibrator_sha g) of
        Inr shas \<Rightarrow> Inr True
      | Inl (ArtifactMismatch p) \<Rightarrow> Inr False
      | Inl (ArtifactRaised x) \<Rightarrow> Inl (GuardRaised x))"

definition snapshot_check :: "guard_inputs \<Rightarrow> bool" where
  "snapshot_check g \<longleftrightarrow>
     (case gi_snapshot_digest g of
        None \<Rightarrow> True
      | Some digest \<Rightarrow> dget (gi_metadata g) ''decision_snapshot_digest'' JNull = JStr digest \<and>
          dget (gi_metadata g) ''decision_snapshot_verified'' JNull = JBool True)"

definition guard_failures :: "bool \<Rightarrow> bool \<Rightarrow> bool \<Rightarrow> string list" where
  "guard_failures repos_ok artifacts_ok snapshot_ok =
     (if repos_ok then [] else [CHECK_RUN_MANIFEST]) @ (if artifacts_ok then [] else [CHECK_ARTIFACT_SHA]) @
     (if snapshot_ok then [] else [CHECK_DECISION_SNAPSHOT])"

definition assert_scope_covers :: "token_record \<Rightarrow> string list \<Rightarrow> guard_error + unit" where
  "assert_scope_covers tk failures =
     (let uncovered = sort (remdups (filter (\<lambda>c. c \<notin> set (tk_checks tk)) failures)) in
      if uncovered \<noteq> [] then Inl (ScopeTooNarrow uncovered) else Inr ())"

definition override_guard :: "guard_inputs \<Rightarrow> string \<Rightarrow> string list \<Rightarrow> int \<Rightarrow> guard_error + guard_override" where
  "override_guard g config_sha failures now =
     (case gi_token g of None \<Rightarrow> Inl (NoToken failures) | Some sg \<Rightarrow>
      case load_incident_token (sg_token sg) of Inl x \<Rightarrow> Inl x | Inr token \<Rightarrow>
      if blank_text (dget token ''operator'' JNull) then Inl NoOperator
      else (let operator = py_strip (text_of (dget token ''operator'' JNull)) in
        case verify_incident_token_signature sg operator SIGNATURE_NAMESPACE of Inl x \<Rightarrow> Inl x | Inr u \<Rightarrow>
        case validate_incident_token token (gi_run_id g) (gi_model_sha g) config_sha now of Inl x \<Rightarrow> Inl x | Inr tk \<Rightarrow>
        case assert_scope_covers tk failures of Inl x \<Rightarrow> Inl x | Inr u \<Rightarrow>
        Inr \<lparr>ov_token = tk, ov_principal = operator, ov_checks = sort (remdups failures)\<rparr>))"

definition guard_verdict :: "guard_inputs \<Rightarrow> guard_result \<Rightarrow> int \<Rightarrow> guard_error + guard_result" where
  "guard_verdict g r now =
     (if gr_failures r = [] then Inr (r\<lparr>gr_token_unused := gi_token g \<noteq> None\<rparr>)
      else if \<not> gi_enforce g then Inr (r\<lparr>gr_would_have_blocked := True\<rparr>)
      else map_sum id (\<lambda>ov. r\<lparr>gr_override := Some ov\<rparr>) (override_guard g (gr_config_sha r) (gr_failures r) now))"

text \<open>\<open>now\<close> is an aware datetime or the call is refused.\<close>

definition verify_persistence_guard :: "guard_env \<Rightarrow> guard_inputs \<Rightarrow> datetime \<Rightarrow> guard_error + guard_result" where
  "verify_persistence_guard e g now =
     (case utc_offset now of None \<Rightarrow> Inl (GuardRaised ValueError) | Some off \<Rightarrow>
      case load_guard_manifest (gi_manifest g) of Inl x \<Rightarrow> Inl x | Inr manifest \<Rightarrow>
      case load_guard_config (gi_config g) of Inl x \<Rightarrow> Inl x | Inr config \<Rightarrow>
      case run_manifest_check e manifest of Inl x \<Rightarrow> Inl x | Inr repos \<Rightarrow>
      case artifact_check e g config of Inl x \<Rightarrow> Inl x | Inr artifacts_ok \<Rightarrow>
      (let failures = guard_failures (repos \<noteq> None) artifacts_ok (snapshot_check g) in
       guard_verdict g \<lparr>gr_enforced = gi_enforce g, gr_verified = (failures = []), gr_checked_at = wall now - off,
         gr_run_id = gi_run_id g, gr_repos = repos, gr_config_sha = ge_hash e (JObj config),
         gr_artifacts_verified = artifacts_ok, gr_failures = failures, gr_override = None,
         gr_would_have_blocked = False, gr_token_unused = False\<rparr> (wall now - off)))"


section \<open>What a token authorizes\<close>

definition named :: "json dict \<Rightarrow> string \<Rightarrow> bool" where
  "named token k \<longleftrightarrow> (\<exists>s. dget token k JNull = JStr s \<and> py_strip s \<noteq> [])"

text \<open>The signature is good for the operator the token names, and the token is for this failure of this run, this
  model, this configuration and this hour.\<close>

definition token_authorizes :: "signing \<Rightarrow> guard_inputs \<Rightarrow> string \<Rightarrow> string list \<Rightarrow> int \<Rightarrow> bool" where
  "token_authorizes sg g config_sha failures now \<longleftrightarrow>
     (\<exists>token operator scope checks run_id issued expires.
        sg_token sg = Holds (JObj token) \<and> sg_has_signature sg \<and> sg_has_registry sg \<and>
        dget token ''operator'' JNull = JStr operator \<and> sg_verify sg (py_strip operator) SIGNATURE_NAMESPACE = Some True \<and>
        dget token ''kind'' JNull = JStr INCIDENT_TOKEN_KIND \<and> equals_one (dget token ''schema_version'' JNull) \<and>
        named token ''incident'' \<and> named token ''operator'' \<and> named token ''reason'' \<and>
        parse_utc (dget token ''issued_at'' JNull) ''issued_at'' = Inr issued \<and>
        parse_utc (dget token ''expires_at'' JNull) ''expires_at'' = Inr expires \<and>
        issued \<le> now \<and> now < expires \<and> expires - issued \<le> MAX_INCIDENT_TOKEN_TTL \<and>
        dget token ''scope'' JNull = JObj scope \<and> gi_run_id g = Some run_id \<and> dget scope ''run_id'' JNull = JStr run_id \<and>
        named scope ''run_id'' \<and> checks_of (dget scope ''checks'' JNull) = Some checks \<and> set failures \<subseteq> set checks \<and>
        dget scope ''model_content_sha256'' JNull = JStr (gi_model_sha g) \<and> named scope ''model_content_sha256'' \<and>
        dget scope ''strategy_config_sha256'' JNull = JStr config_sha \<and> named scope ''strategy_config_sha256'')"

lemma blank_named: "blank_text (dget token k JNull) \<longleftrightarrow> \<not> named token k"
  by (auto simp: blank_text_def named_def split: json.splits)

lemma text_of_named: "named token k \<Longrightarrow> dget token k JNull = JStr (text_of (dget token k JNull))"
  by (auto simp: named_def text_of_def)

lemma run_id_Nil: "run_id_problems (dget s k JNull) run_id = [] \<longleftrightarrow> named s k \<and> (\<exists>r. run_id = Some r \<and> dget s k JNull = JStr r)"
  using blank_named [of s k] by (auto simp: run_id_problems_def named_def text_of_def)

lemma identity_Nil: "identity_problems (dget s k JNull) expected m f = [] \<longleftrightarrow> named s k \<and> dget s k JNull = JStr expected"
  using blank_named [of s k] by (auto simp: identity_problems_def named_def text_of_def)

lemma scope_Nil:
  "scope_problems v run_id model_sha config_sha = [] \<longleftrightarrow>
   (\<exists>s cs r. v = JObj s \<and> run_id = Some r \<and> dget s ''run_id'' JNull = JStr r \<and> named s ''run_id'' \<and>
      checks_of (dget s ''checks'' JNull) = Some cs \<and>
      dget s ''model_content_sha256'' JNull = JStr model_sha \<and> named s ''model_content_sha256'' \<and>
      dget s ''strategy_config_sha256'' JNull = JStr config_sha \<and> named s ''strategy_config_sha256'')"
  by (cases v) (auto simp: scope_problems_def run_id_Nil identity_Nil)

lemma window_Nil:
  "problem_of i = [] \<and> problem_of x = [] \<and> window_problems i x now = [] \<longleftrightarrow>
   (\<exists>issued expires. i = Inr issued \<and> x = Inr expires \<and> issued \<le> now \<and> now < expires \<and> expires - issued \<le> MAX_INCIDENT_TOKEN_TTL)"
  by (cases i; cases x) (auto simp: problem_of_def window_problems_def)

lemma token_Nil:
  "token_problems token run_id model_sha config_sha now = [] \<longleftrightarrow>
   dget token ''kind'' JNull = JStr INCIDENT_TOKEN_KIND \<and> equals_one (dget token ''schema_version'' JNull) \<and>
   named token ''incident'' \<and> named token ''operator'' \<and> named token ''reason'' \<and>
   scope_problems (dget token ''scope'' JNull) run_id model_sha config_sha = [] \<and>
   (\<exists>issued expires. parse_utc (dget token ''issued_at'' JNull) ''issued_at'' = Inr issued \<and>
      parse_utc (dget token ''expires_at'' JNull) ''expires_at'' = Inr expires \<and>
      issued \<le> now \<and> now < expires \<and> expires - issued \<le> MAX_INCIDENT_TOKEN_TTL)"
  using window_Nil [of "parse_utc (dget token ''issued_at'' JNull) ''issued_at''"
      "parse_utc (dget token ''expires_at'' JNull) ''expires_at''" now]
  by (auto simp: token_problems_def Let_def blank_named)

lemma uncovered_Nil: "assert_scope_covers tk failures = Inr () \<longleftrightarrow> set failures \<subseteq> set (tk_checks tk)"
proof -
  have "sort xs = [] \<longleftrightarrow> xs = []" for xs :: "string list" by (metis length_0_conv length_sort)
  then show ?thesis by (auto simp: assert_scope_covers_def Let_def filter_empty_conv)
qed

lemma signature_iff:
  "verify_incident_token_signature sg operator ns = Inr () \<longleftrightarrow>
   sg_has_signature sg \<and> sg_has_registry sg \<and> sg_verify sg operator ns = Some True"
  by (auto simp: verify_incident_token_signature_def split: option.splits bool.splits)

lemma validate_iff:
  "(\<exists>tk. validate_incident_token token run_id model_sha config_sha now = Inr tk) \<longleftrightarrow>
   token_problems token run_id model_sha config_sha now = []"
  "validate_incident_token token run_id model_sha config_sha now = Inr tk \<Longrightarrow> tk_checks tk = scope_checks token"
  by (auto simp: validate_incident_token_def Let_def split: if_splits)

text \<open>The override goes through exactly for a token that authorizes it.\<close>

lemma override_iff:
  "(\<exists>ov. override_guard g config_sha failures now = Inr ov) \<longleftrightarrow>
   (\<exists>sg. gi_token g = Some sg \<and> token_authorizes sg g config_sha failures now)"
proof (cases "gi_token g")
  case (Some sg)
  show ?thesis
  proof (cases "sg_token sg")
    case (Holds v)
    show ?thesis
    proof (cases v)
      case (JObj token)
      let ?op = "py_strip (text_of (dget token ''operator'' JNull))"
      have "(\<exists>ov. override_guard g config_sha failures now = Inr ov) \<longleftrightarrow>
          named token ''operator'' \<and> verify_incident_token_signature sg ?op SIGNATURE_NAMESPACE = Inr () \<and>
          token_problems token (gi_run_id g) (gi_model_sha g) config_sha now = [] \<and> set failures \<subseteq> set (scope_checks token)"
        (is "?L \<longleftrightarrow> ?op_ok \<and> ?sig \<and> ?valid \<and> ?covers")
      proof (cases "?op_ok \<and> ?sig \<and> ?valid")
        case True
        then obtain tk where r: "verify_incident_token_signature sg ?op SIGNATURE_NAMESPACE = Inr ()"
            "validate_incident_token token (gi_run_id g) (gi_model_sha g) config_sha now = Inr tk"
          using validate_iff(1) by blast
        have "?L \<longleftrightarrow> assert_scope_covers tk failures = Inr ()"
          using True r Some Holds JObj blank_named [of token "''operator''"]
          by (cases "assert_scope_covers tk failures") (auto simp: override_guard_def load_incident_token_def Let_def)
        with True validate_iff(2) [OF r(2)] show ?thesis by (simp add: uncovered_Nil)
      next
        case False
        have "\<not> ?L"
        proof
          assume ?L
          then have "?op_ok" using Some Holds JObj blank_named [of token "''operator''"]
            by (auto simp: override_guard_def load_incident_token_def split: if_splits)
          moreover have ?sig using \<open>?L\<close> Some Holds JObj
            by (cases "verify_incident_token_signature sg ?op SIGNATURE_NAMESPACE")
              (auto simp: override_guard_def load_incident_token_def Let_def split: if_splits)
          moreover from this have "\<exists>tk. validate_incident_token token (gi_run_id g) (gi_model_sha g) config_sha now = Inr tk"
            using \<open>?L\<close> Some Holds JObj
            by (cases "validate_incident_token token (gi_run_id g) (gi_model_sha g) config_sha now")
              (auto simp: override_guard_def load_incident_token_def Let_def split: if_splits)
          ultimately show False using False validate_iff(1) by blast
        qed
        with False show ?thesis by blast
      qed
      also have "\<dots> \<longleftrightarrow> token_authorizes sg g config_sha failures now"
        unfolding token_authorizes_def signature_iff token_Nil scope_Nil using Holds JObj
        by (auto simp: scope_checks_def text_of_def named_def)
      finally show ?thesis using Some by simp
    qed (auto simp: Some Holds override_guard_def load_incident_token_def token_authorizes_def)
  qed (auto simp: Some override_guard_def load_incident_token_def token_authorizes_def)
qed (simp add: override_guard_def)


section \<open>The guard as a whole\<close>

text \<open>C8: The guard fails closed. It lets a call through only when both documents are readable and well formed
  and, if it enforces, either every check holds of the world it verified (the pinned checkouts, the
  fingerprints of the artifacts, the frozen snapshot) or a token authorizes exactly the checks that
  failed: signed by the operator it names, inside its window of at most a day, for this run, this
  model and this configuration. In those cases it does let the call through.\<close>

theorem guard_lets_through_iff:
  "(\<exists>r. verify_persistence_guard e g now = Inr r) \<longleftrightarrow>
   (\<exists>off manifest config repos artifacts_ok.
      utc_offset now = Some off \<and> load_guard_manifest (gi_manifest g) = Inr manifest \<and>
      load_guard_config (gi_config g) = Inr config \<and> run_manifest_check e manifest = Inr repos \<and>
      artifact_check e g config = Inr artifacts_ok \<and>
      (gi_enforce g \<longrightarrow> repos \<noteq> None \<and> artifacts_ok \<and> snapshot_check g \<or>
        (\<exists>sg. gi_token g = Some sg \<and> token_authorizes sg g (ge_hash e (JObj config))
           (guard_failures (repos \<noteq> None) artifacts_ok (snapshot_check g)) (wall now - off))))"
proof (cases "\<exists>off manifest config repos artifacts_ok. utc_offset now = Some off \<and>
    load_guard_manifest (gi_manifest g) = Inr manifest \<and> load_guard_config (gi_config g) = Inr config \<and>
    run_manifest_check e manifest = Inr repos \<and> artifact_check e g config = Inr artifacts_ok")
  case True
  then obtain off manifest config repos artifacts_ok where w: "utc_offset now = Some off"
      "load_guard_manifest (gi_manifest g) = Inr manifest" "load_guard_config (gi_config g) = Inr config"
      "run_manifest_check e manifest = Inr repos" "artifact_check e g config = Inr artifacts_ok" by blast
  let ?fs = "guard_failures (repos \<noteq> None) artifacts_ok (snapshot_check g)"
  have none: "?fs = [] \<longleftrightarrow> repos \<noteq> None \<and> artifacts_ok \<and> snapshot_check g" by (simp add: guard_failures_def)
  have "(\<exists>r. verify_persistence_guard e g now = Inr r) \<longleftrightarrow> ?fs = [] \<or> \<not> gi_enforce g \<or>
      (\<exists>ov. override_guard g (ge_hash e (JObj config)) ?fs (wall now - off) = Inr ov)"
    using w by (cases "override_guard g (ge_hash e (JObj config)) ?fs (wall now - off)")
      (auto simp: verify_persistence_guard_def guard_verdict_def Let_def)
  with w show ?thesis unfolding none override_iff by auto
next
  case False
  then have "\<not> (\<exists>r. verify_persistence_guard e g now = Inr r)"
    by (auto simp: verify_persistence_guard_def split: option.splits sum.splits)
  with False show ?thesis by blast
qed

text \<open>The soak predicts enforcement. An unarmed-to-block call answers for each input what an enforcing call
  without a token does: the same error when a document is not readable, a refusal naming the same
  failed checks exactly when it says that it would have blocked, and otherwise the same result.\<close>

theorem soak_predicts_enforcement:
  "verify_persistence_guard e (g\<lparr>gi_enforce := True, gi_token := None\<rparr>) now =
   (case verify_persistence_guard e (g\<lparr>gi_enforce := False\<rparr>) now of
      Inl x \<Rightarrow> Inl x
    | Inr r \<Rightarrow> if gr_would_have_blocked r then Inl (NoToken (gr_failures r))
              else Inr (r\<lparr>gr_enforced := True, gr_token_unused := False\<rparr>))"
proof -
  have same: "artifact_check e (g\<lparr>gi_enforce := b, gi_token := t\<rparr>) config = artifact_check e g config"
      "snapshot_check (g\<lparr>gi_enforce := b, gi_token := t\<rparr>) = snapshot_check g"
      "artifact_check e (g\<lparr>gi_enforce := b\<rparr>) config = artifact_check e g config"
      "snapshot_check (g\<lparr>gi_enforce := b\<rparr>) = snapshot_check g" for b t config
    by (simp_all add: artifact_check_def snapshot_check_def split: option.split)
  show ?thesis
    by (auto simp: verify_persistence_guard_def same Let_def guard_verdict_def override_guard_def
        split: option.split sum.split)
qed

section \<open>At concrete inputs\<close>

definition demo_run_manifest :: "json dict" where
  "demo_run_manifest = [(''repos'', JObj (map (\<lambda>n. (n, JObj [(''path'', JStr ''/src''), (''commit'', JStr demo_sha)])) EXPERIMENT_PIN_REPOS))]"

definition demo_guard_env :: guard_env where
  "demo_guard_env = \<lparr>ge_probe = demo_probe demo_sha, ge_disk = \<lparr>dk_resolve = \<lambda>p. [p], dk_exists = \<lambda>p. True\<rparr>,
     ge_fingerprint = \<lambda>p. Inr ''other'', ge_anchors = \<lparr>an_strategy_dir = ''/s'', an_repo_root = ''/r'', an_store = None\<rparr>,
     ge_hash = \<lambda>j. ''config''\<rparr>"

definition demo_token :: "json dict" where
  "demo_token = [(''kind'', JStr INCIDENT_TOKEN_KIND), (''schema_version'', JInt 1), (''incident'', JStr ''i-1''),
     (''operator'', JStr ''op''), (''reason'', JStr ''hash bug''), (''issued_at'', JStr ''2026-07-10T00:00:00Z''),
     (''expires_at'', JStr ''2026-07-10T12:00:00Z''),
     (''scope'', JObj [(''run_id'', JStr ''r-1''), (''checks'', JList [JStr CHECK_ARTIFACT_SHA]),
        (''model_content_sha256'', JStr ''model''), (''strategy_config_sha256'', JStr ''config'')])]"

definition demo_signing :: signing where
  "demo_signing = \<lparr>sg_token = Holds (JObj demo_token), sg_has_signature = True, sg_has_registry = True,
     sg_verify = \<lambda>p ns. Some (p = ''op'')\<rparr>"

definition demo_guard :: "string \<Rightarrow> guard_inputs" where
  "demo_guard run_id = \<lparr>gi_manifest = Holds (JObj demo_run_manifest),
     gi_config = Holds (JObj [(''panel_ltr'', JObj [(''artifact_path'', JStr ''m.json'')])]), gi_model_sha = ''model'',
     gi_calibrator_sha = None, gi_snapshot_digest = None, gi_metadata = [], gi_run_id = Some run_id,
     gi_token = Some demo_signing, gi_enforce = True\<rparr>"

text \<open>The artifact's fingerprint differs; the token of the run lets it through, and no other run.\<close>

definition demo_guard_now :: "int \<Rightarrow> datetime" where
  "demo_guard_now h = \<lparr>wall = days_from_civil 2026 7 10 * 86400000000 + h * 3600000000, utc_offset = Some 0\<rparr>"

definition lets_through :: "guard_error + guard_result \<Rightarrow> bool" where
  "lets_through r = (case r of Inl x \<Rightarrow> False | Inr v \<Rightarrow> True)"

lemma demo_guard_runs:
  "(lets_through (verify_persistence_guard demo_guard_env (demo_guard ''r-1'') (demo_guard_now 6)),
    verify_persistence_guard demo_guard_env (demo_guard ''r-2'') (demo_guard_now 6),
    verify_persistence_guard demo_guard_env (demo_guard ''r-1'') (demo_guard_now 12)) =
   (True, Inl (TokenRejected [OtherRun ''r-1'']), Inl (TokenRejected [Expired]))"
  by code_simp

lemma demo_checks:
  "case run_manifest_check demo_guard_env demo_run_manifest of Inl x \<Rightarrow> False | Inr repos \<Rightarrow> repos \<noteq> None"
  "case load_guard_config (gi_config (demo_guard ''r-1'')) of Inl x \<Rightarrow> False
   | Inr config \<Rightarrow> artifact_check demo_guard_env (demo_guard ''r-1'') config = Inr False"
  "load_guard_manifest (gi_manifest (demo_guard ''r-1'')) = Inr demo_run_manifest"
  "snapshot_check (demo_guard r)"
  by (code_simp, code_simp, code_simp, simp add: demo_guard_def snapshot_check_def)

lemma guard_lets_through_iff_witness:
  "token_authorizes demo_signing (demo_guard ''r-1'') ''config'' [CHECK_ARTIFACT_SHA] (wall (demo_guard_now 6))"
proof -
  have "\<exists>r. verify_persistence_guard demo_guard_env (demo_guard ''r-1'') (demo_guard_now 6) = Inr r"
    using demo_guard_runs by (auto simp: lets_through_def split: sum.splits)
  from this [unfolded guard_lets_through_iff] demo_checks(1,2,3) demo_checks(4) show ?thesis
    by (auto simp: demo_guard_now_def guard_failures_def demo_guard_env_def demo_guard_def)
qed

text \<open>A run manifest that is a list is not reported as a guard error.\<close>

lemma manifest_list_escapes:
  "utc_offset now = Some off \<Longrightarrow> gi_manifest g = Holds (JList []) \<Longrightarrow> verify_persistence_guard e g now = Inl (GuardRaised AttributeError)"
  by (simp add: verify_persistence_guard_def load_guard_manifest_def load_run_manifest_def)

end
