(* ===== verification/MarketSnapshot.thy ===== *)
theory MarketSnapshot
  imports PyTime
begin

text \<open>
  \<open>realtime_data_plane.py\<close>: the point-in-time market snapshot of a watchlist. A datetime after
  \<open>parse_moment\<close> carries a fixed offset or, where its offset is \<open>None\<close>, the New York zone; what that
  zone does to a clock is an argument. The feed is the list of its lines.
\<close>

section \<open>Time\<close>

text \<open>The New York wall clock of an instant, the instant of a wall clock, and the texts of a day and of a
  datetime.\<close>

record zone =
  zn_wall :: "int \<Rightarrow> int"
  zn_instant :: "int \<Rightarrow> int"
  zn_day :: "int \<Rightarrow> string"
  zn_iso :: "datetime \<Rightarrow> string"

definition MICROS_PER_DAY :: int where "MICROS_PER_DAY = 86400 * 1000000"

definition parse_moment :: "string \<Rightarrow> py_error + datetime" where
  "parse_moment value =
     (let raw = py_strip value;
          text = (if raw \<noteq> [] \<and> last raw = CHR ''Z'' then butlast raw @ ''+00:00'' else raw) in
      case from_isoformat text of None \<Rightarrow> Inl ValueError | Some d \<Rightarrow> Inr d)"

definition moment_instant :: "zone \<Rightarrow> datetime \<Rightarrow> int" where
  "moment_instant z d = (case utc_offset d of None \<Rightarrow> zn_instant z (wall d) | Some off \<Rightarrow> wall d - off)"

text \<open>\<open>a - b\<close>: two datetimes of the same zone object differ by their wall clocks.\<close>

definition moment_diff :: "zone \<Rightarrow> datetime \<Rightarrow> datetime \<Rightarrow> int" where
  "moment_diff z a b =
     (if utc_offset a = None \<and> utc_offset b = None then wall a - wall b
      else moment_instant z a - moment_instant z b)"

definition later_than :: "zone \<Rightarrow> datetime \<Rightarrow> datetime \<Rightarrow> bool" where
  "later_than z a b \<longleftrightarrow> 0 < moment_diff z a b"

definition session_of :: "zone \<Rightarrow> datetime \<Rightarrow> string" where
  "session_of z d =
     zn_day z ((case utc_offset d of None \<Rightarrow> wall d | Some off \<Rightarrow> zn_wall z (wall d - off)) div MICROS_PER_DAY)"

definition session_date :: "zone \<Rightarrow> string \<Rightarrow> py_error + string" where
  "session_date z when = map_sum id (session_of z) (parse_moment when)"

section \<open>The frozen features\<close>

record feature_snapshot =
  fs_cutoff :: string
  fs_builder :: string
  fs_features :: "json dict"
  fs_digest :: string

definition name_of :: "string \<Rightarrow> string" where
  "name_of t = py_upper (py_strip t)"

text \<open>A comprehension over items: a later item with the same key replaces the value.\<close>

definition rekey :: "(string \<Rightarrow> string) \<Rightarrow> json dict \<Rightarrow> json dict" where
  "rekey f kvs = foldl (\<lambda>d (k, v). dset d (f k) v) [] kvs"

definition from_mapping :: "(json \<Rightarrow> string) \<Rightarrow> json \<Rightarrow> py_error + feature_snapshot" where
  "from_mapping hash payload =
     (case payload of
        JObj p \<Rightarrow>
          (let cutoff = py_strip (py_str (dget p ''feature_cutoff'' (JStr [])));
               builder = py_strip (py_str (dget p ''feature_builder_version'' (JStr []))) in
           if cutoff = [] then Inl ValueError
           else if builder = [] then Inl ValueError
           else case dget p ''features'' JNull of
               JObj raw \<Rightarrow>
                 if raw = [] then Inl ValueError
                 else (let features = rekey name_of raw in
                   Inr \<lparr>fs_cutoff = cutoff, fs_builder = builder, fs_features = features,
                     fs_digest = hash (JObj [(''cutoff'', JStr cutoff), (''builder_version'', JStr builder),
                       (''features'', JObj features)])\<rparr>)
             | _ \<Rightarrow> Inl ValueError)
      | _ \<Rightarrow> Inl ValueError)"

definition refs :: "feature_snapshot \<Rightarrow> json dict" where
  "refs fs = map (\<lambda>(ticker, values). (ticker, JObj [(''feature_cutoff'', JStr (fs_cutoff fs)),
     (''feature_builder_version'', JStr (fs_builder fs)), (''feature_snapshot_digest'', JStr (fs_digest fs)),
     (''values'', values)])) (fs_features fs)"

section \<open>The feed\<close>

datatype feed_line = BlankLine | MalformedLine | FeedLine json

text \<open>A feed that does not exist reads as an empty one.\<close>

definition read_ticks :: "feed_line list option \<Rightarrow> json dict list" where
  "read_ticks file = (case file of None \<Rightarrow> [] | Some ls \<Rightarrow> [d. FeedLine (JObj d) \<leftarrow> ls])"

definition tick_mid :: "json dict \<Rightarrow> pyfloat option" where
  "tick_mid row =
     (if dget row ''mid'' JNull = JNull then None
      else case py_float (dget row ''mid'' JNull) of Inl x \<Rightarrow> None | Inr f \<Rightarrow> Some f)"

record quote =
  qt_time :: datetime
  qt_mid :: pyfloat
  qt_source :: "string option"

type_synonym best = "quote dict"

definition tick_time :: "json dict \<Rightarrow> datetime option" where
  "tick_time row =
     (if dget row ''tick_time'' JNull = JNull then None
      else case parse_moment (py_str (dget row ''tick_time'' JNull)) of Inl x \<Rightarrow> None | Inr d \<Rightarrow> Some d)"

definition tick_ticker :: "json dict \<Rightarrow> string" where
  "tick_ticker row = name_of (py_str (dget row ''ticker'' (JStr [])))"

definition tick_source :: "json dict \<Rightarrow> string option" where
  "tick_source row = (case dget row ''source'' JNull of JNull \<Rightarrow> None | s \<Rightarrow> Some (py_str s))"

definition note_tick :: "zone \<Rightarrow> string list \<Rightarrow> string \<Rightarrow> datetime \<Rightarrow> best \<Rightarrow> json dict \<Rightarrow> best" where
  "note_tick z tickers sess as_of best row =
     (let ticker = tick_ticker row in
      if ticker \<notin> set tickers then best
      else if py_str (dget row ''date'' (JStr [])) \<noteq> sess then best
      else case tick_time row of
          None \<Rightarrow> best
        | Some t \<Rightarrow>
            if later_than z t as_of then best
            else (case tick_mid row of
                None \<Rightarrow> best
              | Some mid \<Rightarrow>
                  (let new = \<lparr>qt_time = t, qt_mid = mid, qt_source = tick_source row\<rparr> in
                   case map_of best ticker of
                     None \<Rightarrow> dset best ticker new
                   | Some prior \<Rightarrow> if later_than z t (qt_time prior) then dset best ticker new else best)))"

definition latest_eligible_ticks :: "zone \<Rightarrow> json dict list \<Rightarrow> string list \<Rightarrow> string \<Rightarrow> datetime \<Rightarrow> best" where
  "latest_eligible_ticks z ticks tickers sess as_of = foldl (note_tick z tickers sess as_of) [] ticks"

section \<open>The snapshot\<close>

datatype quote_status = QUOTE_OK | QUOTE_STALE | QUOTE_MISSING

definition DEFAULT_STALENESS_SEC :: pyfloat where "DEFAULT_STALENESS_SEC = Num 15"

definition TICK_POLICY_VERSION :: string where "TICK_POLICY_VERSION = ''1''"

record snapshot_row =
  sr_as_of :: string
  sr_ticker :: string
  sr_mid :: "pyfloat option"
  sr_status :: quote_status
  sr_ref :: "json option"
  sr_source_ts :: "string option"
  sr_age :: "pyfloat option"
  sr_source :: "string option"
  sr_session :: string

record market_snapshot =
  ms_as_of :: string
  ms_session :: string
  ms_rows :: "snapshot_row list"
  ms_staleness :: pyfloat
  ms_n_ok :: nat
  ms_n_stale :: nat
  ms_n_missing :: nat
  ms_feature_cutoff :: "string option"
  ms_feature_builder :: "string option"
  ms_feature_digest :: "string option"

definition by_ticker :: "market_snapshot \<Rightarrow> snapshot_row dict" where
  "by_ticker s = foldl (\<lambda>d r. dset d (sr_ticker r) r) [] (ms_rows s)"

definition fresh_rows :: "market_snapshot \<Rightarrow> snapshot_row list" where
  "fresh_rows s = filter (\<lambda>r. sr_status r = QUOTE_OK) (ms_rows s)"

definition age_sec :: "zone \<Rightarrow> datetime \<Rightarrow> datetime \<Rightarrow> pyfloat" where
  "age_sec z as_of t = Num (of_int (moment_diff z as_of t) / 1000000)"

definition row_for :: "zone \<Rightarrow> datetime \<Rightarrow> pyfloat \<Rightarrow> json dict \<Rightarrow> best \<Rightarrow> string \<Rightarrow> snapshot_row" where
  "row_for z as_of staleness ref_by_ticker best ticker =
     (let row = \<lparr>sr_as_of = zn_iso z as_of, sr_ticker = ticker, sr_mid = None, sr_status = QUOTE_MISSING,
            sr_ref = map_of ref_by_ticker ticker, sr_source_ts = None, sr_age = None, sr_source = None,
            sr_session = session_of z as_of\<rparr> in
      case map_of best ticker of
        None \<Rightarrow> row
      | Some q \<Rightarrow>
          (let stale = flt staleness (age_sec z as_of (qt_time q)) in
           row\<lparr>sr_mid := (if stale then None else Some (qt_mid q)),
               sr_status := (if stale then QUOTE_STALE else QUOTE_OK),
               sr_source_ts := Some (zn_iso z (qt_time q)), sr_age := Some (age_sec z as_of (qt_time q)),
               sr_source := qt_source q\<rparr>))"

definition status_count :: "quote_status \<Rightarrow> snapshot_row list \<Rightarrow> nat" where
  "status_count s rows = length (filter (\<lambda>r. sr_status r = s) rows)"

text \<open>The frozen references, and the names in order.\<close>

definition reference_of :: "json dict option \<Rightarrow> feature_snapshot option \<Rightarrow> json dict option" where
  "reference_of daily_features feature_snapshot =
     (case feature_snapshot of Some fs \<Rightarrow> Some (refs fs) | None \<Rightarrow> map_option (rekey name_of) daily_features)"

definition watchlist_of :: "json list option \<Rightarrow> json dict \<Rightarrow> string list" where
  "watchlist_of tickers ref_by_ticker =
     (case tickers of Some ts \<Rightarrow> map (\<lambda>t. name_of (py_str t)) ts | None \<Rightarrow> sort (map fst ref_by_ticker))"

definition build_realtime_snapshot ::
    "zone \<Rightarrow> string \<Rightarrow> json dict option \<Rightarrow> json dict list \<Rightarrow> pyfloat \<Rightarrow> json list option \<Rightarrow> feature_snapshot option \<Rightarrow>
     py_error + market_snapshot" where
  "build_realtime_snapshot z as_of daily_features ticks staleness tickers feature_snapshot =
     (case parse_moment as_of of Inl x \<Rightarrow> Inl x | Inr as_of_dt \<Rightarrow>
      case reference_of daily_features feature_snapshot of
        None \<Rightarrow> Inl ValueError
      | Some ref_by_ticker \<Rightarrow>
          (let watchlist = watchlist_of tickers ref_by_ticker;
               sess = session_of z as_of_dt;
               best = latest_eligible_ticks z ticks watchlist sess as_of_dt;
               rows = map (row_for z as_of_dt staleness ref_by_ticker best) watchlist in
           Inr \<lparr>ms_as_of = zn_iso z as_of_dt, ms_session = sess, ms_rows = rows, ms_staleness = staleness,
             ms_n_ok = status_count QUOTE_OK rows, ms_n_stale = status_count QUOTE_STALE rows,
             ms_n_missing = status_count QUOTE_MISSING rows,
             ms_feature_cutoff = map_option fs_cutoff feature_snapshot,
             ms_feature_builder = map_option fs_builder feature_snapshot,
             ms_feature_digest = map_option fs_digest feature_snapshot\<rparr>))"


section \<open>What a tick shows\<close>

text \<open>The quote of a tick of the session that is not later than the decision and has a price, and \<open>None\<close> for
  every other tick.\<close>

definition shown :: "zone \<Rightarrow> datetime \<Rightarrow> json dict \<Rightarrow> quote option" where
  "shown z as_of row =
     (case (tick_time row, tick_mid row) of
        (Some t, Some mid) \<Rightarrow>
          if py_str (dget row ''date'' (JStr [])) = session_of z as_of \<and> \<not> later_than z t as_of
          then Some \<lparr>qt_time = t, qt_mid = mid, qt_source = tick_source row\<rparr> else None
      | _ \<Rightarrow> None)"

lemma note_tick_shown:
  "note_tick z tickers (session_of z as_of) as_of best row =
     (if tick_ticker row \<notin> set tickers then best
      else case shown z as_of row of
          None \<Rightarrow> best
        | Some new \<Rightarrow>
            (case map_of best (tick_ticker row) of
               None \<Rightarrow> dset best (tick_ticker row) new
             | Some prior \<Rightarrow> if later_than z (qt_time new) (qt_time prior) then dset best (tick_ticker row) new else best))"
  by (auto simp: note_tick_def shown_def Let_def split: option.splits)

lemma hidden_ticks:
  "latest_eligible_ticks z ticks tickers (session_of z as_of) as_of =
   latest_eligible_ticks z (filter (\<lambda>row. shown z as_of row \<noteq> None) ticks) tickers (session_of z as_of) as_of"
proof -
  have "foldl (note_tick z tickers (session_of z as_of) as_of) b ticks =
      foldl (note_tick z tickers (session_of z as_of) as_of) b (filter (\<lambda>row. shown z as_of row \<noteq> None) ticks)" for b
    by (induction ticks arbitrary: b) (auto simp: note_tick_shown)
  then show ?thesis by (simp add: latest_eligible_ticks_def)
qed


section \<open>The tick that is chosen\<close>

text \<open>\<open>picks\<close>: \<open>q\<close> is the quote of a shown tick of the ticker, and none of its shown ticks is later.\<close>

definition picks :: "zone \<Rightarrow> datetime \<Rightarrow> json dict list \<Rightarrow> string \<Rightarrow> quote \<Rightarrow> bool" where
  "picks z as_of rows ticker q \<longleftrightarrow>
     (\<exists>row \<in> set rows. tick_ticker row = ticker \<and> shown z as_of row = Some q) \<and>
     (\<forall>row \<in> set rows. \<forall>q'. tick_ticker row = ticker \<and> shown z as_of row = Some q' \<longrightarrow>
        moment_instant z (qt_time q') \<le> moment_instant z (qt_time q))"

definition unseen :: "zone \<Rightarrow> datetime \<Rightarrow> json dict list \<Rightarrow> string \<Rightarrow> bool" where
  "unseen z as_of rows ticker \<longleftrightarrow> (\<forall>row \<in> set rows. tick_ticker row = ticker \<longrightarrow> shown z as_of row = None)"

definition aware_ticks :: "json dict list \<Rightarrow> bool" where
  "aware_ticks rows \<longleftrightarrow> (\<forall>row \<in> set rows. \<forall>t. tick_time row = Some t \<longrightarrow> utc_offset t \<noteq> None)"

lemma later_than_aware:
  "utc_offset b \<noteq> None \<Longrightarrow> later_than z a b \<longleftrightarrow> moment_instant z b < moment_instant z a"
  by (auto simp: later_than_def moment_diff_def)

lemma shown_aware: "aware_ticks rows \<Longrightarrow> row \<in> set rows \<Longrightarrow> shown z as_of row = Some q \<Longrightarrow> utc_offset (qt_time q) \<noteq> None"
  by (auto simp: shown_def aware_ticks_def split: option.splits if_splits)

lemma chosen_tick:
  assumes "aware_ticks rows" and "ticker \<in> set tickers"
  shows "case map_of (latest_eligible_ticks z rows tickers (session_of z as_of) as_of) ticker of
      None \<Rightarrow> unseen z as_of rows ticker | Some q \<Rightarrow> picks z as_of rows ticker q"
  using assms(1)
proof (induction rows rule: rev_induct)
  case Nil
  show ?case by (simp add: latest_eligible_ticks_def unseen_def)
next
  case (snoc row rows)
  let ?b = "latest_eligible_ticks z rows tickers (session_of z as_of) as_of"
  have aware: "aware_ticks rows" using snoc.prems by (simp add: aware_ticks_def)
  have b: "latest_eligible_ticks z (rows @ [row]) tickers (session_of z as_of) as_of
      = note_tick z tickers (session_of z as_of) as_of ?b row"
    by (simp add: latest_eligible_ticks_def)
  note IH = snoc.IH [OF aware]
  show ?case
  proof (cases "tick_ticker row = ticker \<and> shown z as_of row \<noteq> None")
    case False
    then have "map_of (note_tick z tickers (session_of z as_of) as_of ?b row) ticker = map_of ?b ticker"
      by (auto simp: note_tick_shown split: option.split)
    with False IH b show ?thesis by (auto simp: unseen_def picks_def split: option.splits)
  next
    case True
    then obtain q where q: "tick_ticker row = ticker" "shown z as_of row = Some q" by auto
    show ?thesis
    proof (cases "map_of ?b ticker")
      case None
      with IH q assms(2) b show ?thesis by (auto simp: note_tick_shown unseen_def picks_def)
    next
      case (Some p)
      with IH have p: "picks z as_of rows ticker p" by simp
      then have "utc_offset (qt_time p) \<noteq> None" using shown_aware [OF aware] by (auto simp: picks_def)
      from later_than_aware [OF this] p q Some assms(2) b show ?thesis
        by (auto simp: note_tick_shown picks_def)
    qed
  qed
qed


lemma build_rows:
  assumes "parse_moment as_of = Inr t" and "build_realtime_snapshot z as_of daily ticks staleness tickers fs = Inr s"
    and "r \<in> set (ms_rows s)"
  obtains refs watchlist where "sr_ticker r \<in> set watchlist"
    and "r = row_for z t staleness refs (latest_eligible_ticks z ticks watchlist (session_of z t) t) (sr_ticker r)"
proof -
  from assms(1,2) obtain refs where "ms_rows s = map (row_for z t staleness refs
      (latest_eligible_ticks z ticks (watchlist_of tickers refs) (session_of z t) t)) (watchlist_of tickers refs)"
    by (cases "reference_of daily fs") (auto simp: build_realtime_snapshot_def Let_def)
  with assms(3) obtain ticker where "ticker \<in> set (watchlist_of tickers refs)"
      and r: "r = row_for z t staleness refs (latest_eligible_ticks z ticks (watchlist_of tickers refs) (session_of z t) t) ticker"
    by auto
  moreover have "sr_ticker r = ticker" unfolding r by (auto simp: row_for_def Let_def split: option.split)
  ultimately show thesis using that [of "watchlist_of tickers refs" refs] by simp
qed

text \<open>What a row shows. Where the feed stamps its ticks with an offset, a name is missing exactly when no
  tick of it can be shown; otherwise the row is that of a tick no other shown tick of the name is later
  than, priced exactly when the tick is not older than the staleness bound, and a stale tick's price
  never appears.\<close>

theorem snapshot_rows_exact:
  assumes "parse_moment as_of = Inr t" and "aware_ticks ticks"
    and "build_realtime_snapshot z as_of daily ticks staleness tickers fs = Inr s" and "r \<in> set (ms_rows s)"
  shows "(sr_status r = QUOTE_MISSING \<longleftrightarrow> unseen z t ticks (sr_ticker r)) \<and>
    (sr_status r \<noteq> QUOTE_MISSING \<longrightarrow> (\<exists>q. picks z t ticks (sr_ticker r) q \<and> sr_age r = Some (age_sec z t (qt_time q)) \<and>
       sr_source r = qt_source q \<and> (sr_status r = QUOTE_OK \<longleftrightarrow> \<not> flt staleness (age_sec z t (qt_time q))) \<and>
       sr_mid r = (if sr_status r = QUOTE_OK then Some (qt_mid q) else None))) \<and>
    (sr_status r = QUOTE_MISSING \<longrightarrow> sr_mid r = None)"
proof -
  obtain refs watchlist where w: "sr_ticker r \<in> set watchlist"
    and r: "r = row_for z t staleness refs (latest_eligible_ticks z ticks watchlist (session_of z t) t) (sr_ticker r)"
    by (rule build_rows [OF assms(1,3,4)])
  let ?best = "map_of (latest_eligible_ticks z ticks watchlist (session_of z t) t) (sr_ticker r)"
  note chosen = chosen_tick [OF assms(2) w, of z t]
  show ?thesis
  proof (cases ?best)
    case None
    then have "sr_status r = QUOTE_MISSING" "sr_mid r = None" by (subst r, simp add: row_for_def Let_def)+
    with chosen None show ?thesis by simp
  next
    case (Some q)
    with chosen have p: "picks z t ticks (sr_ticker r) q" by simp
    then have "\<not> unseen z t ticks (sr_ticker r)" by (auto simp: picks_def unseen_def)
    moreover have "sr_status r = (if flt staleness (age_sec z t (qt_time q)) then QUOTE_STALE else QUOTE_OK)"
      "sr_age r = Some (age_sec z t (qt_time q))" "sr_source r = qt_source q"
      "sr_mid r = (if flt staleness (age_sec z t (qt_time q)) then None else Some (qt_mid q))"
      using Some by (subst r, simp add: row_for_def Let_def)+
    ultimately show ?thesis using p by (auto split: if_splits)
  qed
qed

section \<open>At concrete inputs\<close>

text \<open>New York in summer, and three ticks: at the open, ten seconds later, and one of the future.\<close>

definition demo_zone :: zone where
  "demo_zone = \<lparr>zn_wall = \<lambda>i. i - 14400000000, zn_instant = \<lambda>w. w + 14400000000,
     zn_day = \<lambda>d. if d = days_from_civil 2026 6 30 then ''2026-06-30'' else [], zn_iso = \<lambda>d. []\<rparr>"

definition demo_feed_tick :: "string \<Rightarrow> json \<Rightarrow> json dict" where
  "demo_feed_tick time mid = [(''ticker'', JStr ''nvda''), (''date'', JStr ''2026-06-30''),
     (''tick_time'', JStr (''2026-06-30T'' @ time @ ''-04:00'')), (''mid'', mid)]"

definition demo_feed :: "json dict list" where
  "demo_feed = [demo_feed_tick ''09:30:10'' (JFloat (Num 101)), demo_feed_tick ''09:30:00'' (JFloat (Num 100)),
     demo_feed_tick ''10:00:00'' (JFloat (Num 99))]"

definition demo_snapshot_at :: "string \<Rightarrow> json dict list \<Rightarrow> py_error + market_snapshot" where
  "demo_snapshot_at as_of ticks =
     build_realtime_snapshot demo_zone as_of (Some [(''NVDA'', JNull)]) ticks DEFAULT_STALENESS_SEC None None"

lemma demo_as_of: "parse_moment ''2026-06-30T09:30:20-04:00'' = Inr \<lparr>wall = 1782811820000000, utc_offset = Some (- 14400000000)\<rparr>"
  by code_simp

lemma demo_feed_aware: "aware_ticks demo_feed"
proof -
  have "list_all (\<lambda>row. case tick_time row of None \<Rightarrow> True | Some t \<Rightarrow> utc_offset t \<noteq> None) demo_feed" by code_simp
  then show ?thesis by (auto simp: aware_ticks_def list_all_iff split: option.splits)
qed


lemma demo_rows:
  "map_sum id (\<lambda>s. map (\<lambda>r. (sr_ticker r, sr_status r, sr_mid r)) (ms_rows s)) (demo_snapshot_at ''2026-06-30T09:30:20-04:00'' demo_feed) =
   Inr [(''NVDA'', QUOTE_OK, Some (Num 101))]"
  by code_simp

theorem snapshot_rows_exact_witness:
  "\<exists>q. picks demo_zone \<lparr>wall = 1782811820000000, utc_offset = Some (- 14400000000)\<rparr> demo_feed ''NVDA'' q \<and> qt_mid q = Num 101"
proof -
  obtain s r where s: "demo_snapshot_at ''2026-06-30T09:30:20-04:00'' demo_feed = Inr s" "r \<in> set (ms_rows s)"
      and r: "sr_ticker r = ''NVDA''" "sr_status r = QUOTE_OK" "sr_mid r = Some (Num 101)"
    using demo_rows by (auto simp: map_sum_def split: sum.splits)
  from snapshot_rows_exact [OF demo_as_of demo_feed_aware s(1) [unfolded demo_snapshot_at_def] s(2)] r show ?thesis by auto
qed

text \<open>A price that is not a number is priceable, and a feature cutoff that is null is the text of \<open>None\<close>.\<close>

lemma NaN_price_is_ok:
  "map_sum id (\<lambda>s. map (\<lambda>r. (sr_status r, sr_mid r)) (ms_rows s))
     (demo_snapshot_at ''2026-06-30T09:30:20-04:00'' [demo_feed_tick ''09:30:10'' (JFloat NaN)]) = Inr [(QUOTE_OK, Some NaN)]"
  by code_simp

lemma null_cutoff_accepted:
  "map_sum id fs_cutoff (from_mapping (\<lambda>j. []) (JObj [(''feature_cutoff'', JNull), (''feature_builder_version'', JStr ''v1''),
     (''features'', JObj [(''NVDA'', JNull)])])) = Inr ''None''"
  by code_simp

end
