(* ===== verification/LiveStateSchema.thy ===== *)
theory LiveStateSchema
  imports PyTime
begin

text \<open>
  \<open>live_state_v2.py\<close>: the typed live state, read from and written to the flat dictionaries of the first
  version. The field validation is pydantic's, an argument; a refusal is \<open>None\<close>, whichever exception
  it is.
\<close>

section \<open>The schema\<close>

definition PER_HOLDING_KEYS :: "string list" where
  "PER_HOLDING_KEYS = [''sell_streaks'', ''protection_breaches'', ''position_hwm'', ''entry_signals'']"

definition MODELLED_TOP_KEYS :: "string list" where
  "MODELLED_TOP_KEYS = [''regime'', ''regime_confidence'', ''high_water_mark'', ''skip_buys'', ''entry_dates'',
     ''last_sell_dates'', ''last_stop_exit_dates''] @ PER_HOLDING_KEYS"

record holding_v2 =
  hv_entry_date :: string
  hv_sell_streak :: int
  hv_breaches :: int
  hv_hwm :: "pyfloat option"
  hv_signal :: "json dict option"

record live_state =
  lv_regime :: string
  lv_confidence :: pyfloat
  lv_hwm :: "pyfloat option"
  lv_skip_buys :: bool
  lv_holdings :: "holding_v2 dict"
  lv_last_sells :: "string dict"
  lv_last_stops :: "string dict"
  lv_extra :: "json dict"

text \<open>The validation of a field of type \<open>str\<close>, \<open>Optional[float]\<close> and \<open>Optional[dict[str, Any]]\<close>.\<close>

record pydantic =
  pd_str :: "json \<Rightarrow> string option"
  pd_float :: "json \<Rightarrow> pyfloat option option"
  pd_dict :: "json \<Rightarrow> json dict option option"

definition entry_regime :: "holding_v2 \<Rightarrow> json" where
  "entry_regime h = (case hv_signal h of None \<Rightarrow> JNull | Some d \<Rightarrow> dget d ''regime'' JNull)"

section \<open>Reading\<close>

fun collect_some :: "('a \<Rightarrow> 'b option) \<Rightarrow> 'a list \<Rightarrow> 'b list option" where
  "collect_some f [] = Some []"
| "collect_some f (x # xs) =
     (case f x of None \<Rightarrow> None | Some y \<Rightarrow> map_option (\<lambda>ys. y # ys) (collect_some f xs))"

text \<open>\<open>dict(x)\<close>: a mapping, or an iterable of pairs.\<close>

definition pair_of :: "json \<Rightarrow> (string \<times> json) option" where
  "pair_of j = (case iter_json j of Inr [JStr k, v] \<Rightarrow> Some (k, v) | _ \<Rightarrow> None)"

definition as_dict :: "json \<Rightarrow> json dict option" where
  "as_dict j =
     (case j of
        JObj kvs \<Rightarrow> Some kvs
      | JList xs \<Rightarrow> map_option (foldl (\<lambda>d (k, v). dset d k v) []) (collect_some pair_of xs)
      | _ \<Rightarrow> None)"

definition field_dict :: "json dict \<Rightarrow> string \<Rightarrow> json" where
  "field_dict raw k = py_or (dget raw k JNull) (JObj [])"

text \<open>A source whose tickers all have an entry date. One that is not a mapping is refused sooner or later.\<close>

definition source_of :: "json dict \<Rightarrow> string list \<Rightarrow> string \<Rightarrow> json dict option" where
  "source_of raw tickers k =
     (case field_dict raw k of
        JObj d \<Rightarrow> if set (map fst d) \<subseteq> set tickers then Some d else None
      | _ \<Rightarrow> None)"

definition count_of :: "json dict \<Rightarrow> string \<Rightarrow> int option" where
  "count_of d t = (case py_int (py_or (dget d t (JInt 0)) (JInt 0)) of Inl x \<Rightarrow> None | Inr i \<Rightarrow> Some i)"

definition holding_of ::
    "pydantic \<Rightarrow> json dict \<Rightarrow> json dict \<Rightarrow> json dict \<Rightarrow> json dict \<Rightarrow> string \<times> json \<Rightarrow> (string \<times> holding_v2) option" where
  "holding_of pd streaks breaches hwms signals td =
     (case (count_of streaks (fst td), count_of breaches (fst td), pd_float pd (dget hwms (fst td) JNull),
            pd_dict pd (dget signals (fst td) JNull)) of
        (Some s, Some b, Some h, Some e) \<Rightarrow>
          Some (fst td, \<lparr>hv_entry_date = py_str (snd td), hv_sell_streak = s, hv_breaches = b, hv_hwm = h, hv_signal = e\<rparr>)
      | _ \<Rightarrow> None)"

definition dates_of :: "pydantic \<Rightarrow> json dict \<Rightarrow> string \<Rightarrow> string dict option" where
  "dates_of pd raw k =
     (case as_dict (field_dict raw k) of
        None \<Rightarrow> None
      | Some d \<Rightarrow> collect_some (\<lambda>(t, v). map_option (Pair t) (pd_str pd v)) d)"

definition parse_holdings :: "pydantic \<Rightarrow> json dict \<Rightarrow> holding_v2 dict option" where
  "parse_holdings pd raw =
     (case as_dict (field_dict raw ''entry_dates'') of
        None \<Rightarrow> None
      | Some dates \<Rightarrow>
          (let source = source_of raw (map fst dates) in
           case (source ''sell_streaks'', source ''protection_breaches'', source ''position_hwm'', source ''entry_signals'') of
             (Some streaks, Some breaches, Some hwms, Some signals) \<Rightarrow>
               collect_some (holding_of pd streaks breaches hwms signals) dates
           | _ \<Rightarrow> None))"

definition confidence_of :: "json dict \<Rightarrow> pyfloat option" where
  "confidence_of raw =
     (case py_float (py_or (dget raw ''regime_confidence'' JNull) (JFloat (Num 0))) of Inl x \<Rightarrow> None | Inr f \<Rightarrow> Some f)"

definition parse_live_state :: "pydantic \<Rightarrow> json dict \<Rightarrow> live_state option" where
  "parse_live_state pd raw =
     (case (parse_holdings pd raw, pd_str pd (dget raw ''regime'' (JStr ''UNKNOWN'')), confidence_of raw,
            pd_float pd (dget raw ''high_water_mark'' JNull), dates_of pd raw ''last_sell_dates'',
            dates_of pd raw ''last_stop_exit_dates'') of
        (Some hs, Some regime, Some c, Some hwm, Some sells, Some stops) \<Rightarrow>
          Some \<lparr>lv_regime = regime, lv_confidence = c, lv_hwm = hwm,
            lv_skip_buys = truthy (dget raw ''skip_buys'' (JBool False)), lv_holdings = hs, lv_last_sells = sells,
            lv_last_stops = stops, lv_extra = filter (\<lambda>kv. fst kv \<notin> set MODELLED_TOP_KEYS) raw\<rparr>
      | _ \<Rightarrow> None)"

section \<open>Writing\<close>

definition float_or_null :: "pyfloat option \<Rightarrow> json" where
  "float_or_null x = (case x of None \<Rightarrow> JNull | Some f \<Rightarrow> JFloat f)"

definition fan_out :: "(holding_v2 \<Rightarrow> json option) \<Rightarrow> holding_v2 dict \<Rightarrow> json" where
  "fan_out f hs = JObj [(t, v). (t, h) \<leftarrow> hs, Some v \<leftarrow> [f h]]"

definition text_dict :: "string dict \<Rightarrow> json" where
  "text_dict d = JObj (map (\<lambda>(k, s). (k, JStr s)) d)"

definition to_v1_dict :: "live_state \<Rightarrow> json dict" where
  "to_v1_dict v =
     [(''regime'', JStr (lv_regime v)), (''regime_confidence'', JFloat (lv_confidence v)),
      (''high_water_mark'', float_or_null (lv_hwm v)), (''skip_buys'', JBool (lv_skip_buys v)),
      (''entry_dates'', fan_out (\<lambda>h. Some (JStr (hv_entry_date h))) (lv_holdings v)),
      (''sell_streaks'', fan_out (\<lambda>h. Some (JInt (hv_sell_streak h))) (lv_holdings v)),
      (''protection_breaches'', fan_out (\<lambda>h. Some (JInt (hv_breaches h))) (lv_holdings v)),
      (''position_hwm'', fan_out (\<lambda>h. map_option JFloat (hv_hwm h)) (lv_holdings v)),
      (''entry_signals'', fan_out (\<lambda>h. map_option JObj (hv_signal h)) (lv_holdings v)),
      (''last_sell_dates'', text_dict (lv_last_sells v)), (''last_stop_exit_dates'', text_dict (lv_last_stops v))]
     @ lv_extra v"

section \<open>Reading back what is written\<close>

text \<open>Pydantic keeps a value that has the type of its field.\<close>

definition keeps_typed :: "pydantic \<Rightarrow> bool" where
  "keeps_typed pd \<longleftrightarrow> (\<forall>s. pd_str pd (JStr s) = Some s) \<and> pd_float pd JNull = Some None \<and>
     (\<forall>f. pd_float pd (JFloat f) = Some (Some f)) \<and> pd_dict pd JNull = Some None \<and> (\<forall>d. pd_dict pd (JObj d) = Some (Some d))"

definition wf_live :: "live_state \<Rightarrow> bool" where
  "wf_live v \<longleftrightarrow> distinct (map fst (lv_holdings v)) \<and> (\<forall>kv \<in> set (lv_extra v). fst kv \<notin> set MODELLED_TOP_KEYS)"

lemma collect_some_map: "\<forall>x \<in> set xs. f x = Some (g x) \<Longrightarrow> collect_some f xs = Some (map g xs)"
  by (induction xs) auto

lemma collect_some_keys:
  "collect_some f xs = Some ys \<Longrightarrow> (\<And>x y. f x = Some y \<Longrightarrow> k y = j x) \<Longrightarrow> map k ys = map j xs"
  by (induction xs arbitrary: ys) (auto split: option.splits)

lemma fan_out_keys: "fan_out f hs = JObj d \<Longrightarrow> fst ` set d \<subseteq> fst ` set hs"
  by (force simp: fan_out_def split: option.splits)

lemma fan_out_get: "distinct (map fst hs) \<Longrightarrow> (t, h) \<in> set hs \<Longrightarrow> fan_out f hs = JObj d \<Longrightarrow> map_of d t = f h"
proof (induction hs arbitrary: d)
  case (Cons a hs)
  obtain u g where a: "a = (u, g)" by (cases a)
  obtain e where e: "fan_out f hs = JObj e" by (simp add: fan_out_def)
  have d: "d = (case f g of None \<Rightarrow> e | Some v \<Rightarrow> (u, v) # e)"
    using Cons.prems(3) e unfolding a by (auto simp: fan_out_def split: option.splits)
  show ?case
  proof (cases "(t, h) = a")
    case True
    with Cons.prems(1) a have "t \<notin> fst ` set e" using fan_out_keys [OF e] by auto
    then have "map_of e t = None" by (simp add: map_of_eq_None_iff)
    with True a d show ?thesis by (auto split: option.split)
  next
    case False
    with Cons.prems a have "(t, h) \<in> set hs" "t \<noteq> u" by force+
    with Cons.IH [OF _ this(1) e] Cons.prems(1) d a show ?thesis by (auto split: option.split)
  qed
qed simp


lemma fan_out_all:
  "fan_out (\<lambda>h. Some (g h)) hs = JObj (map (\<lambda>(t, h). (t, g h)) hs)"
  by (induction hs) (auto simp: fan_out_def)

lemma field_dict_written: "dget raw k JNull = JObj d \<Longrightarrow> field_dict raw k = JObj d"
  by (simp add: field_dict_def py_or_def)

lemma written_fields:
  "dget (to_v1_dict v) ''regime'' j = JStr (lv_regime v)"
  "dget (to_v1_dict v) ''regime_confidence'' j = JFloat (lv_confidence v)"
  "dget (to_v1_dict v) ''high_water_mark'' j = float_or_null (lv_hwm v)"
  "dget (to_v1_dict v) ''skip_buys'' j = JBool (lv_skip_buys v)"
  "dget (to_v1_dict v) ''entry_dates'' j = fan_out (\<lambda>h. Some (JStr (hv_entry_date h))) (lv_holdings v)"
  "dget (to_v1_dict v) ''sell_streaks'' j = fan_out (\<lambda>h. Some (JInt (hv_sell_streak h))) (lv_holdings v)"
  "dget (to_v1_dict v) ''protection_breaches'' j = fan_out (\<lambda>h. Some (JInt (hv_breaches h))) (lv_holdings v)"
  "dget (to_v1_dict v) ''position_hwm'' j = fan_out (\<lambda>h. map_option JFloat (hv_hwm h)) (lv_holdings v)"
  "dget (to_v1_dict v) ''entry_signals'' j = fan_out (\<lambda>h. map_option JObj (hv_signal h)) (lv_holdings v)"
  "dget (to_v1_dict v) ''last_sell_dates'' j = text_dict (lv_last_sells v)"
  "dget (to_v1_dict v) ''last_stop_exit_dates'' j = text_dict (lv_last_stops v)"
  by (simp_all add: to_v1_dict_def dget_def)

lemma count_written: "map_of d t = Some (JInt i) \<Longrightarrow> count_of d t = Some i"
  by (simp add: count_of_def dget_def py_or_def)

lemma holding_written:
  assumes "keeps_typed pd" and "distinct (map fst hs)" and "(t, h) \<in> set hs"
    and "fan_out (\<lambda>h. Some (JInt (hv_sell_streak h))) hs = JObj streaks" "fan_out (\<lambda>h. Some (JInt (hv_breaches h))) hs = JObj breaches"
    and "fan_out (\<lambda>h. map_option JFloat (hv_hwm h)) hs = JObj hwms" "fan_out (\<lambda>h. map_option JObj (hv_signal h)) hs = JObj signals"
  shows "holding_of pd streaks breaches hwms signals (t, JStr (hv_entry_date h)) = Some (t, h)"
proof -
  note get = fan_out_get [OF assms(2,3)]
  have "pd_float pd (dget hwms t JNull) = Some (hv_hwm h)"
    using get [OF assms(6)] assms(1) by (cases "hv_hwm h") (auto simp: dget_def keeps_typed_def)
  moreover have "pd_dict pd (dget signals t JNull) = Some (hv_signal h)"
    using get [OF assms(7)] assms(1) by (cases "hv_signal h") (auto simp: dget_def keeps_typed_def)
  moreover have "count_of streaks t = Some (hv_sell_streak h)" "count_of breaches t = Some (hv_breaches h)"
    using get [OF assms(4)] get [OF assms(5)] by (simp_all add: count_written)
  ultimately show ?thesis by (simp add: holding_of_def)
qed

lemma source_written:
  assumes "dget raw k JNull = fan_out f hs"
  obtains d where "fan_out f hs = JObj d" and "source_of raw (map fst hs) k = Some d"
proof -
  obtain d where d: "fan_out f hs = JObj d" by (simp add: fan_out_def)
  have "set (map fst d) \<subseteq> set (map fst hs)" using fan_out_keys [OF d] by simp
  then have "source_of raw (map fst hs) k = Some d"
    using field_dict_written [of raw k d] assms d by (simp add: source_of_def)
  with d show thesis by (rule that)
qed

lemma holdings_written:
  assumes "keeps_typed pd" and "distinct (map fst (lv_holdings v))"
  shows "parse_holdings pd (to_v1_dict v) = Some (lv_holdings v)"
proof -
  let ?raw = "to_v1_dict v" and ?hs = "lv_holdings v"
  let ?dates = "map (\<lambda>(t, h). (t, JStr (hv_entry_date h))) ?hs"
  have dates: "as_dict (field_dict ?raw ''entry_dates'') = Some ?dates"
    using field_dict_written [of ?raw "''entry_dates''" ?dates] by (simp add: written_fields fan_out_all as_dict_def)
  have keys: "map fst ?dates = map fst ?hs" by (simp add: case_prod_beta comp_def)
  obtain streaks where s: "fan_out (\<lambda>h. Some (JInt (hv_sell_streak h))) ?hs = JObj streaks"
      "source_of ?raw (map fst ?hs) ''sell_streaks'' = Some streaks" by (rule source_written [OF written_fields(6)])
  obtain breaches where b: "fan_out (\<lambda>h. Some (JInt (hv_breaches h))) ?hs = JObj breaches"
      "source_of ?raw (map fst ?hs) ''protection_breaches'' = Some breaches" by (rule source_written [OF written_fields(7)])
  obtain hwms where h: "fan_out (\<lambda>h. map_option JFloat (hv_hwm h)) ?hs = JObj hwms"
      "source_of ?raw (map fst ?hs) ''position_hwm'' = Some hwms" by (rule source_written [OF written_fields(8)])
  obtain signals where e: "fan_out (\<lambda>h. map_option JObj (hv_signal h)) ?hs = JObj signals"
      "source_of ?raw (map fst ?hs) ''entry_signals'' = Some signals" by (rule source_written [OF written_fields(9)])
  have one: "holding_of pd streaks breaches hwms signals (t, JStr (hv_entry_date g)) = Some (t, g)" if "(t, g) \<in> set ?hs" for t g
    by (rule holding_written [OF assms that s(1) b(1) h(1) e(1)])
  have "collect_some (holding_of pd streaks breaches hwms signals) (map (\<lambda>(t, h). (t, JStr (hv_entry_date h))) hs) = Some hs"
    if "set hs \<subseteq> set ?hs" for hs
    using that by (induction hs) (auto simp: one)
  from this [of ?hs] show ?thesis
    unfolding parse_holdings_def dates option.case Let_def keys s(2) b(2) h(2) e(2) prod.case by simp
qed

lemma dates_written:
  assumes "keeps_typed pd" and "dget raw k JNull = text_dict d"
  shows "dates_of pd raw k = Some d"
proof -
  have "collect_some (\<lambda>(t, v). map_option (Pair t) (pd_str pd v)) (map (\<lambda>(k, s). (k, JStr s)) xs) = Some xs" for xs
    using assms(1) by (induction xs) (auto simp: keeps_typed_def)
  then show ?thesis using field_dict_written [of raw k] assms(2)
    by (simp add: dates_of_def text_dict_def as_dict_def)
qed

lemma confidence_written: "confidence_of (to_v1_dict v) = Some (lv_confidence v)"
  by (simp add: confidence_of_def written_fields py_or_def)

lemma extra_written:
  assumes "\<forall>kv \<in> set (lv_extra v). fst kv \<notin> set MODELLED_TOP_KEYS"
  shows "filter (\<lambda>kv. fst kv \<notin> set MODELLED_TOP_KEYS) (to_v1_dict v) = lv_extra v"
proof -
  have "filter (\<lambda>kv. fst kv \<notin> set MODELLED_TOP_KEYS) (lv_extra v) = lv_extra v" using assms by (simp add: filter_id_conv)
  then show ?thesis by (simp add: to_v1_dict_def MODELLED_TOP_KEYS_def PER_HOLDING_KEYS_def)
qed

lemma written_other: "k \<notin> set MODELLED_TOP_KEYS \<Longrightarrow> map_of (to_v1_dict v) k = map_of (lv_extra v) k"
proof -
  let ?core = "take 11 (to_v1_dict v)"
  have split: "to_v1_dict v = ?core @ lv_extra v" by (simp add: to_v1_dict_def)
  have "fst ` set ?core \<subseteq> set MODELLED_TOP_KEYS" by (simp add: to_v1_dict_def MODELLED_TOP_KEYS_def PER_HOLDING_KEYS_def)
  moreover assume "k \<notin> set MODELLED_TOP_KEYS"
  ultimately have "map_of ?core k = None" by (auto simp: map_of_eq_None_iff)
  then have "map_of (?core @ lv_extra v) k = map_of (lv_extra v) k" by (simp add: map_add_def split: option.split)
  then show ?thesis using split by simp
qed

lemma parse_written:
  assumes "keeps_typed pd" and "wf_live v"
  shows "parse_live_state pd (to_v1_dict v) = Some v"
proof -
  have v: "distinct (map fst (lv_holdings v))" "\<forall>kv \<in> set (lv_extra v). fst kv \<notin> set MODELLED_TOP_KEYS"
    using assms(2) by (auto simp: wf_live_def)
  have "pd_float pd (float_or_null (lv_hwm v)) = Some (lv_hwm v)" "pd_str pd (JStr (lv_regime v)) = Some (lv_regime v)"
    using assms(1) by (auto simp: keeps_typed_def float_or_null_def split: option.split)
  then show ?thesis
    using holdings_written [OF assms(1) v(1)] confidence_written [of v] extra_written [OF v(2)]
      dates_written [OF assms(1) written_fields(10), of v] dates_written [OF assms(1) written_fields(11), of v]
    by (simp add: parse_live_state_def written_fields)
qed


section \<open>What reading keeps\<close>

definition distinct_dates :: "json dict \<Rightarrow> bool" where
  "distinct_dates raw \<longleftrightarrow> (\<forall>d. dget raw ''entry_dates'' JNull = JObj d \<longrightarrow> distinct (map fst d))"

lemma as_dict_distinct:
  assumes "as_dict j = Some d" and "\<forall>e. j = JObj e \<longrightarrow> distinct (map fst e)"
  shows "distinct (map fst d)"
proof -
  have fold: "distinct (map fst e) \<Longrightarrow> distinct (map fst (foldl (\<lambda>d (k, v). dset d k v) e kvs))" for e kvs :: "json dict"
    by (induction kvs arbitrary: e) (auto intro: distinct_keys_dset)
  show ?thesis using assms fold [of "[]"] by (cases j) (auto simp: as_dict_def)
qed

lemma entry_dates_distinct:
  assumes "distinct_dates raw" and "as_dict (field_dict raw ''entry_dates'') = Some dates"
  shows "distinct (map fst dates)"
proof (rule as_dict_distinct [OF assms(2)], intro allI impI)
  fix e assume "field_dict raw ''entry_dates'' = JObj e"
  then have "e = [] \<or> dget raw ''entry_dates'' JNull = JObj e" by (auto simp: field_dict_def py_or_def split: if_splits)
  with assms(1) show "distinct (map fst e)" by (auto simp: distinct_dates_def)
qed

lemma holding_of_fst: "holding_of pd a b c d td = Some kv \<Longrightarrow> fst kv = fst td"
  by (auto simp: holding_of_def split: option.splits)

lemma parse_facts:
  assumes "parse_live_state pd raw = Some v"
  obtains dates where "as_dict (field_dict raw ''entry_dates'') = Some dates" and "map fst (lv_holdings v) = map fst dates"
    and "\<forall>k \<in> set PER_HOLDING_KEYS. \<exists>d. source_of raw (map fst dates) k = Some d"
    and "lv_extra v = filter (\<lambda>kv. fst kv \<notin> set MODELLED_TOP_KEYS) raw"
proof -
  from assms have h: "parse_holdings pd raw = Some (lv_holdings v)"
    and e: "lv_extra v = filter (\<lambda>kv. fst kv \<notin> set MODELLED_TOP_KEYS) raw"
    by (auto simp: parse_live_state_def split: option.splits)
  from h obtain dates where d: "as_dict (field_dict raw ''entry_dates'') = Some dates"
    by (auto simp: parse_holdings_def split: option.splits)
  let ?source = "source_of raw (map fst dates)"
  have "parse_holdings pd raw = (case (?source ''sell_streaks'', ?source ''protection_breaches'', ?source ''position_hwm'',
      ?source ''entry_signals'') of
      (Some a, Some b, Some c, Some f) \<Rightarrow> collect_some (holding_of pd a b c f) dates | _ \<Rightarrow> None)"
    using d by (simp add: parse_holdings_def Let_def)
  with h obtain a b c f where src: "?source ''sell_streaks'' = Some a" "?source ''protection_breaches'' = Some b"
      "?source ''position_hwm'' = Some c" "?source ''entry_signals'' = Some f"
      and hs: "collect_some (holding_of pd a b c f) dates = Some (lv_holdings v)"
    by (cases "?source ''sell_streaks''"; cases "?source ''protection_breaches''"; cases "?source ''position_hwm''";
        cases "?source ''entry_signals''") simp_all
  from collect_some_keys [OF hs holding_of_fst] have "map fst (lv_holdings v) = map fst dates" .
  with d src e show thesis by (intro that [of dates]) (simp_all add: PER_HOLDING_KEYS_def)
qed

text \<open>C35: The migration is a round trip: a state that was read is read back the same from what it is written
  as, whatever the old file looked like; it has a holding for each entry date and the keys it does
  not model are written back verbatim; and no holding's entry is dropped, since a file with an entry
  whose ticker has no entry date is refused.\<close>

theorem live_state_roundtrip:
  assumes "keeps_typed pd" and "distinct_dates raw" and "parse_live_state pd raw = Some v"
  shows "parse_live_state pd (to_v1_dict v) = Some v \<and>
    (\<forall>k. k \<notin> set MODELLED_TOP_KEYS \<longrightarrow> map_of (to_v1_dict v) k = map_of raw k) \<and>
    (\<forall>k \<in> set PER_HOLDING_KEYS. \<forall>d. dget raw k JNull = JObj d \<longrightarrow> fst ` set d \<subseteq> fst ` set (lv_holdings v))"
proof (intro conjI allI ballI impI)
  obtain dates where dates: "as_dict (field_dict raw ''entry_dates'') = Some dates" "map fst (lv_holdings v) = map fst dates"
      "\<forall>k \<in> set PER_HOLDING_KEYS. \<exists>d. source_of raw (map fst dates) k = Some d"
      "lv_extra v = filter (\<lambda>kv. fst kv \<notin> set MODELLED_TOP_KEYS) raw"
    by (rule parse_facts [OF assms(3)])
  have "wf_live v" using entry_dates_distinct [OF assms(2) dates(1)] dates(2,4) by (auto simp: wf_live_def)
  with assms(1) show "parse_live_state pd (to_v1_dict v) = Some v" by (rule parse_written)
  show "map_of (to_v1_dict v) k = map_of raw k" if "k \<notin> set MODELLED_TOP_KEYS" for k
  proof -
    have "map_of (filter (\<lambda>kv. fst kv \<notin> set MODELLED_TOP_KEYS) kvs) k = map_of kvs k" for kvs :: "json dict"
      using that by (induction kvs) auto
    with written_other [OF that, of v] dates(4) show ?thesis by simp
  qed
  show "fst ` set d \<subseteq> fst ` set (lv_holdings v)" if "k \<in> set PER_HOLDING_KEYS" "dget raw k JNull = JObj d" for k d
  proof (cases "d = []")
    case False
    with that(2) have "field_dict raw k = JObj d" by (simp add: field_dict_def py_or_def)
    moreover from dates(3) that(1) obtain e where "source_of raw (map fst dates) k = Some e" by blast
    ultimately have "set (map fst d) \<subseteq> set (map fst dates)" by (simp add: source_of_def split: if_splits)
    with dates(2) show ?thesis by (metis list.set_map)
  qed simp
qed

section \<open>At concrete inputs\<close>

definition strict_pydantic :: pydantic where
  "strict_pydantic = \<lparr>pd_str = \<lambda>j. case j of JStr s \<Rightarrow> Some s | _ \<Rightarrow> None,
     pd_float = \<lambda>j. case j of JNull \<Rightarrow> Some None | JFloat f \<Rightarrow> Some (Some f) | _ \<Rightarrow> None,
     pd_dict = \<lambda>j. case j of JNull \<Rightarrow> Some None | JObj d \<Rightarrow> Some (Some d) | _ \<Rightarrow> None\<rparr>"

definition demo_v1 :: "json dict" where
  "demo_v1 = [(''regime'', JStr ''BULL''), (''entry_dates'', JObj [(''MU'', JStr ''2026-04-27'')]),
     (''position_hwm'', JObj [(''MU'', JFloat (Num 10))]), (''stop_orders'', JObj [])]"

theorem live_state_roundtrip_witness:
  "map_option (\<lambda>v. parse_live_state strict_pydantic (to_v1_dict v)) (parse_live_state strict_pydantic demo_v1) =
   Some (parse_live_state strict_pydantic demo_v1)"
proof -
  have "keeps_typed strict_pydantic" by (simp add: keeps_typed_def strict_pydantic_def)
  moreover have "distinct_dates demo_v1" by (simp add: distinct_dates_def demo_v1_def dget_def)
  moreover have "parse_live_state strict_pydantic demo_v1 \<noteq> None" by code_simp
  ultimately show ?thesis using live_state_roundtrip [of strict_pydantic demo_v1] by auto
qed

text \<open>The other round trip is not the identity: what the old file left out is written with its default.\<close>

lemma migration_adds_defaults:
  "map_option (\<lambda>v. dget (to_v1_dict v) ''sell_streaks'' JNull) (parse_live_state strict_pydantic demo_v1) =
   Some (JObj [(''MU'', JInt 0)])"
  by code_simp

end
