(* ===== verification/StepTriples.thy ===== *)
theory StepTriples
  imports Effects
begin

text \<open>
  Hoare triples for steps that may raise: from a state with \<open>P\<close>, a step that goes on leaves \<open>Q\<close> of its value
  and the state, and a step that stops leaves \<open>E\<close> of its reason and the state.
\<close>

definition triple :: "('s \<Rightarrow> bool) \<Rightarrow> ('s, 'e, 'a) step \<Rightarrow> ('a \<Rightarrow> 's \<Rightarrow> bool) \<Rightarrow> ('e \<Rightarrow> 's \<Rightarrow> bool) \<Rightarrow> bool" where
  "triple P m Q E \<longleftrightarrow> (\<forall>s. P s \<longrightarrow> (case m s of (t, r) \<Rightarrow> case r of Inl e \<Rightarrow> E e t | Inr x \<Rightarrow> Q x t))"

lemma tripleI: "(\<And>s t x. P s \<Longrightarrow> m s = (t, Inr x) \<Longrightarrow> Q x t) \<Longrightarrow> (\<And>s t e. P s \<Longrightarrow> m s = (t, Inl e) \<Longrightarrow> E e t) \<Longrightarrow> triple P m Q E"
  by (auto simp: triple_def split: prod.split sum.split)

lemma triple_Inr: "triple P m Q E \<Longrightarrow> P s \<Longrightarrow> m s = (t, Inr x) \<Longrightarrow> Q x t"
  by (force simp: triple_def)

lemma triple_Inl: "triple P m Q E \<Longrightarrow> P s \<Longrightarrow> m s = (t, Inl e) \<Longrightarrow> E e t"
  by (force simp: triple_def)

lemma triple_seq:
  assumes m: "triple P m Q E" and k: "\<And>x. triple (Q x) (k x) R E"
  shows "triple P (seq m k) R E"
proof (rule tripleI)
  fix s t y assume "P s" "seq m k s = (t, Inr y)"
  then show "R y t" using triple_Inr [OF m] triple_Inr [OF k] seq_Inr [of m k s t y] by blast
next
  fix s t e assume s: "P s" "seq m k s = (t, Inl e)"
  show "E e t"
  proof (cases "m s")
    case (Pair u r)
    show ?thesis
    proof (cases r)
      case (Inr x)
      with Pair s have "Q x u" "k x u = (t, Inl e)" using triple_Inr [OF m] by (auto simp: seq_def)
      then show ?thesis by (rule triple_Inl [OF k])
    qed (use Pair s triple_Inl [OF m] in \<open>auto simp: seq_def\<close>)
  qed
qed

lemma triple_conseq:
  "triple P m Q E \<Longrightarrow> (\<And>s. P' s \<Longrightarrow> P s) \<Longrightarrow> (\<And>x s. Q x s \<Longrightarrow> Q' x s) \<Longrightarrow> (\<And>e s. E e s \<Longrightarrow> E' e s) \<Longrightarrow> triple P' m Q' E'"
  by (rule tripleI) (blast dest: triple_Inr triple_Inl)+

lemma triple_pre: "(\<And>s. P s \<Longrightarrow> triple (\<lambda>t. t = s) m Q E) \<Longrightarrow> triple P m Q E"
  by (force simp: triple_def)

lemma triple_give: "(\<And>s. P s \<Longrightarrow> Q x s) \<Longrightarrow> triple P (give x) Q E"
  by (simp add: triple_def give_def)

lemma triple_fail: "(\<And>s. P s \<Longrightarrow> E e s) \<Longrightarrow> triple P (fail e) Q E"
  by (simp add: triple_def fail_def)

lemma triple_modify: "(\<And>s. P s \<Longrightarrow> Q () (f s)) \<Longrightarrow> triple P (modify f) Q E"
  by (simp add: triple_def modify_def)

lemma triple_lift: "(\<And>s e. P s \<Longrightarrow> r = Inl e \<Longrightarrow> E e s) \<Longrightarrow> (\<And>s x. P s \<Longrightarrow> r = Inr x \<Longrightarrow> Q x s) \<Longrightarrow> triple P (lift r) Q E"
  by (auto simp: triple_def lift_def split: sum.split)

lemma triple_if: "(b \<Longrightarrow> triple P m Q E) \<Longrightarrow> (\<not> b \<Longrightarrow> triple P n Q E) \<Longrightarrow> triple P (if b then m else n) Q E"
  by simp

lemma triple_sum:
  "(\<And>e. r = Inl e \<Longrightarrow> triple P (f e) Q E) \<Longrightarrow> (\<And>x. r = Inr x \<Longrightarrow> triple P (g x) Q E) \<Longrightarrow>
   triple P (case r of Inl e \<Rightarrow> f e | Inr x \<Rightarrow> g x) Q E"
  by (cases r) auto

lemma triple_option:
  "(r = None \<Longrightarrow> triple P f Q E) \<Longrightarrow> (\<And>x. r = Some x \<Longrightarrow> triple P (g x) Q E) \<Longrightarrow>
   triple P (case r of None \<Rightarrow> f | Some x \<Rightarrow> g x) Q E"
  by (cases r) auto

lemma triple_prod: "(\<And>a b. x = (a, b) \<Longrightarrow> triple P (f a b) Q E) \<Longrightarrow> triple P (case x of (a, b) \<Rightarrow> f a b) Q E"
  by (cases x) auto

lemma triple_ex: "(\<And>c. triple (P c) m Q E) \<Longrightarrow> triple (\<lambda>s. \<exists>c. P c s) m Q E"
  by (rule tripleI) (blast dest: triple_Inr triple_Inl)+

lemma triple_and: "(F \<Longrightarrow> triple P m Q E) \<Longrightarrow> triple (\<lambda>s. F \<and> P s) m Q E"
  by (rule tripleI) (blast dest: triple_Inr triple_Inl)+

text \<open>A step that only reads.\<close>

lemma triple_reads: "(\<And>s. m s = (s, Inr (f s))) \<Longrightarrow> (\<And>s. P s \<Longrightarrow> Q (f s) s) \<Longrightarrow> triple P m Q E"
  by (simp add: triple_def)

end
