(* ===== verification/TreatmentKey.thy ===== *)
theory TreatmentKey
  imports PyNum
begin

text \<open>
  The treatment isolation of \<open>shadow_ab_runner.py\<close>: Python's equality of JSON values, the flattening of a
  configuration and the difference between the configurations of the two arms. The reference reads a
  configuration as a tree.
\<close>

section \<open>Equality of JSON values\<close>

definition number_of :: "json \<Rightarrow> pyfloat option" where
  "number_of v =
     (case v of
        JBool b \<Rightarrow> Some (Num (if b then 1 else 0))
      | JInt i \<Rightarrow> Some (Num (of_int i))
      | JFloat f \<Rightarrow> Some f
      | _ \<Rightarrow> None)"

lemma zip_size [termination_simp]: "(x, y) \<in> set (zip xs ys) \<Longrightarrow> size x < Suc (size_list size xs)"
  by (drule set_zip_leftD) (metis less_Suc_eq_le order_refl size_list_estimation')

text \<open>\<open>==\<close> of two values that were read separately: \<open>True\<close>, \<open>1\<close> and \<open>1.0\<close> are equal, a NaN is equal to nothing.\<close>

fun py_eq :: "json \<Rightarrow> json \<Rightarrow> bool" where
  "py_eq JNull w = (w = JNull)"
| "py_eq (JStr s) w = (w = JStr s)"
| "py_eq (JList xs) w =
     (case w of JList ys \<Rightarrow> length xs = length ys \<and> (\<forall>p \<in> set (zip xs ys). py_eq (fst p) (snd p)) | _ \<Rightarrow> False)"
| "py_eq (JObj d) w =
     (case w of
        JObj e \<Rightarrow> length d = length e \<and> (\<forall>p \<in> set d. case map_of e (fst p) of None \<Rightarrow> False | Some u \<Rightarrow> py_eq (snd p) u)
      | _ \<Rightarrow> False)"
| "py_eq v w = (case (number_of v, number_of w) of (Some x, Some y) \<Rightarrow> feq x y | _ \<Rightarrow> False)"

section \<open>The difference between two configurations\<close>

definition FROZEN_TREATMENT_KEY :: string where
  "FROZEN_TREATMENT_KEY = ''ranking.panel_scoring.buy_floor_std_mult''"

definition ends_with :: "string \<Rightarrow> string \<Rightarrow> bool" where
  "ends_with s suffix \<longleftrightarrow> length suffix \<le> length s \<and> drop (length s - length suffix) s = suffix"

definition is_annotation :: "string \<Rightarrow> bool" where
  "is_annotation key \<longleftrightarrow> ends_with key ''_reason'' \<or> take 1 key = ''_''"

definition dotted :: "string \<Rightarrow> string \<Rightarrow> string" where
  "dotted prefix key = (if prefix = [] then key else prefix @ ''.'' @ key)"

text \<open>The assignments to \<open>flat\<close>, in their order.\<close>

fun flat_items :: "string \<Rightarrow> json dict \<Rightarrow> (string \<times> json) list" where
  "flat_items prefix [] = []"
| "flat_items prefix (kv # kvs) =
     (if is_annotation (fst kv) then []
      else case snd kv of
          JObj d \<Rightarrow> flat_items (dotted prefix (fst kv)) d
        | v \<Rightarrow> [(dotted prefix (fst kv), v)]) @ flat_items prefix kvs"

definition flatten_config :: "json dict \<Rightarrow> json dict" where
  "flatten_config config = foldl (\<lambda>flat (k, v). dset flat k v) [] (flat_items [] config)"

text \<open>\<open>x != y\<close>, where \<open>None\<close> is a missing value.\<close>

definition leaf_differs :: "json option \<Rightarrow> json option \<Rightarrow> bool" where
  "leaf_differs x y = (case (x, y) of (Some v, Some w) \<Rightarrow> \<not> py_eq v w | (None, None) \<Rightarrow> False | _ \<Rightarrow> True)"

datatype treatment_violation = BeyondTreatment "string list" | NoTreatmentDelta

definition treatment_key_violations :: "json dict \<Rightarrow> json dict \<Rightarrow> treatment_violation list" where
  "treatment_key_violations config_a config_b =
     (let flat_a = flatten_config config_a; flat_b = flatten_config config_b;
          diff_keys = filter (\<lambda>k. leaf_differs (map_of flat_a k) (map_of flat_b k)) (remdups (map fst flat_a @ map fst flat_b));
          unexpected = filter (\<lambda>k. k \<noteq> FROZEN_TREATMENT_KEY) diff_keys in
      (if unexpected \<noteq> [] then [BeyondTreatment (sort unexpected)] else []) @
      (if FROZEN_TREATMENT_KEY \<notin> set diff_keys then [NoTreatmentDelta] else []))"

section \<open>The configuration as a tree\<close>

text \<open>The value at the end of a path of functional keys, when it is not a section.\<close>

fun leaf_at :: "json dict \<Rightarrow> string list \<Rightarrow> json option" where
  "leaf_at d [] = None"
| "leaf_at d (k # ks) =
     (if is_annotation k then None
      else case map_of d k of
          None \<Rightarrow> None
        | Some v \<Rightarrow> (case v of JObj e \<Rightarrow> leaf_at e ks | _ \<Rightarrow> if ks = [] then Some v else None))"

definition plain_key :: "string \<Rightarrow> bool" where
  "plain_key k \<longleftrightarrow> k \<noteq> [] \<and> CHR ''.'' \<notin> set k"

text \<open>The keys of a section are different, and none is empty or has a dot in it.\<close>

fun plain_config :: "json dict \<Rightarrow> bool" where
  "plain_config [] = True"
| "plain_config (kv # kvs) \<longleftrightarrow>
     plain_key (fst kv) \<and> fst kv \<notin> fst ` set kvs \<and> (case snd kv of JObj d \<Rightarrow> plain_config d | _ \<Rightarrow> True) \<and> plain_config kvs"

definition dotted_path :: "string \<Rightarrow> string list \<Rightarrow> string" where
  "dotted_path prefix ks = foldl dotted prefix ks"

lemma dotted_path_Cons: "dotted_path prefix (k # ks) = dotted_path (dotted prefix k) ks"
  by (simp add: dotted_path_def)

lemma leaf_at_hit: "leaf_at ((k, v) # kvs) (k # ks) =
    (if is_annotation k then None else case v of JObj e \<Rightarrow> leaf_at e ks | _ \<Rightarrow> if ks = [] then Some v else None)"
  by (cases v) auto

lemma leaf_at_miss: "k \<noteq> j \<Longrightarrow> leaf_at ((k, v) # kvs) (j # ks) = leaf_at kvs (j # ks)"
  by simp

lemma leaf_at_keys: "leaf_at kvs (k # ks) = Some v \<Longrightarrow> k \<in> fst ` set kvs"
  by (auto simp: image_iff dest!: map_of_SomeD split: if_splits option.splits) (metis fst_conv)+

text \<open>The flattening lists the leaves under their dotted paths.\<close>

lemma flat_items_leaves:
  "plain_config d \<Longrightarrow> (p, v) \<in> set (flat_items prefix d) \<longleftrightarrow> (\<exists>ks. leaf_at d ks = Some v \<and> p = dotted_path prefix ks)"
proof (induction prefix d arbitrary: p v rule: flat_items.induct)
  case (1 prefix)
  have "leaf_at [] ks = None" for ks by (cases ks) auto
  then show ?case by simp
next
  case (2 prefix kv kvs)
  obtain k u where kv: "kv = (k, u)" by (cases kv)
  let ?here = "if is_annotation k then [] else case u of
      JObj d \<Rightarrow> flat_items (dotted prefix k) d | v \<Rightarrow> [(dotted prefix k, v)]"
  have here: "(p, v) \<in> set ?here \<longleftrightarrow> (\<exists>ks. leaf_at (kv # kvs) (k # ks) = Some v \<and> p = dotted_path prefix (k # ks))"
  proof (cases "is_annotation k")
    case False
    then show ?thesis
    proof (cases u)
      case (JObj e)
      then show ?thesis using False 2(1) [of e p v] 2(3) kv
        by (simp add: leaf_at_hit dotted_path_Cons del: leaf_at.simps)
    qed (auto simp: kv leaf_at_hit dotted_path_def simp del: leaf_at.simps)
  qed (simp add: kv)
  have rest: "(p, v) \<in> set (flat_items prefix kvs) \<longleftrightarrow> (\<exists>ks. leaf_at kvs ks = Some v \<and> p = dotted_path prefix ks)"
    using 2(2) [of p v] 2(3) by simp
  have "(\<exists>ks. leaf_at (kv # kvs) ks = Some v \<and> p = dotted_path prefix ks) \<longleftrightarrow>
      (\<exists>ks. leaf_at (kv # kvs) (k # ks) = Some v \<and> p = dotted_path prefix (k # ks)) \<or>
      (\<exists>ks. leaf_at kvs ks = Some v \<and> p = dotted_path prefix ks)" (is "?L \<longleftrightarrow> ?A \<or> ?B")
  proof
    assume ?L
    then obtain ks where ks: "leaf_at (kv # kvs) ks = Some v" "p = dotted_path prefix ks" by blast
    then obtain j js where "ks = j # js" by (cases ks) auto
    with ks kv show "?A \<or> ?B" by (cases "j = k") (metis leaf_at_miss)+
  next
    assume "?A \<or> ?B"
    moreover have "?B \<Longrightarrow> ?L"
    proof -
      assume ?B
      then obtain ks where ks: "leaf_at kvs ks = Some v" "p = dotted_path prefix ks" by blast
      then obtain j js where j: "ks = j # js" by (cases ks) auto
      with ks leaf_at_keys 2(3) kv have "k \<noteq> j" by auto
      with ks j kv leaf_at_miss show ?L by metis
    qed
    ultimately show ?L by blast
  qed
  moreover have "flat_items prefix (kv # kvs) = ?here @ flat_items prefix kvs" by (simp add: kv split: json.split)
  ultimately show ?case using here rest by (simp only: set_append Un_iff)
qed

lemma leaf_at_plain: "plain_config d \<Longrightarrow> leaf_at d ks = Some v \<Longrightarrow> ks \<noteq> [] \<and> list_all plain_key ks"
proof (induction ks arbitrary: d)
  case (Cons k ks)
  have plain: "plain_config kvs \<Longrightarrow> (k, u) \<in> set kvs \<Longrightarrow> plain_key k \<and> (case u of JObj e \<Rightarrow> plain_config e | _ \<Rightarrow> True)" for kvs u
    by (induction kvs) auto
  from Cons.prems(2) obtain u where u: "map_of d k = Some u" "case u of JObj e \<Rightarrow> leaf_at e ks = Some v | _ \<Rightarrow> ks = []"
    by (auto split: if_splits option.splits json.splits)
  note p = plain [OF Cons.prems(1) map_of_SomeD [OF u(1)]]
  show ?case
  proof (cases u)
    case (JObj e)
    with u p Cons.IH [of e] show ?thesis by simp
  qed (use u p in auto)
qed simp

text \<open>A dotted path determines its keys.\<close>

abbreviation dots :: "string list \<Rightarrow> string" where
  "dots ks \<equiv> concat (map (\<lambda>k. ''.'' @ k) ks)"

lemma dotted_path_prefix: "p \<noteq> [] \<Longrightarrow> dotted_path p ks = p @ dots ks"
  by (induction ks arbitrary: p) (simp_all add: dotted_path_def dotted_def)

lemma dotted_path_dots: "plain_key k \<Longrightarrow> dotted_path [] (k # ks) = k @ dots ks"
  by (simp add: dotted_path_Cons dotted_path_prefix dotted_def plain_key_def)

lemma key_before_dots: "plain_key k \<Longrightarrow> takeWhile (\<lambda>c. c \<noteq> CHR ''.'') (k @ dots ks) = k"
  by (cases ks) (auto simp: plain_key_def takeWhile_tail)

lemma key_dots_inj: "plain_key k \<Longrightarrow> plain_key j \<Longrightarrow> k @ dots ks = j @ dots js \<Longrightarrow> k = j \<and> dots ks = dots js"
  by (metis key_before_dots append_eq_append_conv)

lemma dots_inj: "list_all plain_key ks \<Longrightarrow> list_all plain_key js \<Longrightarrow> dots ks = dots js \<Longrightarrow> ks = js"
proof (induction ks arbitrary: js)
  case (Cons k ks)
  then obtain j js' where js: "js = j # js'" by (cases js) auto
  with Cons.prems key_dots_inj [of k j ks js'] have "k = j \<and> dots ks = dots js'" by simp
  with Cons js show ?case by simp
qed (auto simp: concat_eq_Nil_conv)

lemma dotted_path_inj:
  assumes "ks \<noteq> [] \<and> list_all plain_key ks" and "js \<noteq> [] \<and> list_all plain_key js" and "dotted_path [] ks = dotted_path [] js"
  shows "ks = js"
proof -
  obtain k ks' j js' where c: "ks = k # ks'" "js = j # js'" using assms by (cases ks; cases js) auto
  with assms key_dots_inj [of k j ks' js'] have "k = j \<and> dots ks' = dots js'" by (simp add: dotted_path_dots)
  with c assms dots_inj [of ks' js'] show ?thesis by simp
qed

text \<open>The flattened configuration answers for a dotted path what the tree has at its end.\<close>

lemma flatten_last: "map_of (foldl (\<lambda>flat (k, v). dset flat k v) d items) k =
    (case map_of (rev items) k of None \<Rightarrow> map_of d k | Some v \<Rightarrow> Some v)"
  by (induction items arbitrary: d) (auto split: option.split simp: map_add_def)

lemma flatten_config_leaf:
  assumes "plain_config d"
  shows "map_of (flatten_config d) p = Some v \<longleftrightarrow> (\<exists>ks. leaf_at d ks = Some v \<and> p = dotted_path [] ks)"
proof -
  have one: "u = w" if "(p, u) \<in> set (flat_items [] d)" "(p, w) \<in> set (flat_items [] d)" for u w
  proof -
    from that obtain ks js where l: "leaf_at d ks = Some u" "p = dotted_path [] ks" "leaf_at d js = Some w" "p = dotted_path [] js"
      by (auto simp: flat_items_leaves [OF assms])
    with dotted_path_inj [of ks js] leaf_at_plain [OF assms] have "ks = js" by metis
    with l show ?thesis by simp
  qed
  have "map_of (rev (flat_items [] d)) p = Some v \<longleftrightarrow> (p, v) \<in> set (flat_items [] d)"
  proof
    assume "(p, v) \<in> set (flat_items [] d)"
    moreover from this obtain w where w: "map_of (rev (flat_items [] d)) p = Some w"
      by (metis map_of_eq_None_iff not_None_eq set_rev image_eqI fst_conv)
    moreover from w have "(p, w) \<in> set (flat_items [] d)" by (auto dest: map_of_SomeD)
    ultimately show "map_of (rev (flat_items [] d)) p = Some v" using one by blast
  qed (auto dest: map_of_SomeD)
  moreover have "map_of (flatten_config d) p = map_of (rev (flat_items [] d)) p"
    by (simp add: flatten_config_def flatten_last split: option.split)
  ultimately show ?thesis by (simp add: flat_items_leaves [OF assms])
qed

lemma flatten_config_at:
  assumes "plain_config d" and "ks \<noteq> [] \<and> list_all plain_key ks"
  shows "map_of (flatten_config d) (dotted_path [] ks) = leaf_at d ks"
proof (cases "leaf_at d ks")
  case (Some v)
  with flatten_config_leaf [OF assms(1)] show ?thesis by fastforce
next
  case None
  show ?thesis
  proof (rule ccontr)
    assume "map_of (flatten_config d) (dotted_path [] ks) \<noteq> leaf_at d ks"
    then obtain v where "map_of (flatten_config d) (dotted_path [] ks) = Some v" using None by auto
    then obtain js where js: "leaf_at d js = Some v" "dotted_path [] ks = dotted_path [] js"
      by (auto simp: flatten_config_leaf [OF assms(1)])
    with dotted_path_inj [OF assms(2), of js] leaf_at_plain [OF assms(1)] have "ks = js" by metis
    with js None show False by simp
  qed
qed

lemma violations_Nil:
  "treatment_key_violations a b = [] \<longleftrightarrow>
   (\<forall>k. leaf_differs (map_of (flatten_config a) k) (map_of (flatten_config b) k) \<longleftrightarrow> k = FROZEN_TREATMENT_KEY)"
proof -
  have outside: "k \<in> fst ` set (flatten_config a) \<union> fst ` set (flatten_config b)"
    if "leaf_differs (map_of (flatten_config a) k) (map_of (flatten_config b) k)" for k
  proof (rule ccontr)
    assume "\<not> ?thesis"
    then have "map_of (flatten_config a) k = None" "map_of (flatten_config b) k = None" by (auto simp: map_of_eq_None_iff)
    with that show False by (simp add: leaf_differs_def)
  qed
  then show ?thesis
    by (auto simp: treatment_key_violations_def Let_def filter_empty_conv)
qed

definition TREATMENT_PATH :: "string list" where
  "TREATMENT_PATH = [''ranking'', ''panel_scoring'', ''buy_floor_std_mult'']"

text \<open>C12: The treatment is isolated exactly: for configurations whose keys have no dots, the check finds no
  violation if and only if the two trees have the same value, or none, at the end of every path of functional
  keys except the treatment's, and differ there. Keys that are annotations are not functional.\<close>

theorem treatment_isolated_iff:
  assumes "plain_config a" and "plain_config b"
  shows "treatment_key_violations a b = [] \<longleftrightarrow>
    (\<forall>ks. leaf_differs (leaf_at a ks) (leaf_at b ks) \<longleftrightarrow> ks = TREATMENT_PATH)"
proof -
  let ?differ = "\<lambda>p. leaf_differs (map_of (flatten_config a) p) (map_of (flatten_config b) p)"
  have treatment: "FROZEN_TREATMENT_KEY = dotted_path [] TREATMENT_PATH" "TREATMENT_PATH \<noteq> [] \<and> list_all plain_key TREATMENT_PATH"
    by (simp_all add: FROZEN_TREATMENT_KEY_def TREATMENT_PATH_def dotted_path_def dotted_def plain_key_def)
  have good: "ks \<noteq> [] \<and> list_all plain_key ks" if "leaf_differs (leaf_at a ks) (leaf_at b ks)" for ks
    using that leaf_at_plain [OF assms(1), of ks] leaf_at_plain [OF assms(2), of ks]
    by (cases "leaf_at a ks"; cases "leaf_at b ks") (auto simp: leaf_differs_def)
  have at: "?differ (dotted_path [] ks) \<longleftrightarrow> leaf_differs (leaf_at a ks) (leaf_at b ks)"
    if "ks \<noteq> [] \<and> list_all plain_key ks" for ks
    using flatten_config_at assms that by simp
  have path: "\<exists>ks. (ks \<noteq> [] \<and> list_all plain_key ks) \<and> p = dotted_path [] ks" if "?differ p" for p
  proof -
    from that consider v where "map_of (flatten_config a) p = Some v" | v where "map_of (flatten_config b) p = Some v"
      by (cases "map_of (flatten_config a) p"; cases "map_of (flatten_config b) p") (auto simp: leaf_differs_def)
    then show ?thesis using flatten_config_leaf assms leaf_at_plain by metis
  qed
  show ?thesis unfolding violations_Nil treatment(1)
  proof
    assume r: "\<forall>p. ?differ p \<longleftrightarrow> p = dotted_path [] TREATMENT_PATH"
    show "\<forall>ks. leaf_differs (leaf_at a ks) (leaf_at b ks) \<longleftrightarrow> ks = TREATMENT_PATH"
    proof
      fix ks
      show "leaf_differs (leaf_at a ks) (leaf_at b ks) \<longleftrightarrow> ks = TREATMENT_PATH"
        using r good at treatment(2) dotted_path_inj by metis
    qed
  next
    assume r: "\<forall>ks. leaf_differs (leaf_at a ks) (leaf_at b ks) \<longleftrightarrow> ks = TREATMENT_PATH"
    show "\<forall>p. ?differ p \<longleftrightarrow> p = dotted_path [] TREATMENT_PATH"
    proof
      fix p
      show "?differ p \<longleftrightarrow> p = dotted_path [] TREATMENT_PATH" using r path at treatment(2) by metis
    qed
  qed
qed

section \<open>At concrete inputs\<close>

definition demo_arm_config :: "pyfloat \<Rightarrow> string \<Rightarrow> json dict" where
  "demo_arm_config floor_mult note =
     [(''_arm'', JStr note), (''ranking'', JObj [(''panel_scoring'', JObj [(''artifact_path'', JStr ''m.json''),
        (''buy_floor_std_mult'', JFloat floor_mult), (''buy_floor_reason'', JStr note)])])]"

lemma treatment_isolated_iff_witness:
  "\<forall>ks. leaf_differs (leaf_at (demo_arm_config (Num (1 / 2)) ''a'') ks) (leaf_at (demo_arm_config (Num 1) ''b'') ks) \<longleftrightarrow>
     ks = TREATMENT_PATH"
proof -
  have "plain_config (demo_arm_config m n)" for m n
    by (simp add: demo_arm_config_def plain_key_def)
  moreover have "treatment_key_violations (demo_arm_config (Num (1 / 2)) ''a'') (demo_arm_config (Num 1) ''b'') = []"
    by code_simp
  ultimately show ?thesis using treatment_isolated_iff by blast
qed

text \<open>An empty section is not seen, and a key with a dot stands for a path.\<close>

lemma empty_section_unseen:
  "flatten_config ((''overrides'', JObj []) # c) = flatten_config c"
  by (simp add: flatten_config_def is_annotation_def ends_with_def dotted_def)

lemma dotted_key_unseen: "flatten_config [(''a'', JObj [(''b'', v)])] = flatten_config [(''a.b'', v)]" if "\<nexists>d. v = JObj d"
  using that by (cases v) (simp_all add: flatten_config_def is_annotation_def ends_with_def dotted_def)

end
