(* ===== verification/ShadowPair.thy ===== *)
theory ShadowPair
  imports RunManifest TreatmentKey
begin

text \<open>
  \<open>shadow_ab_runner.py\<close>, part 1: the checks and documents of a pair of shadow arms. A file is what a reader finds
  in it and the hash of its bytes; a path is its text. SHA-256, the fingerprint of an artifact, path
  resolution, git and the clock are arguments. The order of the keys of a written dictionary is not kept.
\<close>

section \<open>Files\<close>

type_synonym files = "string \<Rightarrow> sidecar \<times> string"

text \<open>What is relied on of the host.\<close>

record ab_host =
  ab_disk :: disk
  ab_is_dir :: "string list \<Rightarrow> bool"
  ab_fingerprint :: fingerprint
  ab_sha :: "json \<Rightarrow> string"
  ab_probe :: "string \<Rightarrow> checkout"
  ab_commit :: "run_error + string"
  ab_now :: string

definition read_value :: "files \<Rightarrow> string \<Rightarrow> run_error + json" where
  "read_value fs p =
     (case fst (fs p) of
        Missing \<Rightarrow> Inl RunOsError
      | Unreadable \<Rightarrow> Inl RunOsError
      | NotUtf8 \<Rightarrow> Inl (RunRaised ValueError)
      | NotJson \<Rightarrow> Inl (RunRaised ValueError)
      | Holds v \<Rightarrow> Inr v)"

definition bytes_sha :: "files \<Rightarrow> string \<Rightarrow> run_error + string" where
  "bytes_sha fs p = (if fst (fs p) \<in> {Missing, Unreadable} then Inl RunOsError else Inr (snd (fs p)))"

text \<open>\<open>payload.get\<close> on what was read.\<close>

definition receiver :: "json \<Rightarrow> run_error + json dict" where
  "receiver v = (case as_mapping v of Inl x \<Rightarrow> Inl (RunRaised x) | Inr d \<Rightarrow> Inr d)"

section \<open>Validation\<close>

definition FROZEN_TAG_A :: string where "FROZEN_TAG_A = ''alpaca_shadow_a''"
definition FROZEN_TAG_B :: string where "FROZEN_TAG_B = ''alpaca_shadow_b''"
definition LIVE_NTFY_TOPIC :: string where "LIVE_NTFY_TOPIC = ''renquant''"

definition validate_tags :: "string \<Rightarrow> string \<Rightarrow> run_error + unit" where
  "validate_tags tag_a tag_b =
     (if tag_a = FROZEN_TAG_A \<and> tag_b = FROZEN_TAG_B then Inr () else Inl (RunRaised ValueError))"

definition validate_ntfy_topic :: "string option \<Rightarrow> run_error + unit" where
  "validate_ntfy_topic topic =
     (case topic of
        None \<Rightarrow> Inr ()
      | Some t \<Rightarrow> if py_lower (py_strip t) = LIVE_NTFY_TOPIC then Inl (RunRaised ValueError) else Inr ())"

text \<open>The root is the repository or lies in it.\<close>

definition validate_output_root :: "ab_host \<Rightarrow> string \<Rightarrow> string \<Rightarrow> run_error + unit" where
  "validate_output_root h output_root repo_root =
     (let out = dk_resolve (ab_disk h) output_root; repo = dk_resolve (ab_disk h) repo_root in
      if take (length repo) out = repo then Inl (RunRaised ValueError) else Inr ())"

definition default_experiment_strategy_dir :: "ab_host \<Rightarrow> string \<Rightarrow> run_error + string" where
  "default_experiment_strategy_dir h github =
     (let dir = join_path (join_path github ''renquant-strategy-104'') ''configs'' in
      if ab_is_dir h (dk_resolve (ab_disk h) dir) then Inr dir else Inl (ContractViolated NoPinnedStrategy))"

section \<open>The arms\<close>

record arm_spec =
  arm_label :: string
  arm_tag :: string
  arm_config :: string

record arm_fingerprints =
  fp_config :: string
  fp_model :: string
  fp_calibrator :: "string option"
  fp_data :: string

record ab_anchors =
  aa_strategy_dir :: string
  aa_repo_root :: string
  aa_store :: "string option"

definition artifact_sha :: "ab_host \<Rightarrow> ab_anchors \<Rightarrow> json \<Rightarrow> run_error + string" where
  "artifact_sha h an ref =
     (case ref of
        JStr r \<Rightarrow>
          (case resolve_artifact (ab_disk h) r (aa_strategy_dir an) (aa_repo_root an) (aa_store an) of
             None \<Rightarrow> Inl RunOsError
           | Some (p, source) \<Rightarrow> (case ab_fingerprint h p of Inl x \<Rightarrow> Inl (RunRaised x) | Inr sha \<Rightarrow> Inr sha))
      | _ \<Rightarrow> Inl (RunRaised TypeError))"

definition config_refs :: "json \<Rightarrow> run_error + string \<times> json option" where
  "config_refs v =
     (case receiver v of Inl x \<Rightarrow> Inl x | Inr config \<Rightarrow>
      case panel_artifact_refs config of
        Inl ValueError \<Rightarrow> Inl (ContractViolated NoModelDeclared)
      | Inl x \<Rightarrow> Inl (RunRaised x)
      | Inr refs \<Rightarrow> Inr refs)"

definition calibrator_sha :: "ab_host \<Rightarrow> ab_anchors \<Rightarrow> json option \<Rightarrow> run_error + string option" where
  "calibrator_sha h an ref =
     (case ref of None \<Rightarrow> Inr None | Some r \<Rightarrow> map_sum id Some (artifact_sha h an r))"

definition resolve_arm_fingerprints ::
    "ab_host \<Rightarrow> files \<Rightarrow> ab_anchors \<Rightarrow> string \<Rightarrow> string \<Rightarrow> run_error + arm_fingerprints" where
  "resolve_arm_fingerprints h fs an config_path data_manifest =
     (case read_value fs config_path of Inl x \<Rightarrow> Inl x | Inr v \<Rightarrow>
      case config_refs v of Inl x \<Rightarrow> Inl x | Inr (model_ref, calibrator_ref) \<Rightarrow>
      case artifact_sha h an (JStr model_ref) of Inl x \<Rightarrow> Inl x | Inr model \<Rightarrow>
      case calibrator_sha h an calibrator_ref of Inl x \<Rightarrow> Inl x | Inr calibrator \<Rightarrow>
      case bytes_sha fs data_manifest of Inl x \<Rightarrow> Inl x | Inr data \<Rightarrow>
      Inr \<lparr>fp_config = snd (fs config_path), fp_model = model, fp_calibrator = calibrator, fp_data = data\<rparr>)"

datatype world_difference = ModelDiffers | CalibratorDiffers | DataDiffers

definition same_world_violations :: "arm_fingerprints \<Rightarrow> arm_fingerprints \<Rightarrow> world_difference list" where
  "same_world_violations a b =
     (if fp_model a \<noteq> fp_model b then [ModelDiffers] else []) @
     (if fp_calibrator a \<noteq> fp_calibrator b then [CalibratorDiffers] else []) @
     (if fp_data a \<noteq> fp_data b then [DataDiffers] else [])"

section \<open>Pins\<close>

text \<open>The commits by name; of two entries with one name the later counts.\<close>

definition note_pin :: "json dict \<Rightarrow> json \<Rightarrow> py_error + json dict" where
  "note_pin by_name entry =
     (case entry of
        JObj d \<Rightarrow>
          (case dget d ''name'' JNull of
             JStr name \<Rightarrow> Inr (dset by_name name (dget d ''commit'' JNull))
           | JList xs \<Rightarrow> Inl TypeError
           | JObj e \<Rightarrow> Inl TypeError
           | _ \<Rightarrow> Inr by_name)
      | _ \<Rightarrow> Inr by_name)"

fun note_pins :: "json dict \<Rightarrow> json list \<Rightarrow> py_error + json dict" where
  "note_pins by_name [] = Inr by_name"
| "note_pins by_name (e # es) = (case note_pin by_name e of Inl x \<Rightarrow> Inl x | Inr d \<Rightarrow> note_pins d es)"

definition pins_of :: "json dict \<Rightarrow> run_error + string dict" where
  "pins_of by_name =
     (case find (\<lambda>n. \<not> truthy (dget by_name n JNull)) EXPERIMENT_PIN_REPOS of
        Some n \<Rightarrow> Inl (ContractViolated (PinNotFound n))
      | None \<Rightarrow> Inr (map (\<lambda>n. (n, py_str (dget by_name n JNull))) EXPERIMENT_PIN_REPOS))"

definition resolve_experiment_pins :: "files \<Rightarrow> string \<Rightarrow> run_error + string dict" where
  "resolve_experiment_pins fs lock_path =
     (case read_value fs lock_path of Inl x \<Rightarrow> Inl x | Inr v \<Rightarrow>
      case receiver v of Inl x \<Rightarrow> Inl x | Inr lock \<Rightarrow>
      case iter_json (py_or (dget lock ''subrepos'' JNull) (JList [])) of Inl x \<Rightarrow> Inl (RunRaised x) | Inr entries \<Rightarrow>
      case note_pins [] entries of Inl x \<Rightarrow> Inl (RunRaised x) | Inr by_name \<Rightarrow> pins_of by_name)"

section \<open>The decision snapshot\<close>

definition canonical_json_sha256 :: "ab_host \<Rightarrow> json \<Rightarrow> string" where
  "canonical_json_sha256 h v = ''sha256:'' @ ab_sha h v"

definition STARTING_STATE_CONVENTION :: string where
  "STARTING_STATE_CONVENTION = ''each_arm_reads_its_own_prior_eod_close_not_shared''"

record market_identity =
  mi_as_of :: string
  mi_universe :: "string list"
  mi_actions :: string

definition market_snapshot_identity :: "ab_host \<Rightarrow> json dict \<Rightarrow> py_error + market_identity" where
  "market_snapshot_identity h market =
     (if \<not> truthy (dget market ''as_of'' JNull) then Inl ValueError
      else Inr \<lparr>mi_as_of = py_str (dget market ''as_of'' JNull),
        mi_universe = (case dget market ''prices'' JNull of JObj prices \<Rightarrow> sort (map fst prices) | _ \<Rightarrow> []),
        mi_actions = (case dget market ''corporate_actions'' JNull of JNull \<Rightarrow> ''none_declared'' | v \<Rightarrow> canonical_json_sha256 h v)\<rparr>)"

definition json_text :: "string option \<Rightarrow> json" where
  "json_text s = (case s of None \<Rightarrow> JNull | Some t \<Rightarrow> JStr t)"

definition compute_decision_snapshot_digest ::
    "ab_host \<Rightarrow> string \<Rightarrow> string \<Rightarrow> market_identity \<Rightarrow> string \<Rightarrow> string \<Rightarrow> string option \<Rightarrow> string" where
  "compute_decision_snapshot_digest h market_sha account_sha mi session_date model calibrator =
     ab_sha h (JObj [(''digest_schema_version'', JInt 2), (''market_snapshot_sha256'', JStr market_sha),
       (''account_snapshot_sha256'', JStr account_sha), (''as_of'', JStr (mi_as_of mi)), (''session_date'', JStr session_date),
       (''universe'', JList (map JStr (sort (mi_universe mi)))), (''corporate_action_identity'', JStr (mi_actions mi)),
       (''model_content_sha256'', JStr model), (''calibrator_content_sha256'', json_text calibrator),
       (''starting_state_convention'', JStr STARTING_STATE_CONVENTION)])"

record decision_snapshot =
  ds_digest :: string
  ds_market_sha :: string
  ds_account_sha :: string
  ds_identity :: market_identity
  ds_model :: string
  ds_calibrator :: "string option"
  ds_date :: string

definition load_json_object :: "files \<Rightarrow> string \<Rightarrow> run_error + json dict" where
  "load_json_object fs p =
     (case read_value fs p of Inl x \<Rightarrow> Inl x | Inr (JObj d) \<Rightarrow> Inr d | Inr v \<Rightarrow> Inl (RunRaised ValueError))"

definition decision_snapshot_identity ::
    "ab_host \<Rightarrow> files \<Rightarrow> string \<Rightarrow> string \<Rightarrow> string \<Rightarrow> string \<Rightarrow> string option \<Rightarrow> run_error + decision_snapshot" where
  "decision_snapshot_identity h fs market_path account_path session_date model calibrator =
     (case load_json_object fs market_path of Inl x \<Rightarrow> Inl x | Inr market \<Rightarrow>
      case load_json_object fs account_path of Inl x \<Rightarrow> Inl x | Inr account \<Rightarrow>
      case market_snapshot_identity h market of Inl x \<Rightarrow> Inl (RunRaised x) | Inr mi \<Rightarrow>
      (let market_sha = canonical_json_sha256 h (JObj market); account_sha = canonical_json_sha256 h (JObj account) in
       Inr \<lparr>ds_digest = compute_decision_snapshot_digest h market_sha account_sha mi session_date model calibrator,
         ds_market_sha = market_sha, ds_account_sha = account_sha, ds_identity = mi, ds_model = model,
         ds_calibrator = calibrator, ds_date = session_date\<rparr>))"

datatype snapshot_problem = SealedUnreadable run_error | SealedMarketMutated | SealedAccountMutated | DigestMismatch string
  | SourceUnreadable string run_error | SourceMutated string

definition source_problems :: "ab_host \<Rightarrow> files \<Rightarrow> string \<Rightarrow> string \<Rightarrow> string \<Rightarrow> snapshot_problem list" where
  "source_problems h fs name source sha =
     (case read_value fs source of
        Inl x \<Rightarrow> [SourceUnreadable name x]
      | Inr v \<Rightarrow> if canonical_json_sha256 h v \<noteq> sha then [SourceMutated name] else [])"

record snapshot_paths =
  sp_market :: string
  sp_account :: string
  sp_market_source :: string
  sp_account_source :: string

definition verify_decision_snapshot :: "ab_host \<Rightarrow> files \<Rightarrow> snapshot_paths \<Rightarrow> decision_snapshot \<Rightarrow> snapshot_problem list" where
  "verify_decision_snapshot h fs sp ds =
     (case decision_snapshot_identity h fs (sp_market sp) (sp_account sp) (ds_date ds) (ds_model ds) (ds_calibrator ds) of
        Inl x \<Rightarrow> [SealedUnreadable x]
      | Inr now \<Rightarrow>
          (if ds_market_sha now \<noteq> ds_market_sha ds then [SealedMarketMutated] else []) @
          (if ds_account_sha now \<noteq> ds_account_sha ds then [SealedAccountMutated] else []) @
          (if ds_digest now \<noteq> ds_digest ds then [DigestMismatch (ds_digest now)] else []) @
          source_problems h fs ''market'' (sp_market_source sp) (ds_market_sha ds) @
          source_problems h fs ''account'' (sp_account_source sp) (ds_account_sha ds))"

section \<open>Plans\<close>

definition opt_flag :: "string \<Rightarrow> string option \<Rightarrow> string list" where
  "opt_flag option v = (case v of None \<Rightarrow> [] | Some s \<Rightarrow> [option, s])"

record plan_inputs =
  pi_market :: string
  pi_account :: string
  pi_strategy_dir :: string
  pi_date :: string
  pi_digest :: string
  pi_model :: string
  pi_calibrator :: "string option"
  pi_repo_root :: string
  pi_ohlcv :: "string option"
  pi_revision :: "string option"
  pi_store :: "string option"

definition build_arm_plan :: "plan_inputs \<Rightarrow> string \<Rightarrow> string \<Rightarrow> string \<Rightarrow> string list list" where
  "build_arm_plan i tag config_path arm_dir =
     (let f = join_path arm_dir in
      [[''renquant-orchestrator'', ''native-live-context'', ''--strategy-config-json'', config_path,
        ''--market-snapshot-json'', pi_market i, ''--account-snapshot-json'', pi_account i,
        ''--output-json'', f ''native_context.json'', ''--decision-snapshot-digest'', pi_digest i,
        ''--model-content-sha256'', pi_model i, ''--session-date'', pi_date i, ''--strategy-dir'', pi_strategy_dir i]
        @ opt_flag ''--calibrator-content-sha256'' (pi_calibrator i) @ [''--repo-root'', pi_repo_root i]
        @ opt_flag ''--artifact-store'' (pi_store i),
       [''renquant-orchestrator'', ''native-live-inference'', ''--context-json'', f ''native_context.json'',
        ''--output-json'', f ''native_inference.json'', ''--hydrate-pipeline-context'', ''--session-date'', pi_date i,
        ''--broker-name'', tag, ''--strategy-dir'', pi_strategy_dir i]
        @ [''--repo-root'', pi_repo_root i] @ opt_flag ''--ohlcv-dir'' (pi_ohlcv i)
        @ opt_flag ''--data-revision'' (pi_revision i) @ opt_flag ''--artifact-store'' (pi_store i)
        @ [''--log-containment-dir'', arm_dir],
       [''renquant-orchestrator'', ''native-live-run'', ''--inference-json'', f ''native_inference.json'',
        ''--execution-output-json'', f ''native_execution.json'', ''--output-json'', f ''native_bundle.json'',
        ''--broker-name'', tag, ''--run-id'', ''shadow-ab-'' @ pi_date i @ ''-'' @ tag,
        ''--strategy-dir'', pi_strategy_dir i, ''--runs-db'', f (''runs.'' @ tag @ ''.db''),
        ''--live-state-broker-name'', tag,
        ''--live-state-contract-output-json'', f ''live_state_contract.json'']])"

text \<open>\<open>str.replace\<close> of a text that is not empty.\<close>

function replace_all :: "string \<Rightarrow> string \<Rightarrow> string \<Rightarrow> string" where
  "replace_all old new s =
     (if old = [] \<or> s = [] then s
      else if take (length old) s = old then new @ replace_all old new (drop (length old) s)
      else hd s # replace_all old new (tl s))"
  by auto

termination
  by (relation "measure (\<lambda>(old, new, s). length s)") auto

declare replace_all.simps [simp del]

definition canonical_plan :: "string list list \<Rightarrow> string \<Rightarrow> string \<Rightarrow> string \<Rightarrow> string list list" where
  "canonical_plan plan tag config_path arm_dir =
     map (map (\<lambda>token. replace_all tag ''<TAG>'' (replace_all config_path ''<CONFIG>''
       (replace_all arm_dir ''<ARM_DIR>'' token)))) plan"

text \<open>Two dictionaries are equal whatever the order of their keys.\<close>

definition same_dict :: "string dict \<Rightarrow> string dict \<Rightarrow> bool" where
  "same_dict d e \<longleftrightarrow> (\<forall>k \<in> fst ` set d \<union> fst ` set e. map_of d k = map_of e k)"

definition assert_preflight_symmetry ::
    "string list list \<Rightarrow> string list list \<Rightarrow> arm_spec \<Rightarrow> arm_spec \<Rightarrow> string \<Rightarrow> string \<Rightarrow> string dict \<Rightarrow> string dict \<Rightarrow> run_error + unit" where
  "assert_preflight_symmetry plan_a plan_b arm_a arm_b dir_a dir_b env_a env_b =
     (if \<not> same_dict env_a env_b then Inl (ContractViolated PlansDiffer)
      else if canonical_plan plan_a (arm_tag arm_a) (arm_config arm_a) dir_a \<noteq>
              canonical_plan plan_b (arm_tag arm_b) (arm_config arm_b) dir_b then Inl (ContractViolated PlansDiffer)
      else Inr ())"

section \<open>The freeze\<close>

definition text_map :: "string dict \<Rightarrow> json" where
  "text_map d = JObj (map (\<lambda>(k, s). (k, JStr s)) d)"

definition freeze_payload :: "ab_host \<Rightarrow> arm_spec \<Rightarrow> arm_spec \<Rightarrow> arm_fingerprints \<Rightarrow> arm_fingerprints \<Rightarrow> string dict \<Rightarrow> string \<Rightarrow> json dict" where
  "freeze_payload h arm_a arm_b fp_a fp_b pins commit =
     [(''schema_version'', JInt 1), (''protocol'', JStr ''D6-2a''), (''frozen_at'', JStr (ab_now h)),
      (''tag_a'', JStr (arm_tag arm_a)), (''tag_b'', JStr (arm_tag arm_b)),
      (''config_sha256_a'', JStr (fp_config fp_a)), (''config_sha256_b'', JStr (fp_config fp_b)),
      (''model_content_sha256'', JStr (fp_model fp_a)), (''calibrator_content_sha256'', json_text (fp_calibrator fp_a)),
      (''data_manifest_sha256'', JStr (fp_data fp_a)), (''subrepo_pins'', text_map pins), (''orchestrator_commit'', JStr commit)]"

definition config_drift :: "json dict \<Rightarrow> arm_fingerprints \<Rightarrow> arm_fingerprints \<Rightarrow> string list" where
  "config_drift freeze fp_a fp_b =
     (if dget freeze ''config_sha256_a'' JNull \<noteq> JStr (fp_config fp_a) then [''a''] else []) @
     (if dget freeze ''config_sha256_b'' JNull \<noteq> JStr (fp_config fp_b) then [''b''] else [])"

definition same_pins :: "json \<Rightarrow> string dict \<Rightarrow> bool" where
  "same_pins v pins \<longleftrightarrow>
     (case v of
        JObj d \<Rightarrow> (\<forall>k \<in> fst ` set d \<union> fst ` set pins. map_of d k = map_option JStr (map_of pins k))
      | _ \<Rightarrow> False)"

definition frozen_world_mismatches :: "json dict \<Rightarrow> arm_fingerprints \<Rightarrow> string dict \<Rightarrow> string \<Rightarrow> string list" where
  "frozen_world_mismatches freeze fp pins commit =
     filter (\<lambda>k. if k = ''subrepo_pins'' then \<not> same_pins (dget freeze k JNull) pins
         else dget freeze k JNull \<noteq>
           (if k = ''model_content_sha256'' then JStr (fp_model fp)
            else if k = ''calibrator_content_sha256'' then json_text (fp_calibrator fp)
            else if k = ''data_manifest_sha256'' then JStr (fp_data fp)
            else JStr commit))
       [''model_content_sha256'', ''calibrator_content_sha256'', ''data_manifest_sha256'', ''subrepo_pins'', ''orchestrator_commit'']"

text \<open>What is frozen matches.\<close>

lemma text_map_lookup: "map_of (map (\<lambda>(k, s). (k, JStr s)) d) k = map_option JStr (map_of d k)"
  by (induction d) auto

lemma freeze_matches_itself:
  "config_drift (freeze_payload h arm_a arm_b fp_a fp_b pins commit) fp_a fp_b = []"
  "frozen_world_mismatches (freeze_payload h arm_a arm_b fp_a fp_b pins commit) fp_a pins commit = []"
  by (simp_all add: config_drift_def freeze_payload_def frozen_world_mismatches_def same_pins_def text_map_def dget_def
      text_map_lookup)

end
