(* ===== verification/ShadowSession.thy ===== *)
theory ShadowSession
  imports StepTriples ShadowPair
begin

text \<open>
  \<open>shadow_ab_runner.py\<close>, part 2: one paired session of two shadow arms. A run is a step on the files, the
  commands that ran and the bundle; a \<open>return\<close> and an exception are its left outcomes. A command is an
  argument that may change any file, and so is what happens to the files at the moments between the
  session's own actions. The telemetry sidecar, step durations and output tails are left out.
\<close>

section \<open>State\<close>

datatype ab_stage = PreArmA | PreArmB | PostArms

text \<open>The moments at which others may have changed the files.\<close>

datatype ab_moment = Digesting | Sealing | Verifying ab_stage | Finishing

datatype ab_status = Valid | Invalidated | Voided | PlanOnly

datatype ab_reason = PrecheckFailure run_error | SameWorldViolation world_difference
  | TreatmentViolation treatment_violation | ConfigHashDrift string | FrozenMismatch string | SharedInputFailure
  | SealFailure run_error | TornWorld | DigestConflict json string | PreflightAsymmetry run_error
  | PairedWorldViolation ab_stage snapshot_problem | ArmFailure "string list"

datatype ab_cause = PrecheckFailed | WorldDiffers | TreatmentNotIsolated | TreatmentDrifted | FrozenDiffers
  | SharedInputsFailed | NotDigested | OtherWorld | NotSymmetric | NotSealed | TornInputs | SnapshotFailed ab_stage
  | ArmsFailed "string list"

definition EXIT_VALID :: nat where "EXIT_VALID = 0"
definition EXIT_PRECHECK_ABORT :: nat where "EXIT_PRECHECK_ABORT = 3"
definition EXIT_SESSION_INVALIDATED :: nat where "EXIT_SESSION_INVALIDATED = 4"
definition EXIT_VOID :: nat where "EXIT_VOID = 5"

record arm_entry =
  ae_arm :: arm_spec
  ae_fp :: "arm_fingerprints option"
  ae_pins :: "string dict option"
  ae_commit :: "string option"
  ae_digest :: "string option"
  ae_completed :: bool
  ae_invalidated :: bool
  ae_causes :: "ab_cause list"
  ae_steps :: "(string list \<times> int) list"
  ae_planned :: "string list list"

definition arm_entry_of :: "arm_spec \<Rightarrow> arm_fingerprints option \<Rightarrow> string dict option \<Rightarrow> string option \<Rightarrow> arm_entry" where
  "arm_entry_of arm fp pins commit = \<lparr>ae_arm = arm, ae_fp = fp, ae_pins = pins, ae_commit = commit, ae_digest = None,
     ae_completed = False, ae_invalidated = True, ae_causes = [], ae_steps = [], ae_planned = []\<rparr>"

record ab_bundle =
  bd_date :: string
  bd_status :: ab_status
  bd_exit :: nat
  bd_void :: bool
  bd_reasons :: "ab_reason list"
  bd_freeze_created :: bool
  bd_shared_steps :: "(string list \<times> int) list"
  bd_a :: arm_entry
  bd_b :: arm_entry
  bd_repos :: "(string \<times> string) list option"
  bd_snapshot :: "decision_snapshot option"
  bd_checks :: "(ab_stage \<times> snapshot_problem list) list"
  bd_warnings :: "string list"
  bd_counters :: "(int \<times> int) option"

record ab_state =
  ab_files :: files
  ab_ran :: "string list list"
  ab_notes :: "(string \<times> ab_status) list"
  ab_bundle :: ab_bundle

text \<open>The reason a run stops: a \<open>return _finish(...)\<close>, the return of a plan, or an exception that leaves.\<close>

datatype ab_stop = Finish ab_status nat | Escapes run_error

type_synonym 'a ab_step = "(ab_state, ab_stop, 'a) step"

text \<open>The host, the subprocess runner, the other writers, and the hash of a written file's text.\<close>

record ab_env =
  en_host :: ab_host
  en_run :: "string list \<Rightarrow> files \<Rightarrow> files \<times> (run_error + int)"
  en_meanwhile :: "ab_moment \<Rightarrow> files \<Rightarrow> files"
  en_can_write :: "string \<Rightarrow> bool"
  en_text_sha :: "json \<Rightarrow> string"
  en_quarantine :: "files \<Rightarrow> run_error + string list"

record ab_inputs =
  in_config_a :: string
  in_config_b :: string
  in_tag_a :: string
  in_tag_b :: string
  in_data_manifest :: string
  in_output_root :: string
  in_market :: string
  in_account :: "string option"
  in_date :: string
  in_repo_root :: string
  in_strategy_dir :: "string option"
  in_github_root :: string
  in_ohlcv :: "string option"
  in_run_manifest :: "string option"
  in_broker :: string
  in_topic :: "string option"
  in_plan_only :: bool
  in_env :: "string dict"

section \<open>Elementary steps\<close>

definition on_bundle :: "(ab_bundle \<Rightarrow> ab_bundle) \<Rightarrow> unit ab_step" where
  "on_bundle f = modify (\<lambda>s. s\<lparr>ab_bundle := f (ab_bundle s)\<rparr>)"

definition look_files :: "(files \<Rightarrow> 'a) \<Rightarrow> 'a ab_step" where
  "look_files f s = (s, Inr (f (ab_files s)))"

definition or_escape :: "run_error + 'a \<Rightarrow> 'a ab_step" where
  "or_escape r = lift (map_sum Escapes id r)"

definition meanwhile :: "ab_env \<Rightarrow> ab_moment \<Rightarrow> unit ab_step" where
  "meanwhile e m = modify (\<lambda>s. s\<lparr>ab_files := en_meanwhile e m (ab_files s)\<rparr>)"

definition write_file :: "ab_env \<Rightarrow> string \<Rightarrow> json \<Rightarrow> ab_state \<Rightarrow> ab_state \<times> (run_error + unit)" where
  "write_file e p v s =
     (if en_can_write e p then (s\<lparr>ab_files := (ab_files s)(p := (Holds v, en_text_sha e v))\<rparr>, Inr ()) else (s, Inl RunOsError))"

definition tried :: "(ab_state \<Rightarrow> ab_state \<times> (run_error + 'a)) \<Rightarrow> (run_error + 'a) ab_step" where
  "tried m s = (case m s of (t, r) \<Rightarrow> (t, Inr r))"

definition write_json_atomic :: "ab_env \<Rightarrow> string \<Rightarrow> json \<Rightarrow> unit ab_step" where
  "write_json_atomic e p v = seq (tried (write_file e p v)) or_escape"

text \<open>Reasons on the bundle, one cause on both arms.\<close>

definition blame :: "ab_reason list \<Rightarrow> ab_cause \<Rightarrow> ab_bundle \<Rightarrow> ab_bundle" where
  "blame reasons cause b = b\<lparr>bd_reasons := bd_reasons b @ reasons, bd_a := (bd_a b)\<lparr>ae_causes := ae_causes (bd_a b) @ [cause]\<rparr>,
     bd_b := (bd_b b)\<lparr>ae_causes := ae_causes (bd_b b) @ [cause]\<rparr>\<rparr>"

definition stop_pair :: "ab_reason list \<Rightarrow> ab_cause \<Rightarrow> nat \<Rightarrow> ab_status \<Rightarrow> 'a ab_step" where
  "stop_pair reasons cause code status = seq (on_bundle (blame reasons cause)) (\<lambda>u. fail (Finish status code))"

fun run_steps :: "ab_env \<Rightarrow> string list list \<Rightarrow> ((string list \<times> int) list \<times> bool) ab_step" where
  "run_steps e [] = give ([], True)"
| "run_steps e (command # plan) =
     seq (\<lambda>s. case en_run e command (ab_files s) of
            (fs, r) \<Rightarrow> (s\<lparr>ab_files := fs, ab_ran := ab_ran s @ [command]\<rparr>, map_sum Escapes id r))
       (\<lambda>code. if code \<noteq> 0 then give ([(command, code)], False)
         else seq (run_steps e plan) (\<lambda>(steps, ok). give ((command, code) # steps, ok)))"

section \<open>Paths and documents\<close>

definition freeze_path :: "ab_inputs \<Rightarrow> string" where
  "freeze_path i = join_path (in_output_root i) ''shadow_ab_freeze.json''"

definition counters_path :: "string \<Rightarrow> string" where
  "counters_path output_root = join_path output_root ''shadow_ab_counters.json''"

definition session_dir :: "ab_inputs \<Rightarrow> string" where
  "session_dir i = join_path (in_output_root i) (in_date i)"

definition bundle_path :: "ab_inputs \<Rightarrow> string" where
  "bundle_path i = join_path (session_dir i) ''shadow_ab_session_bundle.json''"

definition arm_dir :: "ab_inputs \<Rightarrow> string \<Rightarrow> string" where
  "arm_dir i tag = join_path (session_dir i) (''arm_'' @ tag)"

definition sealed_path :: "ab_inputs \<Rightarrow> string \<Rightarrow> string" where
  "sealed_path i name = join_path (join_path (session_dir i) ''sealed'') name"

definition snapshot_paths_of :: "ab_inputs \<Rightarrow> string \<Rightarrow> snapshot_paths" where
  "snapshot_paths_of i account_source = \<lparr>sp_market = sealed_path i ''market_snapshot.json'',
     sp_account = sealed_path i ''account_snapshot.json'', sp_market_source = in_market i, sp_account_source = account_source\<rparr>"

text \<open>The fields of a bundle that are read back.\<close>

definition bundle_json :: "ab_bundle \<Rightarrow> json" where
  "bundle_json b = JObj ([(''session_date'', JStr (bd_date b)), (''exit_code'', JInt (int (bd_exit b)))] @
     (case bd_snapshot b of None \<Rightarrow> [] | Some ds \<Rightarrow> [(''decision_snapshot'', JObj [(''digest'', JStr (ds_digest ds))])]))"

definition snapshot_json :: "decision_snapshot \<Rightarrow> json" where
  "snapshot_json ds = JObj [(''digest'', JStr (ds_digest ds)), (''market_snapshot_sha256'', JStr (ds_market_sha ds)),
     (''account_snapshot_sha256'', JStr (ds_account_sha ds)), (''session_date'', JStr (ds_date ds)), (''sealed'', JBool True)]"

definition read_counters :: "files \<Rightarrow> string \<Rightarrow> run_error + int \<times> int" where
  "read_counters fs p =
     (if fst (fs p) = Missing then Inr (0, 0)
      else case read_value fs p of Inl x \<Rightarrow> Inl x | Inr v \<Rightarrow>
        case receiver v of Inl x \<Rightarrow> Inl x | Inr d \<Rightarrow>
        case (py_int (dget d ''attempted_pairs'' (JInt 0)), py_int (dget d ''excluded_pairs'' (JInt 0))) of
          (Inr attempted, Inr excluded) \<Rightarrow> Inr (attempted, excluded)
        | (Inl x, _) \<Rightarrow> Inl (RunRaised x)
        | (_, Inl x) \<Rightarrow> Inl (RunRaised x))"

definition counters_json :: "int \<times> int \<Rightarrow> json" where
  "counters_json c = JObj [(''attempted_pairs'', JInt (fst c)), (''excluded_pairs'', JInt (snd c))]"

definition update_counters :: "ab_env \<Rightarrow> string \<Rightarrow> bool \<Rightarrow> (int \<times> int) ab_step" where
  "update_counters e output_root excluded =
     seq (look_files (\<lambda>fs. read_counters fs (counters_path output_root))) (\<lambda>r.
     seq (or_escape r) (\<lambda>c.
     (let c' = (fst c + 1, if excluded then snd c + 1 else snd c) in
      seq (write_json_atomic e (counters_path output_root) (counters_json c')) (\<lambda>u. give c'))))"

text \<open>\<open>_finish\<close>; a plan is returned as it is.\<close>

definition notify_arms :: "unit ab_step" where
  "notify_arms = modify (\<lambda>s. let b = ab_bundle s in
     s\<lparr>ab_notes := ab_notes s @ [(arm_tag (ae_arm (bd_a b)), bd_status b), (arm_tag (ae_arm (bd_b b)), bd_status b)]\<rparr>)"

definition finish :: "ab_env \<Rightarrow> ab_inputs \<Rightarrow> ab_status \<Rightarrow> nat \<Rightarrow> unit ab_step" where
  "finish e i status code =
     seq (on_bundle (\<lambda>b. b\<lparr>bd_status := status, bd_exit := code\<rparr>)) (\<lambda>u.
     if in_plan_only i then give ()
     else seq (meanwhile e Finishing) (\<lambda>u.
       seq (update_counters e (in_output_root i) (status \<noteq> Valid)) (\<lambda>c.
       seq (on_bundle (\<lambda>b. b\<lparr>bd_counters := Some c\<rparr>)) (\<lambda>u s.
       seq (write_json_atomic e (bundle_path i) (bundle_json (ab_bundle s))) (\<lambda>u. notify_arms) s))))"

section \<open>The session\<close>

text \<open>Before the bundle exists: the manifest, the strategy directory and the validation of the call.\<close>

definition strategy_of :: "ab_host \<Rightarrow> ab_inputs \<Rightarrow> json dict option \<Rightarrow> run_error + string" where
  "strategy_of h i manifest =
     (case in_strategy_dir i of Some (c # d) \<Rightarrow> Inr (c # d)
      | _ \<Rightarrow> (case manifest of
          None \<Rightarrow> default_experiment_strategy_dir h (in_github_root i)
        | Some m \<Rightarrow>
            (case entry_item (dget m ''repos'' JNull) ''renquant-strategy-104'' of Inl x \<Rightarrow> Inl (RunRaised x) | Inr entry \<Rightarrow>
             case entry_item entry ''path'' of
               Inl x \<Rightarrow> Inl (RunRaised x)
             | Inr (JStr p) \<Rightarrow> Inr (join_path p ''configs'')
             | Inr v \<Rightarrow> Inl (RunRaised TypeError))))"

definition open_session :: "ab_host \<Rightarrow> ab_inputs \<Rightarrow> files \<Rightarrow> run_error + json dict option \<times> string" where
  "open_session h i fs =
     (case (case in_run_manifest i of None \<Rightarrow> Inr None | Some p \<Rightarrow> map_sum id Some (load_run_manifest (fst (fs p)))) of
        Inl x \<Rightarrow> Inl x | Inr manifest \<Rightarrow>
      case strategy_of h i manifest of Inl x \<Rightarrow> Inl x | Inr strategy_dir \<Rightarrow>
      case validate_tags (in_tag_a i) (in_tag_b i) of Inl x \<Rightarrow> Inl x | Inr u \<Rightarrow>
      case validate_ntfy_topic (in_topic i) of Inl x \<Rightarrow> Inl x | Inr u \<Rightarrow>
      case validate_output_root h (in_output_root i) (in_repo_root i) of Inl x \<Rightarrow> Inl x | Inr u \<Rightarrow>
      if dk_resolve (ab_disk h) (in_config_a i) = dk_resolve (ab_disk h) (in_config_b i) then Inl (RunRaised ValueError)
      else Inr (manifest, strategy_dir))"

definition arm_a_of :: "ab_inputs \<Rightarrow> arm_spec" where
  "arm_a_of i = \<lparr>arm_label = ''a'', arm_tag = in_tag_a i, arm_config = in_config_a i\<rparr>"

definition arm_b_of :: "ab_inputs \<Rightarrow> arm_spec" where
  "arm_b_of i = \<lparr>arm_label = ''b'', arm_tag = in_tag_b i, arm_config = in_config_b i\<rparr>"

definition new_bundle :: "ab_inputs \<Rightarrow> ab_bundle" where
  "new_bundle i = \<lparr>bd_date = in_date i, bd_status = Invalidated, bd_exit = 0, bd_void = False, bd_reasons = [],
     bd_freeze_created = False, bd_shared_steps = [], bd_a = arm_entry_of (arm_a_of i) None None None,
     bd_b = arm_entry_of (arm_b_of i) None None None, bd_repos = None, bd_snapshot = None, bd_checks = [], bd_warnings = [],
     bd_counters = None\<rparr>"

record prechecked =
  pc_store :: "string option"
  pc_a :: arm_fingerprints
  pc_b :: arm_fingerprints
  pc_pins :: "string dict"
  pc_commit :: string

definition path_text :: "string list \<Rightarrow> string" where
  "path_text parts = ''/'' @ join_with ''/'' parts"

definition check_store :: "ab_host \<Rightarrow> json dict \<Rightarrow> run_error + string option" where
  "check_store h manifest =
     (if dget manifest ''artifact_store'' JNull = JNull then Inr None
      else case resolve_manifest_artifact_store (dk_resolve (ab_disk h)) manifest of
          Inl x \<Rightarrow> Inl x
        | Inr None \<Rightarrow> Inl (ContractViolated StoreNotDirectory)
        | Inr (Some store) \<Rightarrow> if ab_is_dir h store then Inr (Some (path_text store)) else Inl (ContractViolated StoreNotDirectory))"

definition session_pins :: "files \<Rightarrow> ab_inputs \<Rightarrow> (string \<times> string) list option \<Rightarrow> run_error + string dict" where
  "session_pins fs i repos =
     (case (case repos of
              None \<Rightarrow> resolve_experiment_pins fs (join_path (in_repo_root i) ''subrepos.lock.json'')
            | Some r \<Rightarrow> if \<exists>n \<in> set EXPERIMENT_PIN_REPOS. map_of r n = None then Inl (RunRaised KeyError)
                else Inr (map (\<lambda>n. (n, dget r n [])) EXPERIMENT_PIN_REPOS)) of
        Inl x \<Rightarrow> Inl x
      | Inr pins \<Rightarrow>
          (let missing = filter (\<lambda>n. dget pins n [] = []) EXPERIMENT_PIN_REPOS in
           if missing \<noteq> [] then Inl (ContractViolated (MissingPins missing)) else Inr pins))"

definition check_manifest :: "ab_host \<Rightarrow> json dict option \<Rightarrow> run_error + (string \<times> string) list option \<times> string option" where
  "check_manifest h manifest =
     (case manifest of None \<Rightarrow> Inr (None, None) | Some m \<Rightarrow>
      case verify_run_manifest (ab_probe h) m of Inl x \<Rightarrow> Inl x | Inr repos \<Rightarrow>
      map_sum id (Pair (Some repos)) (check_store h m))"

definition precheck_pair :: "ab_host \<Rightarrow> ab_inputs \<Rightarrow> files \<Rightarrow> string \<Rightarrow> (string \<times> string) list option \<times> string option \<Rightarrow> run_error + prechecked" where
  "precheck_pair h i fs strategy_dir verified =
     (let an = \<lparr>aa_strategy_dir = strategy_dir, aa_repo_root = in_repo_root i, aa_store = snd verified\<rparr> in
      case resolve_arm_fingerprints h fs an (in_config_a i) (in_data_manifest i) of Inl x \<Rightarrow> Inl x | Inr a \<Rightarrow>
      case resolve_arm_fingerprints h fs an (in_config_b i) (in_data_manifest i) of Inl x \<Rightarrow> Inl x | Inr b \<Rightarrow>
      case session_pins fs i (fst verified) of Inl x \<Rightarrow> Inl x | Inr pins \<Rightarrow>
      case ab_commit h of Inl x \<Rightarrow> Inl x | Inr commit \<Rightarrow>
      Inr \<lparr>pc_store = snd verified, pc_a = a, pc_b = b, pc_pins = pins, pc_commit = commit\<rparr>)"

text \<open>\<open>except (ShadowABContractError, OSError, ValueError, KeyError)\<close>\<close>

definition precheck_failure :: "run_error \<Rightarrow> 'a ab_step" where
  "precheck_failure x =
     (case x of
        RunRaised y \<Rightarrow> if y \<in> {ValueError, KeyError} then stop_pair [PrecheckFailure x] PrecheckFailed EXIT_PRECHECK_ABORT Invalidated
          else fail (Escapes x)
      | _ \<Rightarrow> stop_pair [PrecheckFailure x] PrecheckFailed EXIT_PRECHECK_ABORT Invalidated)"

definition stamp_arms :: "ab_inputs \<Rightarrow> prechecked \<Rightarrow> ab_bundle \<Rightarrow> ab_bundle" where
  "stamp_arms i pc b = b\<lparr>bd_a := arm_entry_of (arm_a_of i) (Some (pc_a pc)) (Some (pc_pins pc)) (Some (pc_commit pc)),
     bd_b := arm_entry_of (arm_b_of i) (Some (pc_b pc)) (Some (pc_pins pc)) (Some (pc_commit pc))\<rparr>"

definition precheck_step :: "ab_env \<Rightarrow> ab_inputs \<Rightarrow> json dict option \<Rightarrow> string \<Rightarrow> prechecked ab_step" where
  "precheck_step e i manifest strategy_dir =
     (case check_manifest (en_host e) manifest of
        Inl x \<Rightarrow> precheck_failure x
      | Inr verified \<Rightarrow>
          seq (on_bundle (\<lambda>b. b\<lparr>bd_repos := fst verified\<rparr>)) (\<lambda>u.
          seq (look_files (\<lambda>fs. precheck_pair (en_host e) i fs strategy_dir verified)) (\<lambda>r.
          case r of
            Inl x \<Rightarrow> precheck_failure x
          | Inr pc \<Rightarrow> seq (on_bundle (stamp_arms i pc)) (\<lambda>u. give pc))))"

definition same_world_step :: "prechecked \<Rightarrow> unit ab_step" where
  "same_world_step pc =
     (let violations = same_world_violations (pc_a pc) (pc_b pc) in
      if violations \<noteq> [] then stop_pair (map SameWorldViolation violations) WorldDiffers EXIT_PRECHECK_ABORT Invalidated else give ())"

definition config_of :: "files \<Rightarrow> string \<Rightarrow> run_error + json dict" where
  "config_of fs p = (case read_value fs p of Inl x \<Rightarrow> Inl x | Inr v \<Rightarrow> receiver v)"

definition treatment_step :: "ab_inputs \<Rightarrow> unit ab_step" where
  "treatment_step i =
     seq (look_files (\<lambda>fs. config_of fs (in_config_a i))) (\<lambda>ra. seq (or_escape ra) (\<lambda>config_a.
     seq (look_files (\<lambda>fs. config_of fs (in_config_b i))) (\<lambda>rb. seq (or_escape rb) (\<lambda>config_b.
     (let violations = treatment_key_violations config_a config_b in
      if violations \<noteq> [] then stop_pair (map TreatmentViolation violations) TreatmentNotIsolated EXIT_PRECHECK_ABORT Invalidated
      else give ())))))"

definition compare_freeze :: "prechecked \<Rightarrow> json dict \<Rightarrow> unit ab_step" where
  "compare_freeze pc freeze =
     (let drift = config_drift freeze (pc_a pc) (pc_b pc);
          mismatches = frozen_world_mismatches freeze (pc_a pc) (pc_pins pc) (pc_commit pc) in
      if drift \<noteq> [] then seq (on_bundle (\<lambda>b. b\<lparr>bd_void := True\<rparr>)) (\<lambda>u. stop_pair (map ConfigHashDrift drift) TreatmentDrifted EXIT_VOID Voided)
      else if mismatches \<noteq> [] then stop_pair (map FrozenMismatch mismatches) FrozenDiffers EXIT_PRECHECK_ABORT Invalidated
      else give ())"

definition freeze_step :: "ab_env \<Rightarrow> ab_inputs \<Rightarrow> prechecked \<Rightarrow> unit ab_step" where
  "freeze_step e i pc =
     seq (look_files (\<lambda>fs. fs)) (\<lambda>fs.
     if fst (fs (freeze_path i)) \<noteq> Missing then seq (or_escape (config_of fs (freeze_path i))) (compare_freeze pc)
     else if in_plan_only i then give ()
     else seq (write_json_atomic e (freeze_path i)
         (JObj (freeze_payload (en_host e) (arm_a_of i) (arm_b_of i) (pc_a pc) (pc_b pc) (pc_pins pc) (pc_commit pc))))
       (\<lambda>u. on_bundle (\<lambda>b. b\<lparr>bd_freeze_created := True\<rparr>)))"

definition shared_plan :: "ab_inputs \<Rightarrow> string list list" where
  "shared_plan i = [[''renquant-orchestrator'', ''native-live-account-snapshot'', ''--broker-name'', in_broker i, ''--output-json'',
     join_path (session_dir i) ''account_snapshot.fetched.json'']]"

definition account_step :: "ab_env \<Rightarrow> ab_inputs \<Rightarrow> string option ab_step" where
  "account_step e i =
     (case in_account i of
        Some p \<Rightarrow> give (Some p)
      | None \<Rightarrow>
          if in_plan_only i then give None
          else seq (run_steps e (shared_plan i)) (\<lambda>(steps, ok).
            seq (on_bundle (\<lambda>b. b\<lparr>bd_shared_steps := steps\<rparr>)) (\<lambda>u.
            if \<not> ok then stop_pair [SharedInputFailure] SharedInputsFailed EXIT_SESSION_INVALIDATED Invalidated
            else give (Some (join_path (session_dir i) ''account_snapshot.fetched.json'')))))"

definition stamp_snapshot :: "decision_snapshot \<Rightarrow> ab_bundle \<Rightarrow> ab_bundle" where
  "stamp_snapshot ds b = b\<lparr>bd_snapshot := Some ds, bd_a := (bd_a b)\<lparr>ae_digest := Some (ds_digest ds)\<rparr>,
     bd_b := (bd_b b)\<lparr>ae_digest := Some (ds_digest ds)\<rparr>\<rparr>"

definition digest_step :: "ab_env \<Rightarrow> ab_inputs \<Rightarrow> prechecked \<Rightarrow> string option \<Rightarrow> decision_snapshot option ab_step" where
  "digest_step e i pc account_source =
     (case account_source of
        None \<Rightarrow> give None
      | Some account \<Rightarrow>
          seq (meanwhile e Digesting) (\<lambda>u.
          seq (look_files (\<lambda>fs. decision_snapshot_identity (en_host e) fs (in_market i) account (in_date i) (fp_model (pc_a pc))
                 (fp_calibrator (pc_a pc)))) (\<lambda>r.
          case r of
            Inl x \<Rightarrow> stop_pair [SealFailure x] NotDigested EXIT_PRECHECK_ABORT Invalidated
          | Inr ds \<Rightarrow> seq (on_bundle (stamp_snapshot ds)) (\<lambda>u. give (Some ds)))))"

text \<open>The digest recorded for the session date.\<close>

definition prior_digest :: "files \<Rightarrow> string \<Rightarrow> run_error + json" where
  "prior_digest fs p =
     (case read_value fs p of Inl x \<Rightarrow> Inl x | Inr v \<Rightarrow>
      case receiver v of Inl x \<Rightarrow> Inl x | Inr prior \<Rightarrow>
      case receiver (py_or (dget prior ''decision_snapshot'' JNull) (JObj [])) of Inl x \<Rightarrow> Inl x | Inr d \<Rightarrow>
      Inr (dget d ''digest'' JNull))"

definition conflict_step :: "ab_inputs \<Rightarrow> decision_snapshot option \<Rightarrow> unit ab_step" where
  "conflict_step i snapshot =
     (case snapshot of
        None \<Rightarrow> give ()
      | Some ds \<Rightarrow>
          seq (look_files (\<lambda>fs. fs)) (\<lambda>fs.
          if in_plan_only i \<or> fst (fs (bundle_path i)) = Missing then give ()
          else seq (or_escape (prior_digest fs (bundle_path i))) (\<lambda>prior.
            if truthy prior \<and> prior \<noteq> JStr (ds_digest ds)
            then stop_pair [DigestConflict prior (ds_digest ds)] OtherWorld EXIT_PRECHECK_ABORT Invalidated
            else give ())))"

text \<open>A data revision that is not a text breaks the comparison of the plans.\<close>

definition revision_of :: "json dict option \<Rightarrow> run_error + string option" where
  "revision_of manifest =
     (case manifest of None \<Rightarrow> Inr None | Some m \<Rightarrow>
      case dget m ''data_revision'' JNull of JNull \<Rightarrow> Inr None | JStr s \<Rightarrow> Inr (Some s) | _ \<Rightarrow> Inl (RunRaised AttributeError))"

definition plan_inputs_of ::
    "ab_inputs \<Rightarrow> string \<Rightarrow> prechecked \<Rightarrow> string option \<Rightarrow> decision_snapshot option \<Rightarrow> plan_inputs" where
  "plan_inputs_of i strategy_dir pc revision snapshot = \<lparr>pi_market = sealed_path i ''market_snapshot.json'',
     pi_account = sealed_path i ''account_snapshot.json'', pi_strategy_dir = strategy_dir, pi_date = in_date i,
     pi_digest = (case snapshot of None \<Rightarrow> ''<sealed-at-run-time>'' | Some ds \<Rightarrow> ds_digest ds),
     pi_model = fp_model (pc_a pc), pi_calibrator = fp_calibrator (pc_a pc), pi_repo_root = in_repo_root i,
     pi_ohlcv = (case in_ohlcv i of Some (c # d) \<Rightarrow> Some (c # d) | _ \<Rightarrow> None), pi_revision = revision, pi_store = pc_store pc\<rparr>"

definition stamp_plans :: "string list list \<Rightarrow> string list list \<Rightarrow> ab_bundle \<Rightarrow> ab_bundle" where
  "stamp_plans plan_a plan_b b =
     b\<lparr>bd_a := (bd_a b)\<lparr>ae_planned := plan_a\<rparr>, bd_b := (bd_b b)\<lparr>ae_planned := plan_b\<rparr>\<rparr>"

definition plan_step :: "ab_env \<Rightarrow> ab_inputs \<Rightarrow> json dict option \<Rightarrow> string \<Rightarrow> prechecked \<Rightarrow> decision_snapshot option \<Rightarrow>
    (string list list \<times> string list list) ab_step" where
  "plan_step e i manifest strategy_dir pc snapshot =
     seq (or_escape (revision_of manifest)) (\<lambda>revision.
     (let inputs = plan_inputs_of i strategy_dir pc revision snapshot;
          plan_a = build_arm_plan inputs (in_tag_a i) (in_config_a i) (arm_dir i (in_tag_a i));
          plan_b = build_arm_plan inputs (in_tag_b i) (in_config_b i) (arm_dir i (in_tag_b i)) in
      case assert_preflight_symmetry plan_a plan_b (arm_a_of i) (arm_b_of i) (arm_dir i (in_tag_a i)) (arm_dir i (in_tag_b i))
          (in_env i) (in_env i) of
        Inl x \<Rightarrow> stop_pair [PreflightAsymmetry x] NotSymmetric EXIT_PRECHECK_ABORT Invalidated
      | Inr u \<Rightarrow>
          seq (on_bundle (stamp_plans plan_a plan_b)) (\<lambda>u.
          if in_plan_only i then fail (Finish PlanOnly EXIT_VALID) else give (plan_a, plan_b))))"

definition seal_snapshot :: "ab_env \<Rightarrow> string \<Rightarrow> string \<Rightarrow> ab_state \<Rightarrow> ab_state \<times> (run_error + string)" where
  "seal_snapshot e source dest s =
     (case read_value (ab_files s) source of
        Inl x \<Rightarrow> (s, Inl x)
      | Inr (JObj d) \<Rightarrow> (case write_file e dest (JObj d) s of (s', r) \<Rightarrow> (s', map_sum id (\<lambda>u. canonical_json_sha256 (en_host e) (JObj d)) r))
      | Inr v \<Rightarrow> (s, Inl (ContractViolated InputNotObject)))"

definition seal_or_stop :: "ab_env \<Rightarrow> string \<Rightarrow> string \<Rightarrow> string ab_step" where
  "seal_or_stop e source dest =
     seq (tried (seal_snapshot e source dest)) (\<lambda>r.
     case r of Inl x \<Rightarrow> stop_pair [SealFailure x] NotSealed EXIT_PRECHECK_ABORT Invalidated | Inr sha \<Rightarrow> give sha)"

definition seal_step :: "ab_env \<Rightarrow> ab_inputs \<Rightarrow> snapshot_paths \<Rightarrow> decision_snapshot \<Rightarrow> unit ab_step" where
  "seal_step e i sp ds =
     seq (meanwhile e Sealing) (\<lambda>u.
     seq (seal_or_stop e (sp_market_source sp) (sp_market sp)) (\<lambda>market_sha.
     seq (seal_or_stop e (sp_account_source sp) (sp_account sp)) (\<lambda>account_sha.
     if market_sha \<noteq> ds_market_sha ds \<or> account_sha \<noteq> ds_account_sha ds
     then stop_pair [TornWorld] TornInputs EXIT_PRECHECK_ABORT Invalidated
     else write_json_atomic e (sealed_path i ''decision_snapshot.json'') (snapshot_json ds))))"

definition verify_world :: "ab_env \<Rightarrow> snapshot_paths \<Rightarrow> decision_snapshot \<Rightarrow> ab_stage \<Rightarrow> unit ab_step" where
  "verify_world e sp ds stage =
     seq (meanwhile e (Verifying stage)) (\<lambda>u.
     seq (look_files (\<lambda>fs. verify_decision_snapshot (en_host e) fs sp ds)) (\<lambda>problems.
     seq (on_bundle (\<lambda>b. b\<lparr>bd_checks := bd_checks b @ [(stage, problems)]\<rparr>)) (\<lambda>u.
     if problems \<noteq> [] then stop_pair (map (PairedWorldViolation stage) problems) (SnapshotFailed stage) EXIT_SESSION_INVALIDATED Invalidated
     else give ())))"

definition quarantine_step :: "ab_env \<Rightarrow> json dict option \<Rightarrow> unit ab_step" where
  "quarantine_step e manifest =
     (case manifest of
        None \<Rightarrow> give ()
      | Some m \<Rightarrow>
          seq (look_files (en_quarantine e)) (\<lambda>r.
          seq (or_escape (case r of Inl RunOsError \<Rightarrow> Inr [''post_arm_quarantine_error''] | _ \<Rightarrow> r)) (\<lambda>notes.
          on_bundle (\<lambda>b. b\<lparr>bd_warnings := bd_warnings b @ notes\<rparr>))))"

definition settle_arms :: "bool \<Rightarrow> bool \<Rightarrow> unit ab_step" where
  "settle_arms ok_a ok_b =
     (let failed = (if ok_a then [] else [''a'']) @ (if ok_b then [] else [''b'']) in
      if failed \<noteq> [] then stop_pair [ArmFailure failed] (ArmsFailed failed) EXIT_SESSION_INVALIDATED Invalidated
      else on_bundle (\<lambda>b. b\<lparr>bd_a := (bd_a b)\<lparr>ae_invalidated := False\<rparr>, bd_b := (bd_b b)\<lparr>ae_invalidated := False\<rparr>\<rparr>))"

definition arms_step :: "ab_env \<Rightarrow> json dict option \<Rightarrow> snapshot_paths \<Rightarrow> decision_snapshot \<Rightarrow> string list list \<Rightarrow> string list list \<Rightarrow> unit ab_step" where
  "arms_step e manifest sp ds plan_a plan_b =
     seq (verify_world e sp ds PreArmA) (\<lambda>u.
     seq (run_steps e plan_a) (\<lambda>(steps_a, ok_a).
     seq (on_bundle (\<lambda>b. b\<lparr>bd_a := (bd_a b)\<lparr>ae_steps := steps_a, ae_completed := ok_a\<rparr>\<rparr>)) (\<lambda>u.
     seq (verify_world e sp ds PreArmB) (\<lambda>u.
     seq (run_steps e plan_b) (\<lambda>(steps_b, ok_b).
     seq (on_bundle (\<lambda>b. b\<lparr>bd_b := (bd_b b)\<lparr>ae_steps := steps_b, ae_completed := ok_b\<rparr>\<rparr>)) (\<lambda>u.
     seq (verify_world e sp ds PostArms) (\<lambda>u.
     seq (quarantine_step e manifest) (\<lambda>u. settle_arms ok_a ok_b))))))))"

definition session_body :: "ab_env \<Rightarrow> ab_inputs \<Rightarrow> json dict option \<Rightarrow> string \<Rightarrow> unit ab_step" where
  "session_body e i manifest strategy_dir =
     seq (precheck_step e i manifest strategy_dir) (\<lambda>pc.
     seq (same_world_step pc) (\<lambda>u.
     seq (treatment_step i) (\<lambda>u.
     seq (freeze_step e i pc) (\<lambda>u.
     seq (account_step e i) (\<lambda>account.
     seq (digest_step e i pc account) (\<lambda>snapshot.
     seq (conflict_step i snapshot) (\<lambda>u.
     seq (plan_step e i manifest strategy_dir pc snapshot) (\<lambda>(plan_a, plan_b).
     case (account, snapshot) of
       (Some source, Some ds) \<Rightarrow>
         seq (seal_step e i (snapshot_paths_of i source) ds) (\<lambda>u.
         arms_step e manifest (snapshot_paths_of i source) ds plan_a plan_b)
     | _ \<Rightarrow> give ()))))))))"

text \<open>The files after the call, what ran, who was told, and the bundle or the exception.\<close>

definition run_shadow_ab_session :: "ab_env \<Rightarrow> ab_inputs \<Rightarrow> files \<Rightarrow> ab_state \<times> (run_error + ab_bundle)" where
  "run_shadow_ab_session e i fs =
     (let s = \<lparr>ab_files = fs, ab_ran = [], ab_notes = [], ab_bundle = new_bundle i\<rparr> in
      case open_session (en_host e) i fs of Inl x \<Rightarrow> (s, Inl x) | Inr (manifest, strategy_dir) \<Rightarrow>
      (let (s', r) = (case session_body e i manifest strategy_dir s of
             (s1, Inr u) \<Rightarrow> finish e i Valid EXIT_VALID s1
           | (s1, Inl (Finish status code)) \<Rightarrow> finish e i status code s1
           | (s1, Inl (Escapes x)) \<Rightarrow> (s1, Inl (Escapes x))) in
       (s', case r of Inr u \<Rightarrow> Inr (ab_bundle s') | Inl (Escapes x) \<Rightarrow> Inl x | Inl (Finish status code) \<Rightarrow> Inr (ab_bundle s'))))"

end
