(* ===== verification/PairSafety.thy ===== *)
theory PairSafety
  imports ShadowSession "HOL-Library.Sublist"
begin

text \<open>
  What a paired session (\<open>ShadowSession\<close>) guarantees: which arms ran behind which checks, when a pair
  counts, and the counters over many sessions.
\<close>

section \<open>What a step keeps\<close>

text \<open>The part of the state that decides what a session counts as.\<close>

record pair_view =
  pv_status :: ab_status
  pv_ran :: "string list list"
  pv_checks :: "(ab_stage \<times> snapshot_problem list) list"
  pv_snapshot :: "decision_snapshot option"
  pv_fps :: "arm_fingerprints option \<times> arm_fingerprints option"
  pv_digests :: "string option \<times> string option"
  pv_plans :: "string list list \<times> string list list"
  pv_invalid :: "bool \<times> bool"
  pv_steps :: "(string list \<times> int) list \<times> (string list \<times> int) list"

definition bundle_view :: "string list list \<Rightarrow> ab_bundle \<Rightarrow> pair_view" where
  "bundle_view cmds b = \<lparr>pv_status = bd_status b, pv_ran = cmds, pv_checks = bd_checks b, pv_snapshot = bd_snapshot b,
     pv_fps = (ae_fp (bd_a b), ae_fp (bd_b b)), pv_digests = (ae_digest (bd_a b), ae_digest (bd_b b)),
     pv_plans = (ae_planned (bd_a b), ae_planned (bd_b b)), pv_invalid = (ae_invalidated (bd_a b), ae_invalidated (bd_b b)),
     pv_steps = (ae_steps (bd_a b), ae_steps (bd_b b))\<rparr>"

definition view_of :: "ab_state \<Rightarrow> pair_view" where
  "view_of s = bundle_view (ab_ran s) (ab_bundle s)"

definition not_valid :: "ab_stop \<Rightarrow> bool" where
  "not_valid x \<longleftrightarrow> (\<forall>code. x \<noteq> Finish Valid code)"

definition keeps :: "'a ab_step \<Rightarrow> bool" where
  "keeps m \<longleftrightarrow> (\<forall>v. triple (\<lambda>s. view_of s = v) m (\<lambda>x s. view_of s = v) (\<lambda>x s. view_of s = v \<and> not_valid x))"

named_theorems keeping \<open>steps that keep the view and do not stop as valid\<close>

lemma keeps_seq [keeping]: "keeps m \<Longrightarrow> (\<And>x. keeps (k x)) \<Longrightarrow> keeps (seq m k)"
  unfolding keeps_def by (blast intro: triple_seq)

lemma keeps_give [keeping]: "keeps (give x)"
  by (simp add: keeps_def triple_give)

lemma keeps_look [keeping]: "keeps (look_files f)"
  by (simp add: keeps_def triple_def look_files_def)

lemma keeps_or_escape [keeping]: "keeps (or_escape r)"
  by (cases r) (simp_all add: keeps_def triple_def or_escape_def lift_def not_valid_def)

lemma keeps_escape [keeping]: "keeps (fail (Escapes x))"
  by (simp add: keeps_def triple_fail not_valid_def)

lemma keeps_finish [keeping]: "status \<noteq> Valid \<Longrightarrow> keeps (fail (Finish status code))"
  by (simp add: keeps_def triple_fail not_valid_def)

lemma keeps_on_bundle [keeping]: "(\<And>cmds b. bundle_view cmds (f b) = bundle_view cmds b) \<Longrightarrow> keeps (on_bundle f)"
  by (simp add: keeps_def on_bundle_def triple_modify view_of_def)

lemma keeps_meanwhile [keeping]: "keeps (meanwhile e m)"
  by (simp add: keeps_def meanwhile_def triple_modify view_of_def)

lemma keeps_tried: "(\<And>s. view_of (fst (m s)) = view_of s) \<Longrightarrow> keeps (tried m)"
  by (simp add: keeps_def triple_def tried_def split: prod.split) (metis fst_conv)

lemma write_file_view: "view_of (fst (write_file e p v s)) = view_of s"
  by (simp add: write_file_def view_of_def)

lemma keeps_write [keeping]: "keeps (write_json_atomic e p v)"
  unfolding write_json_atomic_def by (intro keeping keeps_tried write_file_view)

lemma keeps_stop_pair [keeping]: "status \<noteq> Valid \<Longrightarrow> keeps (stop_pair reasons cause code status)"
  unfolding stop_pair_def by (intro keeping) (simp_all add: blame_def bundle_view_def)

lemma keeps_if [keeping]: "(b \<Longrightarrow> keeps m) \<Longrightarrow> (\<not> b \<Longrightarrow> keeps n) \<Longrightarrow> keeps (if b then m else n)"
  by simp

lemma keeps_sum [keeping]: "(\<And>x. keeps (f x)) \<Longrightarrow> (\<And>y. keeps (g y)) \<Longrightarrow> keeps (case r of Inl x \<Rightarrow> f x | Inr y \<Rightarrow> g y)"
  by (cases r) auto

lemma keeps_option [keeping]: "keeps f \<Longrightarrow> (\<And>y. keeps (g y)) \<Longrightarrow> keeps (case r of None \<Rightarrow> f | Some y \<Rightarrow> g y)"
  by (cases r) auto

lemma keeps_triple: "keeps m \<Longrightarrow> triple (\<lambda>s. view_of s = v) m (\<lambda>x s. view_of s = v) (\<lambda>x s. view_of s = v \<and> not_valid x)"
  by (simp add: keeps_def)

lemma keeps_precheck_failure: "keeps (precheck_failure x)"
  unfolding precheck_failure_def by (cases x) (auto intro!: keeping)

lemma keeps_same_world: "keeps (same_world_step pc)"
  unfolding same_world_step_def Let_def by (intro keeping) simp_all

lemma keeps_treatment: "keeps (treatment_step i)"
  unfolding treatment_step_def Let_def by (intro keeping) simp_all

lemma keeps_freeze: "keeps (freeze_step e i pc)"
  unfolding freeze_step_def compare_freeze_def Let_def by (intro keeping) (simp_all add: bundle_view_def)

lemma keeps_conflict: "keeps (conflict_step i snapshot)"
  unfolding conflict_step_def by (intro keeping) simp_all

lemma seal_snapshot_view: "view_of (fst (seal_snapshot e source dest s)) = view_of s"
proof (cases "read_value (ab_files s) source")
  case (Inr v)
  then show ?thesis using write_file_view [of e dest v s]
    by (cases v) (auto simp: seal_snapshot_def split: prod.split)
qed (simp add: seal_snapshot_def)

lemma keeps_seal_or_stop: "keeps (seal_or_stop e source dest)"
  unfolding seal_or_stop_def by (intro keeping keeps_tried seal_snapshot_view) simp

lemma keeps_seal: "keeps (seal_step e i sp ds)"
  unfolding seal_step_def by (intro keeping keeps_seal_or_stop) simp_all

lemma keeps_quarantine: "keeps (quarantine_step e manifest)"
  unfolding quarantine_step_def by (intro keeping) (simp_all add: bundle_view_def)

text \<open>The commands a plan ran are a prefix of it, the whole of it when it ended well.\<close>

lemma run_steps_view:
  "run_steps e plan s = (t, r) \<Longrightarrow>
   \<exists>cmds. prefix cmds plan \<and> view_of t = (view_of s)\<lparr>pv_ran := pv_ran (view_of s) @ cmds\<rparr> \<and>
     (case r of Inl x \<Rightarrow> not_valid x | Inr (steps, ok) \<Rightarrow> ok \<longrightarrow> cmds = plan \<and> steps = map (\<lambda>c. (c, 0)) plan)"
proof (induction plan arbitrary: s t r)
  case Nil
  then show ?case by (auto simp: give_def view_of_def bundle_view_def)
next
  case (Cons c plan)
  obtain fs a where run: "en_run e c (ab_files s) = (fs, a)" by fastforce
  let ?u = "s\<lparr>ab_files := fs, ab_ran := ab_ran s @ [c]\<rparr>"
  have u: "view_of ?u = (view_of s)\<lparr>pv_ran := pv_ran (view_of s) @ [c]\<rparr>" by (simp add: view_of_def bundle_view_def)
  consider (raised) x where "a = Inl x" | (failed) code where "a = Inr code" "code \<noteq> 0" | (ok) "a = Inr 0"
    by (cases a) auto
  then show ?case
  proof cases
    case raised
    with Cons.prems run have "t = ?u" "r = Inl (Escapes x)" by (simp_all add: seq_def)
    with u show ?thesis by (intro exI [of _ "[c]"]) (simp add: not_valid_def)
  next
    case failed
    with Cons.prems run have "t = ?u" "r = Inr ([(c, code)], False)" by (simp_all add: seq_def give_def)
    with u show ?thesis by (intro exI [of _ "[c]"]) simp
  next
    case ok
    obtain w q where w: "run_steps e plan ?u = (w, q)" by fastforce
    from Cons.IH [OF w] obtain cmds where cmds: "prefix cmds plan"
        "view_of w = (view_of ?u)\<lparr>pv_ran := pv_ran (view_of ?u) @ cmds\<rparr>"
        "case q of Inl x \<Rightarrow> not_valid x | Inr (steps, ok) \<Rightarrow> ok \<longrightarrow> cmds = plan \<and> steps = map (\<lambda>c. (c, 0)) plan" by blast
    have "(t, r) = seq (run_steps e plan) (\<lambda>(steps, ok). give ((c, 0) # steps, ok)) ?u"
      using Cons.prems run ok by (simp add: seq_def)
    then have r: "t = w" "r = map_sum id (\<lambda>x. ((c, 0) # fst x, snd x)) q"
      unfolding seq_def w by (cases q; simp add: give_def case_prod_unfold)+
    have "case r of Inl x \<Rightarrow> not_valid x | Inr (steps, ok) \<Rightarrow> ok \<longrightarrow> c # cmds = c # plan \<and> steps = map (\<lambda>c. (c, 0)) (c # plan)"
      using cmds(3) r(2) by (cases q) auto
    moreover have "view_of t = (view_of s)\<lparr>pv_ran := pv_ran (view_of s) @ c # cmds\<rparr>"
      unfolding r(1) cmds(2) u by simp
    moreover have "prefix (c # cmds) (c # plan)" using cmds(1) by simp
    ultimately show ?thesis by blast
  qed
qed

section \<open>Which arms ran\<close>

text \<open>The shared step, then a part of the plan of arm A behind its check, then a part of the plan of arm B behind
  its own.\<close>

definition behind_checks :: "ab_inputs \<Rightarrow> pair_view \<Rightarrow> bool" where
  "behind_checks i v \<longleftrightarrow>
     (\<exists>shared a b. pv_ran v = shared @ a @ b \<and> prefix shared (shared_plan i) \<and>
        prefix a (fst (pv_plans v)) \<and> prefix b (snd (pv_plans v)) \<and>
        (a \<noteq> [] \<longrightarrow> (PreArmA, []) \<in> set (pv_checks v)) \<and> (b \<noteq> [] \<longrightarrow> (PreArmB, []) \<in> set (pv_checks v)))"

definition stopped :: "ab_inputs \<Rightarrow> ab_stop \<Rightarrow> ab_state \<Rightarrow> bool" where
  "stopped i x s \<longleftrightarrow> behind_checks i (view_of s) \<and> pv_invalid (view_of s) = (True, True) \<and> not_valid x"

lemma keeps_stopped:
  "keeps m \<Longrightarrow> behind_checks i v \<Longrightarrow> pv_invalid v = (True, True) \<Longrightarrow>
   triple (\<lambda>s. view_of s = v) m (\<lambda>x s. view_of s = v) (stopped i)"
  by (rule triple_conseq [OF keeps_triple]) (auto simp: stopped_def)

lemma stop_pair_triple:
  assumes "behind_checks i v" "pv_invalid v = (True, True)" "status \<noteq> Valid"
  shows "triple (\<lambda>s. view_of s = v) (stop_pair reasons cause code status) Q (stopped i)"
  unfolding stop_pair_def
proof (rule triple_seq [OF keeps_stopped [OF keeps_on_bundle assms(1,2)] triple_fail])
  show "bundle_view cmds (blame reasons cause b) = bundle_view cmds b" for cmds b
    by (simp add: blame_def bundle_view_def)
  show "view_of s = v \<Longrightarrow> stopped i (Finish status code) s" for s
    using assms by (simp add: stopped_def not_valid_def)
qed

lemma on_bundle_triple:
  "(\<And>cmds b. bundle_view cmds b = v \<Longrightarrow> bundle_view cmds (f b) = w) \<Longrightarrow>
   triple (\<lambda>s. view_of s = v) (on_bundle f) (\<lambda>u s. view_of s = w) E"
  unfolding on_bundle_def by (rule triple_modify) (simp add: view_of_def)

lemma behind_checks_more:
  assumes "behind_checks i v"
  shows "behind_checks i (v\<lparr>pv_checks := pv_checks v @ c\<rparr>)"
proof -
  from assms obtain shared a b where "pv_ran v = shared @ a @ b \<and> prefix shared (shared_plan i) \<and>
      prefix a (fst (pv_plans v)) \<and> prefix b (snd (pv_plans v)) \<and>
      (a \<noteq> [] \<longrightarrow> (PreArmA, []) \<in> set (pv_checks v)) \<and> (b \<noteq> [] \<longrightarrow> (PreArmB, []) \<in> set (pv_checks v))"
    unfolding behind_checks_def by blast
  then show ?thesis
    unfolding behind_checks_def by (intro exI [of _ shared] exI [of _ a] exI [of _ b]) simp
qed

lemma verify_world_triple:
  assumes "behind_checks i v" "pv_invalid v = (True, True)"
  shows "triple (\<lambda>s. view_of s = v) (verify_world e sp ds stage)
    (\<lambda>u s. view_of s = v\<lparr>pv_checks := pv_checks v @ [(stage, [])]\<rparr>) (stopped i)"
proof -
  have more: "behind_checks i (v\<lparr>pv_checks := pv_checks v @ c\<rparr>)" for c
    using assms(1) by (rule behind_checks_more)
  have stop: "triple (\<lambda>s. view_of s = v\<lparr>pv_checks := pv_checks v @ [(stage, problems)]\<rparr>)
      (if problems \<noteq> [] then stop_pair (map (PairedWorldViolation stage) problems) (SnapshotFailed stage) EXIT_SESSION_INVALIDATED Invalidated
       else give ()) (\<lambda>u s. view_of s = v\<lparr>pv_checks := pv_checks v @ [(stage, [])]\<rparr>) (stopped i)" for problems
  proof (cases "problems = []")
    case False
    with more [of "[(stage, problems)]"] assms(2) show ?thesis by (simp add: stop_pair_triple)
  qed (simp add: triple_give)
  have noted: "triple (\<lambda>s. view_of s = v) (on_bundle (\<lambda>b. b\<lparr>bd_checks := bd_checks b @ [(stage, problems)]\<rparr>))
      (\<lambda>u s. view_of s = v\<lparr>pv_checks := pv_checks v @ [(stage, problems)]\<rparr>) (stopped i)" for problems
    by (rule on_bundle_triple) (auto simp: bundle_view_def)
  show ?thesis
    unfolding verify_world_def
    by (rule triple_seq [OF keeps_stopped [OF keeps_meanwhile assms]], rule triple_seq [OF keeps_stopped [OF keeps_look assms]],
        rule triple_seq [OF noted stop])
qed

lemma behind_checksI:
  "pv_ran v = shared @ a @ b \<Longrightarrow> prefix shared (shared_plan i) \<Longrightarrow> prefix a (fst (pv_plans v)) \<Longrightarrow> prefix b (snd (pv_plans v)) \<Longrightarrow>
   (a \<noteq> [] \<Longrightarrow> (PreArmA, []) \<in> set (pv_checks v)) \<Longrightarrow> (b \<noteq> [] \<Longrightarrow> (PreArmB, []) \<in> set (pv_checks v)) \<Longrightarrow> behind_checks i v"
  unfolding behind_checks_def by blast

lemma run_steps_triple:
  assumes "\<And>cmds. prefix cmds plan \<Longrightarrow> behind_checks i (v\<lparr>pv_ran := pv_ran v @ cmds\<rparr>)" "pv_invalid v = (True, True)"
  shows "triple (\<lambda>s. view_of s = v) (run_steps e plan)
    (\<lambda>x s. \<exists>cmds. (prefix cmds plan \<and> (snd x \<longrightarrow> cmds = plan \<and> fst x = map (\<lambda>c. (c, 0)) plan)) \<and>
       view_of s = v\<lparr>pv_ran := pv_ran v @ cmds\<rparr>) (stopped i)"
proof (rule tripleI)
  fix s t x assume v: "view_of s = v" and m: "run_steps e plan s = (t, Inr x)"
  from run_steps_view [OF m] v show "\<exists>cmds. (prefix cmds plan \<and> (snd x \<longrightarrow> cmds = plan \<and> fst x = map (\<lambda>c. (c, 0)) plan)) \<and>
       view_of t = v\<lparr>pv_ran := pv_ran v @ cmds\<rparr>" by (cases x) auto
next
  fix s t x assume v: "view_of s = v" and m: "run_steps e plan s = (t, Inl x)"
  from run_steps_view [OF m] v obtain cmds where c: "prefix cmds plan" "view_of t = v\<lparr>pv_ran := pv_ran v @ cmds\<rparr>" "not_valid x" by auto
  then show "stopped i x t" unfolding stopped_def c(2) using assms by simp
qed

lemma settle_triple:
  assumes "behind_checks i v" "pv_invalid v = (True, True)"
  shows "triple (\<lambda>s. view_of s = v) (settle_arms ok_a ok_b)
    (\<lambda>u s. ok_a \<and> ok_b \<and> view_of s = v\<lparr>pv_invalid := (False, False)\<rparr>) (stopped i)"
proof (cases "ok_a \<and> ok_b")
  case True
  have "triple (\<lambda>s. view_of s = v) (on_bundle (\<lambda>b. b\<lparr>bd_a := (bd_a b)\<lparr>ae_invalidated := False\<rparr>, bd_b := (bd_b b)\<lparr>ae_invalidated := False\<rparr>\<rparr>))
      (\<lambda>u s. view_of s = v\<lparr>pv_invalid := (False, False)\<rparr>) (stopped i)"
    by (rule on_bundle_triple) (auto simp: bundle_view_def)
  with True show ?thesis by (simp add: settle_arms_def)
next
  case False
  have "triple (\<lambda>s. view_of s = v) (stop_pair r c n Invalidated) Q (stopped i)" for r c n Q
    by (rule stop_pair_triple [OF assms]) simp
  with False show ?thesis by (auto simp: settle_arms_def Let_def)
qed

text \<open>The pair of arms: what a run to the end has done.\<close>

definition pair_done :: "pair_view \<Rightarrow> pair_view" where
  "pair_done v = v\<lparr>pv_ran := pv_ran v @ fst (pv_plans v) @ snd (pv_plans v), pv_checks := [(PreArmA, []), (PreArmB, []), (PostArms, [])],
     pv_steps := (map (\<lambda>c. (c, 0)) (fst (pv_plans v)), map (\<lambda>c. (c, 0)) (snd (pv_plans v))), pv_invalid := (False, False)\<rparr>"

lemma arms_triple:
  assumes v: "prefix (pv_ran v) (shared_plan i)" "pv_checks v = []" "pv_plans v = (plan_a, plan_b)" "pv_invalid v = (True, True)"
  shows "triple (\<lambda>s. view_of s = v) (arms_step e manifest sp ds plan_a plan_b) (\<lambda>u s. view_of s = pair_done v) (stopped i)"
proof -
  define va where "va steps_a a = v\<lparr>pv_ran := pv_ran v @ a, pv_checks := [(PreArmA, [])], pv_steps := (steps_a, snd (pv_steps v))\<rparr>" for steps_a a
  define vb where "vb steps_a a steps_b b = v\<lparr>pv_ran := pv_ran v @ a @ b, pv_checks := [(PreArmA, []), (PreArmB, [])],
      pv_steps := (steps_a, steps_b)\<rparr>" for steps_a a steps_b b
  have bv: "behind_checks i v" using v by (intro behind_checksI [of v "pv_ran v" "[]" "[]"]) simp_all
  have ba: "behind_checks i (va steps_a a)" if "prefix a plan_a" for steps_a a
    using v that by (intro behind_checksI [of _ "pv_ran v" a "[]"]) (simp_all add: va_def)
  have bb: "behind_checks i (vb steps_a a steps_b b)" if "prefix a plan_a" "prefix b plan_b" for steps_a a steps_b b
    using v that by (intro behind_checksI [of _ "pv_ran v" a b]) (simp_all add: vb_def)
  have last_part: "triple (\<lambda>s. view_of s = vb steps_a a steps_b b)
      (seq (verify_world e sp ds PostArms) (\<lambda>u. seq (quarantine_step e manifest) (\<lambda>u. settle_arms ok_a ok_b)))
      (\<lambda>u s. view_of s = pair_done v) (stopped i)"
    if a: "prefix a plan_a" "ok_a \<longrightarrow> a = plan_a \<and> steps_a = map (\<lambda>c. (c, 0)) plan_a"
      and b: "prefix b plan_b" "ok_b \<longrightarrow> b = plan_b \<and> steps_b = map (\<lambda>c. (c, 0)) plan_b" for steps_a a steps_b b ok_a ok_b
  proof -
    let ?w = "(vb steps_a a steps_b b)\<lparr>pv_checks := pv_checks (vb steps_a a steps_b b) @ [(PostArms, [])]\<rparr>"
    have w: "behind_checks i ?w" "pv_invalid ?w = (True, True)" "pv_invalid (vb steps_a a steps_b b) = (True, True)"
      using behind_checks_more [OF bb [OF a(1) b(1)]] v(4) by (simp_all add: vb_def)
    have "ok_a \<Longrightarrow> ok_b \<Longrightarrow> ?w\<lparr>pv_invalid := (False, False)\<rparr> = pair_done v"
      using a(2) b(2) v(3) by (simp add: vb_def pair_done_def)
    then have settle: "triple (\<lambda>s. view_of s = ?w) (settle_arms ok_a ok_b) (\<lambda>u s. view_of s = pair_done v) (stopped i)"
      by (intro triple_conseq [OF settle_triple [OF w(1,2)]]) auto
    show ?thesis
      by (rule triple_seq [OF verify_world_triple [OF bb [OF a(1) b(1)] w(3)]],
          rule triple_seq [OF keeps_stopped [OF keeps_quarantine w(1,2)] settle])
  qed
  have arm_b: "triple (\<lambda>s. view_of s = va steps_a a)
      (seq (verify_world e sp ds PreArmB) (\<lambda>u. seq (run_steps e plan_b) (\<lambda>(steps_b, ok_b).
        seq (on_bundle (\<lambda>b. b\<lparr>bd_b := (bd_b b)\<lparr>ae_steps := steps_b, ae_completed := ok_b\<rparr>\<rparr>)) (\<lambda>u.
        seq (verify_world e sp ds PostArms) (\<lambda>u. seq (quarantine_step e manifest) (\<lambda>u. settle_arms ok_a ok_b))))))
      (\<lambda>u s. view_of s = pair_done v) (stopped i)"
    if a: "prefix a plan_a" "ok_a \<longrightarrow> a = plan_a \<and> steps_a = map (\<lambda>c. (c, 0)) plan_a" for steps_a a ok_a
  proof -
    let ?w = "(va steps_a a)\<lparr>pv_checks := pv_checks (va steps_a a) @ [(PreArmB, [])]\<rparr>"
    have w: "pv_invalid (va steps_a a) = (True, True)" "pv_invalid ?w = (True, True)" using v(4) by (simp_all add: va_def)
    have wb: "behind_checks i (?w\<lparr>pv_ran := pv_ran ?w @ b\<rparr>)" if "prefix b plan_b" for b
      using v a that by (intro behind_checksI [of _ "pv_ran v" a b]) (simp_all add: va_def)
    have noted: "triple (\<lambda>s. view_of s = ?w\<lparr>pv_ran := pv_ran ?w @ b\<rparr>)
        (on_bundle (\<lambda>b. b\<lparr>bd_b := (bd_b b)\<lparr>ae_steps := steps_b, ae_completed := ok_b\<rparr>\<rparr>))
        (\<lambda>u s. view_of s = vb steps_a a steps_b b) (stopped i)" for b steps_b ok_b
      by (rule on_bundle_triple) (cases v; auto simp: bundle_view_def va_def vb_def)
    show ?thesis
      apply (rule triple_seq [OF verify_world_triple [OF ba [OF a(1)] w(1)]])
      apply (rule triple_seq [OF run_steps_triple [OF wb w(2)]], assumption)
      apply (rule triple_ex, rule triple_and, rule triple_prod)
      apply (rule triple_seq [OF noted last_part [OF a]])
      apply auto
      done
  qed
  let ?w = "v\<lparr>pv_checks := pv_checks v @ [(PreArmA, [])]\<rparr>"
  have wa: "behind_checks i (?w\<lparr>pv_ran := pv_ran ?w @ a\<rparr>)" if "prefix a plan_a" for a
    using v that by (intro behind_checksI [of _ "pv_ran v" a "[]"]) simp_all
  have noted: "triple (\<lambda>s. view_of s = ?w\<lparr>pv_ran := pv_ran ?w @ a\<rparr>)
      (on_bundle (\<lambda>b. b\<lparr>bd_a := (bd_a b)\<lparr>ae_steps := steps_a, ae_completed := ok_a\<rparr>\<rparr>))
      (\<lambda>u s. view_of s = va steps_a a) (stopped i)" for a steps_a ok_a
    by (rule on_bundle_triple) (use v in \<open>cases v; auto simp: bundle_view_def va_def\<close>)
  show ?thesis
    unfolding arms_step_def
    apply (rule triple_seq [OF verify_world_triple [OF bv v(4)]])
    apply (rule triple_seq [OF run_steps_triple [OF wa]], assumption)
    using v(4) apply simp
    apply (rule triple_ex, rule triple_and, rule triple_prod)
    apply (rule triple_seq [OF noted arm_b])
    apply auto
    done
qed

section \<open>The whole session\<close>

text \<open>The steps before the arms, with the files they have read.\<close>

abbreviation at_view :: "files \<Rightarrow> pair_view \<Rightarrow> ab_state \<Rightarrow> bool" where
  "at_view fs v s \<equiv> ab_files s = fs \<and> view_of s = v"

lemma stop_pair_at:
  assumes "behind_checks i v" "pv_invalid v = (True, True)" "status \<noteq> Valid"
  shows "triple (at_view fs v) (stop_pair reasons cause code status) Q (stopped i)"
  by (rule triple_conseq [OF stop_pair_triple [OF assms]]) simp_all

lemma look_at: "triple (at_view fs v) (look_files f) (\<lambda>x s. x = f fs \<and> at_view fs v s) E"
  by (rule tripleI) (auto simp: look_files_def)

lemma escape_at:
  assumes "behind_checks i v" "pv_invalid v = (True, True)"
  shows "triple (at_view fs v) (or_escape r) (\<lambda>x s. r = Inr x \<and> at_view fs v s) (stopped i)"
  unfolding or_escape_def by (rule triple_lift) (use assms in \<open>cases r; auto simp: stopped_def not_valid_def\<close>)+

lemma precheck_failure_at:
  assumes "behind_checks i v" "pv_invalid v = (True, True)"
  shows "triple (at_view fs v) (precheck_failure x) Q (stopped i)"
proof -
  have "triple (at_view fs v) (stop_pair reasons cause code Invalidated) Q (stopped i)" for reasons cause code
    by (rule stop_pair_at [OF assms]) simp
  moreover have "triple (at_view fs v) (fail (Escapes x)) Q (stopped i)"
    by (rule triple_fail) (use assms in \<open>auto simp: stopped_def not_valid_def\<close>)
  ultimately show ?thesis by (cases x) (auto simp: precheck_failure_def)
qed

definition fresh_view :: "arm_fingerprints option \<times> arm_fingerprints option \<Rightarrow> pair_view" where
  "fresh_view fps = \<lparr>pv_status = Invalidated, pv_ran = [], pv_checks = [], pv_snapshot = None, pv_fps = fps, pv_digests = (None, None),
     pv_plans = ([], []), pv_invalid = (True, True), pv_steps = ([], [])\<rparr>"

definition checked_view :: "prechecked \<Rightarrow> pair_view" where
  "checked_view pc = fresh_view (Some (pc_a pc), Some (pc_b pc))"

lemma fresh_view_ok: "behind_checks i (fresh_view fps)" "pv_invalid (fresh_view fps) = (True, True)"
  by (auto simp: fresh_view_def intro: behind_checksI [of _ "[]" "[]" "[]"])

text \<open>What the files at the start say of the two arms.\<close>

definition world_of :: "ab_env \<Rightarrow> ab_inputs \<Rightarrow> files \<Rightarrow> prechecked \<Rightarrow> bool" where
  "world_of e i fs pc \<longleftrightarrow> (\<exists>manifest strategy_dir verified. open_session (en_host e) i fs = Inr (manifest, strategy_dir) \<and>
     check_manifest (en_host e) manifest = Inr verified \<and> precheck_pair (en_host e) i fs strategy_dir verified = Inr pc)"

lemma precheck_triple:
  assumes "open_session (en_host e) i fs = Inr (manifest, strategy_dir)"
  shows "triple (at_view fs (fresh_view (None, None)))
    (precheck_step e i manifest strategy_dir) (\<lambda>pc s. world_of e i fs pc \<and> at_view fs (checked_view pc) s) (stopped i)"
proof (cases "check_manifest (en_host e) manifest")
  case (Inl x)
  then show ?thesis by (simp add: precheck_step_def precheck_failure_at [OF fresh_view_ok])
next
  case (Inr verified)
  have repos: "triple (at_view fs (fresh_view (None, None)))
      (on_bundle (\<lambda>b. b\<lparr>bd_repos := fst verified\<rparr>)) (\<lambda>u. at_view fs (fresh_view (None, None))) (stopped i)"
    unfolding on_bundle_def by (rule triple_modify) (auto simp: view_of_def bundle_view_def)
  have stamp: "triple (at_view fs (fresh_view (None, None))) (on_bundle (stamp_arms i pc)) (\<lambda>u. at_view fs (checked_view pc)) (stopped i)" for pc
    unfolding on_bundle_def
    by (rule triple_modify) (auto simp: view_of_def bundle_view_def stamp_arms_def arm_entry_of_def fresh_view_def checked_view_def)
  have "triple (\<lambda>s. x = precheck_pair (en_host e) i fs strategy_dir verified \<and> at_view fs (fresh_view (None, None)) s)
      (case x of Inl y \<Rightarrow> precheck_failure y | Inr pc \<Rightarrow> seq (on_bundle (stamp_arms i pc)) (\<lambda>u. give pc))
      (\<lambda>pc s. world_of e i fs pc \<and> at_view fs (checked_view pc) s) (stopped i)" for x
  proof (rule triple_and)
    assume x: "x = precheck_pair (en_host e) i fs strategy_dir verified"
    show "triple (at_view fs (fresh_view (None, None)))
        (case x of Inl y \<Rightarrow> precheck_failure y | Inr pc \<Rightarrow> seq (on_bundle (stamp_arms i pc)) (\<lambda>u. give pc))
        (\<lambda>pc s. world_of e i fs pc \<and> at_view fs (checked_view pc) s) (stopped i)"
    proof (cases x)
      case (Inl y)
      then show ?thesis by (simp add: precheck_failure_at [OF fresh_view_ok])
    next
      case (Inr pc)
      have "world_of e i fs pc" unfolding world_of_def using assms \<open>check_manifest (en_host e) manifest = Inr verified\<close> Inr x by metis
      with Inr show ?thesis by simp (rule triple_seq [OF stamp triple_give], simp)
    qed
  qed
  with Inr show ?thesis
    by (simp add: precheck_step_def) (rule triple_seq [OF repos triple_seq [OF look_at]])
qed

lemma same_world_triple:
  assumes "behind_checks i v" "pv_invalid v = (True, True)"
  shows "triple (at_view fs v) (same_world_step pc) (\<lambda>u s. same_world_violations (pc_a pc) (pc_b pc) = [] \<and> at_view fs v s) (stopped i)"
  unfolding same_world_step_def Let_def
  by (rule triple_if, rule stop_pair_at [OF assms], simp, rule triple_give, simp)

definition treatment_isolated :: "ab_inputs \<Rightarrow> files \<Rightarrow> bool" where
  "treatment_isolated i fs \<longleftrightarrow>
     (\<exists>a b. config_of fs (in_config_a i) = Inr a \<and> config_of fs (in_config_b i) = Inr b \<and> treatment_key_violations a b = [])"

lemma treatment_triple:
  assumes "behind_checks i v" "pv_invalid v = (True, True)"
  shows "triple (at_view fs v) (treatment_step i) (\<lambda>u s. treatment_isolated i fs \<and> at_view fs v s) (stopped i)"
  unfolding treatment_step_def Let_def
  apply (rule triple_seq [OF look_at], rule triple_and)
  apply (rule triple_seq [OF escape_at [OF assms]], rule triple_and)
  apply (rule triple_seq [OF look_at], rule triple_and)
  apply (rule triple_seq [OF escape_at [OF assms]], rule triple_and)
  apply (rule triple_if, rule stop_pair_at [OF assms], simp)
  apply (rule triple_give, simp add: treatment_isolated_def, metis)
  done

text \<open>The freeze, when there is one, is of this world.\<close>

definition freeze_agrees :: "ab_inputs \<Rightarrow> files \<Rightarrow> prechecked \<Rightarrow> bool" where
  "freeze_agrees i fs pc \<longleftrightarrow> fst (fs (freeze_path i)) = Missing \<or>
     (\<exists>freeze. config_of fs (freeze_path i) = Inr freeze \<and> config_drift freeze (pc_a pc) (pc_b pc) = [] \<and>
        frozen_world_mismatches freeze (pc_a pc) (pc_pins pc) (pc_commit pc) = [])"

lemma freeze_triple:
  assumes "behind_checks i v" "pv_invalid v = (True, True)"
  shows "triple (at_view fs v) (freeze_step e i pc) (\<lambda>u s. freeze_agrees i fs pc \<and> view_of s = v) (stopped i)"
proof -
  have note_void: "keeps (on_bundle (\<lambda>b. b\<lparr>bd_void := True\<rparr>))" "keeps (on_bundle (\<lambda>b. b\<lparr>bd_freeze_created := True\<rparr>))"
    by (intro keeping; simp add: bundle_view_def)+
  have compare: "triple (\<lambda>s. config_of fs (freeze_path i) = Inr freeze \<and> at_view fs v s) (compare_freeze pc freeze)
      (\<lambda>u s. freeze_agrees i fs pc \<and> view_of s = v) (stopped i)" for freeze
    unfolding compare_freeze_def Let_def
    apply (rule triple_and, rule triple_if)
     apply (rule triple_conseq [OF triple_seq [OF keeps_stopped [OF note_void(1) assms] stop_pair_triple [OF assms]]])
        apply simp_all
    apply (intro conjI impI)
     apply (rule triple_conseq [OF stop_pair_at [OF assms]]; simp)
    apply (rule triple_give, auto simp: freeze_agrees_def)
    done
  show ?thesis
    unfolding freeze_step_def
    apply (rule triple_seq [OF look_at], rule triple_and, hypsubst)
    apply (rule triple_if)
     apply (rule triple_seq [OF escape_at [OF assms] compare])
    apply (rule triple_if)
     apply (rule triple_give, simp add: freeze_agrees_def)
    apply (rule triple_conseq [OF keeps_stopped [OF keeps_seq [OF keeps_write note_void(2)] assms]])
      apply (auto simp: freeze_agrees_def)
    done
qed

lemma account_triple:
  assumes v: "pv_ran v = []" "pv_checks v = []" "pv_invalid v = (True, True)"
  shows "triple (\<lambda>s. view_of s = v) (account_step e i)
    (\<lambda>source s. \<exists>cmds. (prefix cmds (shared_plan i) \<and> (source = None \<longrightarrow> in_plan_only i)) \<and> view_of s = v\<lparr>pv_ran := cmds\<rparr>) (stopped i)"
proof -
  have ok: "behind_checks i (v\<lparr>pv_ran := cmds\<rparr>)" if "prefix cmds (shared_plan i)" for cmds
    using that by (intro behind_checksI [of _ cmds "[]" "[]"]) simp_all
  have given: "triple (\<lambda>s. view_of s = v) (give x)
      (\<lambda>source s. \<exists>cmds. (prefix cmds (shared_plan i) \<and> (source = None \<longrightarrow> in_plan_only i)) \<and> view_of s = v\<lparr>pv_ran := cmds\<rparr>) (stopped i)"
    if "x = None \<longrightarrow> in_plan_only i" for x
    by (rule triple_give) (use that v in \<open>auto intro: exI [of _ "[]"]\<close>)
  have shared: "triple (\<lambda>s. view_of s = v) (run_steps e (shared_plan i))
      (\<lambda>x s. \<exists>cmds. prefix cmds (shared_plan i) \<and> view_of s = v\<lparr>pv_ran := cmds\<rparr>) (stopped i)"
    by (rule triple_conseq [OF run_steps_triple]) (use v ok in auto)
  have keep: "keeps (on_bundle (\<lambda>b. b\<lparr>bd_shared_steps := steps\<rparr>))" for steps
    by (intro keeping) (simp add: bundle_view_def)
  have rest: "triple (\<lambda>s. view_of s = v\<lparr>pv_ran := cmds\<rparr>) (seq (on_bundle (\<lambda>b. b\<lparr>bd_shared_steps := steps\<rparr>)) (\<lambda>u.
        if \<not> ok then stop_pair [SharedInputFailure] SharedInputsFailed EXIT_SESSION_INVALIDATED Invalidated
        else give (Some (join_path (session_dir i) ''account_snapshot.fetched.json''))))
      (\<lambda>source s. \<exists>cmds. (prefix cmds (shared_plan i) \<and> (source = None \<longrightarrow> in_plan_only i)) \<and> view_of s = v\<lparr>pv_ran := cmds\<rparr>) (stopped i)"
    if c: "prefix cmds (shared_plan i)" for cmds steps ok
    by (rule triple_seq [OF keeps_stopped [OF keep ok [OF c]]], simp add: v, rule triple_if, rule stop_pair_triple [OF ok [OF c]],
        simp_all add: v, rule triple_give) (use c in auto)
  show ?thesis
  proof (cases "in_account i = None \<and> \<not> in_plan_only i")
    case True
    have "triple (\<lambda>s. view_of s = v) (seq (run_steps e (shared_plan i)) (\<lambda>(steps, ok). seq (on_bundle (\<lambda>b. b\<lparr>bd_shared_steps := steps\<rparr>)) (\<lambda>u.
        if \<not> ok then stop_pair [SharedInputFailure] SharedInputsFailed EXIT_SESSION_INVALIDATED Invalidated
        else give (Some (join_path (session_dir i) ''account_snapshot.fetched.json'')))))
      (\<lambda>source s. \<exists>cmds. (prefix cmds (shared_plan i) \<and> (source = None \<longrightarrow> in_plan_only i)) \<and> view_of s = v\<lparr>pv_ran := cmds\<rparr>) (stopped i)"
      by (rule triple_seq [OF shared], rule triple_ex, rule triple_and, rule triple_prod, rule rest)
    with True show ?thesis by (simp add: account_step_def)
  next
    case False
    with given show ?thesis by (cases "in_account i") (auto simp: account_step_def)
  qed
qed

definition stamped_view :: "decision_snapshot option \<Rightarrow> pair_view \<Rightarrow> pair_view" where
  "stamped_view snapshot v = (case snapshot of None \<Rightarrow> v | Some ds \<Rightarrow>
     v\<lparr>pv_snapshot := Some ds, pv_digests := (Some (ds_digest ds), Some (ds_digest ds))\<rparr>)"

lemma stamped_view_simps [simp]: "pv_ran (stamped_view x v) = pv_ran v" "pv_checks (stamped_view x v) = pv_checks v"
  "pv_invalid (stamped_view x v) = pv_invalid v" "pv_plans (stamped_view x v) = pv_plans v"
  "pv_fps (stamped_view x v) = pv_fps v" "pv_steps (stamped_view x v) = pv_steps v"
  by (simp_all add: stamped_view_def split: option.split)

lemma digest_triple:
  assumes "behind_checks i v" "pv_invalid v = (True, True)"
  shows "triple (\<lambda>s. view_of s = v) (digest_step e i pc account)
    (\<lambda>snapshot s. (snapshot = None \<longleftrightarrow> account = None) \<and> view_of s = stamped_view snapshot v) (stopped i)"
proof -
  have stamp: "triple (\<lambda>s. view_of s = v) (on_bundle (stamp_snapshot ds)) (\<lambda>u s. view_of s = stamped_view (Some ds) v) (stopped i)" for ds
    by (rule on_bundle_triple) (cases v; auto simp: bundle_view_def stamp_snapshot_def stamped_view_def)
  show ?thesis
    unfolding digest_step_def
    by (rule triple_option, rule triple_give, simp add: stamped_view_def, rule triple_seq [OF keeps_stopped [OF keeps_meanwhile assms]],
        rule triple_seq [OF keeps_stopped [OF keeps_look assms]], rule triple_sum, rule stop_pair_triple [OF assms], simp,
        rule triple_seq [OF stamp triple_give], simp)
qed

lemma plan_triple:
  assumes v: "prefix (pv_ran v) (shared_plan i)" "pv_checks v = []" "pv_invalid v = (True, True)"
  shows "triple (\<lambda>s. view_of s = v) (plan_step e i manifest strategy_dir pc snapshot)
    (\<lambda>plans s. \<not> in_plan_only i \<and> view_of s = v\<lparr>pv_plans := plans\<rparr>) (stopped i)"
proof -
  have ok: "behind_checks i (v\<lparr>pv_plans := plans\<rparr>)" "behind_checks i v" for plans
    using v by (auto intro: behind_checksI [of _ "pv_ran v" "[]" "[]"])
  have stamp: "triple (\<lambda>s. view_of s = v) (on_bundle (stamp_plans a b)) (\<lambda>u s. view_of s = v\<lparr>pv_plans := (a, b)\<rparr>) (stopped i)" for a b
    by (rule on_bundle_triple) (cases v; auto simp: bundle_view_def stamp_plans_def)
  have last_part: "triple (\<lambda>s. view_of s = v\<lparr>pv_plans := (a, b)\<rparr>) (if in_plan_only i then fail (Finish PlanOnly EXIT_VALID) else give (a, b))
      (\<lambda>plans s. \<not> in_plan_only i \<and> view_of s = v\<lparr>pv_plans := plans\<rparr>) (stopped i)" for a b
    by (rule triple_if, rule triple_fail, simp add: stopped_def not_valid_def ok v, rule triple_give, simp)
  show ?thesis
    unfolding plan_step_def Let_def
    by (rule triple_seq [OF keeps_stopped [OF keeps_or_escape ok(2) v(3)]], rule triple_sum, rule stop_pair_triple [OF ok(2) v(3)], simp,
        rule triple_seq [OF stamp last_part])
qed

text \<open>A pair that counts: what its bundle says, and what held of the files it started from.\<close>

definition pair_counted :: "ab_env \<Rightarrow> ab_inputs \<Rightarrow> files \<Rightarrow> pair_view \<Rightarrow> bool" where
  "pair_counted e i fs v \<longleftrightarrow>
     (\<exists>pc ds shared. world_of e i fs pc \<and> same_world_violations (pc_a pc) (pc_b pc) = [] \<and> treatment_isolated i fs \<and> freeze_agrees i fs pc \<and>
        pv_fps v = (Some (pc_a pc), Some (pc_b pc)) \<and> pv_snapshot v = Some ds \<and>
        pv_digests v = (Some (ds_digest ds), Some (ds_digest ds)) \<and> prefix shared (shared_plan i) \<and>
        pv_ran v = shared @ fst (pv_plans v) @ snd (pv_plans v) \<and>
        pv_steps v = (map (\<lambda>c. (c, 0)) (fst (pv_plans v)), map (\<lambda>c. (c, 0)) (snd (pv_plans v))) \<and>
        pv_checks v = [(PreArmA, []), (PreArmB, []), (PostArms, [])] \<and> pv_invalid v = (False, False))"

lemma body_triple:
  assumes opened: "open_session (en_host e) i fs = Inr (manifest, strategy_dir)"
  shows "triple (at_view fs (fresh_view (None, None))) (session_body e i manifest strategy_dir)
    (\<lambda>u s. pair_counted e i fs (view_of s)) (stopped i)"
proof -
  have ok: "behind_checks i (checked_view pc)" "pv_invalid (checked_view pc) = (True, True)" for pc
    using fresh_view_ok by (simp_all add: checked_view_def)
  let ?run = "\<lambda>pc cmds. (checked_view pc)\<lparr>pv_ran := cmds\<rparr>"
  have run_ok: "behind_checks i (stamped_view x (?run pc cmds))" "pv_invalid (stamped_view x (?run pc cmds)) = (True, True)"
    if "prefix cmds (shared_plan i)" for pc cmds x
    using that by (auto intro: behind_checksI [of _ cmds "[]" "[]"] simp: checked_view_def fresh_view_def)
  have run_ok': "behind_checks i (?run pc cmds)" "pv_invalid (?run pc cmds) = (True, True)"
    if "prefix cmds (shared_plan i)" for pc cmds
    using run_ok [OF that, of None] by (simp_all add: stamped_view_def)
  have arms: "triple (\<lambda>s. \<not> in_plan_only i \<and> view_of s = (stamped_view snapshot (?run pc cmds))\<lparr>pv_plans := plans\<rparr>)
      (case plans of (plan_a, plan_b) \<Rightarrow> case (account, snapshot) of
         (Some source, Some ds) \<Rightarrow> seq (seal_step e i (snapshot_paths_of i source) ds) (\<lambda>u.
           arms_step e manifest (snapshot_paths_of i source) ds plan_a plan_b)
       | _ \<Rightarrow> give ()) (\<lambda>u s. pair_counted e i fs (view_of s)) (stopped i)"
    if facts: "world_of e i fs pc" "same_world_violations (pc_a pc) (pc_b pc) = []" "treatment_isolated i fs" "freeze_agrees i fs pc"
      "prefix cmds (shared_plan i)" "account = None \<longrightarrow> in_plan_only i" "snapshot = None \<longleftrightarrow> account = None" for pc cmds account snapshot plans
  proof (rule triple_and)
    assume "\<not> in_plan_only i"
    with facts obtain source ds where some: "account = Some source" "snapshot = Some ds" by auto
    obtain plan_a plan_b where plans: "plans = (plan_a, plan_b)" by (cases plans)
    let ?v = "(stamped_view snapshot (?run pc cmds))\<lparr>pv_plans := plans\<rparr>"
    have v: "prefix (pv_ran ?v) (shared_plan i)" "pv_checks ?v = []" "pv_plans ?v = (plan_a, plan_b)" "pv_invalid ?v = (True, True)"
      using facts(5) plans by (simp_all add: checked_view_def fresh_view_def)
    have "behind_checks i ?v" using v by (intro behind_checksI [of _ "pv_ran ?v" "[]" "[]"]) simp_all
    note seal = keeps_stopped [OF keeps_seal this v(4)]
    have "pair_counted e i fs (pair_done ?v)"
      unfolding pair_counted_def using facts some plans
      by (intro exI [of _ pc] exI [of _ ds] exI [of _ cmds])
        (simp add: pair_done_def stamped_view_def checked_view_def fresh_view_def)
    then have whole: "triple (\<lambda>s. view_of s = ?v) (arms_step e manifest sp ds plan_a plan_b) (\<lambda>u s. pair_counted e i fs (view_of s)) (stopped i)" for sp
      by (intro triple_conseq [OF arms_triple [OF v]]) simp_all
    show "triple (\<lambda>s. view_of s = ?v) (case plans of (plan_a, plan_b) \<Rightarrow> case (account, snapshot) of
         (Some source, Some ds) \<Rightarrow> seq (seal_step e i (snapshot_paths_of i source) ds) (\<lambda>u.
           arms_step e manifest (snapshot_paths_of i source) ds plan_a plan_b)
       | _ \<Rightarrow> give ()) (\<lambda>u s. pair_counted e i fs (view_of s)) (stopped i)"
      using triple_seq [OF seal whole] by (simp add: some plans)
  qed
  show ?thesis
    unfolding session_body_def
    apply (rule triple_seq [OF precheck_triple [OF opened]], rule triple_and)
    apply (rule triple_seq [OF same_world_triple [OF ok]], rule triple_and)
    apply (rule triple_seq [OF treatment_triple [OF ok]], rule triple_and)
    apply (rule triple_seq [OF freeze_triple [OF ok]], rule triple_and)
    apply (rule triple_seq [OF account_triple])
       apply (simp_all add: checked_view_def fresh_view_def)[3]
    apply (rule triple_ex, rule triple_and)
    apply (rule triple_seq [OF digest_triple [OF run_ok']], simp, simp, rule triple_and)
    apply (rule triple_seq [OF keeps_stopped [OF keeps_conflict run_ok]], simp, simp)
    apply (rule triple_seq [OF plan_triple])
       apply (simp_all add: checked_view_def fresh_view_def)[3]
    apply (rule arms)
         apply simp_all
    done
qed

text \<open>The end of a call keeps all but the status.\<close>

definition escaped :: "(pair_view \<Rightarrow> bool) \<Rightarrow> ab_stop \<Rightarrow> ab_state \<Rightarrow> bool" where
  "escaped P x s \<longleftrightarrow> (\<exists>y. x = Escapes y) \<and> P (view_of s)"

lemma tried_simp: "tried m s = (fst (m s), Inr (snd (m s)))"
  by (simp add: tried_def split: prod.split)

lemma finish_triple:
  assumes "P v" and "P (v\<lparr>pv_status := status\<rparr>)"
  shows "triple (\<lambda>s. view_of s = v) (finish e i status code) (\<lambda>u s. view_of s = v\<lparr>pv_status := status\<rparr>) (escaped P)"
proof -
  let ?w = "v\<lparr>pv_status := status\<rparr>"
  have stamp: "triple (\<lambda>s. view_of s = v) (on_bundle (\<lambda>b. b\<lparr>bd_status := status, bd_exit := code\<rparr>)) (\<lambda>u s. view_of s = ?w) E" for E
    by (rule on_bundle_triple) (cases v; auto simp: bundle_view_def)
  have reads: "triple (\<lambda>s. view_of s = ?w) (look_files f) (\<lambda>x s. view_of s = ?w) E" for f :: "files \<Rightarrow> 'b" and E
    by (rule tripleI) (auto simp: look_files_def)
  have moment: "triple (\<lambda>s. view_of s = ?w) (meanwhile e m) (\<lambda>x s. view_of s = ?w) E" for m E
    unfolding meanwhile_def by (rule triple_modify) (simp add: view_of_def)
  have escape: "triple (\<lambda>s. view_of s = ?w) (or_escape r) (\<lambda>x s. view_of s = ?w) (escaped P)" for r :: "run_error + 'b"
    unfolding or_escape_def by (rule triple_lift) (use assms in \<open>cases r; auto simp: escaped_def\<close>)+
  have tried: "triple (\<lambda>s. view_of s = ?w) (tried (write_file e p x)) (\<lambda>x s. view_of s = ?w) E" for p x E
    by (simp add: triple_def tried_simp write_file_view)
  have written: "triple (\<lambda>s. view_of s = ?w) (write_json_atomic e p x) (\<lambda>x s. view_of s = ?w) (escaped P)" for p x
    unfolding write_json_atomic_def by (rule triple_seq [OF tried escape])
  have counted: "triple (\<lambda>s. view_of s = ?w) (update_counters e root excluded) (\<lambda>x s. view_of s = ?w) (escaped P)" for root excluded
    unfolding update_counters_def Let_def
    by (rule triple_seq [OF reads], rule triple_seq [OF escape], rule triple_seq [OF written], rule triple_give)
  have noted: "triple (\<lambda>s. view_of s = ?w) (on_bundle (\<lambda>b. b\<lparr>bd_counters := Some c\<rparr>)) (\<lambda>x s. view_of s = ?w) E" for c E
    by (rule on_bundle_triple) (simp add: bundle_view_def)
  have told: "triple (\<lambda>s. view_of s = ?w) notify_arms (\<lambda>x s. view_of s = ?w) E" for E
    unfolding notify_arms_def by (rule triple_modify) (simp add: view_of_def Let_def)
  have record_bundle: "triple (\<lambda>s. view_of s = ?w) (\<lambda>s. seq (write_json_atomic e p (f s)) (\<lambda>u. notify_arms) s) (\<lambda>x s. view_of s = ?w) (escaped P)" for p f
  proof -
    have "triple (\<lambda>s. view_of s = ?w) (seq (write_json_atomic e p x) (\<lambda>u. notify_arms)) (\<lambda>x s. view_of s = ?w) (escaped P)" for x
      by (rule triple_seq [OF written told])
    then show ?thesis by (simp add: triple_def)
  qed
  show ?thesis
    unfolding finish_def
    by (rule triple_seq [OF stamp], rule triple_if, rule triple_give, assumption, rule triple_seq [OF moment],
        rule triple_seq [OF counted], rule triple_seq [OF noted record_bundle])
qed

lemma pair_counted_behind: "pair_counted e i fs v \<Longrightarrow> behind_checks i v"
  unfolding pair_counted_def by (elim exE conjE) (rule behind_checksI, assumption, assumption, simp_all)

lemma status_free [simp]: "pair_counted e i fs (v\<lparr>pv_status := status\<rparr>) = pair_counted e i fs v"
  "behind_checks i (v\<lparr>pv_status := status\<rparr>) = behind_checks i v"
  by (simp_all add: pair_counted_def behind_checks_def)

definition session_ok :: "ab_env \<Rightarrow> ab_inputs \<Rightarrow> files \<Rightarrow> pair_view \<Rightarrow> bool" where
  "session_ok e i fs v \<longleftrightarrow> behind_checks i v \<and>
     (if pv_status v = Valid then pair_counted e i fs v else pv_invalid v = (True, True))"

lemma session_view:
  assumes "run_shadow_ab_session e i fs = (s, r)"
  shows "behind_checks i (view_of s) \<and> (case r of Inl x \<Rightarrow> True | Inr b \<Rightarrow> b = ab_bundle s \<and> session_ok e i fs (view_of s))"
proof -
  let ?s = "\<lparr>ab_files = fs, ab_ran = [], ab_notes = [], ab_bundle = new_bundle i\<rparr>"
  have start: "at_view fs (fresh_view (None, None)) ?s"
    by (simp add: view_of_def bundle_view_def fresh_view_def new_bundle_def arm_entry_of_def)
  show ?thesis
  proof (cases "open_session (en_host e) i fs")
    case (Inl x)
    with assms have "s = ?s" "r = Inl x" by (simp_all add: run_shadow_ab_session_def Let_def)
    with start show ?thesis using fresh_view_ok(1) by simp
  next
    case (Inr opened)
    obtain manifest dir where opened: "opened = (manifest, dir)" by (cases opened)
    note body_ok = body_triple [OF Inr [unfolded opened]]
    obtain s1 r1 where body: "session_body e i manifest dir ?s = (s1, r1)" by fastforce
    define ended where "ended = (case r1 of Inr u \<Rightarrow> finish e i Valid EXIT_VALID s1
        | Inl (Finish status code) \<Rightarrow> finish e i status code s1 | Inl (Escapes x) \<Rightarrow> (s1, Inl (Escapes x)))"
    obtain s2 r2 where e2: "ended = (s2, r2)" by (cases ended)
    have run: "s = s2" "r = (case r2 of Inr u \<Rightarrow> Inr (ab_bundle s2) | Inl (Escapes x) \<Rightarrow> Inl x | Inl (Finish status code) \<Rightarrow> Inr (ab_bundle s2))"
      using assms e2 unfolding ended_def
      by (simp_all add: run_shadow_ab_session_def Inr opened body Let_def split: sum.splits ab_stop.splits)
    have fin: "behind_checks i (view_of s2) \<and> (case r2 of Inr u \<Rightarrow> session_ok e i fs (view_of s2) | Inl x \<Rightarrow> \<exists>y. x = Escapes y)"
      if m: "finish e i status code s1 = (s2, r2)" and v: "behind_checks i (view_of s1)"
        "session_ok e i fs ((view_of s1)\<lparr>pv_status := status\<rparr>)" for status code
    proof -
      have "behind_checks i ((view_of s1)\<lparr>pv_status := status\<rparr>)" using v(2) by (simp add: session_ok_def)
      note f = finish_triple [where P = "behind_checks i" and v = "view_of s1", OF v(1) this]
      show ?thesis
      proof (cases r2)
        case (Inl x)
        from triple_Inl [OF f refl m [unfolded Inl]] have "(\<exists>y. x = Escapes y) \<and> behind_checks i (view_of s2)"
          unfolding escaped_def .
        with Inl show ?thesis by simp
      next
        case (Inr u)
        from triple_Inr [OF f refl m [unfolded Inr]] have w: "view_of s2 = (view_of s1)\<lparr>pv_status := status\<rparr>" .
        have "session_ok e i fs (view_of s2)" unfolding w by (rule v(2))
        with Inr show ?thesis unfolding session_ok_def by simp
      qed
    qed
    have last_part: "behind_checks i (view_of s2) \<and> (case r2 of Inr u \<Rightarrow> session_ok e i fs (view_of s2) | Inl x \<Rightarrow> \<exists>y. x = Escapes y)"
    proof (cases r1)
      case (Inr u)
      from triple_Inr [OF body_ok start body [unfolded Inr]] have c: "pair_counted e i fs (view_of s1)" .
      have m: "finish e i Valid EXIT_VALID s1 = (s2, r2)" using e2 unfolding ended_def Inr by simp
      show ?thesis
        by (rule fin [OF m pair_counted_behind [OF c]]) (simp add: session_ok_def pair_counted_behind [OF c] c)
    next
      case (Inl x)
      from triple_Inl [OF body_ok start body [unfolded Inl]]
      have st: "behind_checks i (view_of s1)" "pv_invalid (view_of s1) = (True, True)" "not_valid x"
        unfolding stopped_def by simp_all
      show ?thesis
      proof (cases x)
        case (Finish status code)
        have m: "finish e i status code s1 = (s2, r2)" using e2 unfolding ended_def Inl Finish by simp
        from st(3) have "status \<noteq> Valid" unfolding not_valid_def Finish by simp
        with st(1,2) show ?thesis
          by (intro fin [OF m st(1)]) (simp add: session_ok_def)
      next
        case (Escapes y)
        have "s2 = s1" "r2 = Inl (Escapes y)" using e2 unfolding ended_def Inl Escapes by simp_all
        with st(1) show ?thesis by simp
      qed
    qed
    show ?thesis
    proof (cases r2)
      case (Inr u)
      with last_part show ?thesis unfolding run by simp
    next
      case (Inl x)
      with last_part obtain y where "x = Escapes y" "behind_checks i (view_of s2)" by auto
      with Inl show ?thesis unfolding run by simp
    qed
  qed
qed

end
