(* ===== verification/PairOutcome.thy ===== *)
theory PairOutcome
  imports PairSafety
begin

text \<open>
  What a call of \<open>run_shadow_ab_session\<close> leaves behind: the arms that ran, the pair that counts, the counters over
  many calls, and the digest recorded for a date.
\<close>

section \<open>One call\<close>

text \<open>C11: Whatever a paired session does and however it ends, by a return or by an exception that leaves it, the
  commands it ran are, in this order, some of the shared input step, some first commands of the plan of arm A
  and some first commands of the plan of arm B as the bundle states them; a command of arm A ran only behind
  a passed check of the sealed inputs before arm A, and one of arm B only behind a passed check before arm B.\<close>

theorem arms_run_behind_checks:
  "case run_shadow_ab_session e i fs of (s, r) \<Rightarrow>
     \<exists>shared a b. ab_ran s = shared @ a @ b \<and> prefix shared (shared_plan i) \<and>
       prefix a (ae_planned (bd_a (ab_bundle s))) \<and> prefix b (ae_planned (bd_b (ab_bundle s))) \<and>
       (a = [] \<or> (PreArmA, []) \<in> set (bd_checks (ab_bundle s))) \<and>
       (b = [] \<or> (PreArmB, []) \<in> set (bd_checks (ab_bundle s)))"
proof -
  obtain s r where m: "run_shadow_ab_session e i fs = (s, r)" by fastforce
  have "behind_checks i (view_of s)" using session_view [OF m] by (rule conjunct1)
  then obtain shared a b where "ab_ran s = shared @ a @ b" "prefix shared (shared_plan i)"
      "prefix a (ae_planned (bd_a (ab_bundle s)))" "prefix b (ae_planned (bd_b (ab_bundle s)))"
      "a \<noteq> [] \<longrightarrow> (PreArmA, []) \<in> set (bd_checks (ab_bundle s))"
      "b \<noteq> [] \<longrightarrow> (PreArmB, []) \<in> set (bd_checks (ab_bundle s))"
    by (auto simp: behind_checks_def view_of_def bundle_view_def)
  then show ?thesis unfolding m by blast
qed

text \<open>C10: A pair counts only when both arms may be compared. When a session returns a bundle with the status
  valid, the arms as its files described them at the start shared one model, calibrator and data, their configurations differed in the treatment key
  alone, the experiment's freeze, when there was one, agreed, both arms carry the digest of the one snapshot,
  every command of both plans ran and ended well, the three checks of the sealed inputs found nothing and
  neither arm is invalidated. With any other status both arms are invalidated: never only one of them.\<close>

theorem pair_counts_together:
  "case run_shadow_ab_session e i fs of
     (s, Inl x) \<Rightarrow> True
   | (s, Inr b) \<Rightarrow>
       if bd_status b = Valid then
         (\<exists>pc ds shared. world_of e i fs pc \<and> same_world_violations (pc_a pc) (pc_b pc) = [] \<and> treatment_isolated i fs \<and>
            freeze_agrees i fs pc \<and> ae_fp (bd_a b) = Some (pc_a pc) \<and> ae_fp (bd_b b) = Some (pc_b pc) \<and>
            bd_snapshot b = Some ds \<and> ae_digest (bd_a b) = Some (ds_digest ds) \<and> ae_digest (bd_b b) = Some (ds_digest ds) \<and>
            prefix shared (shared_plan i) \<and> ab_ran s = shared @ ae_planned (bd_a b) @ ae_planned (bd_b b) \<and>
            ae_steps (bd_a b) = map (\<lambda>c. (c, 0)) (ae_planned (bd_a b)) \<and>
            ae_steps (bd_b b) = map (\<lambda>c. (c, 0)) (ae_planned (bd_b b)) \<and>
            bd_checks b = [(PreArmA, []), (PreArmB, []), (PostArms, [])] \<and>
            \<not> ae_invalidated (bd_a b) \<and> \<not> ae_invalidated (bd_b b))
       else ae_invalidated (bd_a b) \<and> ae_invalidated (bd_b b)"
proof -
  obtain s r where m: "run_shadow_ab_session e i fs = (s, r)" by fastforce
  show ?thesis
  proof (cases r)
    case (Inl x)
    then show ?thesis by (simp add: m)
  next
    case (Inr b)
    with session_view [OF m] have b: "b = ab_bundle s" "session_ok e i fs (view_of s)" by simp_all
    show ?thesis
    proof (cases "bd_status b = Valid")
      case True
      with b have "pair_counted e i fs (bundle_view (ab_ran s) b)" by (simp add: session_ok_def view_of_def bundle_view_def)
      with True show ?thesis unfolding m Inr by (simp add: pair_counted_def bundle_view_def)
    next
      case False
      with b have "ae_invalidated (bd_a b) \<and> ae_invalidated (bd_b b)" by (simp add: session_ok_def view_of_def bundle_view_def)
      with False show ?thesis unfolding m Inr by simp
    qed
  qed
qed

section \<open>What a call writes\<close>

lemma write_runs: "write_json_atomic e p v s = (t, Inr u) \<Longrightarrow>
  t = s\<lparr>ab_files := (ab_files s)(p := (Holds v, en_text_sha e v))\<rparr>"
  by (auto simp: write_json_atomic_def seq_def tried_simp write_file_def or_escape_def lift_def split: if_splits)

lemma seq_on_bundle: "seq (on_bundle f) k s = k () (s\<lparr>ab_bundle := f (ab_bundle s)\<rparr>)"
  by (simp add: seq_def on_bundle_def modify_def)

lemma seq_meanwhile: "seq (meanwhile e m) k s = k () (s\<lparr>ab_files := en_meanwhile e m (ab_files s)\<rparr>)"
  by (simp add: seq_def meanwhile_def modify_def)

lemma counters_not_bundle: "counters_path out \<noteq> bundle_path i"
  by (auto simp: counters_path_def bundle_path_def join_path_def is_absolute_def dest: arg_cong [of _ _ rev])

definition counted :: "ab_status \<Rightarrow> int \<times> int \<Rightarrow> int \<times> int" where
  "counted status c = (fst c + 1, if status \<noteq> Valid then snd c + 1 else snd c)"

lemma update_runs:
  assumes "update_counters e out excluded s = (t, Inr c')"
  shows "\<exists>c. read_counters (ab_files s) (counters_path out) = Inr c \<and> c' = (fst c + 1, if excluded then snd c + 1 else snd c) \<and>
    t = s\<lparr>ab_files := (ab_files s)(counters_path out := (Holds (counters_json c'), en_text_sha e (counters_json c')))\<rparr>"
proof (cases "read_counters (ab_files s) (counters_path out)")
  case (Inl x)
  with assms show ?thesis by (simp add: update_counters_def seq_def look_files_def or_escape_def lift_def)
next
  case (Inr c)
  let ?c = "(fst c + 1, if excluded then snd c + 1 else snd c)"
  from assms Inr have "seq (write_json_atomic e (counters_path out) (counters_json ?c)) (\<lambda>u. give ?c) s = (t, Inr c')"
    by (simp add: update_counters_def seq_def look_files_def or_escape_def lift_def Let_def)
  from seq_Inr [OF this] show ?thesis using Inr write_runs by (fastforce simp: give_def)
qed

lemma finish_runs:
  assumes m: "finish e i status code s = (t, Inr u)" and "\<not> in_plan_only i"
  shows "\<exists>c. read_counters (en_meanwhile e Finishing (ab_files s)) (counters_path (in_output_root i)) = Inr c \<and>
    fst (ab_files t (counters_path (in_output_root i))) = Holds (counters_json (counted status c)) \<and>
    fst (ab_files t (bundle_path i)) = Holds (bundle_json (ab_bundle t)) \<and>
    ab_bundle t = (ab_bundle s)\<lparr>bd_status := status, bd_exit := code, bd_counters := Some (counted status c)\<rparr>"
proof -
  let ?b = "(ab_bundle s)\<lparr>bd_status := status, bd_exit := code\<rparr>"
  let ?s = "s\<lparr>ab_bundle := ?b, ab_files := en_meanwhile e Finishing (ab_files s)\<rparr>"
  from assms have "seq (update_counters e (in_output_root i) (status \<noteq> Valid)) (\<lambda>c.
      seq (on_bundle (\<lambda>b. b\<lparr>bd_counters := Some c\<rparr>)) (\<lambda>u s.
      seq (write_json_atomic e (bundle_path i) (bundle_json (ab_bundle s))) (\<lambda>u. notify_arms) s)) ?s = (t, Inr u)"
    by (simp only: finish_def seq_on_bundle seq_meanwhile if_False) simp
  from seq_Inr [OF this] obtain s1 c' where s1: "update_counters e (in_output_root i) (status \<noteq> Valid) ?s = (s1, Inr c')"
    and s2: "seq (on_bundle (\<lambda>b. b\<lparr>bd_counters := Some c'\<rparr>)) (\<lambda>u s.
      seq (write_json_atomic e (bundle_path i) (bundle_json (ab_bundle s))) (\<lambda>u. notify_arms) s) s1 = (t, Inr u)" by blast
  from update_runs [OF s1] obtain c where c: "read_counters (ab_files ?s) (counters_path (in_output_root i)) = Inr c"
    and c': "c' = counted status c" and s1: "s1 = ?s\<lparr>ab_files := (ab_files ?s)(counters_path (in_output_root i) :=
       (Holds (counters_json c'), en_text_sha e (counters_json c')))\<rparr>" unfolding counted_def by blast
  let ?s2 = "s1\<lparr>ab_bundle := (ab_bundle s1)\<lparr>bd_counters := Some c'\<rparr>\<rparr>"
  from s2 have "seq (write_json_atomic e (bundle_path i) (bundle_json (ab_bundle ?s2))) (\<lambda>u. notify_arms) ?s2 = (t, Inr u)"
    unfolding seq_on_bundle by simp
  from seq_Inr [OF this] obtain s3 x where s3: "write_json_atomic e (bundle_path i) (bundle_json (ab_bundle ?s2)) ?s2 = (s3, Inr x)"
    and s4: "notify_arms s3 = (t, Inr u)" by blast
  have t: "ab_files t = ab_files s3" "ab_bundle t = ab_bundle s3" using s4 by (auto simp: notify_arms_def modify_def Let_def)
  show ?thesis
    unfolding t write_runs [OF s3] using c by (intro exI [of _ c]) (simp add: s1 c' counters_not_bundle)
qed

text \<open>With files that can be written and counters that can be read, the end of a call returns.\<close>

lemma finish_returns:
  assumes "\<And>p. en_can_write e p" and "read_counters (en_meanwhile e Finishing (ab_files s)) (counters_path (in_output_root i)) = Inr c"
    and "\<not> in_plan_only i"
  shows "\<exists>t. finish e i status code s = (t, Inr ()) \<and> bd_status (ab_bundle t) = status"
  using assms
  by (simp add: finish_def seq_on_bundle seq_meanwhile update_counters_def Let_def)
    (simp add: seq_def look_files_def or_escape_def lift_def write_json_atomic_def tried_simp write_file_def give_def
      on_bundle_def modify_def notify_arms_def Let_def)

section \<open>The digest of a date\<close>

text \<open>The bundle a call returns is the one it wrote.\<close>

lemma session_writes:
  assumes m: "run_shadow_ab_session e i fs = (s, Inr b)" and "\<not> in_plan_only i"
  shows "b = ab_bundle s" "fst (ab_files s (bundle_path i)) = Holds (bundle_json b)"
    "\<exists>c manifest strategy_dir s1 r. session_body e i manifest strategy_dir \<lparr>ab_files = fs, ab_ran = [], ab_notes = [], ab_bundle = new_bundle i\<rparr> = (s1, r) \<and>
       read_counters (en_meanwhile e Finishing (ab_files s1)) (counters_path (in_output_root i)) = Inr c \<and>
       fst (ab_files s (counters_path (in_output_root i))) = Holds (counters_json (counted (bd_status b) c))"
proof -
  let ?s = "\<lparr>ab_files = fs, ab_ran = [], ab_notes = [], ab_bundle = new_bundle i\<rparr>"
  obtain manifest dir where opened: "open_session (en_host e) i fs = Inr (manifest, dir)"
    using m by (cases "open_session (en_host e) i fs") (auto simp: run_shadow_ab_session_def Let_def)
  obtain s1 r1 where body: "session_body e i manifest dir ?s = (s1, r1)" by fastforce
  have "\<exists>status code. finish e i status code s1 = (s, Inr ()) \<and> b = ab_bundle s"
  proof -
    have no_finish: "finish e i status code s1 \<noteq> (t, Inl (Finish st cd))" for status code t st cd
      using triple_Inl [OF finish_triple [where P = "\<lambda>v. True" and v = "view_of s1"] refl] by (fastforce simp: escaped_def)
    consider "r1 = Inr ()" | status code where "r1 = Inl (Finish status code)" | x where "r1 = Inl (Escapes x)"
      by (metis ab_stop.exhaust old.unit.exhaust sum.exhaust)
    then show ?thesis
    proof cases
      case 1
      obtain t q where f: "finish e i Valid EXIT_VALID s1 = (t, q)" by fastforce
      with m no_finish [of Valid EXIT_VALID t] show ?thesis
        by (auto simp: run_shadow_ab_session_def Let_def opened body 1 split: sum.splits ab_stop.splits)
    next
      case (2 status code)
      obtain t q where f: "finish e i status code s1 = (t, q)" by fastforce
      with m no_finish [of status code t] show ?thesis
        by (auto simp: run_shadow_ab_session_def Let_def opened body 2 split: sum.splits ab_stop.splits)
    next
      case (3 x)
      with m show ?thesis by (simp add: run_shadow_ab_session_def Let_def opened body)
    qed
  qed
  then obtain status code where f: "finish e i status code s1 = (s, Inr ())" and b: "b = ab_bundle s" by blast
  from finish_runs [OF f assms(2)] obtain c where
    c: "read_counters (en_meanwhile e Finishing (ab_files s1)) (counters_path (in_output_root i)) = Inr c"
      "fst (ab_files s (counters_path (in_output_root i))) = Holds (counters_json (counted status c))"
      "fst (ab_files s (bundle_path i)) = Holds (bundle_json (ab_bundle s))"
      "ab_bundle s = (ab_bundle s1)\<lparr>bd_status := status, bd_exit := code, bd_counters := Some (counted status c)\<rparr>" by blast
  have "bd_status b = status" unfolding b c(4) by simp
  with c body show "\<exists>c manifest strategy_dir s1 r. session_body e i manifest strategy_dir ?s = (s1, r) \<and>
       read_counters (en_meanwhile e Finishing (ab_files s1)) (counters_path (in_output_root i)) = Inr c \<and>
       fst (ab_files s (counters_path (in_output_root i))) = Holds (counters_json (counted (bd_status b) c))" by blast
  show "b = ab_bundle s" by (rule b)
  show "fst (ab_files s (bundle_path i)) = Holds (bundle_json b)" unfolding b by (rule c(3))
qed

lemma recorded_digest:
  "fst ((fs :: files) p) = Holds (bundle_json b) \<Longrightarrow> bd_snapshot b = Some ds \<Longrightarrow> prior_digest fs p = Inr (JStr (ds_digest ds))"
  by (simp add: prior_digest_def read_value_def bundle_json_def receiver_def py_or_def dget_def)


section \<open>The counters over many calls\<close>

text \<open>Commands and others leave a file alone.\<close>

definition leaves :: "ab_env \<Rightarrow> string \<Rightarrow> bool" where
  "leaves e p \<longleftrightarrow> (\<forall>fs command. fst (en_run e command fs) p = fs p) \<and> (\<forall>fs m. en_meanwhile e m fs p = fs p)"

interpretation file_kept: step_order "\<lambda>s t. ab_files t p = ab_files s p" for p
  by unfold_locales simp_all

abbreviation keeps_file :: "string \<Rightarrow> 'a ab_step \<Rightarrow> bool" where
  "keeps_file p m \<equiv> moves (\<lambda>s t. ab_files t p = ab_files s p) m"

named_theorems file_keeping \<open>steps that leave a file alone\<close>

declare file_kept.moves_intros [file_keeping]

lemma keeps_file_on_bundle [file_keeping]: "keeps_file p (on_bundle f)"
  by (simp add: moves_def on_bundle_def modify_def)

lemma keeps_file_look [file_keeping]: "keeps_file p (look_files f)"
  by (simp add: moves_def look_files_def)

lemma keeps_file_or_escape [file_keeping]: "keeps_file p (or_escape r)"
  by (simp add: moves_def or_escape_def lift_def)

lemma keeps_file_meanwhile [file_keeping]: "leaves e p \<Longrightarrow> keeps_file p (meanwhile e m)"
  by (simp add: moves_def meanwhile_def modify_def leaves_def)

lemma keeps_file_write [file_keeping]: "q \<noteq> p \<Longrightarrow> keeps_file p (write_json_atomic e q v)"
  unfolding write_json_atomic_def
  by (intro file_keeping) (simp add: moves_def tried_simp write_file_def)

lemma keeps_file_stop [file_keeping]: "keeps_file p (stop_pair reasons cause code status)"
  unfolding stop_pair_def by (intro file_keeping)

lemma keeps_file_steps [file_keeping]: "leaves e p \<Longrightarrow> keeps_file p (run_steps e plan)"
proof (induction plan)
  case (Cons c plan)
  have "keeps_file p (\<lambda>s. case en_run e c (ab_files s) of (fs, r) \<Rightarrow> (s\<lparr>ab_files := fs, ab_ran := ab_ran s @ [c]\<rparr>, map_sum Escapes id r))"
    using Cons.prems by (auto simp: moves_def leaves_def split: prod.split) (metis fst_conv)
  with Cons show ?case by (auto intro!: file_keeping)
qed (simp add: file_keeping)

lemma keeps_file_seal_or_stop:
  assumes "dest \<noteq> p" shows "keeps_file p (seal_or_stop e source dest)"
proof -
  have "keeps_file p (tried (seal_snapshot e source dest))"
    using assms by (auto simp: moves_def tried_simp seal_snapshot_def write_file_def split: sum.split json.split prod.split)
  then show ?thesis unfolding seal_or_stop_def by (auto intro!: file_keeping)
qed

lemma keeps_file_precheck_failure: "keeps_file p (precheck_failure x)"
  unfolding precheck_failure_def by (cases x) (auto intro!: file_keeping)

text \<open>No file of a session is the counters file.\<close>

lemma counters_apart [simp]: "freeze_path i \<noteq> counters_path out"
  "sealed_path i ''market_snapshot.json'' \<noteq> counters_path out" "sealed_path i ''account_snapshot.json'' \<noteq> counters_path out"
  "sealed_path i ''decision_snapshot.json'' \<noteq> counters_path out"
  by (auto simp: counters_path_def freeze_path_def sealed_path_def join_path_def is_absolute_def dest: arg_cong [of _ _ rev])

lemma keeps_counters_body:
  assumes "leaves e (counters_path out)"
  shows "keeps_file (counters_path out) (session_body e i manifest strategy_dir)"
  unfolding session_body_def precheck_step_def same_world_step_def treatment_step_def freeze_step_def
    compare_freeze_def account_step_def digest_step_def conflict_step_def plan_step_def seal_step_def arms_step_def
    verify_world_def quarantine_step_def settle_arms_def Let_def
  by (intro file_keeping keeps_file_seal_or_stop keeps_file_precheck_failure assms) (simp_all add: snapshot_paths_of_def)

text \<open>Calls one after the other, until one raises.\<close>

fun run_pairs :: "ab_env \<Rightarrow> ab_inputs list \<Rightarrow> files \<Rightarrow> files \<times> (run_error + ab_bundle list)" where
  "run_pairs e [] fs = (fs, Inr [])"
| "run_pairs e (i # calls) fs =
     (case run_shadow_ab_session e i fs of
        (s, Inl x) \<Rightarrow> (ab_files s, Inl x)
      | (s, Inr b) \<Rightarrow> (case run_pairs e calls (ab_files s) of (fs', r) \<Rightarrow> (fs', map_sum id ((#) b) r)))"

lemma counters_read_back: "fst (fs p) = Holds (counters_json c) \<Longrightarrow> read_counters fs p = Inr c" for fs :: files
  by (cases c) (simp add: read_counters_def read_value_def counters_json_def receiver_def dget_def)

lemma read_counters_at: "gs p = fs p \<Longrightarrow> read_counters gs p = read_counters fs p"
  by (simp add: read_counters_def read_value_def)

lemma run_pairs_Cons:
  assumes "run_pairs e (i # calls) fs = (fs', Inr bundles)"
  obtains s b bs where "run_shadow_ab_session e i fs = (s, Inr b)" "run_pairs e calls (ab_files s) = (fs', Inr bs)" "bundles = b # bs"
proof -
  obtain s r where one: "run_shadow_ab_session e i fs = (s, r)" by fastforce
  with assms obtain b where b: "r = Inr b" by (cases r) auto
  obtain gs q where rest: "run_pairs e calls (ab_files s) = (gs, q)" by fastforce
  from assms obtain bs where "q = Inr bs" "gs = fs'" "bundles = b # bs" by (cases q) (auto simp: one b rest)
  then show ?thesis using that one rest b by blast
qed

lemma one_call_counts:
  assumes "leaves e (counters_path (in_output_root i))" "\<not> in_plan_only i" "run_shadow_ab_session e i fs = (s, Inr b)"
    "read_counters fs (counters_path (in_output_root i)) = Inr c"
  shows "read_counters (ab_files s) (counters_path (in_output_root i)) = Inr (counted (bd_status b) c)"
proof -
  let ?p = "counters_path (in_output_root i)" and ?s = "\<lparr>ab_files = fs, ab_ran = [], ab_notes = [], ab_bundle = new_bundle i\<rparr>"
  from session_writes(3) [OF assms(3,2)] obtain c' manifest dir s1 r where
    body: "session_body e i manifest dir ?s = (s1, r)"
    and c': "read_counters (en_meanwhile e Finishing (ab_files s1)) ?p = Inr c'"
    and out: "fst (ab_files s ?p) = Holds (counters_json (counted (bd_status b) c'))" by blast
  have "ab_files s1 ?p = fs ?p"
    using file_kept.moves_at [OF keeps_counters_body [OF assms(1)], of i manifest dir ?s] by (simp add: body)
  with assms(1) have "en_meanwhile e Finishing (ab_files s1) ?p = fs ?p" by (simp add: leaves_def)
  then have "read_counters (en_meanwhile e Finishing (ab_files s1)) ?p = read_counters fs ?p" by (rule read_counters_at)
  with c' assms(4) have "c' = c" by simp
  with out show ?thesis by (simp add: counters_read_back)
qed

text \<open>C13: The counters count. Over any calls of the session on one output root that return their bundle and are
  not plans, with commands that leave the counters file alone, the file ends with as many attempted pairs
  more as there were calls and as many excluded pairs more as there were calls that did not end valid.\<close>

theorem counters_count_pairs:
  assumes "leaves e (counters_path out)" and "\<forall>i \<in> set calls. in_output_root i = out \<and> \<not> in_plan_only i"
    and "run_pairs e calls fs = (fs', Inr bundles)" and "read_counters fs (counters_path out) = Inr (attempted, excluded)"
  shows "read_counters fs' (counters_path out) = Inr (attempted + int (length calls),
    excluded + int (length (filter (\<lambda>b. bd_status b \<noteq> Valid) bundles)))"
  using assms(2-4)
proof (induction calls arbitrary: fs attempted excluded bundles)
  case Nil
  then show ?case by simp
next
  case (Cons i calls)
  from Cons.prems(2) obtain s b bs where one: "run_shadow_ab_session e i fs = (s, Inr b)"
    and rest: "run_pairs e calls (ab_files s) = (fs', Inr bs)" "bundles = b # bs"
    by (rule run_pairs_Cons)
  from Cons.prems(1) have i: "in_output_root i = out" "\<not> in_plan_only i" by simp_all
  have "read_counters (ab_files s) (counters_path out) = Inr (counted (bd_status b) (attempted, excluded))"
    using one_call_counts [OF _ i(2) one, unfolded i(1), OF assms(1) Cons.prems(3)] .
  from Cons.IH [OF _ rest(1) this [unfolded counted_def fst_conv snd_conv]] Cons.prems(1)
  show ?case by (simp add: rest(2))
qed

text \<open>Two calls on a directory without the configurations.\<close>

definition demo_pair_env :: ab_env where
  "demo_pair_env = \<lparr>en_host = \<lparr>ab_disk = \<lparr>dk_resolve = \<lambda>p. [p], dk_exists = \<lambda>p. True\<rparr>, ab_is_dir = \<lambda>p. True,
       ab_fingerprint = \<lambda>p. Inr ''m'', ab_sha = \<lambda>v. ''s'', ab_probe = \<lambda>p. \<lparr>ck_is_dir = True, ck_head = None, ck_status = None\<rparr>,
       ab_commit = Inr ''1'', ab_now = ''n''\<rparr>,
     en_run = \<lambda>c fs. (fs, Inr 0), en_meanwhile = \<lambda>m fs. fs, en_can_write = \<lambda>p. True, en_text_sha = \<lambda>v. ''w'',
     en_quarantine = \<lambda>fs. Inr []\<rparr>"

definition demo_pair :: ab_inputs where
  "demo_pair = \<lparr>in_config_a = ''a'', in_config_b = ''b'', in_tag_a = FROZEN_TAG_A, in_tag_b = FROZEN_TAG_B, in_data_manifest = ''d'',
     in_output_root = ''o'', in_market = ''k'', in_account = Some ''p'', in_date = ''1'', in_repo_root = ''r'',
     in_strategy_dir = Some ''c'', in_github_root = ''g'', in_ohlcv = None, in_run_manifest = None, in_broker = ''q'',
     in_topic = None, in_plan_only = False, in_env = []\<rparr>"

definition demo_counted :: files where
  "demo_counted p = (if p = counters_path ''o'' then (Holds (counters_json (4, 2)), []) else (Missing, []))"

lemma demo_refused:
  "\<exists>s b. run_shadow_ab_session demo_pair_env demo_pair demo_counted = (s, Inr b) \<and> bd_status b = Invalidated"
proof -
  have a: "counters_path ''o'' = ''o/shadow_ab_counters.json''" by (simp add: counters_path_def join_path_def is_absolute_def starts_with_def)
  have opened: "open_session (en_host demo_pair_env) demo_pair demo_counted = Inr (None, ''c'')"
    by (simp add: open_session_def demo_pair_def demo_pair_env_def strategy_of_def validate_tags_def validate_ntfy_topic_def validate_output_root_def)
  have checked: "precheck_pair (en_host demo_pair_env) demo_pair demo_counted ''c'' (None, None) = Inl RunOsError"
    by (simp add: precheck_pair_def resolve_arm_fingerprints_def read_value_def demo_counted_def demo_pair_def a)
  have counters: "read_counters demo_counted (counters_path ''o'') = Inr (4, 2)"
    by (rule counters_read_back) (simp add: demo_counted_def)
  let ?s = "\<lparr>ab_files = demo_counted, ab_ran = [], ab_notes = [], ab_bundle = new_bundle demo_pair\<rparr>"
  obtain t where body: "session_body demo_pair_env demo_pair None ''c'' ?s = (t, Inl (Finish Invalidated EXIT_PRECHECK_ABORT))"
    and t: "ab_files t = demo_counted"
    by (simp add: session_body_def precheck_step_def check_manifest_def seq_def checked on_bundle_def modify_def look_files_def
        precheck_failure_def stop_pair_def fail_def)
  have "\<exists>u. finish demo_pair_env demo_pair Invalidated EXIT_PRECHECK_ABORT t = (u, Inr ()) \<and> bd_status (ab_bundle u) = Invalidated"
    by (rule finish_returns) (use counters t in \<open>simp_all add: demo_pair_env_def demo_pair_def\<close>)
  then obtain u where "finish demo_pair_env demo_pair Invalidated EXIT_PRECHECK_ABORT t = (u, Inr ())" "bd_status (ab_bundle u) = Invalidated"
    by blast
  then show ?thesis by (simp add: run_shadow_ab_session_def Let_def opened body)
qed

theorem counters_count_pairs_witness:
  "read_counters (fst (run_pairs demo_pair_env [demo_pair] demo_counted)) (counters_path ''o'') = Inr (5, 3)"
proof -
  from demo_refused obtain s b where one: "run_shadow_ab_session demo_pair_env demo_pair demo_counted = (s, Inr b)" "bd_status b = Invalidated" by blast
  have run: "run_pairs demo_pair_env [demo_pair] demo_counted = (ab_files s, Inr [b])" by (simp add: one)
  have "leaves demo_pair_env (counters_path ''o'')" by (simp add: leaves_def demo_pair_env_def)
  moreover have "\<forall>i \<in> set [demo_pair]. in_output_root i = ''o'' \<and> \<not> in_plan_only i" by (simp add: demo_pair_def)
  moreover have "read_counters demo_counted (counters_path ''o'') = Inr (4, 2)" by (rule counters_read_back) (simp add: demo_counted_def)
  ultimately have "read_counters (ab_files s) (counters_path ''o'') = Inr (4 + int (length [demo_pair]),
      2 + int (length (filter (\<lambda>b. bd_status b \<noteq> Valid) [b])))" using run by (rule_tac counters_count_pairs)
  then show ?thesis by (simp add: one)
qed

end
