(* ===== verification/NativeContext.thy ===== *)
theory NativeContext
  imports ShadowSession
begin

text \<open>
  The context builder of \<open>native_live_context.py\<close>: what an arm reads, and what it checks of it before it
  goes on. Option parsing is left out; the repository root used when none is given is an argument.
\<close>

section \<open>The builder\<close>

definition NATIVE_CONTEXT_PRODUCER :: string where
  "NATIVE_CONTEXT_PRODUCER = ''renquant_orchestrator.native_live_context''"

record context_args =
  cx_config :: string
  cx_market :: string
  cx_account :: string
  cx_output :: string
  cx_metadata :: "string option"
  cx_digest :: "string option"
  cx_model :: "string option"
  cx_calibrator :: "string option"
  cx_date :: "string option"
  cx_strategy_dir :: "string option"
  cx_repo_root :: "string option"
  cx_store :: "string option"

datatype context_problem = InputsUnreadable run_error | DigestDiffers string | ArtifactDiffers artifact_problem

text \<open>\<open>DecisionSnapshotMismatchError\<close> and the other exceptions.\<close>

datatype context_error = WorldMismatch context_problem | ContextRaised run_error

definition context_anchors :: "ab_host \<Rightarrow> string \<Rightarrow> context_args \<Rightarrow> anchors" where
  "context_anchors h default_repo a = \<lparr>
     an_strategy_dir = (case cx_strategy_dir a of
         Some d \<Rightarrow> d | None \<Rightarrow> path_text (butlast (dk_resolve (ab_disk h) (cx_config a)))),
     an_repo_root = (case cx_repo_root a of Some r \<Rightarrow> r | None \<Rightarrow> default_repo), an_store = cx_store a\<rparr>"

text \<open>The identity of the inputs this call reads; an unreadable or invalid input is a mismatch.\<close>

definition consumed_identity ::
    "ab_host \<Rightarrow> files \<Rightarrow> context_args \<Rightarrow> string \<Rightarrow> string \<Rightarrow> context_error + decision_snapshot" where
  "consumed_identity h fs a model date =
     (case decision_snapshot_identity h fs (cx_market a) (cx_account a) date model (cx_calibrator a) of
        Inr ds \<Rightarrow> Inr ds
      | Inl RunOsError \<Rightarrow> Inl (WorldMismatch (InputsUnreadable RunOsError))
      | Inl (RunRaised ValueError) \<Rightarrow> Inl (WorldMismatch (InputsUnreadable (RunRaised ValueError)))
      | Inl x \<Rightarrow> Inl (ContextRaised x))"

definition verify_consumed ::
    "ab_host \<Rightarrow> string \<Rightarrow> context_args \<Rightarrow> files \<Rightarrow> json dict \<Rightarrow> string \<Rightarrow> context_error + json dict" where
  "verify_consumed h default_repo a fs config digest =
     (case (cx_model a, cx_date a) of
        (Some model, Some date) \<Rightarrow>
          (case consumed_identity h fs a model date of Inl x \<Rightarrow> Inl x | Inr ds \<Rightarrow>
           if ds_digest ds \<noteq> digest then Inl (WorldMismatch (DigestDiffers (ds_digest ds)))
           else case verify_config_artifact_shas (ab_disk h) (ab_fingerprint h) (context_anchors h default_repo a) config
                  model (cx_calibrator a) of
               Inl (ArtifactMismatch p) \<Rightarrow> Inl (WorldMismatch (ArtifactDiffers p))
             | Inl (ArtifactRaised x) \<Rightarrow> Inl (ContextRaised (RunRaised x))
             | Inr shas \<Rightarrow> Inr [(''decision_snapshot_digest'', JStr (ds_digest ds)), (''decision_snapshot_verified'', JBool True),
                 (''market_snapshot_sha256'', JStr (ds_market_sha ds)), (''account_snapshot_sha256'', JStr (ds_account_sha ds)),
                 (''config_artifact_shas_verified'', JBool True)])
      | _ \<Rightarrow> Inl (ContextRaised (RunRaised ValueError)))"

definition context_payload :: "context_args \<Rightarrow> json dict \<Rightarrow> json dict \<Rightarrow> json dict \<Rightarrow> json dict \<Rightarrow> json dict \<Rightarrow> json dict" where
  "context_payload a config market account metadata checked =
     [(''schema_version'', JInt 1), (''source'', JStr ''native_live_context_fixture''), (''config'', JObj config),
      (''market_snapshot'', JObj market), (''account_snapshot'', JObj account),
      (''metadata'', JObj (foldl (\<lambda>d (k, v). dset d k v) metadata
         ((''native_context_producer'', JObj [(''source'', JStr NATIVE_CONTEXT_PRODUCER),
            (''strategy_config_json'', JStr (cx_config a)), (''market_snapshot_json'', JStr (cx_market a)),
            (''account_snapshot_json'', JStr (cx_account a))]) # checked)))]"

definition context_of :: "ab_host \<Rightarrow> string \<Rightarrow> context_args \<Rightarrow> files \<Rightarrow> context_error + json dict" where
  "context_of h default_repo a fs =
     (case (case cx_metadata a of Some (c # p) \<Rightarrow> load_json_object fs (c # p) | _ \<Rightarrow> Inr []) of
        Inl x \<Rightarrow> Inl (ContextRaised x) | Inr metadata \<Rightarrow>
      case load_json_object fs (cx_market a) of Inl x \<Rightarrow> Inl (ContextRaised x) | Inr market \<Rightarrow>
      case load_json_object fs (cx_config a) of Inl x \<Rightarrow> Inl (ContextRaised x) | Inr config \<Rightarrow>
      case (case cx_digest a of None \<Rightarrow> Inr [] | Some digest \<Rightarrow> verify_consumed h default_repo a fs config digest) of
        Inl x \<Rightarrow> Inl x | Inr checked \<Rightarrow>
      case load_json_object fs (cx_account a) of Inl x \<Rightarrow> Inl (ContextRaised x) | Inr account \<Rightarrow>
      Inr (context_payload a config market account metadata checked))"

definition build_native_live_context :: "ab_env \<Rightarrow> string \<Rightarrow> context_args \<Rightarrow> files \<Rightarrow> files \<times> (context_error + json dict)" where
  "build_native_live_context e default_repo a fs =
     (case context_of (en_host e) default_repo a fs of
        Inl x \<Rightarrow> (fs, Inl x)
      | Inr payload \<Rightarrow>
          if en_can_write e (cx_output a)
          then (fs(cx_output a := (Holds (JObj payload), en_text_sha e (JObj payload))), Inr payload)
          else (fs, Inl (ContextRaised RunOsError)))"

text \<open>The exit code of the command, when no exception leaves it.\<close>

definition context_main :: "ab_env \<Rightarrow> string \<Rightarrow> context_args \<Rightarrow> files \<Rightarrow> files \<times> (run_error + int)" where
  "context_main e default_repo a fs =
     (case build_native_live_context e default_repo a fs of
        (fs', Inl (WorldMismatch p)) \<Rightarrow> (fs', Inr 2)
      | (fs', Inl (ContextRaised x)) \<Rightarrow> (fs', Inl x)
      | (fs', Inr payload) \<Rightarrow> (fs', Inr 0))"

section \<open>The arm's context and the precheck\<close>

text \<open>What the options of the first command of \<open>build_arm_plan\<close> say.\<close>

definition arm_context_args :: "plan_inputs \<Rightarrow> string \<Rightarrow> string \<Rightarrow> context_args" where
  "arm_context_args i config dir = \<lparr>cx_config = config, cx_market = pi_market i, cx_account = pi_account i,
     cx_output = join_path dir ''native_context.json'', cx_metadata = None, cx_digest = Some (pi_digest i),
     cx_model = Some (pi_model i), cx_calibrator = pi_calibrator i, cx_date = Some (pi_date i),
     cx_strategy_dir = Some (pi_strategy_dir i), cx_repo_root = Some (pi_repo_root i), cx_store = pi_store i\<rparr>"

text \<open>The check at the arm finds the fingerprints the precheck found.\<close>

lemma artifact_sha_resolved:
  "artifact_sha h an ref = Inr sha \<Longrightarrow>
   resolved_sha (ab_disk h) (ab_fingerprint h)
     \<lparr>an_strategy_dir = aa_strategy_dir an, an_repo_root = aa_repo_root an, an_store = aa_store an\<rparr> ref p = Inr sha"
  by (auto simp: artifact_sha_def resolved_sha_def split: json.splits option.splits sum.splits)

lemma precheck_agrees:
  assumes "resolve_arm_fingerprints h fs an config data = Inr fp"
  obtains c where "load_json_object fs config = Inr c"
    "verify_config_artifact_shas (ab_disk h) (ab_fingerprint h)
       \<lparr>an_strategy_dir = aa_strategy_dir an, an_repo_root = aa_repo_root an, an_store = aa_store an\<rparr> c
       (fp_model fp) (fp_calibrator fp) = Inr (fp_model fp, fp_calibrator fp)"
proof -
  let ?an = "\<lparr>an_strategy_dir = aa_strategy_dir an, an_repo_root = aa_repo_root an, an_store = aa_store an\<rparr>"
  from assms obtain v where v: "read_value fs config = Inr v"
    by (cases "read_value fs config") (auto simp: resolve_arm_fingerprints_def)
  from assms obtain model_ref calibrator_ref where refs: "config_refs v = Inr (model_ref, calibrator_ref)"
    by (cases "config_refs v") (auto simp: resolve_arm_fingerprints_def v)
  from assms have model: "artifact_sha h an (JStr model_ref) = Inr (fp_model fp)"
    and calibrator: "calibrator_sha h an calibrator_ref = Inr (fp_calibrator fp)"
    by (auto simp: resolve_arm_fingerprints_def v refs split: sum.splits)
  from refs obtain c where c: "v = JObj c" "panel_artifact_refs c = Inr (model_ref, calibrator_ref)"
    by (cases v) (auto simp: config_refs_def receiver_def split: sum.splits py_error.splits)
  have "check_calibrator (ab_disk h) (ab_fingerprint h) ?an calibrator_ref (fp_calibrator fp) = Inr (fp_calibrator fp)"
  proof (cases calibrator_ref)
    case None
    with calibrator show ?thesis by (auto simp: calibrator_sha_def check_calibrator_def)
  next
    case (Some r)
    with calibrator obtain sha where "artifact_sha h an r = Inr sha" "fp_calibrator fp = Some sha"
      by (cases "artifact_sha h an r") (auto simp: calibrator_sha_def)
    with Some show ?thesis by (simp add: check_calibrator_def artifact_sha_resolved)
  qed
  then show ?thesis
    by (intro that [of c]) (simp_all add: load_json_object_def v c verify_config_artifact_shas_def artifact_sha_resolved [OF model])
qed

text \<open>C17: The check at the arm and the check before the arms agree. When the runner's precheck found the model and
  calibrator fingerprints of an arm, the arm's own context builder, called as the plan says and able to write its
  output, succeeds exactly when the market and account snapshots it reads have the digest it was handed, and
  then the context it writes names that digest; otherwise it writes nothing.\<close>

theorem arm_context_agrees:
  assumes fp: "resolve_arm_fingerprints (en_host e) fs
      \<lparr>aa_strategy_dir = pi_strategy_dir i, aa_repo_root = pi_repo_root i, aa_store = pi_store i\<rparr> config data = Inr fp"
    and "fp_model fp = pi_model i" "fp_calibrator fp = pi_calibrator i"
    and "en_can_write e (join_path dir ''native_context.json'')"
  shows "case build_native_live_context e default_repo (arm_context_args i config dir) fs of
     (fs', Inr payload) \<Rightarrow>
        (\<exists>ds. decision_snapshot_identity (en_host e) fs (pi_market i) (pi_account i) (pi_date i) (pi_model i) (pi_calibrator i) = Inr ds \<and>
           ds_digest ds = pi_digest i \<and> (\<exists>metadata. dget payload ''metadata'' JNull = JObj metadata \<and>
             dget metadata ''decision_snapshot_digest'' JNull = JStr (pi_digest i)))
   | (fs', Inl x) \<Rightarrow> fs' = fs \<and>
        (\<nexists>ds. decision_snapshot_identity (en_host e) fs (pi_market i) (pi_account i) (pi_date i) (pi_model i) (pi_calibrator i) = Inr ds \<and>
           ds_digest ds = pi_digest i)"
proof -
  let ?a = "arm_context_args i config dir" and ?h = "en_host e"
  let ?id = "decision_snapshot_identity ?h fs (pi_market i) (pi_account i) (pi_date i) (pi_model i) (pi_calibrator i)"
  from precheck_agrees [OF fp] obtain c where c: "load_json_object fs config = Inr c"
    and shas: "verify_config_artifact_shas (ab_disk ?h) (ab_fingerprint ?h) (context_anchors ?h default_repo ?a) c
      (pi_model i) (pi_calibrator i) = Inr (pi_model i, pi_calibrator i)"
    using assms(2,3) by (auto simp: context_anchors_def arm_context_args_def)
  have a: "cx_model ?a = Some (pi_model i)" "cx_date ?a = Some (pi_date i)" "cx_market ?a = pi_market i" "cx_account ?a = pi_account i"
    "cx_calibrator ?a = pi_calibrator i" "cx_digest ?a = Some (pi_digest i)" "cx_metadata ?a = None" "cx_config ?a = config"
    by (simp_all add: arm_context_args_def)
  show ?thesis
  proof (cases "\<exists>ds. ?id = Inr ds \<and> ds_digest ds = pi_digest i")
    case True
    then obtain ds where ds: "?id = Inr ds" "ds_digest ds = pi_digest i" by blast
    from ds(1) obtain market account where files: "load_json_object fs (pi_market i) = Inr market" "load_json_object fs (pi_account i) = Inr account"
      by (auto simp: decision_snapshot_identity_def split: sum.splits)
    have "verify_consumed ?h default_repo ?a fs c (pi_digest i) = Inr [(''decision_snapshot_digest'', JStr (pi_digest i)), (''decision_snapshot_verified'', JBool True),
                 (''market_snapshot_sha256'', JStr (ds_market_sha ds)), (''account_snapshot_sha256'', JStr (ds_account_sha ds)),
                 (''config_artifact_shas_verified'', JBool True)]"
      by (simp add: verify_consumed_def consumed_identity_def a ds shas)
    then have "\<exists>payload. context_of ?h default_repo ?a fs = Inr payload \<and> (\<exists>metadata. dget payload ''metadata'' JNull = JObj metadata \<and>
             dget metadata ''decision_snapshot_digest'' JNull = JStr (pi_digest i))"
      by (simp add: context_of_def a c files context_payload_def dget_def)
    with ds assms(4) show ?thesis by (auto simp: build_native_live_context_def arm_context_args_def)
  next
    case False
    then have "\<exists>x. verify_consumed ?h default_repo ?a fs c (pi_digest i) = Inl x"
      by (auto simp: verify_consumed_def consumed_identity_def a split: sum.splits run_error.splits py_error.splits)
    then have "\<exists>x. context_of ?h default_repo ?a fs = Inl x"
      by (auto simp: context_of_def a c split: sum.splits)
    with False show ?thesis by (auto simp: build_native_live_context_def)
  qed
qed

text \<open>An arm whose files are there, under a hash that is the same for all.\<close>

definition demo_context_env :: ab_env where
  "demo_context_env = \<lparr>en_host = \<lparr>ab_disk = \<lparr>dk_resolve = \<lambda>p. [p], dk_exists = \<lambda>p. True\<rparr>, ab_is_dir = \<lambda>p. True,
       ab_fingerprint = \<lambda>p. Inr ''m'', ab_sha = \<lambda>v. ''s'', ab_probe = \<lambda>p. \<lparr>ck_is_dir = True, ck_head = None, ck_status = None\<rparr>,
       ab_commit = Inr ''1'', ab_now = ''n''\<rparr>,
     en_run = \<lambda>c fs. (fs, Inr 0), en_meanwhile = \<lambda>m fs. fs, en_can_write = \<lambda>p. True, en_text_sha = \<lambda>v. ''w'',
     en_quarantine = \<lambda>fs. Inr []\<rparr>"

definition demo_arm_plan :: plan_inputs where
  "demo_arm_plan = \<lparr>pi_market = ''k'', pi_account = ''p'', pi_strategy_dir = ''c'', pi_date = ''1'', pi_digest = ''s'', pi_model = ''m'',
     pi_calibrator = None, pi_repo_root = ''r'', pi_ohlcv = None, pi_revision = None, pi_store = None\<rparr>"

definition demo_context_files :: files where
  "demo_context_files p =
     (if p = ''a'' then (Holds (JObj [(''panel_ltr'', JObj [(''artifact_path'', JStr ''x'')])]), ''h'')
      else if p = ''k'' then (Holds (JObj [(''as_of'', JStr ''t'')]), ''k'')
      else if p = ''p'' \<or> p = ''d'' then (Holds (JObj []), ''p'') else (Missing, []))"

lemma demo_arm_found:
  "resolve_arm_fingerprints (en_host demo_context_env) demo_context_files
     \<lparr>aa_strategy_dir = pi_strategy_dir demo_arm_plan, aa_repo_root = pi_repo_root demo_arm_plan, aa_store = pi_store demo_arm_plan\<rparr> ''a'' ''d'' =
   Inr \<lparr>fp_config = ''h'', fp_model = ''m'', fp_calibrator = None, fp_data = ''p''\<rparr>"
  by code_simp

theorem arm_context_agrees_witness:
  "\<exists>fs' payload. build_native_live_context demo_context_env ''r'' (arm_context_args demo_arm_plan ''a'' ''o'') demo_context_files = (fs', Inr payload)"
proof -
  let ?fp = "\<lparr>fp_config = ''h'', fp_model = ''m'', fp_calibrator = None, fp_data = ''p''\<rparr>"
  have "\<exists>ds. decision_snapshot_identity (en_host demo_context_env) demo_context_files (pi_market demo_arm_plan) (pi_account demo_arm_plan)
      (pi_date demo_arm_plan) (pi_model demo_arm_plan) (pi_calibrator demo_arm_plan) = Inr ds \<and> ds_digest ds = pi_digest demo_arm_plan"
    by (simp add: decision_snapshot_identity_def load_json_object_def read_value_def demo_context_files_def demo_arm_plan_def
        market_snapshot_identity_def dget_def compute_decision_snapshot_digest_def demo_context_env_def)
  moreover have "fp_model ?fp = pi_model demo_arm_plan" "fp_calibrator ?fp = pi_calibrator demo_arm_plan"
    "en_can_write demo_context_env (join_path ''o'' ''native_context.json'')"
    by (simp_all add: demo_arm_plan_def demo_context_env_def)
  ultimately show ?thesis using arm_context_agrees [OF demo_arm_found, of "''o''" "''r''"]
    by (auto split: prod.splits sum.splits)
qed

end
