(* ===== verification/BundleSeal.thy ===== *)
theory BundleSeal
  imports RunManifest
begin

text \<open>
  \<open>bundle_seal.py\<close>: the seal of the serving pair as a bundle, and the read-only flat views of its members.
  The bundle store of \<open>renquant_artifacts\<close>, SHA-256 and the decoding of JSON bytes are arguments. The disk is
  a map from paths to files; an open for writing fails on a file without the owner's write bit, and one
  \<open>os.write\<close> accepts as many bytes as the environment says. The note among the bindings is without its reference.
\<close>

section \<open>State\<close>

record flat_file =
  ff_bytes :: string
  ff_mode :: nat

type_synonym flat_disk = "string \<Rightarrow> flat_file option"

datatype seal_problem = NotReadableJson string | NotJsonObject string | NoOperator | NoFlatDirectory | WouldChange string
  | AlreadyPublished | EmptyMember

text \<open>\<open>SealError\<close>, \<open>OSError\<close> and what leaves the store.\<close>

datatype seal_error = SealRefused seal_problem | SealOsError | StoreFailed string

record publish_result =
  pr_bundle_id :: string
  pr_generation :: int
  pr_manifest_digest :: string
  pr_members :: "(string \<times> string \<times> int) list"

text \<open>The resolved bundle: its members, and what reading one gives.\<close>

record resolved_bundle =
  rb_members :: "string list"
  rb_read :: "string \<Rightarrow> seal_error + string"

record 's bundle_store =
  bs_panel_member :: string
  bs_calibrator_member :: string
  bs_prepare :: json
  bs_operations :: "'s \<Rightarrow> json dict list"
  bs_publish :: "'s \<Rightarrow> string dict \<Rightarrow> json dict \<Rightarrow> json dict \<Rightarrow> 's \<times> (seal_error + publish_result)"
  bs_resolve_active :: "'s \<Rightarrow> seal_error + resolved_bundle"

record seal_env =
  se_decode :: "string \<Rightarrow> json option"
  se_sha :: "string \<Rightarrow> string"
  se_is_dir :: "string \<Rightarrow> bool"
  se_parent :: "string \<Rightarrow> string"
  se_user :: string
  se_accepts :: "string \<Rightarrow> string \<Rightarrow> nat"

section \<open>Provenance\<close>

record provenance =
  pn_bundle_id :: string
  pn_manifest_digest :: string
  pn_generation :: int
  pn_member_digests :: "json dict"

definition from_publish :: "publish_result \<Rightarrow> provenance" where
  "from_publish result = \<lparr>pn_bundle_id = pr_bundle_id result, pn_manifest_digest = pr_manifest_digest result,
     pn_generation = pr_generation result,
     pn_member_digests = map (\<lambda>(name, sha, size). (name, JObj [(''sha256'', JStr sha), (''bytes'', JInt size)]))
       (sort_key fst (pr_members result))\<rparr>"

section \<open>Bindings and authorization\<close>

definition load_json_member :: "seal_env \<Rightarrow> string \<Rightarrow> string \<Rightarrow> seal_error + json dict" where
  "load_json_member e data member_name =
     (case se_decode e data of
        None \<Rightarrow> Inl (SealRefused (NotReadableJson member_name))
      | Some (JObj d) \<Rightarrow> Inr d
      | Some v \<Rightarrow> Inl (SealRefused (NotJsonObject member_name)))"

fun first_present_str :: "json dict \<Rightarrow> string list \<Rightarrow> string option" where
  "first_present_str payload [] = None"
| "first_present_str payload (key # keys) =
     (case dget payload key JNull of JStr (c # s) \<Rightarrow> Some (c # s) | _ \<Rightarrow> first_present_str payload keys)"

definition wf_gate_block :: "json dict \<Rightarrow> json" where
  "wf_gate_block panel =
     (case dget panel ''metadata'' JNull of
        JObj meta \<Rightarrow> (case map_of meta ''wf_gate_metadata'' of Some v \<Rightarrow> v | None \<Rightarrow> dget panel ''wf_gate_metadata'' JNull)
      | _ \<Rightarrow> dget panel ''wf_gate_metadata'' JNull)"

definition GATE_KEYS :: "string list" where
  "GATE_KEYS = [''passed'', ''gate_verdict_before_override'', ''operator_authorized_override'', ''override_applied_at'',
     ''override_reason'', ''diagnostic_only'', ''gate_version'']"

fun is_scalar :: "json \<Rightarrow> bool" where
  "is_scalar (JBool b) = True"
| "is_scalar (JInt i) = True"
| "is_scalar (JFloat f) = True"
| "is_scalar (JStr s) = True"
| "is_scalar v = False"

definition gate_verdict_of :: "json dict \<Rightarrow> json" where
  "gate_verdict_of gate =
     (case py_or (dget gate ''verdict'' JNull) (dget gate ''wf_gate_verdict'' JNull) of
        JNull \<Rightarrow> (case dget gate ''passed'' JNull of JBool b \<Rightarrow> JStr (if b then ''PASS'' else ''FAIL'') | _ \<Rightarrow> JNull)
      | v \<Rightarrow> v)"

definition carried_keys :: "json dict \<Rightarrow> json dict" where
  "carried_keys gate = map (\<lambda>key. (''wf_'' @ key, dget gate key JNull)) (filter (\<lambda>key. is_scalar (dget gate key JNull)) GATE_KEYS)"

definition SEAL_NOTE :: string where
  "SEAL_NOTE = ''verbatim pair-consistency copy of the currently-served pair; NOT a WF-gate buy-admissibility assertion''"

definition bindings_of :: "json dict \<Rightarrow> json dict \<Rightarrow> json dict" where
  "bindings_of panel calibrator =
     (let gate = (case wf_gate_block panel of JObj d \<Rightarrow> d | _ \<Rightarrow> []);
          verdict = (case gate_verdict_of gate of JNull \<Rightarrow> dget panel ''wf_gate_verdict'' JNull | v \<Rightarrow> v);
          scorer = first_present_str panel [''model_content_fingerprint'', ''scorer_model_content_fingerprint'', ''config_fingerprint''];
          calibrated = (case dget calibrator ''metadata'' JNull of
             JObj meta \<Rightarrow> first_present_str meta [''scorer_model_content_fingerprint'', ''scorer_config_fingerprint'']
           | _ \<Rightarrow> None) in
      [(''seal_note'', JStr SEAL_NOTE)] @ carried_keys gate @
      [(''wf_gate_verdict'', case verdict of JNull \<Rightarrow> JStr ''UNSTAMPED'' | v \<Rightarrow> v)] @
      (case scorer of None \<Rightarrow> [] | Some s \<Rightarrow> [(''scorer_fingerprint'', JStr s)]) @
      (case calibrated of None \<Rightarrow> [] | Some s \<Rightarrow> [(''calibrator_scorer_binding'', JStr s)]))"

definition extract_bindings :: "seal_env \<Rightarrow> 's bundle_store \<Rightarrow> string \<Rightarrow> string \<Rightarrow> seal_error + json dict" where
  "extract_bindings e bs panel_bytes calibrator_bytes =
     (case load_json_member e panel_bytes (bs_panel_member bs) of Inl x \<Rightarrow> Inl x | Inr panel \<Rightarrow>
      case load_json_member e calibrator_bytes (bs_calibrator_member bs) of Inl x \<Rightarrow> Inl x | Inr calibrator \<Rightarrow>
      Inr (bindings_of panel calibrator))"

definition SEAL_TOOL :: string where "SEAL_TOOL = ''p1_serving_pair_seal''"
definition SEAL_TOOL_VERSION :: string where "SEAL_TOOL_VERSION = ''1.0.0''"
definition VIEW_MODE :: nat where "VIEW_MODE = 292"

definition build_seal_authorization ::
    "seal_env \<Rightarrow> 's bundle_store \<Rightarrow> string \<Rightarrow> string \<Rightarrow> string \<Rightarrow> string option \<Rightarrow> string \<Rightarrow> seal_error + json dict" where
  "build_seal_authorization e bs panel_bytes calibrator_bytes operator os_user tool_version =
     (if operator = [] then Inl (SealRefused NoOperator)
      else Inr [(''tool'', JStr SEAL_TOOL), (''tool_version'', JStr tool_version),
        (''actor'', JObj [(''os_user'', JStr (case os_user of Some (c # u) \<Rightarrow> c # u | _ \<Rightarrow> se_user e)), (''operator'', JStr operator)]),
        (''source'', JObj [(''rfc'', JStr ''RenQuant#492''), (''phase'', JStr ''P1''),
           (''census'', JStr ''doc/design/2026-07-18-ac4-migration-census.md''),
           (''action'', JStr ''seal the current serving pair as generation 1'')]),
        (''inputs'', JObj [(bs_panel_member bs, JStr (se_sha e panel_bytes)), (bs_calibrator_member bs, JStr (se_sha e calibrator_bytes))])])"

section \<open>Flat views\<close>

datatype view_effect = OpenTmp string | WriteTmp string string | ChmodTmp string nat | ReplaceTmp string string

definition owner_writable :: "flat_file \<Rightarrow> bool" where
  "owner_writable f \<longleftrightarrow> ff_mode f div 128 mod 2 = 1"

fun view_step :: "seal_env \<Rightarrow> view_effect \<Rightarrow> flat_disk \<Rightarrow> seal_error + flat_disk" where
  "view_step e (OpenTmp t) d =
     (case d t of
        None \<Rightarrow> Inr (d(t \<mapsto> \<lparr>ff_bytes = [], ff_mode = 384\<rparr>))
      | Some f \<Rightarrow> if owner_writable f then Inr (d(t \<mapsto> f\<lparr>ff_bytes := []\<rparr>)) else Inl SealOsError)"
| "view_step e (WriteTmp t data) d = Inr (d(t := map_option (\<lambda>f. f\<lparr>ff_bytes := take (se_accepts e t data) data\<rparr>) (d t)))"
| "view_step e (ChmodTmp t mode) d = Inr (d(t := map_option (\<lambda>f. f\<lparr>ff_mode := mode\<rparr>) (d t)))"
| "view_step e (ReplaceTmp t target) d = Inr (d(target := d t, t := None))"

fun view_steps :: "seal_env \<Rightarrow> view_effect list \<Rightarrow> flat_disk \<Rightarrow> flat_disk \<times> (seal_error + unit)" where
  "view_steps e [] d = (d, Inr ())"
| "view_steps e (x # xs) d = (case view_step e x d of Inl y \<Rightarrow> (d, Inl y) | Inr d' \<Rightarrow> view_steps e xs d')"

definition tmp_view :: "string \<Rightarrow> string \<Rightarrow> string" where
  "tmp_view dir name = join_path dir (''.'' @ name @ ''.view.tmp'')"

definition view_effects :: "string \<Rightarrow> string \<times> string \<Rightarrow> view_effect list" where
  "view_effects dir m = (let t = tmp_view dir (fst m) in
     [OpenTmp t, WriteTmp t (snd m), ChmodTmp t VIEW_MODE, ReplaceTmp t (join_path dir (fst m))])"

text \<open>Phase 1: every member is read and compared before anything is written.\<close>

fun stage_members :: "flat_disk \<Rightarrow> string \<Rightarrow> resolved_bundle \<Rightarrow> string list \<Rightarrow> seal_error + string dict" where
  "stage_members d dir rb [] = Inr []"
| "stage_members d dir rb (name # names) =
     (case rb_read rb name of Inl x \<Rightarrow> Inl x | Inr data \<Rightarrow>
      case d (join_path dir name) of
        Some f \<Rightarrow> if ff_bytes f \<noteq> data then Inl (SealRefused (WouldChange name))
          else map_sum id ((#) (name, data)) (stage_members d dir rb names)
      | None \<Rightarrow> map_sum id ((#) (name, data)) (stage_members d dir rb names))"

text \<open>Phase 2; the hook is fault injection.\<close>

fun write_views :: "seal_env \<Rightarrow> (string \<Rightarrow> seal_error option) \<Rightarrow> string \<Rightarrow> string dict \<Rightarrow> flat_disk \<Rightarrow>
    flat_disk \<times> (seal_error + string dict)" where
  "write_views e hook dir [] d = (d, Inr [])"
| "write_views e hook dir (m # ms) d =
     (case view_steps e (view_effects dir m) d of
        (d', Inl x) \<Rightarrow> (d', Inl x)
      | (d', Inr u) \<Rightarrow> (case hook (fst m) of
            Some x \<Rightarrow> (d', Inl x)
          | None \<Rightarrow> (case write_views e hook dir ms d' of
              (d'', r) \<Rightarrow> (d'', map_sum id ((#) (fst m, join_path dir (fst m))) r))))"

definition regenerate_flat_views ::
    "seal_env \<Rightarrow> (string \<Rightarrow> seal_error option) \<Rightarrow> resolved_bundle \<Rightarrow> string \<Rightarrow> flat_disk \<Rightarrow> flat_disk \<times> (seal_error + string dict)" where
  "regenerate_flat_views e hook rb dir d =
     (if \<not> se_is_dir e dir then (d, Inl (SealRefused NoFlatDirectory))
      else case stage_members d dir rb (sort (rb_members rb)) of
          Inl x \<Rightarrow> (d, Inl x)
        | Inr staged \<Rightarrow> write_views e hook dir staged d)"

section \<open>The seal\<close>

record seal_args =
  sa_panel :: string
  sa_calibrator :: string
  sa_operator :: string
  sa_flat_dir :: "string option"
  sa_views :: bool
  sa_genesis :: bool
  sa_os_user :: "string option"
  sa_tool_version :: string

record 's seal_state =
  ss_disk :: flat_disk
  ss_store :: 's

definition has_prior_publication :: "'s bundle_store \<Rightarrow> 's \<Rightarrow> bool" where
  "has_prior_publication bs store \<longleftrightarrow> (\<exists>rec \<in> set (bs_operations bs store). dget rec ''record'' JNull = bs_prepare bs)"

definition refuse_if_flat_pair_would_change :: "seal_env \<Rightarrow> flat_disk \<Rightarrow> string dict \<Rightarrow> string \<Rightarrow> seal_error + unit" where
  "refuse_if_flat_pair_would_change e d members dir =
     (if \<not> se_is_dir e dir then Inl (SealRefused NoFlatDirectory)
      else case find (\<lambda>m. \<exists>f. d (join_path dir (fst m)) = Some f \<and> ff_bytes f \<noteq> snd m) members of
          Some m \<Rightarrow> Inl (SealRefused (WouldChange (fst m)))
        | None \<Rightarrow> Inr ())"

definition view_dir :: "seal_env \<Rightarrow> seal_args \<Rightarrow> string" where
  "view_dir e a = (case sa_flat_dir a of Some dir \<Rightarrow> dir | None \<Rightarrow> se_parent e (sa_panel a))"

text \<open>What the seal publishes, or why it refuses before it touches the store.\<close>

definition seal_request ::
    "seal_env \<Rightarrow> 's bundle_store \<Rightarrow> seal_args \<Rightarrow> 's seal_state \<Rightarrow> seal_error + string dict \<times> json dict \<times> json dict" where
  "seal_request e bs a s =
     (if sa_genesis a \<and> has_prior_publication bs (ss_store s) then Inl (SealRefused AlreadyPublished)
      else case (ss_disk s (sa_panel a), ss_disk s (sa_calibrator a)) of
        (Some panel, Some calibrator) \<Rightarrow>
          if ff_bytes panel = [] \<or> ff_bytes calibrator = [] then Inl (SealRefused EmptyMember)
          else (case extract_bindings e bs (ff_bytes panel) (ff_bytes calibrator) of Inl x \<Rightarrow> Inl x | Inr bindings \<Rightarrow>
            case build_seal_authorization e bs (ff_bytes panel) (ff_bytes calibrator) (sa_operator a) (sa_os_user a)
                (sa_tool_version a) of Inl x \<Rightarrow> Inl x | Inr authorization \<Rightarrow>
            (let members = dset [(bs_panel_member bs, ff_bytes panel)] (bs_calibrator_member bs) (ff_bytes calibrator) in
             case (if sa_views a then refuse_if_flat_pair_would_change e (ss_disk s) members (view_dir e a) else Inr ()) of
               Inl x \<Rightarrow> Inl x
             | Inr u \<Rightarrow> Inr (members, bindings, authorization)))
      | _ \<Rightarrow> Inl SealOsError)"

definition seal_serving_pair ::
    "seal_env \<Rightarrow> 's bundle_store \<Rightarrow> seal_args \<Rightarrow> 's seal_state \<Rightarrow> 's seal_state \<times> (seal_error + provenance \<times> string dict)" where
  "seal_serving_pair e bs a s =
     (case seal_request e bs a s of Inl x \<Rightarrow> (s, Inl x) | Inr (members, bindings, authorization) \<Rightarrow>
      case bs_publish bs (ss_store s) members bindings authorization of
        (store, Inl x) \<Rightarrow> (s\<lparr>ss_store := store\<rparr>, Inl x)
      | (store, Inr result) \<Rightarrow>
          if \<not> sa_views a then (s\<lparr>ss_store := store\<rparr>, Inr (from_publish result, []))
          else (case bs_resolve_active bs store of
              Inl x \<Rightarrow> (s\<lparr>ss_store := store\<rparr>, Inl x)
            | Inr rb \<Rightarrow> (case regenerate_flat_views e (\<lambda>name. None) rb (view_dir e a) (ss_disk s) of
                (d, r) \<Rightarrow> (s\<lparr>ss_store := store, ss_disk := d\<rparr>, map_sum id (Pair (from_publish result)) r))))"

section \<open>What the views may show\<close>

definition whole_writes :: "seal_env \<Rightarrow> bool" where
  "whole_writes e \<longleftrightarrow> (\<forall>p data. length data \<le> se_accepts e p data)"

definition plain_name :: "string \<Rightarrow> bool" where
  "plain_name n \<longleftrightarrow> (case n of [] \<Rightarrow> False | c # cs \<Rightarrow> c \<noteq> CHR ''.'' \<and> c \<noteq> CHR ''/'')"

abbreviation temporary :: "string \<Rightarrow> string \<Rightarrow> bool" where
  "temporary dir p \<equiv> \<exists>n. p = tmp_view dir n"

abbreviation bytes_at :: "flat_disk \<Rightarrow> string \<Rightarrow> string option" where
  "bytes_at d p \<equiv> map_option ff_bytes (d p)"

lemma plain_path: "plain_name n \<Longrightarrow> join_path dir n = dir @ ''/'' @ n"
  by (cases n) (auto simp: plain_name_def join_path_def is_absolute_def starts_with_def)

lemma view_not_temporary: "plain_name n \<Longrightarrow> join_path dir n \<noteq> tmp_view dir m"
  by (cases n) (auto simp: plain_name_def tmp_view_def join_path_def is_absolute_def starts_with_def)

lemma view_steps_append:
  "view_steps e (xs @ ys) d = (case view_steps e xs d of (d', Inl x) \<Rightarrow> (d', Inl x) | (d', Inr u) \<Rightarrow> view_steps e ys d')"
  by (induction xs arbitrary: d) (auto split: sum.split)

text \<open>Apart from its temporary files a disk holds what it held or a member's bytes.\<close>

definition views_only :: "string \<Rightarrow> string dict \<Rightarrow> flat_disk \<Rightarrow> flat_disk \<Rightarrow> bool" where
  "views_only dir staged d d' \<longleftrightarrow>
     (\<forall>p. \<not> temporary dir p \<longrightarrow> d' p = d p \<or> (\<exists>m \<in> set staged. p = join_path dir (fst m) \<and> bytes_at d' p = Some (snd m)))"

lemma views_only_refl: "views_only dir staged d d"
  by (simp add: views_only_def)

lemma views_only_more: "views_only dir staged d d' \<Longrightarrow> set staged \<subseteq> set staged' \<Longrightarrow> views_only dir staged' d d'"
  unfolding views_only_def by blast

lemma views_only_trans: "views_only dir staged d d' \<Longrightarrow> views_only dir staged d' d'' \<Longrightarrow> views_only dir staged d d''"
  unfolding views_only_def by metis

lemma group_views:
  assumes "whole_writes e" "plain_name (fst m)"
  shows "views_only dir [m] d (fst (view_steps e (take k (view_effects dir m)) d))"
proof -
  let ?t = "tmp_view dir (fst m)" and ?v = "join_path dir (fst m)"
  have ne: "?v \<noteq> ?t" using assms(2) by (rule view_not_temporary)
  have whole: "take (se_accepts e p data) data = data" for p data using assms(1) by (simp add: whole_writes_def)
  have other: "\<not> temporary dir p \<Longrightarrow> p \<noteq> ?t" for p by blast
  consider "k = 0" | "k = 1" | "k = 2" | "k = 3" | "4 \<le> k" by linarith
  then show ?thesis
    by cases (auto simp: view_effects_def Let_def views_only_def whole other ne take_Suc numeral_2_eq_2 numeral_3_eq_3 split: option.splits)
qed

lemma groups_views:
  assumes "whole_writes e" "\<forall>m \<in> set staged. plain_name (fst m)"
  shows "views_only dir staged d (fst (view_steps e (take k (concat (map (view_effects dir) staged))) d))"
  using assms(2)
proof (induction staged arbitrary: d k)
  case Nil
  then show ?case by (simp add: views_only_refl)
next
  case (Cons m staged)
  let ?d = "view_steps e (take k (view_effects dir m)) d"
  have group: "views_only dir (m # staged) d (fst ?d)"
    using Cons.prems by (intro views_only_more [OF group_views [OF assms(1)]]) auto
  show ?case
  proof (cases "snd ?d")
    case (Inl x)
    with group show ?thesis by (simp add: view_steps_append split: prod.splits) (cases ?d; simp)
  next
    case (Inr u)
    have "views_only dir (m # staged) (fst ?d)
        (fst (view_steps e (take (k - length (view_effects dir m)) (concat (map (view_effects dir) staged))) (fst ?d)))"
      using Cons by (intro views_only_more [OF Cons.IH]) auto
    with group Inr show ?thesis by (cases ?d) (auto simp: view_steps_append intro: views_only_trans)
  qed
qed

lemma staged_members:
  assumes "stage_members d dir rb names = Inr staged"
  shows "map fst staged = names" and "m \<in> set staged \<Longrightarrow> rb_read rb (fst m) = Inr (snd m)"
    and "m \<in> set staged \<Longrightarrow> d (join_path dir (fst m)) = Some f \<Longrightarrow> ff_bytes f = snd m"
proof -
  have "map fst staged = names \<and> (\<forall>m \<in> set staged. rb_read rb (fst m) = Inr (snd m) \<and>
      (\<forall>f. d (join_path dir (fst m)) = Some f \<longrightarrow> ff_bytes f = snd m))"
    using assms
  proof (induction names arbitrary: staged)
    case (Cons n names)
    from Cons.prems obtain data where data: "rb_read rb n = Inr data" by (cases "rb_read rb n") auto
    with Cons.prems obtain rest where "stage_members d dir rb names = Inr rest" "staged = (n, data) # rest"
      "\<forall>f. d (join_path dir n) = Some f \<longrightarrow> ff_bytes f = data"
      by (cases "stage_members d dir rb names") (auto split: option.splits if_splits)
    with Cons.IH data show ?case by auto
  qed simp
  then show "map fst staged = names" "m \<in> set staged \<Longrightarrow> rb_read rb (fst m) = Inr (snd m)"
    "m \<in> set staged \<Longrightarrow> d (join_path dir (fst m)) = Some f \<Longrightarrow> ff_bytes f = snd m" by blast+
qed


section \<open>The whole seal\<close>

lemma write_views_only:
  assumes "whole_writes e"
  shows "\<forall>m \<in> set staged. plain_name (fst m) \<Longrightarrow> views_only dir staged d (fst (write_views e hook dir staged d))"
proof (induction staged arbitrary: d)
  case Nil
  then show ?case by (simp add: views_only_refl)
next
  case (Cons m staged)
  let ?d = "view_steps e (view_effects dir m) d"
  have "views_only dir [m] d (fst ?d)"
    using group_views [OF assms, where m = m and k = 4 and d = d and dir = dir] Cons.prems by (simp add: view_effects_def Let_def)
  then have group: "views_only dir (m # staged) d (fst ?d)" by (rule views_only_more) auto
  have "views_only dir (m # staged) (fst ?d) (fst (write_views e hook dir staged (fst ?d)))"
    using Cons by (intro views_only_more [OF Cons.IH]) auto
  with group have "views_only dir (m # staged) d (fst (write_views e hook dir staged (fst ?d)))" by (rule views_only_trans)
  with group show ?case by (cases ?d) (auto split: sum.split option.split prod.split)
qed

text \<open>A view that was written is read-only and holds its member.\<close>

lemma group_writes:
  assumes "whole_writes e" "plain_name (fst m)" "view_steps e (view_effects dir m) d = (d', Inr u)"
  shows "d' (join_path dir (fst m)) = Some \<lparr>ff_bytes = snd m, ff_mode = VIEW_MODE\<rparr>"
proof -
  have "take (se_accepts e p data) data = data" for p data using assms(1) by (simp add: whole_writes_def)
  with assms(3) view_not_temporary [OF assms(2), of dir "fst m"] show ?thesis
    by (auto simp: view_effects_def Let_def split: option.splits if_splits)
qed

lemma write_views_written:
  assumes "whole_writes e"
  shows "\<forall>m \<in> set staged. plain_name (fst m) \<Longrightarrow> distinct (map fst staged) \<Longrightarrow> write_views e hook dir staged d = (d', Inr views) \<Longrightarrow>
    views = map (\<lambda>m. (fst m, join_path dir (fst m))) staged \<and>
    (\<forall>m \<in> set staged. d' (join_path dir (fst m)) = Some \<lparr>ff_bytes = snd m, ff_mode = VIEW_MODE\<rparr>)"
proof (induction staged arbitrary: d views)
  case Nil
  then show ?case by simp
next
  case (Cons m staged)
  from Cons.prems(3) obtain d1 where d1: "view_steps e (view_effects dir m) d = (d1, Inr ())" and hook: "hook (fst m) = None"
    by (auto split: prod.splits sum.splits option.splits)
  with Cons.prems(3) obtain vs where rest: "write_views e hook dir staged d1 = (d', Inr vs)"
      "views = (fst m, join_path dir (fst m)) # vs"
    by (cases "write_views e hook dir staged d1"; cases "snd (write_views e hook dir staged d1)") auto
  from Cons.IH [OF _ _ rest(1)] Cons.prems(1,2) have IH: "vs = map (\<lambda>m. (fst m, join_path dir (fst m))) staged"
    "\<forall>m \<in> set staged. d' (join_path dir (fst m)) = Some \<lparr>ff_bytes = snd m, ff_mode = VIEW_MODE\<rparr>" by simp_all
  have "d' (join_path dir (fst m)) = d1 (join_path dir (fst m))"
  proof -
    have "plain_name (fst m)" "\<forall>n \<in> set staged. plain_name (fst n)" using Cons.prems(1) by auto
    moreover have "join_path dir (fst m) \<noteq> join_path dir (fst n)" if "n \<in> set staged" for n
    proof -
      have "fst m \<noteq> fst n" using that Cons.prems(2) by auto
      with calculation that show ?thesis by (simp add: plain_path)
    qed
    ultimately show ?thesis using write_views_only [OF assms, of staged dir d1 hook] view_not_temporary [of "fst m" dir] rest(1)
      unfolding views_only_def by (metis fst_conv)
  qed
  with group_writes [OF assms _ d1] Cons.prems(1) IH rest(2) show ?case by simp
qed

text \<open>What is relied on of the store: the members of a resolved bundle have different, plain names.\<close>

definition plain_members :: "'s bundle_store \<Rightarrow> bool" where
  "plain_members bs \<longleftrightarrow> (\<forall>store rb. bs_resolve_active bs store = Inr rb \<longrightarrow>
     distinct (rb_members rb) \<and> (\<forall>n \<in> set (rb_members rb). plain_name n))"


section \<open>What the bundle records\<close>

lemma json_default: "(case v of JNull \<Rightarrow> w | u \<Rightarrow> u) = (if v = JNull then w else v)"
  by (cases v) simp_all

lemma pass_in_words: "(case v of JBool b \<Rightarrow> JStr (if b then x else y) | _ \<Rightarrow> JNull) =
    (if v = JBool True then JStr x else if v = JBool False then JStr y else JNull)"
  by (cases v) simp_all

text \<open>The bindings are the panel's own stamps. Of the keys of the gate block, the canonical one where it is
  present, exactly those that hold a scalar are carried over with their value; the recorded verdict is the gate's, its
  pass flag in words, the panel's own or the mark of an unstamped panel, in this order.\<close>

theorem bindings_verbatim:
  "(\<forall>key \<in> set GATE_KEYS. map_of (bindings_of panel calibrator) (''wf_'' @ key) =
     (case wf_gate_block panel of
        JObj gate \<Rightarrow> if is_scalar (dget gate key JNull) then Some (dget gate key JNull) else None
      | _ \<Rightarrow> None)) \<and>
   map_of (bindings_of panel calibrator) ''wf_gate_verdict'' = Some
     (let gate = (case wf_gate_block panel of JObj gate \<Rightarrow> gate | _ \<Rightarrow> []);
          stated = py_or (dget gate ''verdict'' JNull) (dget gate ''wf_gate_verdict'' JNull) in
      if stated \<noteq> JNull then stated
      else if dget gate ''passed'' JNull = JBool True then JStr ''PASS''
      else if dget gate ''passed'' JNull = JBool False then JStr ''FAIL''
      else if dget panel ''wf_gate_verdict'' JNull \<noteq> JNull then dget panel ''wf_gate_verdict'' JNull
      else JStr ''UNSTAMPED'')"
proof -
  define gate where "gate = (case wf_gate_block panel of JObj gate \<Rightarrow> gate | _ \<Rightarrow> [])"
  have carried: "map_of (carried_keys g @ xs) (''wf_'' @ key) = (if is_scalar (dget g key JNull) then Some (dget g key JNull) else map_of xs (''wf_'' @ key))"
    if "key \<in> set GATE_KEYS" for g key xs
  proof -
    have "map_of (map (\<lambda>k. (''wf_'' @ k, f k)) ks) (''wf_'' @ key) = (if key \<in> set ks then Some (f key) else None)" for f :: "string \<Rightarrow> json" and ks
      by (induction ks) auto
    with that show ?thesis by (simp add: carried_keys_def map_add_def)
  qed
  let ?rest = "\<lambda>v. (''wf_gate_verdict'', v) # (case first_present_str panel [''model_content_fingerprint'', ''scorer_model_content_fingerprint'', ''config_fingerprint''] of
      None \<Rightarrow> [] | Some s \<Rightarrow> [(''scorer_fingerprint'', JStr s)]) @
     (case (case dget calibrator ''metadata'' JNull of
        JObj meta \<Rightarrow> first_present_str meta [''scorer_model_content_fingerprint'', ''scorer_config_fingerprint'']
      | _ \<Rightarrow> None) of None \<Rightarrow> [] | Some s \<Rightarrow> [(''calibrator_scorer_binding'', JStr s)])"
  define v where "v = (case (case gate_verdict_of gate of JNull \<Rightarrow> dget panel ''wf_gate_verdict'' JNull | v \<Rightarrow> v) of
      JNull \<Rightarrow> JStr ''UNSTAMPED'' | v \<Rightarrow> v)"
  have b: "bindings_of panel calibrator = (''seal_note'', JStr SEAL_NOTE) # carried_keys gate @ ?rest v"
    by (simp add: bindings_of_def Let_def gate_def v_def)
  have free: "map_of (?rest v) (''wf_'' @ key) = None" if "key \<in> set GATE_KEYS" for key
  proof -
    have "''wf_'' @ key \<notin> {''wf_gate_verdict'', ''scorer_fingerprint'', ''calibrator_scorer_binding''}"
      using that by (auto simp: GATE_KEYS_def)
    then show ?thesis by (simp split: option.split)
  qed
  have "map_of (bindings_of panel calibrator) (''wf_'' @ key) = (if is_scalar (dget gate key JNull) then Some (dget gate key JNull) else None)"
    if "key \<in> set GATE_KEYS" for key
    unfolding b using carried [OF that, of gate "?rest v"] free [OF that] by simp
  moreover have "map_of (carried_keys gate) ''wf_gate_verdict'' = None"
  proof -
    have "''gate_verdict'' \<notin> set GATE_KEYS" by (simp add: GATE_KEYS_def)
    then show ?thesis by (auto simp: carried_keys_def map_of_eq_None_iff)
  qed
  then have "map_of (bindings_of panel calibrator) ''wf_gate_verdict'' = Some v"
    unfolding b by (simp add: map_add_def)
  moreover have "v = (if py_or (dget gate ''verdict'' JNull) (dget gate ''wf_gate_verdict'' JNull) \<noteq> JNull
        then py_or (dget gate ''verdict'' JNull) (dget gate ''wf_gate_verdict'' JNull)
      else if dget gate ''passed'' JNull = JBool True then JStr ''PASS''
      else if dget gate ''passed'' JNull = JBool False then JStr ''FAIL''
      else if dget panel ''wf_gate_verdict'' JNull \<noteq> JNull then dget panel ''wf_gate_verdict'' JNull
      else JStr ''UNSTAMPED'')"
    unfolding v_def gate_verdict_of_def json_default pass_in_words by simp
  moreover have "\<not> is_scalar (dget [] key JNull)" for key by (simp add: dget_def)
  ultimately show ?thesis unfolding Let_def gate_def by (cases "wf_gate_block panel") simp_all
qed

section \<open>Two ways to lose a view\<close>

text \<open>A crash between the change of mode and the replacement leaves a temporary file that no later run can open.\<close>

lemma leftover_temporary_blocks:
  assumes "d (tmp_view dir (fst m)) = Some f" "\<not> owner_writable f"
  shows "write_views e hook dir (m # ms) d = (d, Inl SealOsError)"
  using assms by (simp add: view_effects_def Let_def)

lemma crash_leaves_it_unwritable:
  "view_steps e (take 3 (view_effects dir m)) d = (d', Inr u) \<Longrightarrow>
   \<exists>f. d' (tmp_view dir (fst m)) = Some f \<and> \<not> owner_writable f"
  by (auto simp: view_effects_def Let_def VIEW_MODE_def owner_writable_def numeral_3_eq_3 split: option.splits if_splits)

text \<open>The count that \<open>os.write\<close> returns is not read: a short write replaces a served file by a part of it.\<close>

lemma short_write_truncates:
  "\<exists>e rb d. bytes_at d ''v/m'' = Some ''ab'' \<and> (\<exists>d' views. regenerate_flat_views e (\<lambda>n. None) rb ''v'' d = (d', Inr views) \<and>
     bytes_at d' ''v/m'' = Some ''a'')"
proof (intro exI)
  let ?e = "\<lparr>se_decode = \<lambda>b. None, se_sha = \<lambda>b. b, se_is_dir = \<lambda>p. True, se_parent = \<lambda>p. p, se_user = ''u'', se_accepts = \<lambda>p b. 1\<rparr>"
  let ?rb = "\<lparr>rb_members = [''m''], rb_read = \<lambda>n. Inr ''ab''\<rparr>"
  let ?d = "[''v/m'' \<mapsto> \<lparr>ff_bytes = ''ab'', ff_mode = 420\<rparr>]"
  show "bytes_at ?d ''v/m'' = Some ''ab'' \<and> (\<exists>d' views. regenerate_flat_views ?e (\<lambda>n. None) ?rb ''v'' ?d = (d', Inr views) \<and>
     bytes_at d' ''v/m'' = Some ''a'')"
    by (simp add: regenerate_flat_views_def view_effects_def Let_def tmp_view_def join_path_def is_absolute_def starts_with_def)
qed

section \<open>A sealed pair\<close>

text \<open>A store that keeps the pair it was given.\<close>

definition demo_store :: "string dict bundle_store" where
  "demo_store = \<lparr>bs_panel_member = ''p'', bs_calibrator_member = ''c'', bs_prepare = JStr ''PREPARE'', bs_operations = \<lambda>s. [],
     bs_publish = \<lambda>s members b a. (members, Inr \<lparr>pr_bundle_id = ''g'', pr_generation = 1, pr_manifest_digest = ''d'', pr_members = []\<rparr>),
     bs_resolve_active = \<lambda>s. Inr \<lparr>rb_members = [''c'', ''p''], rb_read = \<lambda>n. Inr (dget s n [])\<rparr>\<rparr>"

definition demo_seal_env :: seal_env where
  "demo_seal_env = \<lparr>se_decode = \<lambda>b. Some (JObj []), se_sha = \<lambda>b. b, se_is_dir = \<lambda>p. True, se_parent = \<lambda>p. ''v'', se_user = ''u'',
     se_accepts = \<lambda>p b. length b\<rparr>"

definition demo_served :: flat_disk where
  "demo_served = [''v/p'' \<mapsto> \<lparr>ff_bytes = ''P'', ff_mode = 420\<rparr>, ''v/c'' \<mapsto> \<lparr>ff_bytes = ''C'', ff_mode = 420\<rparr>]"

definition demo_seal :: seal_args where
  "demo_seal = \<lparr>sa_panel = ''v/p'', sa_calibrator = ''v/c'', sa_operator = ''o'', sa_flat_dir = None, sa_views = True, sa_genesis = True,
     sa_os_user = None, sa_tool_version = SEAL_TOOL_VERSION\<rparr>"

lemma demo_whole: "whole_writes demo_seal_env"
  by (simp add: whole_writes_def demo_seal_env_def)



end
