(* ===== verification/Spec2Isabelle.thy ===== *)
theory Spec2Isabelle
  imports AgentBreaker GateRegistry GtcPlanner Governors Reconciler EntryTiming SessionRunner CryptoSession
    EntryDecision PersistenceGuard MarketSnapshot LiveStateSchema PairOutcome
    NativeContext BundleSeal
begin

text \<open>
  A verification library for the trading control core of \<open>renquant_orchestrator\<close>
  (\<open>src/src/renquant_orchestrator\<close>): the code that decides whether a decision, an order or a
  session may go ahead. The data-science side of the repository (training, attribution, reports)
  is not modelled.

  \<^bold>\<open>Parts and how they interact.\<close> A session is run by \<open>intraday_session_scheduler.py\<close>. It reads its
  inputs through \<open>intraday_session_inputs.py\<close>, calls the decision pipeline (a parameter), filters
  the decisions by the window policy and the never-submit check, and appends one record per tick
  to a log. Two observers follow the records: the governors (\<open>intraday_governors.py\<close>) and the
  entry-timing evaluator (\<open>entry_timing_policy.py\<close>). Orders leave through the live executor
  (\<open>intraday_live_executor.py\<close>), which submits under a signed authorization, a canary envelope and a
  dead-man switch, and writes every call to its journal first. \<open>intraday_session_runner.py\<close> composes
  the parts: behind all gates it runs the executor and the software stops on the scheduler's ticks,
  otherwise it is the shadow scheduler. \<open>intraday_entry_decision.py\<close> plans the entries of a tick and
  \<open>crypto_session.py\<close> holds the gates of the crypto sleeve. Beside the session stand the agent
  breaker, the gate registry, the planner of the standing catastrophe stops, the reconciler, which
  compares the local order state with the broker's, and \<open>deployment_manifest.py\<close>, which says what
  code a host may run and in which epoch. Before the daily run persists a live decision,
  \<open>native_persistence_guard.py\<close> checks the run manifest (\<open>shadow_ab_runner.py\<close>), the pinned checkouts
  and the fingerprints of the artifacts that \<open>artifact_resolver.py\<close> finds. The decision's quotes come
  from \<open>realtime_data_plane.py\<close>, and its state file has the schema of \<open>live_state_v2.py\<close>. Two shadow
  arms of the daily run, one configuration key apart, are compared by \<open>shadow_ab_runner.py\<close>, which
  shares the run manifest and the artifact resolution with the guard. \<open>bundle_seal.py\<close> publishes the serving
  pair of model and calibrator that these runs read.

  \<^bold>\<open>Theories.\<close>
  \<^item> \<open>PyBase\<close>, \<open>PyNum\<close>, \<open>PyTime\<close>: floats with their special values, JSON values, exceptions as values,
    number and time conversions, dictionaries.
  \<^item> \<open>Interfaces\<close>: the contracts several components share, as locales: \<open>latch\<close> (sticky monitors),
    \<open>keyed_log\<close> (append-only stores that keep the first record of a key) and \<open>lifecycle\<close>.
  \<^item> \<open>AgentBreaker\<close>: \<open>agent_breaker.py\<close>, refined to an abstract budget per day.
  \<^item> \<open>GateRegistry\<close>: \<open>gate_registry.py\<close> and the query of \<open>decision_ledger.py\<close>; the aggregate as a
    maximum, independent of order and monotone.
  \<^item> \<open>GtcPlanner\<close>: \<open>gtc_catastrophe_planner.py\<close>; planning is idempotent and covers the holdings.
  \<^item> \<open>SoftwareStop\<close>: \<open>software_stop.py\<close>; when a position stops, and that it does so once.
  \<^item> \<open>Governors\<close>: \<open>intraday_governors.py\<close>; session caps, cooldowns, the shadow observer.
  \<^item> \<open>OrderLifecycle\<close>, \<open>IntentStore\<close>, \<open>QuantityAccounts\<close>, \<open>Reconciler\<close>: \<open>execution_reconciler.py\<close>; legal
    paths of an order, idempotent creation of intents, deduplicated accounts, the three diffs.
  \<^item> \<open>SessionInputs\<close>: the reservations and the broker retry of \<open>intraday_session_inputs.py\<close>.
  \<^item> \<open>SessionPolicy\<close>, \<open>ShadowLog\<close>, \<open>SessionScheduler\<close>: \<open>intraday_session_scheduler.py\<close>; configuration and
    windows, the tick log, the session loop and what it can append.
  \<^item> \<open>EntryTiming\<close>: \<open>entry_timing_policy.py\<close>; participation by the cutoff, one row per cell.
  \<^item> \<open>LiveAuthorization\<close>, \<open>CanaryEnvelope\<close>, \<open>LiveArming\<close>: the authorization, the canary's limits and profit
    and loss, the five arming gates of \<open>intraday_live_executor.py\<close>.
  \<^item> \<open>Effects\<close>: runs that leave a trace of effects and may raise; \<open>step_order\<close>, a locale for relations that every
    step of such a run extends.
  \<^item> \<open>LiveExecutor\<close>, \<open>LiveSafety\<close>: the session of the executor, call by call. The order-state book is a parameter;
    the locale \<open>live_steps\<close> derives what holds of whole sessions from what holds of each operation,
    and \<open>book_laws\<close> is what is relied on of the book.
  \<^item> \<open>SessionRunner\<close>: \<open>intraday_session_runner.py\<close>. A live run is a session of the executor, so the
    theorems of \<open>LiveSafety\<close> hold of it; a run with a gate closed is the scheduler's.
  \<^item> \<open>CryptoSession\<close>: \<open>crypto_session.py\<close>; the first gate that refuses settles a tick, under any pipeline that
    keeps the order of its jobs (\<open>keeps_order\<close>).
  \<^item> \<open>EntryDecision\<close>: \<open>intraday_entry_decision.py\<close>; the plan stays within the guardrails and accounts for every
    candidate.
  \<^item> \<open>DeployManifest\<close>, \<open>DeployState\<close>: \<open>deployment_manifest.py\<close>; which manifests are accepted, when the
    checkouts of a host are pinned to one, and the forward-only record of the epoch.

  \<^item> \<open>RunManifest\<close>, \<open>PersistenceGuard\<close>: the run manifest of \<open>shadow_ab_runner.py\<close>, the artifact references
    of \<open>native_live_context.py\<close>, \<open>artifact_resolver.py\<close>, and \<open>native_persistence_guard.py\<close>: what lets a
    mutation through, and what a token must say to override a failed check.
  \<^item> \<open>TreatmentKey\<close>, \<open>ShadowPair\<close>, \<open>ShadowSession\<close>: \<open>shadow_ab_runner.py\<close> and the decision snapshot of
    \<open>native_live_context.py\<close>: the difference between the arms' configurations, the checks and documents of a
    pair, the session step by step. The commands of the arms, and what others do to the files between
    the session's own actions, are arguments.
  \<^item> \<open>NativeContext\<close>: the context builder of \<open>native_live_context.py\<close>; an arm accepts exactly the world that was
    frozen for it.
  \<^item> \<open>BundleSeal\<close>: \<open>bundle_seal.py\<close>; what a sealed bundle records of the serving pair, and that the flat views
    are never mixed, at whatever step a run is cut off. The bundle store is an argument.
  \<^item> \<open>StepTriples\<close>, \<open>PairSafety\<close>, \<open>PairOutcome\<close>: a Hoare logic for steps that may raise, one triple for each step of
    the session, and what a session leaves: which arm ran behind which check, when a pair counts, the
    counters over many sessions and the digest recorded for a date.
  \<^item> \<open>MarketSnapshot\<close>: \<open>realtime_data_plane.py\<close>; a snapshot depends on the eligible ticks only, and each row
    is exactly the latest of them.
  \<^item> \<open>LiveStateSchema\<close>: \<open>live_state_v2.py\<close>; what is parsed is written back so that it is parsed the same.
    Pydantic is an argument of which \<open>keeps_typed\<close> is relied on.

  \<^bold>\<open>State and operations.\<close> An object is a record with the fields of its class; a method returns the
  new record. An exception is the left of a sum; an operation that may raise half-way and whose
  caller goes on returns the state it leaves beside the error. A dictionary is an association
  list in insertion order, a file the list of its records. A loop over observations is a
  recursion over the list of what the environment shows in each cycle; the session loop stops
  with \<open>Pending\<close> when that list ends, and a property states within how many cycles it ends.

  \<^bold>\<open>Abstractions.\<close> Finite floats carry exact rationals (the rounding of an IEEE operation is not
  modelled, nor the overflow of an integer too large for a float); instants are unbounded integer
  microseconds; strings are ASCII; texts of messages, log lines and hashes of configurations are
  left out. What is not under \<open>src/\<close> is an argument of the definitions that use it: the intent
  identity and terminal classification of \<open>renquant_execution\<close>, the ledger writer and the pipeline
  driver of \<open>renquant_common\<close>, the artifact hash and fingerprint, the decision pipeline, the clock, the
  broker, git, the resolution of paths, the verdict of \<open>ssh-keygen\<close>, pydantic's field validation and
  the reading of a wall clock as New York time.

  \<^bold>\<open>Not modelled.\<close> Pure input/output (SQLite connections, the Alpaca client, notification,
  subprocesses), command lines, reports, the training and retraining pipelines, the attribution
  and replay analyses, the operations scripts.
\<close>

end
